(* ===== verification/Prelude.thy ===== *)
theory Prelude
  imports Main "HOL-Library.Word"
begin

text \<open>
  Shared vocabulary of the development: the outcome of an operation that may stop the
  simulation, the type names of the machine integers the sources use, the collections of
  simplification and introduction rules that the component theories extend, and the
  generic facts on lists and words that several components need.
\<close>

section \<open>Outcomes\<close>

text \<open>
  The sources signal failure in three ways: \<^verbatim>\<open>NS_ASSERT\<close> (a debug build stops),
  \<^verbatim>\<open>NS_ABORT\<close> and \<^verbatim>\<open>NS_FATAL_ERROR\<close> (every build stops), and operations that the
  C++ standard leaves undefined, such as \<^verbatim>\<open>front()\<close> on an empty list. Each is an error
  value here, so that an operation's normal return is a fact to prove and never a convention.
\<close>

datatype ns_error = Assert_Failed | Fatal_Error | Undefined_Behaviour

type_synonym 'a res = "ns_error + 'a"

definition bind_res :: "'a res \<Rightarrow> ('a \<Rightarrow> 'b res) \<Rightarrow> 'b res" where
  "bind_res m f = (case m of Inl e \<Rightarrow> Inl e | Inr x \<Rightarrow> f x)"

lemma bind_res_simps [simp]:
  "bind_res (Inl e) f = Inl e"
  "bind_res (Inr x) f = f x"
  by (simp_all add: bind_res_def)

lemma bind_res_eq_InrE:
  assumes "bind_res m f = Inr y"
  obtains x where "m = Inr x" "f x = Inr y"
  using assms by (cases m) auto

lemma bind_res_cong: "m = m' \<Longrightarrow> (\<And>x. f x = g x) \<Longrightarrow> bind_res m f = bind_res m' g"
  by (cases m') auto

lemma bind_res_assoc: "bind_res (bind_res m f) g = bind_res m (\<lambda>x. bind_res (f x) g)"
  by (cases m) simp_all

type_synonym u8 = "8 word"
type_synonym u16 = "16 word"
type_synonym u32 = "32 word"
type_synonym u64 = "64 word"

named_theorems scheduler_simps \<open>unfolding rules of the event schedulers\<close>
named_theorems simulator_simps \<open>unfolding rules of the simulator operations\<close>

section \<open>Lists\<close>

definition list_swap :: "'a list \<Rightarrow> nat \<Rightarrow> nat \<Rightarrow> 'a list" where
  "list_swap xs a b = xs[a := xs ! b, b := xs ! a]"

lemma length_list_swap [simp]: "length (list_swap xs a b) = length xs"
  by (simp add: list_swap_def)

lemma nth_list_swap:
  "a < length xs \<Longrightarrow> b < length xs \<Longrightarrow> i < length xs \<Longrightarrow>
   list_swap xs a b ! i = (if i = a then xs ! b else if i = b then xs ! a else xs ! i)"
  by (auto simp: list_swap_def nth_list_update)

lemma distinct_map_inj_on: "distinct (map f xs) \<Longrightarrow> inj_on f (set xs)"
  by (simp add: distinct_map)

lemma set_remove1_distinct: "distinct xs \<Longrightarrow> set (remove1 x xs) = set xs - {x}"
  by (simp add: set_remove1_eq)

lemma sorted_wrt_remove1: "sorted_wrt P xs \<Longrightarrow> sorted_wrt P (remove1 x xs)"
  by (induction xs) (auto dest: notin_set_remove1)

lemma distinct_map_remove1: "distinct (map f xs) \<Longrightarrow> distinct (map f (remove1 x xs))"
  by (induction xs) (auto simp: image_iff dest: notin_set_remove1)

section \<open>Words\<close>

lemma unat_add_lt:
  fixes a b :: "'a::len word"
  assumes "unat a + unat b < 2 ^ LENGTH('a)"
  shows "unat (a + b) = unat a + unat b"
  using assms by (simp add: unat_word_ariths)

lemma unat_u32_less: "unat (w :: u32) < 2 ^ 32"
  using unsigned_less [of w, where 'a = nat] by simp

lemma word_less_Suc_unat:
  fixes a :: "'a::len word"
  assumes "unat a + 1 < 2 ^ LENGTH('a)"
  shows "a < a + 1"
  using assms by (simp add: word_less_nat_alt unat_word_ariths)

section \<open>Integer division\<close>

lemma int_div_bounds:
  fixes a y :: int
  assumes "0 < y"
  shows "a div y * y \<le> a" "a < a div y * y + y"
proof -
  have "a = a div y * y + a mod y" by simp
  moreover have "0 \<le> a mod y" "a mod y < y" using assms by simp_all
  ultimately show "a div y * y \<le> a" "a < a div y * y + y" by linarith+
qed

lemma int_div_less:
  fixes a y n :: int
  assumes "0 < y" "a < n * y"
  shows "a div y < n"
proof -
  have "a div y * y < n * y" using int_div_bounds(1) [OF assms(1), of a] assms(2) by linarith
  then show ?thesis using assms(1) by simp
qed

lemma int_div_le_dividend:
  fixes a y :: int
  assumes "0 < y" "0 \<le> a"
  shows "a div y \<le> a"
proof -
  have "a div y * 1 \<le> a div y * y" using assms by (intro mult_left_mono) (auto simp: pos_imp_zdiv_nonneg_iff)
  then show ?thesis using int_div_bounds(1) [OF assms(1), of a] by linarith
qed

end
