(* ===== verification/Events.thy ===== *)
theory Events
  imports Prelude
begin

text \<open>
  \<^verbatim>\<open>src/src/core/model/scheduler.h\<close>: the structures \<^verbatim>\<open>Scheduler::EventKey\<close> and
  \<^verbatim>\<open>Scheduler::Event\<close> and their comparison operators. The C++ operator \<open><\<close> compares
  the time stamp and then the unique id; operator \<open>==\<close> compares the unique id only.
  Operator \<open><\<close> becomes the class operation of the type, so that the order laws of the
  library apply to it; it is a strict weak order and not a linear one, because keys that
  differ only in their context are equivalent.
\<close>

section \<open>Keys and events\<close>

text \<open>An event implementation is a heap object; the model names it by its address, 0 for
  \<^verbatim>\<open>nullptr\<close>.\<close>

type_synonym impl_ptr = nat

datatype event_key = EventKey (m_ts: u64) (m_uid: u32) (m_context: u32)

datatype event = Event (impl: impl_ptr) (key: event_key)

abbreviation ts :: "event \<Rightarrow> u64" where
  "ts e \<equiv> m_ts (key e)"

abbreviation uid :: "event \<Rightarrow> u32" where
  "uid e \<equiv> m_uid (key e)"

definition key_eq :: "event_key \<Rightarrow> event_key \<Rightarrow> bool" where
  "key_eq a b \<longleftrightarrow> m_uid a = m_uid b"

definition key_less :: "event_key \<Rightarrow> event_key \<Rightarrow> bool" where
  "key_less a b \<longleftrightarrow> m_ts a < m_ts b \<or> (m_ts a = m_ts b \<and> m_uid a < m_uid b)"

definition key_greater :: "event_key \<Rightarrow> event_key \<Rightarrow> bool" where
  "key_greater a b \<longleftrightarrow> m_ts a > m_ts b \<or> (m_ts a = m_ts b \<and> m_uid a > m_uid b)"

instantiation event_key :: preorder
begin

definition less_event_key_def: "a < b \<longleftrightarrow> key_less a b"

definition less_eq_event_key_def: "a \<le> b \<longleftrightarrow> \<not> key_less b a"

instance
  by standard (auto simp: less_event_key_def less_eq_event_key_def key_less_def)

end

instantiation event :: preorder
begin

definition less_event_def: "a < b \<longleftrightarrow> key a < key b"

definition less_eq_event_def: "a \<le> b \<longleftrightarrow> key a \<le> key b"

instance
  by standard (auto simp: less_event_def less_eq_event_def less_le_not_le intro: order_trans)

end

section \<open>Order laws\<close>

lemma key_greater_iff: "key_greater a b \<longleftrightarrow> b < a"
  by (auto simp: key_greater_def less_event_key_def key_less_def)

lemma key_not_less: "\<not> (a :: event_key) < b \<longleftrightarrow> b \<le> a"
  by (simp add: less_event_key_def less_eq_event_key_def)

lemma event_not_less: "\<not> (a :: event) < b \<longleftrightarrow> b \<le> a"
  by (simp add: less_event_def less_eq_event_def key_not_less)

lemma key_linear: "(a :: event_key) \<le> b \<or> b \<le> a"
  by (auto simp: less_eq_event_key_def key_less_def)

lemma event_linear: "(a :: event) \<le> b \<or> b \<le> a"
  using key_linear by (simp add: less_eq_event_def)

lemma event_le_ts: "a \<le> b \<Longrightarrow> ts a \<le> ts b"
  by (auto simp: less_eq_event_def less_eq_event_key_def key_less_def)

lemma event_less_ts: "ts a < ts b \<Longrightarrow> a < b"
  by (simp add: less_event_def less_event_key_def key_less_def)

lemma event_le_antisym_uid: "a \<le> b \<Longrightarrow> b \<le> a \<Longrightarrow> ts a = ts b \<and> uid a = uid b"
  by (auto simp: less_eq_event_def less_eq_event_key_def key_less_def)

text \<open>On a set of events with pairwise different ids the least event is unique.\<close>

lemma least_event_unique:
  assumes "inj_on uid E" "a \<in> E" "b \<in> E" "\<forall>x\<in>E. a \<le> x" "\<forall>x\<in>E. b \<le> x"
  shows "a = b"
  using assms event_le_antisym_uid [of a b] by (auto dest: inj_onD)

end
