(* ===== verification/Scheduler.thy ===== *)
theory Scheduler
  imports Events
begin

text \<open>
  \<^verbatim>\<open>src/src/core/model/scheduler.h\<close>, class \<^verbatim>\<open>Scheduler\<close>: the interface of the event
  schedulers. The record of operations is the virtual table through which the simulator
  calls a scheduler. The locale \<open>event_queue\<close> states what \<^verbatim>\<open>Insert\<close>, \<^verbatim>\<open>IsEmpty\<close>,
  \<^verbatim>\<open>PeekNext\<close> and \<^verbatim>\<open>RemoveNext\<close> promise; \<open>event_scheduler\<close> adds \<^verbatim>\<open>Remove\<close>.
  Lemmas about clients are proved once in the locales, for every scheduler that meets the
  contract.
\<close>

section \<open>The virtual interface\<close>

record 's sched_ops =
  Insert :: "event \<Rightarrow> 's \<Rightarrow> 's res"
  IsEmpty :: "'s \<Rightarrow> bool"
  PeekNext :: "'s \<Rightarrow> event res"
  RemoveNext :: "'s \<Rightarrow> (event \<times> 's) res"
  Remove :: "event \<Rightarrow> 's \<Rightarrow> 's res"

section \<open>The contract\<close>

text \<open>
  \<open>events s\<close> is the set of pending events; the ids of pending events differ. A
  scheduler may rely on the caller never inserting an event earlier than \<open>base s\<close>, which
  is at most the time stamp of the last event it delivered, on time stamps within the
  range of a non-negative \<^verbatim>\<open>int64_t\<close>, and on ids other than the reserved id 0.
\<close>

definition least_event :: "event set \<Rightarrow> event \<Rightarrow> bool" where
  "least_event E e \<longleftrightarrow> e \<in> E \<and> (\<forall>x\<in>E. e \<le> x)"

definition ts_bound :: u64 where
  "ts_bound = 0x8000000000000000"

definition event_ok :: "event \<Rightarrow> bool" where
  "event_ok e \<longleftrightarrow> ts e < ts_bound \<and> uid e \<noteq> 0"

definition insertable :: "event set \<Rightarrow> u64 \<Rightarrow> event \<Rightarrow> bool" where
  "insertable E b e \<longleftrightarrow> uid e \<notin> uid ` E \<and> b \<le> ts e \<and> event_ok e"

locale event_queue =
  fixes ops :: "'s sched_ops"
    and invar :: "'s \<Rightarrow> bool"
    and events :: "'s \<Rightarrow> event set"
    and base :: "'s \<Rightarrow> u64"
  assumes finite_events: "invar s \<Longrightarrow> finite (events s)"
    and inj_uid: "invar s \<Longrightarrow> inj_on uid (events s)"
    and base_le: "invar s \<Longrightarrow> e \<in> events s \<Longrightarrow> base s \<le> ts e \<and> event_ok e"
    and IsEmpty_iff: "invar s \<Longrightarrow> IsEmpty ops s \<longleftrightarrow> events s = {}"
    and Insert_ok: "invar s \<Longrightarrow> insertable (events s) (base s) e \<Longrightarrow>
      \<exists>s'. Insert ops e s = Inr s' \<and> invar s' \<and> events s' = insert e (events s) \<and> base s' = base s"
    and PeekNext_ok: "invar s \<Longrightarrow> events s \<noteq> {} \<Longrightarrow>
      \<exists>e. PeekNext ops s = Inr e \<and> least_event (events s) e"
    and RemoveNext_ok: "invar s \<Longrightarrow> events s \<noteq> {} \<Longrightarrow>
      \<exists>e s'. RemoveNext ops s = Inr (e, s') \<and> least_event (events s) e \<and> invar s' \<and>
        events s' = events s - {e} \<and> base s' \<le> ts e"
begin

lemma RemoveNextE:
  assumes "invar s" "events s \<noteq> {}"
  obtains e s' where "RemoveNext ops s = Inr (e, s')" "least_event (events s) e" "invar s'"
    "events s' = events s - {e}" "base s' \<le> ts e"
  using RemoveNext_ok [OF assms] by blast

lemma InsertE:
  assumes "invar s" "insertable (events s) (base s) e"
  obtains s' where "Insert ops e s = Inr s'" "invar s'" "events s' = insert e (events s)"
    "base s' = base s"
  using Insert_ok [OF assms] by blast

text \<open>What \<^verbatim>\<open>PeekNext\<close> shows is what \<^verbatim>\<open>RemoveNext\<close> delivers.\<close>

lemma peek_is_next:
  assumes "invar s" "RemoveNext ops s = Inr (e, s')" "events s \<noteq> {}"
  shows "PeekNext ops s = Inr e"
proof -
  obtain p where p: "PeekNext ops s = Inr p" "least_event (events s) p"
    using PeekNext_ok assms by blast
  have "least_event (events s) e"
    using RemoveNext_ok assms by fastforce
  with p show ?thesis
    using least_event_unique inj_uid assms(1) by (auto simp: least_event_def)
qed

end

locale event_scheduler = event_queue ops invar events base
  for ops :: "'s sched_ops" and invar events base +
  assumes Remove_ok: "invar s \<Longrightarrow> e \<in> events s \<Longrightarrow>
    \<exists>s'. Remove ops e s = Inr s' \<and> invar s' \<and> events s' = events s - {e} \<and> base s' = base s"
begin

lemma RemoveE:
  assumes "invar s" "e \<in> events s"
  obtains s' where "Remove ops e s = Inr s'" "invar s'" "events s' = events s - {e}"
    "base s' = base s"
  using Remove_ok [OF assms] by blast

text \<open>An inserted event can be taken back: the pending set is what it was.\<close>

lemma insert_remove:
  assumes "invar s" "insertable (events s) (base s) e"
  shows "\<exists>s'. bind_res (Insert ops e s) (Remove ops e) = Inr s' \<and> invar s' \<and> events s' = events s"
proof -
  obtain t where t: "Insert ops e s = Inr t" "invar t" "events t = insert e (events s)"
    using InsertE assms by blast
  then obtain s' where s': "Remove ops e t = Inr s'" "invar s'" "events s' = events t - {e}"
    using RemoveE [of t e] by blast
  have "e \<notin> events s"
    using assms(2) by (auto simp: insertable_def)
  with t s' show ?thesis by simp
qed

end

section \<open>Draining a scheduler\<close>

text \<open>
  The loop \<^verbatim>\<open>while (!IsEmpty ()) RemoveNext ()\<close> of \<^verbatim>\<open>DefaultSimulatorImpl::SetScheduler\<close>
  and \<^verbatim>\<open>DefaultSimulatorImpl::DoDispose\<close>, collecting the events in the order in which they
  come out. The fuel bounds the number of rounds; \<open>drain_sorted\<close> shows that the number of
  pending events is enough.
\<close>

fun drain :: "'s sched_ops \<Rightarrow> nat \<Rightarrow> 's \<Rightarrow> (event list \<times> 's) res option" where
  "drain ops 0 s = (if IsEmpty ops s then Some (Inr ([], s)) else None)"
| "drain ops (Suc n) s =
     (if IsEmpty ops s then Some (Inr ([], s))
      else case RemoveNext ops s of
        Inl err \<Rightarrow> Some (Inl err)
      | Inr (e, s') \<Rightarrow>
          (case drain ops n s' of
             None \<Rightarrow> None
           | Some (Inl err) \<Rightarrow> Some (Inl err)
           | Some (Inr (es, s'')) \<Rightarrow> Some (Inr (e # es, s''))))"

fun insert_all :: "'s sched_ops \<Rightarrow> event list \<Rightarrow> 's \<Rightarrow> 's res" where
  "insert_all ops [] s = Inr s"
| "insert_all ops (e # es) s = bind_res (Insert ops e s) (insert_all ops es)"

context event_queue
begin

lemma drain_sorted:
  assumes "invar s" "card (events s) \<le> n"
  shows "\<exists>es s'. drain ops n s = Some (Inr (es, s')) \<and> sorted_wrt (\<le>) es \<and> distinct es \<and>
    set es = events s \<and> invar s' \<and> events s' = {}"
  using assms
proof (induction n arbitrary: s)
  case 0
  then have "events s = {}" using finite_events by auto
  then show ?case using 0 by (simp add: IsEmpty_iff)
next
  case (Suc n)
  show ?case
  proof (cases "events s = {}")
    case True
    then show ?thesis using Suc.prems by (simp add: IsEmpty_iff)
  next
    case False
    then obtain e t where e: "RemoveNext ops s = Inr (e, t)" "least_event (events s) e"
      "invar t" "events t = events s - {e}"
      using RemoveNextE Suc.prems by blast
    have "e \<in> events s" using e(2) by (simp add: least_event_def)
    then have "card (events t) \<le> n"
      using Suc.prems e finite_events by (simp add: card_Diff_singleton)
    then obtain es s' where IH: "drain ops n t = Some (Inr (es, s'))" "sorted_wrt (\<le>) es"
      "distinct es" "set es = events t" "invar s'" "events s' = {}"
      using Suc.IH e(3) by blast
    have "\<not> IsEmpty ops s" using False Suc.prems by (simp add: IsEmpty_iff)
    moreover have "set (e # es) = events s" using IH(4) e(4) \<open>e \<in> events s\<close> by auto
    ultimately show ?thesis
      using IH e by (auto simp: least_event_def)
  qed
qed

lemma insert_all_ok:
  assumes "invar s" "distinct (map uid es)" "\<forall>e\<in>set es. insertable (events s) (base s) e"
  shows "\<exists>s'. insert_all ops es s = Inr s' \<and> invar s' \<and> events s' = events s \<union> set es \<and>
    base s' = base s"
  using assms
proof (induction es arbitrary: s)
  case Nil
  then show ?case by simp
next
  case (Cons e es)
  then obtain t where t: "Insert ops e s = Inr t" "invar t" "events t = insert e (events s)"
    "base t = base s"
    using InsertE [of s e] by auto
  moreover have "\<forall>x\<in>set es. insertable (events t) (base t) x"
    using Cons.prems t by (auto simp: insertable_def rev_image_eqI)
  ultimately obtain s' where "insert_all ops es t = Inr s'" "invar s'"
    "events s' = events t \<union> set es" "base s' = base t"
    using Cons.IH [of t] Cons.prems by auto
  with t show ?case by auto
qed

end

end
