(* ===== verification/Nstime.thy ===== *)
theory Nstime
  imports Prelude
begin

text \<open>
  \<^verbatim>\<open>src/src/core/model/nstime.h\<close>, class \<^verbatim>\<open>Time\<close>, as far as the modelled code uses it: a time is
  its signed 64-bit tick count at the default resolution of one nanosecond, here an \<open>int\<close>.
  Sums and differences that leave the 64-bit range are undefined behaviour in C++.
\<close>

definition int64_range :: "int \<Rightarrow> bool" where
  "int64_range x \<longleftrightarrow> - (2 ^ 63) \<le> x \<and> x < 2 ^ 63"

definition time_add :: "int \<Rightarrow> int \<Rightarrow> int res" where
  "time_add a b = (if int64_range (a + b) then Inr (a + b) else Inl Undefined_Behaviour)"

definition time_sub :: "int \<Rightarrow> int \<Rightarrow> int res" where
  "time_sub a b = (if int64_range (a - b) then Inr (a - b) else Inl Undefined_Behaviour)"

text \<open>\<^verbatim>\<open>TimeStep\<close> and \<^verbatim>\<open>NanoSeconds\<close> convert an unsigned count to the signed one; the result is the
  same bits.\<close>

definition TimeStep :: "u64 \<Rightarrow> int" where
  "TimeStep t = sint t"

lemma TimeStep_uint: "t < 0x8000000000000000 \<Longrightarrow> TimeStep t = uint t"
proof -
  assume "t < 0x8000000000000000"
  then have "uint t < 2 ^ 63" by (simp add: word_less_def)
  moreover have "- (2 ^ 63) \<le> uint t" by (rule order_trans [OF _ uint_ge_0]) simp
  ultimately show ?thesis
    by (simp only: TimeStep_def sint_uint) (rule signed_take_bit_int_eq_self, simp_all)
qed

lemma uint_of_time:
  assumes "0 \<le> t" "t < 2 ^ 63"
  shows "uint (word_of_int t :: u64) = t" "(word_of_int t :: u64) < 0x8000000000000000"
proof -
  show u: "uint (word_of_int t :: u64) = t"
    using assms by (intro word_of_int_inverse [OF refl]) simp_all
  show "(word_of_int t :: u64) < 0x8000000000000000" using u assms by (simp add: word_less_def)
qed

lemma TimeStep_of_time: "0 \<le> t \<Longrightarrow> t < 2 ^ 63 \<Longrightarrow> TimeStep (word_of_int t) = t"
  by (simp add: TimeStep_uint uint_of_time)

end
