(* ===== verification/Simulator_Impl.thy ===== *)
theory Simulator_Impl
  imports Scheduler Nstime
begin

text \<open>
  \<^verbatim>\<open>src/src/core/model/default-simulator-impl.cc\<close>, class \<^verbatim>\<open>DefaultSimulatorImpl\<close>, with the
  event handles of \<^verbatim>\<open>event-id.h\<close> and the cancellation flag of \<^verbatim>\<open>event-impl.cc\<close>. The
  scheduler is reached through its table of operations, so every result holds for any
  scheduler that meets the contract. The code an event runs (\<^verbatim>\<open>EventImpl::Notify\<close>) is a
  parameter \<open>notify\<close>: it may call the simulator back, and the results ask of it that it does
  so through the interface (\<open>api_step\<close>).

  Unsigned counters wrap as in C++: the 32-bit event id is a \<open>u32\<close>, time stamps are \<open>u64\<close>.
  A \<^verbatim>\<open>Time\<close> is its \<^verbatim>\<open>int64_t\<close> tick count, here an \<open>int\<close>; an addition that leaves the
  64-bit range is undefined behaviour. Reference counts are not modelled.
\<close>

section \<open>State\<close>

record event_id =
  eid_impl :: impl_ptr
  eid_ts :: u64
  eid_context :: u32
  eid_uid :: u32

definition UID_INVALID :: u32 where "UID_INVALID = 0"
definition UID_DESTROY :: u32 where "UID_DESTROY = 2"
definition UID_VALID :: u32 where "UID_VALID = 4"
definition NO_CONTEXT :: u32 where "NO_CONTEXT = 0xffffffff"

lemmas uid_consts = UID_INVALID_def UID_DESTROY_def UID_VALID_def

record event_with_context =
  ewc_context :: u32
  ewc_timestamp :: u64
  ewc_event :: impl_ptr

record 's sim =
  sim_eventsWithContext :: "event_with_context list"
  sim_eventsWithContextEmpty :: bool
  sim_destroyEvents :: "event_id list"
  sim_stop :: bool
  sim_events :: 's
  sim_uid :: u32
  sim_currentUid :: u32
  sim_currentTs :: u64
  sim_currentContext :: u32
  sim_eventCount :: u64
  sim_unscheduledEvents :: int
  sim_cancelled :: "impl_ptr \<Rightarrow> bool"  \<comment> \<open>\<^verbatim>\<open>EventImpl::m_cancel\<close> of each implementation\<close>

definition sim_new :: "'s \<Rightarrow> 's sim" where
  "sim_new q = \<lparr>sim_eventsWithContext = [], sim_eventsWithContextEmpty = True,
     sim_destroyEvents = [], sim_stop = False, sim_events = q, sim_uid = UID_VALID,
     sim_currentUid = UID_INVALID, sim_currentTs = 0, sim_currentContext = NO_CONTEXT,
     sim_eventCount = 0, sim_unscheduledEvents = 0, sim_cancelled = (\<lambda>_. False)\<rparr>"

section \<open>Operations\<close>

definition id_of_event :: "event \<Rightarrow> event_id" where
  "id_of_event e = \<lparr>eid_impl = impl e, eid_ts = ts e, eid_context = m_context (key e),
     eid_uid = uid e\<rparr>"

definition event_of_id :: "event_id \<Rightarrow> event" where
  "event_of_id i = Event (eid_impl i) (EventKey (eid_ts i) (eid_uid i) (eid_context i))"

text \<open>The common tail of the scheduling operations: fill in the event, advance the id and
  the pending count, insert.\<close>

definition enqueue :: "'s sched_ops \<Rightarrow> impl_ptr \<Rightarrow> u64 \<Rightarrow> u32 \<Rightarrow> 's sim \<Rightarrow> (event \<times> 's sim) res" where
  "enqueue ops p t ctx s =
     (let ev = Event p (EventKey t (sim_uid s) ctx)
      in bind_res (Insert ops ev (sim_events s)) (\<lambda>q.
           Inr (ev, s\<lparr>sim_uid := sim_uid s + 1,
                      sim_unscheduledEvents := sim_unscheduledEvents s + 1,
                      sim_events := q\<rparr>)))"

definition sim_Schedule ::
  "'s sched_ops \<Rightarrow> bool \<Rightarrow> int \<Rightarrow> impl_ptr \<Rightarrow> 's sim \<Rightarrow> (event_id \<times> 's sim) res" where
  "sim_Schedule ops on_main delay p s =
     (if \<not> on_main then Inl Assert_Failed
      else if delay < 0 then Inl Assert_Failed
      else bind_res (time_add delay (TimeStep (sim_currentTs s))) (\<lambda>t.
           bind_res (enqueue ops p (word_of_int t) (sim_currentContext s) s) (\<lambda>(ev, s').
           Inr (id_of_event ev, s'))))"

definition sim_ScheduleWithContext ::
  "'s sched_ops \<Rightarrow> bool \<Rightarrow> u32 \<Rightarrow> int \<Rightarrow> impl_ptr \<Rightarrow> 's sim \<Rightarrow> 's sim res" where
  "sim_ScheduleWithContext ops on_main ctx delay p s =
     (if on_main
      then bind_res (time_add delay (TimeStep (sim_currentTs s))) (\<lambda>t.
           bind_res (enqueue ops p (word_of_int t) ctx s) (\<lambda>(_, s'). Inr s'))
      else Inr (s\<lparr>sim_eventsWithContext := sim_eventsWithContext s @
                    [\<lparr>ewc_context = ctx, ewc_timestamp = word_of_int delay, ewc_event = p\<rparr>],
                  sim_eventsWithContextEmpty := False\<rparr>))"

definition sim_ScheduleNow ::
  "'s sched_ops \<Rightarrow> bool \<Rightarrow> impl_ptr \<Rightarrow> 's sim \<Rightarrow> (event_id \<times> 's sim) res" where
  "sim_ScheduleNow ops on_main p s =
     (if \<not> on_main then Inl Assert_Failed else sim_Schedule ops on_main 0 p s)"

definition sim_ScheduleDestroy :: "bool \<Rightarrow> impl_ptr \<Rightarrow> 's sim \<Rightarrow> (event_id \<times> 's sim) res" where
  "sim_ScheduleDestroy on_main p s =
     (if \<not> on_main then Inl Assert_Failed
      else let i = \<lparr>eid_impl = p, eid_ts = sim_currentTs s, eid_context = 0xffffffff,
                    eid_uid = 2\<rparr>
           in Inr (i, s\<lparr>sim_destroyEvents := sim_destroyEvents s @ [i],
                        sim_uid := sim_uid s + 1\<rparr>))"

definition sim_IsExpired :: "'s sim \<Rightarrow> event_id \<Rightarrow> bool" where
  "sim_IsExpired s i =
     (if eid_uid i = UID_DESTROY
      then (if eid_impl i = 0 \<or> sim_cancelled s (eid_impl i) then True
            else i \<notin> set (sim_destroyEvents s))
      else eid_impl i = 0 \<or> eid_ts i < sim_currentTs s \<or>
           (eid_ts i = sim_currentTs s \<and> eid_uid i \<le> sim_currentUid s) \<or>
           sim_cancelled s (eid_impl i))"

definition sim_Remove :: "'s sched_ops \<Rightarrow> event_id \<Rightarrow> 's sim \<Rightarrow> 's sim res" where
  "sim_Remove ops i s =
     (if eid_uid i = UID_DESTROY
      then Inr (s\<lparr>sim_destroyEvents := remove1 i (sim_destroyEvents s)\<rparr>)
      else if sim_IsExpired s i then Inr s
      else bind_res (Remove ops (event_of_id i) (sim_events s)) (\<lambda>q.
             Inr (s\<lparr>sim_events := q,
                    sim_cancelled := (sim_cancelled s)(eid_impl i := True),
                    sim_unscheduledEvents := sim_unscheduledEvents s - 1\<rparr>)))"

definition sim_Cancel :: "event_id \<Rightarrow> 's sim \<Rightarrow> 's sim" where
  "sim_Cancel i s =
     (if \<not> sim_IsExpired s i
      then s\<lparr>sim_cancelled := (sim_cancelled s)(eid_impl i := True)\<rparr> else s)"

definition sim_Stop :: "'s sim \<Rightarrow> 's sim" where
  "sim_Stop s = s\<lparr>sim_stop := True\<rparr>"

definition sim_GetDelayLeft :: "'s sim \<Rightarrow> event_id \<Rightarrow> int" where
  "sim_GetDelayLeft s i =
     (if sim_IsExpired s i then TimeStep 0 else TimeStep (eid_ts i - sim_currentTs s))"

definition sim_IsFinished :: "'s sched_ops \<Rightarrow> 's sim \<Rightarrow> bool" where
  "sim_IsFinished ops s \<longleftrightarrow> IsEmpty ops (sim_events s) \<or> sim_stop s"

text \<open>The loop of \<^verbatim>\<open>ProcessEventsWithContext\<close> over the swapped-out queue; the addition to the
  current time is the wrapping one of \<^verbatim>\<open>uint64_t\<close>.\<close>

fun move_events :: "'s sched_ops \<Rightarrow> event_with_context list \<Rightarrow> 's sim \<Rightarrow> 's sim res" where
  "move_events ops [] s = Inr s"
| "move_events ops (w # ws) s =
     bind_res (enqueue ops (ewc_event w) (sim_currentTs s + ewc_timestamp w) (ewc_context w) s)
       (\<lambda>(_, s'). move_events ops ws s')"

definition sim_ProcessEventsWithContext :: "'s sched_ops \<Rightarrow> 's sim \<Rightarrow> 's sim res" where
  "sim_ProcessEventsWithContext ops s =
     (if sim_eventsWithContextEmpty s then Inr s
      else move_events ops (sim_eventsWithContext s)
             (s\<lparr>sim_eventsWithContext := [], sim_eventsWithContextEmpty := True\<rparr>))"

text \<open>\<^verbatim>\<open>EventImpl::Invoke\<close>.\<close>

definition event_Invoke ::
  "(impl_ptr \<Rightarrow> 's sim \<Rightarrow> 's sim res) \<Rightarrow> impl_ptr \<Rightarrow> 's sim \<Rightarrow> 's sim res" where
  "event_Invoke notify p s = (if sim_cancelled s p then Inr s else notify p s)"

text \<open>\<^verbatim>\<open>ProcessOneEvent\<close> also returns the event it handled, for the record of the run.\<close>

definition advance :: "event \<Rightarrow> 's \<Rightarrow> 's sim \<Rightarrow> 's sim" where
  "advance nxt q s = s\<lparr>sim_events := q,
     sim_unscheduledEvents := sim_unscheduledEvents s - 1,
     sim_eventCount := sim_eventCount s + 1,
     sim_currentTs := ts nxt,
     sim_currentContext := m_context (key nxt),
     sim_currentUid := uid nxt\<rparr>"

definition sim_ProcessOneEvent ::
  "'s sched_ops \<Rightarrow> (impl_ptr \<Rightarrow> 's sim \<Rightarrow> 's sim res) \<Rightarrow> 's sim \<Rightarrow> (event \<times> 's sim) res" where
  "sim_ProcessOneEvent ops notify s =
     bind_res (RemoveNext ops (sim_events s)) (\<lambda>(nxt, q).
     if \<not> ts nxt \<ge> sim_currentTs s then Inl Assert_Failed
     else bind_res (event_Invoke notify (impl nxt) (advance nxt q s)) (\<lambda>s2.
          bind_res (sim_ProcessEventsWithContext ops s2) (\<lambda>s3. Inr (nxt, s3))))"

text \<open>The loop of \<^verbatim>\<open>Run\<close>. It may go on forever, as when an event reschedules itself; \<open>None\<close> is
  running out of rounds.\<close>

fun sim_Run_loop ::
  "'s sched_ops \<Rightarrow> (impl_ptr \<Rightarrow> 's sim \<Rightarrow> 's sim res) \<Rightarrow> nat \<Rightarrow> 's sim \<Rightarrow>
   (event list \<times> 's sim) res option" where
  "sim_Run_loop ops notify 0 s =
     (if sim_IsFinished ops s then Some (Inr ([], s)) else None)"
| "sim_Run_loop ops notify (Suc n) s =
     (if sim_IsFinished ops s then Some (Inr ([], s))
      else case sim_ProcessOneEvent ops notify s of
        Inl err \<Rightarrow> Some (Inl err)
      | Inr (e, s') \<Rightarrow>
          (case sim_Run_loop ops notify n s' of
             None \<Rightarrow> None
           | Some (Inl err) \<Rightarrow> Some (Inl err)
           | Some (Inr (es, s'')) \<Rightarrow> Some (Inr (e # es, s''))))"

definition sim_Run ::
  "'s sched_ops \<Rightarrow> (impl_ptr \<Rightarrow> 's sim \<Rightarrow> 's sim res) \<Rightarrow> nat \<Rightarrow> 's sim \<Rightarrow>
   (event list \<times> 's sim) res option" where
  "sim_Run ops notify fuel s =
     (case sim_ProcessEventsWithContext ops s of
        Inl err \<Rightarrow> Some (Inl err)
      | Inr s1 \<Rightarrow>
          (case sim_Run_loop ops notify fuel (s1\<lparr>sim_stop := False\<rparr>) of
             None \<Rightarrow> None
           | Some (Inl err) \<Rightarrow> Some (Inl err)
           | Some (Inr (es, s2)) \<Rightarrow>
               if \<not> IsEmpty ops (sim_events s2) \<or> sim_unscheduledEvents s2 = 0
               then Some (Inr (es, s2)) else Some (Inl Assert_Failed)))"

text \<open>\<^verbatim>\<open>Destroy\<close>: a destroy event may append further destroy events.\<close>

fun sim_Destroy ::
  "(impl_ptr \<Rightarrow> 's sim \<Rightarrow> 's sim res) \<Rightarrow> nat \<Rightarrow> 's sim \<Rightarrow> 's sim res option" where
  "sim_Destroy notify 0 s = (if sim_destroyEvents s = [] then Some (Inr s) else None)"
| "sim_Destroy notify (Suc n) s =
     (case sim_destroyEvents s of
        [] \<Rightarrow> Some (Inr s)
      | i # is \<Rightarrow>
          (let s1 = s\<lparr>sim_destroyEvents := is\<rparr>
           in case (if \<not> sim_cancelled s1 (eid_impl i) then event_Invoke notify (eid_impl i) s1
                    else Inr s1) of
                Inl err \<Rightarrow> Some (Inl err)
              | Inr s2 \<Rightarrow> sim_Destroy notify n s2))"

text \<open>\<^verbatim>\<open>SetScheduler\<close> moves the pending events to a scheduler of another class.\<close>

definition sim_SetScheduler ::
  "'s sched_ops \<Rightarrow> 't sched_ops \<Rightarrow> 't \<Rightarrow> nat \<Rightarrow> 's \<Rightarrow> 't res option" where
  "sim_SetScheduler ops ops' fresh fuel q =
     (case drain ops fuel q of
        None \<Rightarrow> None
      | Some (Inl err) \<Rightarrow> Some (Inl err)
      | Some (Inr (es, _)) \<Rightarrow> Some (insert_all ops' es fresh))"

definition sim_DoDispose :: "'s sched_ops \<Rightarrow> nat \<Rightarrow> 's sim \<Rightarrow> (event list \<times> 's) res option" where
  "sim_DoDispose ops fuel s =
     (case sim_ProcessEventsWithContext ops s of
        Inl err \<Rightarrow> Some (Inl err)
      | Inr s1 \<Rightarrow> drain ops fuel (sim_events s1))"

section \<open>The calls an event may make\<close>

text \<open>
  \<open>uid_room\<close> and \<open>delay_room\<close> say that the 32-bit id and the 64-bit clock do not wrap; a handle
  passed to \<^verbatim>\<open>Remove\<close> is one the simulator gave out. Calls from other threads
  (\<open>on_main = False\<close>) are not in this relation.
\<close>

definition uid_room :: "'s sim \<Rightarrow> bool" where
  "uid_room s \<longleftrightarrow> unat (sim_uid s) + 1 < 2 ^ 32"

definition delay_room :: "'s sim \<Rightarrow> int \<Rightarrow> bool" where
  "delay_room s d \<longleftrightarrow> 0 \<le> d \<and> uint (sim_currentTs s) + d < 2 ^ 63"

definition genuine :: "event set \<Rightarrow> 's sim \<Rightarrow> event_id \<Rightarrow> bool" where
  "genuine E s i \<longleftrightarrow> eid_uid i = UID_DESTROY \<or> sim_IsExpired s i \<or> event_of_id i \<in> E"

inductive api_step :: "'s sched_ops \<Rightarrow> ('s \<Rightarrow> event set) \<Rightarrow> 's sim \<Rightarrow> 's sim \<Rightarrow> bool"
  for ops events where
  api_Schedule: "p \<noteq> 0 \<Longrightarrow> uid_room s \<Longrightarrow> delay_room s d \<Longrightarrow>
    sim_Schedule ops True d p s = Inr (i, s') \<Longrightarrow> api_step ops events s s'"
| api_ScheduleWithContext: "p \<noteq> 0 \<Longrightarrow> uid_room s \<Longrightarrow> delay_room s d \<Longrightarrow>
    sim_ScheduleWithContext ops True c d p s = Inr s' \<Longrightarrow> api_step ops events s s'"
| api_ScheduleNow: "p \<noteq> 0 \<Longrightarrow> uid_room s \<Longrightarrow>
    sim_ScheduleNow ops True p s = Inr (i, s') \<Longrightarrow> api_step ops events s s'"
| api_ScheduleDestroy: "uid_room s \<Longrightarrow>
    sim_ScheduleDestroy True p s = Inr (i, s') \<Longrightarrow> api_step ops events s s'"
| api_Remove: "genuine (events (sim_events s)) s i \<Longrightarrow>
    sim_Remove ops i s = Inr s' \<Longrightarrow> api_step ops events s s'"
| api_Cancel: "api_step ops events s (sim_Cancel i s)"
| api_Stop: "api_step ops events s (sim_Stop s)"

section \<open>The invariant\<close>

text \<open>Pending events lie strictly after the event being handled, in the order of time stamp
  and id, and their number is the counter that \<^verbatim>\<open>Run\<close> checks at the end.\<close>

definition after_current :: "'s sim \<Rightarrow> event \<Rightarrow> bool" where
  "after_current s e \<longleftrightarrow> sim_currentTs s < ts e \<or> (sim_currentTs s = ts e \<and> sim_currentUid s < uid e)"

definition sim_inv ::
  "('s \<Rightarrow> bool) \<Rightarrow> ('s \<Rightarrow> event set) \<Rightarrow> ('s \<Rightarrow> u64) \<Rightarrow> 's sim \<Rightarrow> bool" where
  "sim_inv invar events base s \<longleftrightarrow>
     invar (sim_events s) \<and> base (sim_events s) \<le> sim_currentTs s \<and> sim_currentTs s < ts_bound \<and>
     sim_unscheduledEvents s = int (card (events (sim_events s))) \<and>
     UID_VALID \<le> sim_uid s \<and> sim_currentUid s < sim_uid s \<and>
     (\<forall>e\<in>events (sim_events s). impl e \<noteq> 0 \<and> UID_VALID \<le> uid e \<and> uid e < sim_uid s \<and>
        after_current s e) \<and>
     sim_eventsWithContextEmpty s"

lemma sim_inv_stop [simp]: "sim_inv invar events base (s\<lparr>sim_stop := b\<rparr>) = sim_inv invar events base s"
  by (simp add: sim_inv_def after_current_def)

lemma sim_inv_cancelled [simp]:
  "sim_inv invar events base (s\<lparr>sim_cancelled := c\<rparr>) = sim_inv invar events base s"
  by (simp add: sim_inv_def after_current_def)

lemma sim_inv_destroy [simp]:
  "sim_inv invar events base (s\<lparr>sim_destroyEvents := d\<rparr>) = sim_inv invar events base s"
  by (simp add: sim_inv_def after_current_def)

lemma id_of_event_of_id [simp]:
  "id_of_event (event_of_id i) = i"
  "event_of_id (id_of_event e) = e"
  by (simp_all add: id_of_event_def event_of_id_def)

lemma uid_step:
  assumes "uid_room s"
  shows "sim_uid s < sim_uid s + 1"
  using assms word_less_Suc_unat [of "sim_uid s"] by (simp add: uid_room_def)

lemma scheduled_time:
  assumes "sim_currentTs s < ts_bound" "delay_room s d"
  shows "time_add d (TimeStep (sim_currentTs s)) = Inr (d + uint (sim_currentTs s))"
    and "sim_currentTs s \<le> word_of_int (d + uint (sim_currentTs s))"
    and "word_of_int (d + uint (sim_currentTs s)) < ts_bound"
proof -
  let ?t = "d + uint (sim_currentTs s)"
  have b: "0 \<le> ?t" "?t < 2 ^ 63" "0 \<le> d" using assms(2) by (auto simp: delay_room_def)
  then have u: "uint (word_of_int ?t :: u64) = ?t"
    by (intro word_of_int_inverse [OF refl]) simp_all
  show "time_add d (TimeStep (sim_currentTs s)) = Inr ?t"
  proof -
    have "- (2 ^ 63) \<le> ?t" using b(1) by (rule order_trans [rotated]) simp
    then show ?thesis using b(2) assms(1) by (simp add: time_add_def int64_range_def TimeStep_uint ts_bound_def)
  qed
  show "sim_currentTs s \<le> word_of_int ?t" using b u by (simp add: word_le_def)
  show "word_of_int ?t < ts_bound" using b u by (simp add: word_less_def ts_bound_def)
qed

text \<open>What is asked of the code of an event: it returns, having called the simulator only
  through the interface.\<close>

definition well_behaved ::
  "'s sched_ops \<Rightarrow> ('s \<Rightarrow> bool) \<Rightarrow> ('s \<Rightarrow> event set) \<Rightarrow> ('s \<Rightarrow> u64) \<Rightarrow>
   (impl_ptr \<Rightarrow> 's sim \<Rightarrow> 's sim res) \<Rightarrow> bool" where
  "well_behaved ops invar events base notify \<longleftrightarrow>
     (\<forall>p s. sim_inv invar events base s \<longrightarrow>
        (\<exists>s'. notify p s = Inr s' \<and> (api_step ops events)\<^sup>*\<^sup>* s s'))"

text \<open>The code of an event that schedules nothing: it may cancel, remove and stop.\<close>

definition schedules_nothing ::
  "('s \<Rightarrow> bool) \<Rightarrow> ('s \<Rightarrow> event set) \<Rightarrow> ('s \<Rightarrow> u64) \<Rightarrow> (impl_ptr \<Rightarrow> 's sim \<Rightarrow> 's sim res) \<Rightarrow> bool" where
  "schedules_nothing invar events base notify \<longleftrightarrow>
     (\<forall>p s s'. sim_inv invar events base s \<longrightarrow> notify p s = Inr s' \<longrightarrow>
        events (sim_events s') \<subseteq> events (sim_events s))"

text \<open>A call leaves the clock alone and never revives a cancelled event.\<close>

definition same_clock :: "'s sim \<Rightarrow> 's sim \<Rightarrow> bool" where
  "same_clock s s' \<longleftrightarrow> sim_currentTs s' = sim_currentTs s \<and> sim_currentUid s' = sim_currentUid s \<and>
     (\<forall>p. sim_cancelled s p \<longrightarrow> sim_cancelled s' p)"

lemma same_clock_refl [simp]: "same_clock s s"
  by (simp add: same_clock_def)

lemma same_clock_trans: "same_clock s t \<Longrightarrow> same_clock t u \<Longrightarrow> same_clock s u"
  by (simp add: same_clock_def)

lemma same_clock_expired:
  "same_clock s s' \<Longrightarrow> eid_uid i \<noteq> UID_DESTROY \<Longrightarrow> sim_IsExpired s i \<Longrightarrow> sim_IsExpired s' i"
  by (auto simp: same_clock_def sim_IsExpired_def)

text \<open>The simulator over a scheduler that meets the whole contract.\<close>

locale simulator_client = event_scheduler ops invar events base
  for ops :: "'s sched_ops" and invar events base
begin

abbreviation inv :: "'s sim \<Rightarrow> bool" where
  "inv \<equiv> sim_inv invar events base"

abbreviation polite :: "(impl_ptr \<Rightarrow> 's sim \<Rightarrow> 's sim res) \<Rightarrow> bool" where
  "polite \<equiv> well_behaved ops invar events base"

abbreviation pending :: "'s sim \<Rightarrow> event set" where
  "pending s \<equiv> events (sim_events s)"

lemma inv_fresh: "inv s \<Longrightarrow> sim_uid s \<notin> uid ` pending s"
  by (auto simp: sim_inv_def)

lemma enqueue_ok:
  assumes "inv s" "uid_room s" "p \<noteq> 0" "sim_currentTs s \<le> t" "t < ts_bound"
  shows "\<exists>ev s'. enqueue ops p t c s = Inr (ev, s') \<and> ev = Event p (EventKey t (sim_uid s) c) \<and>
    inv s' \<and> pending s' = insert ev (pending s) \<and> sim_currentTs s' = sim_currentTs s \<and>
    sim_currentUid s' = sim_currentUid s \<and> sim_cancelled s' = sim_cancelled s"
proof -
  let ?ev = "Event p (EventKey t (sim_uid s) c)"
  have base: "base (sim_events s) \<le> t" using assms by (auto simp: sim_inv_def)
  then have "insertable (pending s) (base (sim_events s)) ?ev"
    using inv_fresh assms by (auto simp: insertable_def event_ok_def sim_inv_def uid_consts)
  then obtain q where q: "Insert ops ?ev (sim_events s) = Inr q" "invar q"
    "events q = insert ?ev (pending s)" "base q = base (sim_events s)"
    using InsertE assms(1) by (auto simp: sim_inv_def)
  let ?s = "s\<lparr>sim_uid := sim_uid s + 1, sim_unscheduledEvents := sim_unscheduledEvents s + 1,
    sim_events := q\<rparr>"
  have "?ev \<notin> pending s" using inv_fresh [OF assms(1)] by force
  moreover have "finite (pending s)" using finite_events assms(1) by (simp add: sim_inv_def)
  ultimately have card: "card (events q) = card (pending s) + 1" by (simp add: q(3))
  have u: "sim_uid s < sim_uid s + 1" by (rule uid_step [OF assms(2)])
  have "inv ?s"
    using assms q(2-4) card u less_trans [OF _ u] less_imp_le [OF u]
    by (auto simp: sim_inv_def after_current_def intro: order_trans)
  with q show ?thesis by (simp add: enqueue_def)
qed

lemma Schedule_ok:
  assumes "inv s" "uid_room s" "p \<noteq> 0" "delay_room s d"
  shows "\<exists>ev s'. sim_Schedule ops True d p s = Inr (id_of_event ev, s') \<and>
    ev = Event p (EventKey (word_of_int (d + uint (sim_currentTs s))) (sim_uid s) (sim_currentContext s)) \<and>
    inv s' \<and> pending s' = insert ev (pending s) \<and> sim_currentTs s' = sim_currentTs s \<and>
    sim_currentUid s' = sim_currentUid s \<and> sim_cancelled s' = sim_cancelled s"
proof -
  have "sim_currentTs s < ts_bound" using assms(1) by (simp add: sim_inv_def)
  note t = scheduled_time [OF this assms(4)]
  show ?thesis
    using enqueue_ok [OF assms(1-3) t(2,3), of "sim_currentContext s"] assms(4) t(1)
    by (auto simp: sim_Schedule_def delay_room_def)
qed

lemma ScheduleWithContext_ok:
  assumes "inv s" "uid_room s" "p \<noteq> 0" "delay_room s d"
  shows "\<exists>ev s'. sim_ScheduleWithContext ops True c d p s = Inr s' \<and>
    ev = Event p (EventKey (word_of_int (d + uint (sim_currentTs s))) (sim_uid s) c) \<and>
    inv s' \<and> pending s' = insert ev (pending s) \<and> sim_currentTs s' = sim_currentTs s \<and>
    sim_currentUid s' = sim_currentUid s \<and> sim_cancelled s' = sim_cancelled s"
proof -
  have "sim_currentTs s < ts_bound" using assms(1) by (simp add: sim_inv_def)
  note t = scheduled_time [OF this assms(4)]
  show ?thesis
    using enqueue_ok [OF assms(1-3) t(2,3), of c] t(1) by (auto simp: sim_ScheduleWithContext_def)
qed

lemma delay_room_zero: "inv s \<Longrightarrow> delay_room s 0"
  by (simp add: sim_inv_def delay_room_def ts_bound_def word_less_def)

lemma ScheduleDestroy_ok:
  assumes "inv s" "uid_room s"
  shows "\<exists>i s'. sim_ScheduleDestroy True p s = Inr (i, s') \<and> inv s' \<and> pending s' = pending s \<and>
    sim_currentTs s' = sim_currentTs s \<and> sim_currentUid s' = sim_currentUid s \<and>
    sim_cancelled s' = sim_cancelled s"
  using assms uid_step [OF assms(2)] less_trans [OF _ uid_step [OF assms(2)]]
    less_imp_le [OF uid_step [OF assms(2)]]
  by (auto simp: sim_ScheduleDestroy_def sim_inv_def after_current_def Let_def intro: order_trans)

lemma Remove_ok_sim:
  assumes "inv s" "genuine (pending s) s i"
  shows "\<exists>s'. sim_Remove ops i s = Inr s' \<and> inv s' \<and> pending s' \<subseteq> pending s \<and>
    (\<not> sim_IsExpired s i \<longrightarrow> eid_uid i \<noteq> UID_DESTROY \<longrightarrow>
       pending s' = pending s - {event_of_id i} \<and> sim_cancelled s' (eid_impl i)) \<and>
    sim_currentTs s' = sim_currentTs s \<and> sim_currentUid s' = sim_currentUid s \<and>
    (\<forall>p. sim_cancelled s p \<longrightarrow> sim_cancelled s' p)"
proof (cases "eid_uid i = UID_DESTROY \<or> sim_IsExpired s i")
  case True
  then show ?thesis using assms(1) by (auto simp: sim_Remove_def)
next
  case False
  then have e: "event_of_id i \<in> pending s" using assms(2) by (simp add: genuine_def)
  have i: "invar (sim_events s)" using assms(1) by (simp add: sim_inv_def)
  obtain q where q: "Remove ops (event_of_id i) (sim_events s) = Inr q" "invar q"
    "events q = pending s - {event_of_id i}" "base q = base (sim_events s)"
    using RemoveE [OF i e] by blast
  have "0 < card (pending s)" using e finite_events [OF i] by (auto simp: card_gt_0_iff)
  then have "int (card (events q)) = int (card (pending s)) - 1"
    using e q(3) finite_events [OF i] by (simp add: card_Diff_singleton)
  then show ?thesis
    using False q assms(1) by (auto simp: sim_Remove_def sim_inv_def after_current_def)
qed

lemma api_step_ok:
  assumes "api_step ops events s s'" "inv s"
  shows "inv s' \<and> same_clock s s'"
  using assms
proof (induction rule: api_step.induct)
  case (api_Schedule p s d i s')
  then show ?case using Schedule_ok [of s p d] by (auto simp: same_clock_def)
next
  case (api_ScheduleWithContext p s d c s')
  then show ?case using ScheduleWithContext_ok [of s p d c] by (auto simp: same_clock_def)
next
  case (api_ScheduleNow p s i s')
  then show ?case
    using Schedule_ok [of s p 0] delay_room_zero [of s] by (auto simp: same_clock_def sim_ScheduleNow_def)
next
  case (api_ScheduleDestroy s p i s')
  then show ?case using ScheduleDestroy_ok [of s p] by (auto simp: same_clock_def)
next
  case (api_Remove s i s')
  then show ?case using Remove_ok_sim [of s i] by (auto simp: same_clock_def)
next
  case (api_Cancel s i)
  then show ?case by (simp add: sim_Cancel_def same_clock_def)
next
  case (api_Stop s)
  then show ?case by (simp add: sim_Stop_def same_clock_def)
qed

lemma api_steps_ok:
  assumes "(api_step ops events)\<^sup>*\<^sup>* s s'" "inv s"
  shows "inv s' \<and> same_clock s s'"
  using assms
  by (induction rule: rtranclp_induct) (auto dest: api_step_ok intro: same_clock_trans)

lemma ProcessEventsWithContext_none: "inv s \<Longrightarrow> sim_ProcessEventsWithContext ops s = Inr s"
  by (simp add: sim_ProcessEventsWithContext_def sim_inv_def)

lemma Invoke_subset:
  assumes "inv s" "schedules_nothing invar events base notify" "event_Invoke notify p s = Inr s'"
  shows "pending s' \<subseteq> pending s"
  using assms unfolding event_Invoke_def schedules_nothing_def by (auto split: if_splits)

lemma Invoke_ok:
  assumes "inv s" "polite notify"
  shows "\<exists>s'. event_Invoke notify p s = Inr s' \<and> (api_step ops events)\<^sup>*\<^sup>* s s'"
  using assms by (auto simp: event_Invoke_def well_behaved_def)

lemma advance_inv:
  assumes "inv s" "RemoveNext ops (sim_events s) = Inr (e, q)" "pending s \<noteq> {}"
  shows "inv (advance e q s)" "least_event (pending s) e" "events q = pending s - {e}"
proof -
  have i: "invar (sim_events s)" using assms(1) by (simp add: sim_inv_def)
  from RemoveNextE [OF i assms(3)] assms(2)
  have q: "least_event (pending s) e" "invar q" "events q = pending s - {e}" "base q \<le> ts e"
    by auto
  then show "least_event (pending s) e" "events q = pending s - {e}" by blast+
  have e: "e \<in> pending s" using q(1) by (simp add: least_event_def)
  have "after_current (advance e q s) x" if "x \<in> events q" for x
  proof -
    have x: "e \<le> x" "x \<in> pending s" "x \<noteq> e" using q(1,3) that by (auto simp: least_event_def)
    then have "uid x \<noteq> uid e" using inj_uid [OF i] e by (auto dest: inj_onD)
    with x(1) show ?thesis
      by (auto simp: after_current_def advance_def less_eq_event_def less_eq_event_key_def key_less_def)
  qed
  moreover have "0 < card (pending s)" using e finite_events [OF i] by (auto simp: card_gt_0_iff)
  then have "int (card (events q)) = int (card (pending s)) - 1"
    using e q(3) finite_events [OF i] by (simp add: card_Diff_singleton)
  ultimately show "inv (advance e q s)"
    using q assms(1) e base_le [OF i e] by (auto simp: sim_inv_def event_ok_def advance_def)
qed

lemma ProcessOneEvent_ok:
  assumes "inv s" "polite notify" "pending s \<noteq> {}"
  shows "\<exists>e s'. sim_ProcessOneEvent ops notify s = Inr (e, s') \<and> least_event (pending s) e \<and>
    after_current s e \<and> inv s' \<and> sim_currentTs s' = ts e \<and> sim_currentUid s' = uid e \<and>
    (\<forall>p. sim_cancelled s p \<longrightarrow> sim_cancelled s' p) \<and>
    (\<exists>q. RemoveNext ops (sim_events s) = Inr (e, q) \<and> (api_step ops events)\<^sup>*\<^sup>* (advance e q s) s')"
proof -
  have i: "invar (sim_events s)" using assms(1) by (simp add: sim_inv_def)
  obtain e q where q: "RemoveNext ops (sim_events s) = Inr (e, q)"
    using RemoveNextE [OF i assms(3)] by blast
  note adv = advance_inv [OF assms(1) q assms(3)]
  have ac: "after_current s e" using adv(2) assms(1) by (simp add: sim_inv_def least_event_def)
  obtain s2 where s2: "event_Invoke notify (impl e) (advance e q s) = Inr s2"
    "(api_step ops events)\<^sup>*\<^sup>* (advance e q s) s2"
    using Invoke_ok [OF adv(1) assms(2)] by blast
  have ok: "inv s2" "same_clock (advance e q s) s2" using api_steps_ok [OF s2(2) adv(1)] by auto
  then have "sim_ProcessEventsWithContext ops s2 = Inr s2"
    by (simp add: ProcessEventsWithContext_none)
  moreover have "sim_currentTs s \<le> ts e" using ac by (auto simp: after_current_def)
  ultimately have "sim_ProcessOneEvent ops notify s = Inr (e, s2)"
    using q s2 by (simp add: sim_ProcessOneEvent_def)
  then show ?thesis
    using ok adv(2) ac q s2(2) by (auto simp: same_clock_def advance_def)
qed

lemma after_current_less:
  assumes "sim_currentTs s = ts e" "sim_currentUid s = uid e" "after_current s x"
  shows "e < x"
  using assms by (auto simp: after_current_def less_event_def less_event_key_def key_less_def)

lemma after_current_trans:
  assumes "after_current s e" "sim_currentTs t = ts e" "sim_currentUid t = uid e" "after_current t x"
  shows "after_current s x"
  using assms by (auto simp: after_current_def)

lemma IsFinished_iff: "inv s \<Longrightarrow> sim_IsFinished ops s \<longleftrightarrow> pending s = {} \<or> sim_stop s"
  by (simp add: sim_IsFinished_def sim_inv_def IsEmpty_iff)

lemma Run_loop_ok:
  assumes "inv s" "polite notify" "sim_Run_loop ops notify n s = Some r"
  shows "\<exists>es s'. r = Inr (es, s') \<and> inv s' \<and> sorted_wrt (<) es \<and> (\<forall>e\<in>set es. after_current s e) \<and>
    sim_IsFinished ops s'"
  using assms(1,3)
proof (induction n arbitrary: s r)
  case 0
  then show ?case by (auto split: if_splits)
next
  case (Suc n)
  show ?case
  proof (cases "sim_IsFinished ops s")
    case True
    then show ?thesis using Suc.prems by auto
  next
    case False
    then have "pending s \<noteq> {}" using Suc.prems by (simp add: IsFinished_iff)
    then obtain e t where t: "sim_ProcessOneEvent ops notify s = Inr (e, t)" "after_current s e"
      "inv t" "sim_currentTs t = ts e" "sim_currentUid t = uid e"
      using ProcessOneEvent_ok [OF Suc.prems(1) assms(2)] by blast
    then obtain r' where r': "sim_Run_loop ops notify n t = Some r'"
      using Suc.prems(2) False by (auto split: option.splits)
    then obtain es s' where "r' = Inr (es, s')" "inv s'" "sorted_wrt (<) es"
      "\<forall>x\<in>set es. after_current t x" "sim_IsFinished ops s'"
      using Suc.IH [OF t(3)] by blast
    moreover from this have "\<forall>x\<in>set es. e < x \<and> after_current s x"
      using after_current_less [OF t(4,5)] after_current_trans [OF t(2,4,5)] by blast
    ultimately show ?thesis using Suc.prems(2) False t r' by auto
  qed
qed

lemma Run_loop_terminates:
  assumes "inv s" "polite notify" "schedules_nothing invar events base notify"
    "card (pending s) \<le> n"
  shows "\<exists>r. sim_Run_loop ops notify n s = Some r"
  using assms(1,4)
proof (induction n arbitrary: s)
  case 0
  then have "pending s = {}" using finite_events by (simp add: sim_inv_def)
  then show ?case using 0 by (simp add: IsFinished_iff)
next
  case (Suc n)
  show ?case
  proof (cases "sim_IsFinished ops s")
    case False
    then have ne: "pending s \<noteq> {}" using Suc.prems by (simp add: IsFinished_iff)
    obtain e t q where t: "sim_ProcessOneEvent ops notify s = Inr (e, t)" "inv t"
      "RemoveNext ops (sim_events s) = Inr (e, q)"
      using ProcessOneEvent_ok [OF Suc.prems(1) assms(2) ne] by blast
    note adv = advance_inv [OF Suc.prems(1) t(3) ne]
    have "pending t \<subseteq> events q"
    proof -
      obtain s2 where s2: "event_Invoke notify (impl e) (advance e q s) = Inr s2"
        "sim_ProcessEventsWithContext ops s2 = Inr t"
        using t(1,3) by (auto simp: sim_ProcessOneEvent_def split: if_splits elim!: bind_res_eq_InrE)
      then have "inv s2" using api_steps_ok adv(1) Invoke_ok [OF adv(1) assms(2), of "impl e"] by auto
      then have "t = s2" using s2(2) by (simp add: ProcessEventsWithContext_none)
      then show ?thesis using Invoke_subset [OF adv(1) assms(3) s2(1)] by (simp add: advance_def)
    qed
    moreover have fin: "finite (pending s)" using Suc.prems(1) finite_events by (simp add: sim_inv_def)
    moreover have "events q \<subset> pending s" using adv(2,3) by (auto simp: least_event_def)
    then have "card (events q) < card (pending s)" using fin by (rule psubset_card_mono [rotated])
    moreover have "finite (events q)" using fin adv(3) by simp
    ultimately have "card (pending t) \<le> n"
      using Suc.prems(2) card_mono [of "events q" "pending t"] by linarith
    then obtain r where "sim_Run_loop ops notify n t = Some r" using Suc.IH t(2) by blast
    then show ?thesis using False t(1) by (cases r) auto
  qed simp
qed

lemma Run_ok:
  assumes "inv s" "polite notify" "sim_Run ops notify n s = Some r"
  shows "\<exists>es s'. r = Inr (es, s') \<and> inv s' \<and> sorted_wrt (<) es \<and> (\<forall>e\<in>set es. after_current s e) \<and>
    (pending s' = {} \<or> sim_stop s')"
proof -
  have s1: "sim_ProcessEventsWithContext ops s = Inr s"
    using assms(1) by (rule ProcessEventsWithContext_none)
  then obtain r' where r': "sim_Run_loop ops notify n (s\<lparr>sim_stop := False\<rparr>) = Some r'"
    using assms(3) by (auto simp: sim_Run_def split: option.splits)
  obtain es s' where es: "r' = Inr (es, s')" "inv s'" "sorted_wrt (<) es"
    "\<forall>e\<in>set es. after_current (s\<lparr>sim_stop := False\<rparr>) e" "sim_IsFinished ops s'"
    using Run_loop_ok [OF _ assms(2) r'] assms(1) by auto
  have "\<not> IsEmpty ops (sim_events s') \<or> sim_unscheduledEvents s' = 0"
    using es(2) by (auto simp: sim_inv_def IsEmpty_iff)
  with es s1 r' show ?thesis
    using assms(3) by (auto simp: sim_Run_def after_current_def IsFinished_iff)
qed

lemma Run_terminates:
  assumes "inv s" "polite notify" "schedules_nothing invar events base notify"
    "card (pending s) \<le> n"
  shows "\<exists>r. sim_Run ops notify n s = Some r"
  using Run_loop_terminates [of "s\<lparr>sim_stop := False\<rparr>" notify n] assms
  by (auto simp: sim_Run_def ProcessEventsWithContext_none split: option.splits sum.splits)

text \<open>The handle of a pending event reads as running until the event is handled or cancelled,
  and as expired from then on.\<close>

lemma pending_not_expired:
  assumes "inv s" "e \<in> pending s" "\<not> sim_cancelled s (impl e)"
  shows "\<not> sim_IsExpired s (id_of_event e)"
proof -
  have "impl e \<noteq> 0" "UID_VALID \<le> uid e" "after_current s e" using assms by (auto simp: sim_inv_def)
  moreover from this have "uid e \<noteq> UID_DESTROY" by (auto simp: uid_consts)
  ultimately show ?thesis
    using assms(3) by (auto simp: sim_IsExpired_def id_of_event_def after_current_def)
qed

lemma handled_expired:
  assumes "inv s" "polite notify" "sim_ProcessOneEvent ops notify s = Inr (e, s')" "pending s \<noteq> {}"
  shows "sim_IsExpired s' (id_of_event e)"
proof -
  have "e \<in> pending s" and c: "sim_currentTs s' = ts e" "sim_currentUid s' = uid e"
    using ProcessOneEvent_ok [OF assms(1,2,4)] assms(3) by (auto simp: least_event_def)
  then have "uid e \<noteq> UID_DESTROY" using assms(1) by (auto simp: sim_inv_def uid_consts)
  with c show ?thesis by (simp add: sim_IsExpired_def id_of_event_def)
qed

lemma expired_stays:
  assumes "inv s" "polite notify" "sim_ProcessOneEvent ops notify s = Inr (e, s')" "pending s \<noteq> {}"
    "eid_uid i \<noteq> UID_DESTROY" "sim_IsExpired s i"
  shows "sim_IsExpired s' i"
proof -
  have "after_current s e" and c: "sim_currentTs s' = ts e" "sim_currentUid s' = uid e"
    and "\<forall>p. sim_cancelled s p \<longrightarrow> sim_cancelled s' p"
    using ProcessOneEvent_ok [OF assms(1,2,4)] assms(3) by auto
  then show ?thesis using assms(5,6) by (auto simp: sim_IsExpired_def after_current_def)
qed

lemma inv_new:
  assumes "invar q" "events q = {}" "base q = 0"
  shows "inv (sim_new q)"
  using assms by (simp add: sim_inv_def sim_new_def uid_consts ts_bound_def)

end

end
