(* ===== verification/List_Scheduler.thy ===== *)
theory List_Scheduler
  imports Scheduler
begin

text \<open>
  \<^verbatim>\<open>src/src/core/model/list-scheduler.cc\<close>, class \<^verbatim>\<open>ListScheduler\<close>: a \<^verbatim>\<open>std::list\<close> kept in
  increasing order by an insertion that scans from the front, and a linear search for the
  event to remove.
\<close>

section \<open>Operations\<close>

fun list_Insert :: "event \<Rightarrow> event list \<Rightarrow> event list" where
  "list_Insert ev [] = [ev]"
| "list_Insert ev (i # is) = (if key ev < key i then ev # i # is else i # list_Insert ev is)"

definition list_IsEmpty :: "event list \<Rightarrow> bool" where
  "list_IsEmpty m_events \<longleftrightarrow> m_events = []"

definition list_PeekNext :: "event list \<Rightarrow> event res" where
  "list_PeekNext m_events =
     (case m_events of [] \<Rightarrow> Inl Undefined_Behaviour | e # _ \<Rightarrow> Inr e)"

definition list_RemoveNext :: "event list \<Rightarrow> (event \<times> event list) res" where
  "list_RemoveNext m_events =
     (case m_events of [] \<Rightarrow> Inl Undefined_Behaviour | e # es \<Rightarrow> Inr (e, es))"

fun list_Remove :: "event \<Rightarrow> event list \<Rightarrow> event list res" where
  "list_Remove ev [] = Inl Assert_Failed"
| "list_Remove ev (i # is) =
     (if uid i = uid ev then (if impl ev = impl i then Inr is else Inl Assert_Failed)
      else bind_res (list_Remove ev is) (\<lambda>r. Inr (i # r)))"

definition list_ops :: "event list sched_ops" where
  "list_ops = \<lparr>Insert = (\<lambda>e s. Inr (list_Insert e s)), IsEmpty = list_IsEmpty,
     PeekNext = list_PeekNext, RemoveNext = list_RemoveNext, Remove = list_Remove\<rparr>"

section \<open>Invariant and contract\<close>

definition list_invar :: "event list \<Rightarrow> bool" where
  "list_invar es \<longleftrightarrow> sorted_wrt (<) es \<and> distinct (map uid es) \<and> (\<forall>e\<in>set es. event_ok e)"

declare list_ops_def [scheduler_simps] list_IsEmpty_def [scheduler_simps]
  list_PeekNext_def [scheduler_simps] list_RemoveNext_def [scheduler_simps]

lemma set_list_Insert [simp]: "set (list_Insert e es) = insert e (set es)"
  by (induction es) auto

lemma distinct_list_Insert:
  "distinct (map uid (list_Insert e es)) \<longleftrightarrow> distinct (map uid es) \<and> uid e \<notin> uid ` set es"
  by (induction es) auto

lemma less_of_neq_uid: "i \<le> e \<Longrightarrow> uid e \<noteq> uid i \<Longrightarrow> i < (e :: event)"
  by (metis event_le_antisym_uid event_not_less)

lemma sorted_list_Insert:
  "sorted_wrt (<) es \<Longrightarrow> uid e \<notin> uid ` set es \<Longrightarrow> sorted_wrt (<) (list_Insert e es)"
proof (induction es)
  case Nil
  then show ?case by simp
next
  case (Cons i es)
  show ?case
  proof (cases "key e < key i")
    case True
    then have "e < i" by (simp add: less_event_def)
    with True Cons.prems show ?thesis by (auto intro: less_trans)
  next
    case False
    then have "i \<le> e" by (simp add: less_eq_event_def key_not_less)
    moreover have "uid e \<noteq> uid i" using Cons.prems by auto
    ultimately have "i < e" by (rule less_of_neq_uid)
    with False Cons show ?thesis by auto
  qed
qed

lemma list_Remove_eq:
  assumes "distinct (map uid es)" "e \<in> set es"
  shows "list_Remove e es = Inr (remove1 e es)"
  using assms by (induction es) (auto simp: image_iff)

lemma list_Remove_missing: "uid e \<notin> uid ` set es \<Longrightarrow> list_Remove e es = Inl Assert_Failed"
  by (induction es) auto

lemma list_invar_insert:
  assumes "list_invar es" "insertable (set es) b e"
  shows "list_invar (list_Insert e es)"
  using assms by (auto simp: list_invar_def insertable_def distinct_list_Insert sorted_list_Insert)

lemma list_invar_remove1: "list_invar es \<Longrightarrow> list_invar (remove1 e es)"
  by (auto simp: list_invar_def sorted_wrt_remove1 distinct_map_remove1 dest: notin_set_remove1)

text \<open>The list scheduler meets the whole contract, with no lower bound on insertions.\<close>

interpretation list_sched: event_scheduler list_ops list_invar set "\<lambda>_. 0"
proof
  fix s e
  assume inv: "list_invar s"
  show "finite (set s)" by simp
  show "inj_on uid (set s)" using inv by (auto simp: list_invar_def distinct_map)
  show "0 \<le> ts e \<and> event_ok e" if "e \<in> set s"
    using that inv by (simp add: list_invar_def)
  show "IsEmpty list_ops s \<longleftrightarrow> set s = {}" by (simp add: scheduler_simps)
  show "\<exists>s'. Insert list_ops e s = Inr s' \<and> list_invar s' \<and> set s' = insert e (set s) \<and> 0 = (0 :: u64)"
    if "insertable (set s) 0 e"
    using that inv by (simp add: scheduler_simps list_invar_insert)
  show "\<exists>e. PeekNext list_ops s = Inr e \<and> least_event (set s) e" if "set s \<noteq> {}"
    using that inv
    by (cases s) (auto simp: scheduler_simps least_event_def list_invar_def intro: less_imp_le)
  show "\<exists>e s'. RemoveNext list_ops s = Inr (e, s') \<and> least_event (set s) e \<and> list_invar s' \<and>
      set s' = set s - {e} \<and> 0 \<le> ts e" if "set s \<noteq> {}"
    using that inv
    by (cases s) (auto simp: scheduler_simps least_event_def list_invar_def intro: less_imp_le)
  show "\<exists>s'. Remove list_ops e s = Inr s' \<and> list_invar s' \<and> set s' = set s - {e} \<and> 0 = (0 :: u64)"
    if "e \<in> set s"
  proof -
    have d: "distinct (map uid s)" using inv by (simp add: list_invar_def)
    then have "set (remove1 e s) = set s - {e}"
      by (simp add: set_remove1_distinct distinct_map)
    then show ?thesis
      using list_Remove_eq [OF d that] list_invar_remove1 [OF inv] by (simp add: list_ops_def)
  qed
qed

end
