(* ===== verification/Map_Scheduler.thy ===== *)
theory Map_Scheduler
  imports List_Scheduler
begin

text \<open>
  \<^verbatim>\<open>src/src/core/model/map-scheduler.cc\<close>, class \<^verbatim>\<open>MapScheduler\<close>, the default scheduler: a
  \<^verbatim>\<open>std::map\<close> from keys to event implementations. The map is the list of its pairs in the
  iteration order of the container; keys are equivalent when neither is less than the
  other.
\<close>

section \<open>MapScheduler\<close>

type_synonym event_map = "(event_key \<times> impl_ptr) list"

text \<open>\<^verbatim>\<open>std::map::insert\<close>: the second component is \<^verbatim>\<open>result.second\<close>, false when an
  equivalent key is there already and the map is left as it is.\<close>

fun std_map_insert :: "event_key \<Rightarrow> impl_ptr \<Rightarrow> event_map \<Rightarrow> event_map \<times> bool" where
  "std_map_insert k v [] = ([(k, v)], True)"
| "std_map_insert k v ((k', v') # m) =
     (if k < k' then ((k, v) # (k', v') # m, True)
      else if k' < k then (case std_map_insert k v m of (m', ok) \<Rightarrow> ((k', v') # m', ok))
      else ((k', v') # m, False))"

text \<open>\<^verbatim>\<open>std::map::find\<close> and \<^verbatim>\<open>erase\<close> at the iterator found; the first component is the value
  the iterator shows, \<open>None\<close> for \<^verbatim>\<open>end ()\<close>.\<close>

fun std_map_take :: "event_key \<Rightarrow> event_map \<Rightarrow> impl_ptr option \<times> event_map" where
  "std_map_take k [] = (None, [])"
| "std_map_take k ((k', v') # m) =
     (if \<not> k < k' \<and> \<not> k' < k then (Some v', m)
      else case std_map_take k m of (r, m') \<Rightarrow> (r, (k', v') # m'))"

definition map_Insert :: "event \<Rightarrow> event_map \<Rightarrow> event_map res" where
  "map_Insert ev m_list =
     (case std_map_insert (key ev) (impl ev) m_list of
        (m, ok) \<Rightarrow> if ok then Inr m else Inl Assert_Failed)"

definition map_IsEmpty :: "event_map \<Rightarrow> bool" where
  "map_IsEmpty m_list \<longleftrightarrow> m_list = []"

definition map_PeekNext :: "event_map \<Rightarrow> event res" where
  "map_PeekNext m_list =
     (case m_list of [] \<Rightarrow> Inl Assert_Failed | (k, v) # _ \<Rightarrow> Inr (Event v k))"

definition map_RemoveNext :: "event_map \<Rightarrow> (event \<times> event_map) res" where
  "map_RemoveNext m_list =
     (case m_list of [] \<Rightarrow> Inl Assert_Failed | (k, v) # m \<Rightarrow> Inr (Event v k, m))"

definition map_Remove :: "event \<Rightarrow> event_map \<Rightarrow> event_map res" where
  "map_Remove ev m_list =
     (case std_map_take (key ev) m_list of
        (None, _) \<Rightarrow> Inl Undefined_Behaviour
      | (Some v, m) \<Rightarrow> if v = impl ev then Inr m else Inl Assert_Failed)"

definition map_ops :: "event_map sched_ops" where
  "map_ops = \<lparr>Insert = map_Insert, IsEmpty = map_IsEmpty, PeekNext = map_PeekNext,
     RemoveNext = map_RemoveNext, Remove = map_Remove\<rparr>"

subsection \<open>The map scheduler simulates the list scheduler\<close>

text \<open>
  Reading the pairs as events turns a map into the sorted list of the list scheduler, and
  each operation of one into the operation of the other. The contract then carries over.
\<close>

definition map_abs :: "event_map \<Rightarrow> event list" where
  "map_abs m = map (\<lambda>(k, v). Event v k) m"

lemma map_abs_simps [simp]:
  "map_abs [] = []"
  "map_abs ((k, v) # m) = Event v k # map_abs m"
  "map_abs m = [] \<longleftrightarrow> m = []"
  by (simp_all add: map_abs_def)

declare map_ops_def [scheduler_simps] map_IsEmpty_def [scheduler_simps]
  map_PeekNext_def [scheduler_simps] map_RemoveNext_def [scheduler_simps]

lemma std_map_insert_abs:
  assumes "uid e \<notin> uid ` set (map_abs m)"
  shows "\<exists>m'. std_map_insert (key e) (impl e) m = (m', True) \<and> map_abs m' = list_Insert e (map_abs m)"
  using assms
proof (induction m)
  case Nil
  then show ?case by (cases e) simp
next
  case (Cons p m)
  obtain k v where p: "p = (k, v)" by fastforce
  have "\<not> key e < k \<Longrightarrow> k < key e"
    using less_of_neq_uid [of "Event v k" e] Cons.prems p
    by (auto simp: less_event_def less_eq_event_def key_not_less)
  moreover obtain m' where "std_map_insert (key e) (impl e) m = (m', True)"
      "map_abs m' = list_Insert e (map_abs m)"
    using Cons p by auto
  ultimately show ?case
    using p by (cases e) auto
qed

lemma map_Insert_abs:
  "uid e \<notin> uid ` set (map_abs m) \<Longrightarrow>
   \<exists>m'. map_Insert e m = Inr m' \<and> map_abs m' = list_Insert e (map_abs m)"
  using std_map_insert_abs [of e m] by (auto simp: map_Insert_def)

lemma std_map_take_abs:
  assumes "distinct (map uid (map_abs m))" "e \<in> set (map_abs m)"
  shows "\<exists>m'. std_map_take (key e) m = (Some (impl e), m') \<and> map_abs m' = remove1 e (map_abs m)"
  using assms
proof (induction m)
  case Nil
  then show ?case by simp
next
  case (Cons p m)
  obtain k v where p: "p = (k, v)" by fastforce
  show ?case
  proof (cases "Event v k = e")
    case True
    then show ?thesis using p by (auto simp: less_event_key_def key_less_def)
  next
    case False
    then have e: "e \<in> set (map_abs m)" using Cons.prems p by auto
    then have "uid e \<noteq> m_uid k" using Cons.prems p by (auto simp: image_iff)
    then have "key e < k \<or> k < key e"
      by (auto simp: less_event_key_def key_less_def)
    then show ?thesis using Cons e False p by auto
  qed
qed

lemma map_Remove_abs:
  assumes "distinct (map uid (map_abs m))" "e \<in> set (map_abs m)"
  shows "\<exists>m'. map_Remove e m = Inr m' \<and> map_abs m' = remove1 e (map_abs m)"
  using std_map_take_abs [OF assms] by (auto simp: map_Remove_def)

interpretation map_sched: event_scheduler map_ops "\<lambda>m. list_invar (map_abs m)"
  "\<lambda>m. set (map_abs m)" "\<lambda>_. 0"
proof
  fix m e
  assume inv: "list_invar (map_abs m)"
  then have d: "distinct (map uid (map_abs m))" by (simp add: list_invar_def)
  show "finite (set (map_abs m))" by simp
  show "inj_on uid (set (map_abs m))" by (rule list_sched.inj_uid [OF inv])
  show "0 \<le> ts e \<and> event_ok e" if "e \<in> set (map_abs m)"
    by (rule list_sched.base_le [OF inv that])
  show "IsEmpty map_ops m \<longleftrightarrow> set (map_abs m) = {}" by (simp add: scheduler_simps)
  show "\<exists>m'. Insert map_ops e m = Inr m' \<and> list_invar (map_abs m') \<and>
      set (map_abs m') = insert e (set (map_abs m)) \<and> 0 = (0 :: u64)"
    if "insertable (set (map_abs m)) 0 e"
    using that map_Insert_abs [of e m] list_invar_insert [OF inv that]
    by (auto simp: map_ops_def insertable_def)
  show "\<exists>e. PeekNext map_ops m = Inr e \<and> least_event (set (map_abs m)) e"
    if ne: "set (map_abs m) \<noteq> {}"
  proof -
    obtain k v m' where m: "m = (k, v) # m'" using ne by (cases m) auto
    then have "PeekNext list_ops (map_abs m) = PeekNext map_ops m"
      by (simp add: scheduler_simps)
    then show ?thesis using list_sched.PeekNext_ok [OF inv ne] by simp
  qed
  show "\<exists>e m'. RemoveNext map_ops m = Inr (e, m') \<and> least_event (set (map_abs m)) e \<and>
      list_invar (map_abs m') \<and> set (map_abs m') = set (map_abs m) - {e} \<and> 0 \<le> ts e"
    if ne: "set (map_abs m) \<noteq> {}"
  proof -
    obtain k v m' where m: "m = (k, v) # m'" using ne by (cases m) auto
    have "RemoveNext list_ops (map_abs m) = Inr (Event v k, map_abs m')"
      using m by (simp add: scheduler_simps)
    moreover have "RemoveNext map_ops m = Inr (Event v k, m')"
      using m by (simp add: scheduler_simps)
    ultimately show ?thesis
      using list_sched.RemoveNext_ok [OF inv ne] by auto
  qed
  show "\<exists>m'. Remove map_ops e m = Inr m' \<and> list_invar (map_abs m') \<and>
      set (map_abs m') = set (map_abs m) - {e} \<and> 0 = (0 :: u64)"
    if "e \<in> set (map_abs m)"
  proof -
    have "set (remove1 e (map_abs m)) = set (map_abs m) - {e}"
      using d by (simp add: set_remove1_distinct distinct_map)
    then show ?thesis
      using map_Remove_abs [OF d that] list_invar_remove1 [OF inv, of e]
      by (auto simp: map_ops_def)
  qed
qed

text \<open>
  On every reachable state the map scheduler behaves as the list scheduler on the list
  of its pairs: inserting a new event, removing a pending one and taking the next one give
  related states and the same event.
\<close>

theorem map_scheduler_refines_list:
  assumes "list_invar (map_abs m)"
  shows "(insertable (set (map_abs m)) 0 e \<longrightarrow>
      (\<exists>m'. map_Insert e m = Inr m' \<and> map_abs m' = list_Insert e (map_abs m))) \<and>
    (e \<in> set (map_abs m) \<longrightarrow>
      (\<exists>m'. map_Remove e m = Inr m' \<and> list_Remove e (map_abs m) = Inr (map_abs m'))) \<and>
    (\<not> map_IsEmpty m \<longrightarrow>
      (\<exists>x m'. map_RemoveNext m = Inr (x, m') \<and> list_RemoveNext (map_abs m) = Inr (x, map_abs m') \<and>
         map_PeekNext m = Inr x))"
proof -
  have d: "distinct (map uid (map_abs m))" using assms by (simp add: list_invar_def)
  have "e \<in> set (map_abs m) \<Longrightarrow>
      \<exists>m'. map_Remove e m = Inr m' \<and> list_Remove e (map_abs m) = Inr (map_abs m')"
    using map_Remove_abs [OF d] list_Remove_eq [OF d] by fastforce
  moreover have "\<not> map_IsEmpty m \<Longrightarrow> \<exists>x m'. map_RemoveNext m = Inr (x, m') \<and>
      list_RemoveNext (map_abs m) = Inr (x, map_abs m') \<and> map_PeekNext m = Inr x"
    by (cases m) (auto simp: scheduler_simps)
  ultimately show ?thesis using map_Insert_abs [of e m] by (auto simp: insertable_def)
qed

theorem map_scheduler_refines_list_witness:
  "\<exists>m'. map_Insert (Event 7 (EventKey 2 9 0)) [(EventKey 1 8 0, 5), (EventKey 2 10 0, 6)] = Inr m' \<and>
    map_abs m' = [Event 5 (EventKey 1 8 0), Event 7 (EventKey 2 9 0), Event 6 (EventKey 2 10 0)]"
proof -
  let ?m = "[(EventKey 1 8 0, 5), (EventKey 2 10 0, 6)] :: event_map"
  have "list_invar (map_abs ?m)" "insertable (set (map_abs ?m)) 0 (Event 7 (EventKey 2 9 0))"
    by (simp_all add: list_invar_def insertable_def event_ok_def ts_bound_def less_event_def less_event_key_def key_less_def)
  then show ?thesis
    using map_scheduler_refines_list [of ?m "Event 7 (EventKey 2 9 0)"]
    by (simp add: less_event_key_def key_less_def)
qed

end
