(* ===== verification/Heap_Scheduler.thy ===== *)
theory Heap_Scheduler
  imports Scheduler "HOL-Library.Multiset"
begin

text \<open>
  \<^verbatim>\<open>src/src/core/model/heap-scheduler.cc\<close>, class \<^verbatim>\<open>HeapScheduler\<close>: a binary heap in a
  vector whose slot 0 is wasted so that the root has index 1. \<^verbatim>\<open>Insert\<close>, \<^verbatim>\<open>PeekNext\<close> and
  \<^verbatim>\<open>RemoveNext\<close> meet the contract of an event queue. \<^verbatim>\<open>Remove\<close> restores the order only
  below the hole and not above it: the exact condition under which the heap order survives
  is proved, and a run in which it is lost.
\<close>

section \<open>Operations\<close>

type_synonym heap = "event list"

definition heap_new :: heap where
  "heap_new = [Event 0 (EventKey 0 0 0)]"

definition Parent :: "nat \<Rightarrow> nat" where
  "Parent i = i div 2"

definition LeftChild :: "nat \<Rightarrow> nat" where
  "LeftChild i = i * 2"

definition RightChild :: "nat \<Rightarrow> nat" where
  "RightChild i = i * 2 + 1"

definition Root :: nat where
  "Root = 1"

definition IsRoot :: "nat \<Rightarrow> bool" where
  "IsRoot i \<longleftrightarrow> i = Root"

definition Last :: "heap \<Rightarrow> nat" where
  "Last m_heap = length m_heap - 1"

definition IsBottom :: "heap \<Rightarrow> nat \<Rightarrow> bool" where
  "IsBottom m_heap i \<longleftrightarrow> i \<ge> length m_heap"

definition Exch :: "heap \<Rightarrow> nat \<Rightarrow> nat \<Rightarrow> heap res" where
  "Exch m_heap a b =
     (if b < length m_heap \<and> a < length m_heap then Inr (list_swap m_heap a b)
      else Inl Assert_Failed)"

definition IsLessStrictly :: "heap \<Rightarrow> nat \<Rightarrow> nat \<Rightarrow> bool" where
  "IsLessStrictly m_heap a b \<longleftrightarrow> m_heap ! a < m_heap ! b"

definition Smallest :: "heap \<Rightarrow> nat \<Rightarrow> nat \<Rightarrow> nat" where
  "Smallest m_heap a b = (if IsLessStrictly m_heap a b then a else b)"

definition heap_IsEmpty :: "heap \<Rightarrow> bool" where
  "heap_IsEmpty m_heap \<longleftrightarrow> length m_heap = 1"

text \<open>The loop of \<^verbatim>\<open>BottomUp\<close>, from the current index upwards.\<close>

function BottomUp_from :: "heap \<Rightarrow> nat \<Rightarrow> heap res" where
  "BottomUp_from h index =
     (if \<not> IsRoot index \<and> IsLessStrictly h index (Parent index)
      then (case Exch h index (Parent index) of
              Inl err \<Rightarrow> Inl err
            | Inr h' \<Rightarrow> BottomUp_from h' (Parent index))
      else Inr h)"
  by pat_completeness auto
termination
proof (relation "measure snd", goal_cases)
  case (2 h index h')
  then have "index \<noteq> 0" by (cases index) (auto simp: IsLessStrictly_def Parent_def)
  then show ?case by (simp add: Parent_def)
qed simp

definition BottomUp :: "heap \<Rightarrow> heap res" where
  "BottomUp h = BottomUp_from h (Last h)"

text \<open>\<^verbatim>\<open>TopDown\<close>: the loop while a right child exists, then the step for a lone left child.
  From index 0, which no caller passes, the left child is the index itself and the C++ loop
  would spin without progress, which the standard leaves undefined.\<close>

function TopDown :: "heap \<Rightarrow> nat \<Rightarrow> heap res" where
  "TopDown h index =
     (if \<not> IsBottom h (RightChild index)
      then (let tmp = Smallest h (LeftChild index) (RightChild index)
            in if IsLessStrictly h index tmp then Inr h
               else if tmp = index then Inl Undefined_Behaviour
               else case Exch h index tmp of
                      Inl err \<Rightarrow> Inl err
                    | Inr h' \<Rightarrow> TopDown h' tmp)
      else if IsBottom h index then Inr h
      else if IsBottom h (LeftChild index) then Inr h
      else if IsLessStrictly h index (LeftChild index) then Inr h
      else Exch h index (LeftChild index))"
  by pat_completeness auto
termination
  by (relation "measure (\<lambda>(h, i). length h - i)")
    (auto simp: Smallest_def LeftChild_def RightChild_def Exch_def IsBottom_def split: if_splits)

declare BottomUp_from.simps [simp del] TopDown.simps [simp del]

definition heap_Insert :: "event \<Rightarrow> heap \<Rightarrow> heap res" where
  "heap_Insert ev m_heap = BottomUp (m_heap @ [ev])"

text \<open>Reading \<^verbatim>\<open>m_heap[1]\<close> of a vector of one element is undefined.\<close>

definition heap_PeekNext :: "heap \<Rightarrow> event res" where
  "heap_PeekNext m_heap =
     (if Root < length m_heap then Inr (m_heap ! Root) else Inl Undefined_Behaviour)"

definition heap_RemoveNext :: "heap \<Rightarrow> (event \<times> heap) res" where
  "heap_RemoveNext m_heap =
     bind_res (heap_PeekNext m_heap) (\<lambda>nxt.
     bind_res (Exch m_heap Root (Last m_heap)) (\<lambda>h.
     bind_res (TopDown (butlast h) Root) (\<lambda>h'.
     Inr (nxt, h'))))"

text \<open>The search loop of \<^verbatim>\<open>Remove\<close>, from index \<open>i\<close>.\<close>

function heap_Remove_from :: "event \<Rightarrow> heap \<Rightarrow> nat \<Rightarrow> heap res" where
  "heap_Remove_from ev h i =
     (if i < length h
      then if uid ev = uid (h ! i)
           then if impl (h ! i) = impl ev
                then bind_res (Exch h i (Last h)) (\<lambda>h'. TopDown (butlast h') i)
                else Inl Assert_Failed
           else heap_Remove_from ev h (Suc i)
      else Inl Assert_Failed)"
  by pat_completeness auto
termination
  by (relation "measure (\<lambda>(ev, h, i). length h - i)") auto

declare heap_Remove_from.simps [simp del]

definition heap_Remove :: "event \<Rightarrow> heap \<Rightarrow> heap res" where
  "heap_Remove ev m_heap = heap_Remove_from ev m_heap 1"

definition heap_ops :: "heap sched_ops" where
  "heap_ops = \<lparr>Insert = heap_Insert, IsEmpty = heap_IsEmpty, PeekNext = heap_PeekNext,
     RemoveNext = heap_RemoveNext, Remove = heap_Remove\<rparr>"

section \<open>The heap order\<close>

definition ordered_at :: "heap \<Rightarrow> nat \<Rightarrow> bool" where
  "ordered_at h i \<longleftrightarrow> h ! (i div 2) \<le> h ! i"

definition is_heap :: "heap \<Rightarrow> bool" where
  "is_heap h \<longleftrightarrow> (\<forall>i. 2 \<le> i \<longrightarrow> i < length h \<longrightarrow> ordered_at h i)"

text \<open>Ordered but for one place: \<open>k\<close> may be too small for its parent (while rising), or too
  large for its children (while sinking); around it, grandparents and grandchildren agree.\<close>

definition bypass :: "heap \<Rightarrow> nat \<Rightarrow> bool" where
  "bypass h k \<longleftrightarrow> (\<forall>i. i < length h \<longrightarrow> i div 2 = k \<longrightarrow> 2 \<le> k \<longrightarrow> h ! (k div 2) \<le> h ! i)"

definition rising_heap :: "heap \<Rightarrow> nat \<Rightarrow> bool" where
  "rising_heap h k \<longleftrightarrow> bypass h k \<and>
     (\<forall>i. 2 \<le> i \<longrightarrow> i < length h \<longrightarrow> i \<noteq> k \<longrightarrow> ordered_at h i)"

definition sinking_heap :: "heap \<Rightarrow> nat \<Rightarrow> bool" where
  "sinking_heap h k \<longleftrightarrow> bypass h k \<and>
     (\<forall>i. 2 \<le> i \<longrightarrow> i < length h \<longrightarrow> i div 2 \<noteq> k \<longrightarrow> ordered_at h i)"

lemmas heap_order_defs = ordered_at_def is_heap_def bypass_def rising_heap_def sinking_heap_def

text \<open>The stored events: slot 0 is a filler.\<close>

definition heap_events :: "heap \<Rightarrow> event set" where
  "heap_events h = set (tl h)"

text \<open>\<open>h'\<close> holds the events of \<open>h\<close>, possibly elsewhere, and the same filler.\<close>

definition same_events :: "heap \<Rightarrow> heap \<Rightarrow> bool" where
  "same_events h h' \<longleftrightarrow> length h' = length h \<and> mset (tl h') = mset (tl h)"

lemma same_events_refl [simp]: "same_events h h"
  by (simp add: same_events_def)

lemma same_events_trans: "same_events h h' \<Longrightarrow> same_events h' h'' \<Longrightarrow> same_events h h''"
  by (simp add: same_events_def)

lemma mset_tl: "xs \<noteq> [] \<Longrightarrow> mset (tl xs) = mset xs - {#xs ! 0#}"
  by (cases xs) auto

lemma same_events_swap:
  assumes "1 \<le> a" "1 \<le> b" "a < length h" "b < length h"
  shows "same_events h (list_swap h a b)"
proof -
  have "mset (list_swap h a b) = mset h"
    using assms by (simp add: list_swap_def mset_swap)
  moreover have "list_swap h a b ! 0 = h ! 0"
    using assms by (subst nth_list_swap) auto
  moreover have "h \<noteq> []" "list_swap h a b \<noteq> []"
    using assms by (auto simp flip: length_greater_0_conv)
  ultimately show ?thesis
    by (simp add: same_events_def mset_tl)
qed

lemma same_events_set: "same_events h h' \<Longrightarrow> heap_events h' = heap_events h"
  unfolding same_events_def heap_events_def by (blast dest: mset_eq_setD)

lemma same_events_distinct:
  "same_events h h' \<Longrightarrow> distinct (map uid (tl h')) = distinct (map uid (tl h))"
  by (rule mset_eq_imp_distinct_iff) (simp add: same_events_def)

lemma Exch_in_range:
  "a < length h \<Longrightarrow> b < length h \<Longrightarrow> Exch h a b = Inr (list_swap h a b)"
  by (simp add: Exch_def)

section \<open>Rising\<close>

lemma rising_swap:
  assumes "rising_heap h k" "2 \<le> k" "k < length h" "h ! k < h ! (k div 2)"
  shows "rising_heap (list_swap h k (k div 2)) (k div 2)"
proof -
  let ?p = "k div 2" and ?h = "list_swap h k (k div 2)"
  have nth: "?h ! i = (if i = k then h ! ?p else if i = ?p then h ! k else h ! i)"
    if "i < length h" for i
    using assms that by (subst nth_list_swap) auto
  have kp: "h ! k \<le> h ! ?p" using assms(4) by (rule less_imp_le)
  have ord: "h ! (i div 2) \<le> h ! i" if "2 \<le> i" "i < length h" "i \<noteq> k" for i
    using assms(1) that by (simp add: heap_order_defs)
  have byp: "h ! ?p \<le> h ! i" if "i < length h" "i div 2 = k" for i
    using assms(1,2) that by (auto simp: heap_order_defs)
  have "ordered_at ?h i" if i: "2 \<le> i" "i < length h" "i \<noteq> ?p" for i
  proof -
    have "i div 2 < length h" "i div 2 \<noteq> i" using i by auto
    moreover have "i div 2 = ?p \<Longrightarrow> i \<noteq> k \<Longrightarrow> h ! k \<le> h ! i"
      using ord [of i] i kp order_trans by metis
    ultimately show ?thesis
      using i ord [of i] byp [of i] kp assms(2) by (auto simp: ordered_at_def nth)
  qed
  moreover have "?h ! (?p div 2) \<le> ?h ! i" if i: "i < length h" "i div 2 = ?p" "2 \<le> ?p" for i
  proof -
    have p: "?p div 2 \<noteq> k" "?p div 2 \<noteq> ?p" "?p < length h" "?p \<noteq> k" "i \<noteq> ?p" "2 \<le> i"
      "?p div 2 < length h"
      using i assms(2,3) by linarith+
    have "h ! (?p div 2) \<le> h ! ?p" using ord [of ?p] p i by simp
    moreover from this have "i \<noteq> k \<Longrightarrow> h ! (?p div 2) \<le> h ! i"
      using ord [of i] p i order_trans by metis
    ultimately show ?thesis using p i by (simp add: nth)
  qed
  ultimately show ?thesis
    by (auto simp: rising_heap_def bypass_def)
qed

lemma rising_done:
  assumes "rising_heap h k" "k = 1 \<or> \<not> h ! k < h ! (k div 2)"
  shows "is_heap h"
  using assms by (auto simp: rising_heap_def is_heap_def ordered_at_def event_not_less)

lemma BottomUp_from_ok:
  assumes "rising_heap h k" "1 \<le> k" "k < length h"
  shows "\<exists>h'. BottomUp_from h k = Inr h' \<and> is_heap h' \<and> same_events h h'"
  using assms
proof (induction h k rule: BottomUp_from.induct)
  case (1 h k)
  show ?case
  proof (cases "\<not> IsRoot k \<and> IsLessStrictly h k (Parent k)")
    case True
    then have k: "2 \<le> k" "h ! k < h ! (k div 2)"
      using 1 by (auto simp: IsRoot_def Root_def IsLessStrictly_def Parent_def)
    let ?h = "list_swap h k (k div 2)"
    have ex: "Exch h k (Parent k) = Inr ?h"
      using 1 by (simp add: Exch_in_range Parent_def)
    have pk: "1 \<le> k div 2" "k div 2 < length ?h" using k(1) "1.prems" by auto
    obtain h' where "BottomUp_from ?h (Parent k) = Inr h'" "is_heap h'" "same_events ?h h'"
      using "1.IH" [OF True ex] rising_swap [OF "1.prems"(1) k(1) "1.prems"(3) k(2)] pk
      by (auto simp: Parent_def)
    moreover have "same_events h ?h"
      using k "1.prems" by (intro same_events_swap) auto
    ultimately show ?thesis
      using True ex by (auto simp: BottomUp_from.simps [of h k] intro: same_events_trans)
  next
    case False
    then have "is_heap h"
      using rising_done 1 by (auto simp: IsRoot_def Root_def IsLessStrictly_def Parent_def)
    then show ?thesis using False by (auto simp: BottomUp_from.simps [of h k])
  qed
qed

section \<open>Sinking\<close>

lemma sinking_swap:
  assumes "sinking_heap h k" "1 \<le> k" "t < length h" "t div 2 = k" "h ! t \<le> h ! k"
    and small: "\<forall>i. i < length h \<longrightarrow> i div 2 = k \<longrightarrow> h ! t \<le> h ! i"
  shows "sinking_heap (list_swap h k t) t"
proof -
  let ?h = "list_swap h k t"
  have kt: "k < t" "k < length h" "2 \<le> t" using assms by auto
  have nth: "?h ! i = (if i = k then h ! t else if i = t then h ! k else h ! i)"
    if "i < length h" for i
    using assms kt that by (subst nth_list_swap) auto
  have ord: "h ! (i div 2) \<le> h ! i" if "2 \<le> i" "i < length h" "i div 2 \<noteq> k" for i
    using assms(1) that by (simp add: heap_order_defs)
  have byp: "2 \<le> k \<Longrightarrow> h ! (k div 2) \<le> h ! t"
    using assms(1,3,4) by (auto simp: heap_order_defs)
  have "ordered_at ?h i" if i: "2 \<le> i" "i < length h" "i div 2 \<noteq> t" for i
  proof -
    have "i div 2 < length h" "k div 2 \<noteq> k" "k div 2 \<noteq> t" using i assms(2) kt by auto
    then show ?thesis
      using i ord [of i] byp small assms(4,5) kt by (auto simp: ordered_at_def nth)
  qed
  moreover have "?h ! (t div 2) \<le> ?h ! i" if i: "i < length h" "i div 2 = t" for i
  proof -
    have "2 \<le> i" "i \<noteq> k" "i \<noteq> t" "i div 2 \<noteq> k" using i kt by auto
    then show ?thesis using i ord [of i] assms(4) kt by (simp add: nth)
  qed
  ultimately show ?thesis
    by (auto simp: sinking_heap_def bypass_def)
qed

lemma sinking_done:
  assumes "sinking_heap h k" "\<forall>i. i < length h \<longrightarrow> i div 2 = k \<longrightarrow> h ! k \<le> h ! i"
  shows "is_heap h"
  using assms by (auto simp: sinking_heap_def is_heap_def ordered_at_def)

lemma sinking_leaf: "sinking_heap h k \<Longrightarrow> length h \<le> 2 * k \<Longrightarrow> is_heap h"
  by (rule sinking_done) auto

lemma half_cases: "i div 2 = k \<longleftrightarrow> i = 2 * k \<or> i = 2 * k + (1 :: nat)"
  by auto

lemma Smallest_child:
  assumes "t = Smallest h (2 * k) (2 * k + 1)"
  shows "t div 2 = k" "i div 2 = k \<Longrightarrow> h ! t \<le> h ! i" "t \<le> 2 * k + 1"
  using assms event_linear [of "h ! (2 * k)" "h ! (2 * k + 1)"]
  by (auto simp: Smallest_def IsLessStrictly_def half_cases event_not_less less_imp_le split: if_splits)

lemma TopDown_ok:
  assumes "sinking_heap h k" "1 \<le> k"
  shows "\<exists>h'. TopDown h k = Inr h' \<and> is_heap h' \<and> same_events h h'"
  using assms
proof (induction h k rule: TopDown.induct)
  case (1 h k)
  let ?t = "Smallest h (2 * k) (2 * k + 1)"
  note small = Smallest_child [OF refl, where h = h and k = k]
  consider (two) "2 * k + 1 < length h" | (one) "length h = 2 * k + 1" | (none) "length h \<le> 2 * k"
    by linarith
  then show ?case
  proof cases
    case two
    then have t: "\<not> IsBottom h (RightChild k)" "Smallest h (LeftChild k) (RightChild k) = ?t"
      "?t < length h" "?t \<noteq> k" "1 \<le> ?t"
      using small(1,3) "1.prems"(2)
      by (auto simp: IsBottom_def RightChild_def LeftChild_def mult.commute half_cases)
    show ?thesis
    proof (cases "h ! k < h ! ?t")
      case True
      then have "is_heap h"
        using small(2) "1.prems"(1) by (intro sinking_done) (auto intro: less_imp_le order_trans)
      with t True show ?thesis by (auto simp: TopDown.simps [of h k] IsLessStrictly_def)
    next
      case False
      let ?h = "list_swap h k ?t"
      have ex: "Exch h k ?t = Inr ?h" using two t by (simp add: Exch_in_range)
      have "sinking_heap ?h ?t"
        using "1.prems" t small False by (intro sinking_swap) (auto simp: event_not_less)
      then obtain h' where "TopDown ?h ?t = Inr h'" "is_heap h'" "same_events ?h h'"
        using "1.IH" [OF t(1) t(2) [symmetric] _ t(4) ex] False t(5)
        by (auto simp: IsLessStrictly_def)
      moreover have "same_events h ?h"
        using "1.prems"(2) two t by (intro same_events_swap) auto
      ultimately show ?thesis
        using t False ex
        by (auto simp: TopDown.simps [of h k] IsLessStrictly_def intro: same_events_trans)
    qed
  next
    case one
    have child: "i < length h \<Longrightarrow> i div 2 = k \<Longrightarrow> i = 2 * k" for i using one by auto
    have b: "IsBottom h (RightChild k)" "\<not> IsBottom h k" "\<not> IsBottom h (LeftChild k)"
      using one by (auto simp: IsBottom_def RightChild_def LeftChild_def)
    show ?thesis
    proof (cases "h ! k < h ! (2 * k)")
      case True
      then have "is_heap h"
        using child "1.prems"(1) by (intro sinking_done) (auto dest!: child intro: less_imp_le)
      with b True show ?thesis
        by (auto simp: TopDown.simps [of h k] IsLessStrictly_def LeftChild_def mult.commute)
    next
      case False
      have "\<forall>i. i < length h \<longrightarrow> i div 2 = k \<longrightarrow> h ! (2 * k) \<le> h ! i"
        using child order_refl by metis
      then have "sinking_heap (list_swap h k (2 * k)) (2 * k)"
        using "1.prems" one False by (intro sinking_swap) (simp_all add: event_not_less)
      then have "is_heap (list_swap h k (2 * k))"
        using one "1.prems"(2) by (intro sinking_leaf) auto
      moreover have "same_events h (list_swap h k (2 * k))"
        using "1.prems"(2) one by (intro same_events_swap) auto
      ultimately show ?thesis
        using b False one
        by (auto simp: TopDown.simps [of h k] IsLessStrictly_def LeftChild_def Exch_def mult.commute)
    qed
  next
    case none
    then have "TopDown h k = Inr h"
      by (auto simp: TopDown.simps [of h k] IsBottom_def RightChild_def LeftChild_def)
    with none "1.prems" show ?thesis by (auto intro: sinking_leaf)
  qed
qed

section \<open>The contract\<close>

definition heap_invar :: "heap \<Rightarrow> bool" where
  "heap_invar h \<longleftrightarrow> h \<noteq> [] \<and> is_heap h \<and> distinct (map uid (tl h)) \<and>
     (\<forall>e\<in>heap_events h. event_ok e)"

lemma same_events_invar:
  assumes "same_events h h'" "h \<noteq> []" "distinct (map uid (tl h))"
    "\<forall>e\<in>heap_events h. event_ok e" "is_heap h'"
  shows "heap_invar h'"
proof -
  have "h' \<noteq> []" using assms(1,2) unfolding same_events_def by (metis length_0_conv)
  with assms show ?thesis
    by (simp add: heap_invar_def same_events_set [OF assms(1)] same_events_distinct [OF assms(1)])
qed

lemma heap_root_least:
  assumes "is_heap h" "1 \<le> i" "i < length h"
  shows "h ! 1 \<le> h ! i"
  using assms(2,3)
proof (induction i rule: less_induct)
  case (less i)
  show ?case
  proof (cases "i = 1")
    case False
    then have "h ! 1 \<le> h ! (i div 2)" using less by auto
    also have "\<dots> \<le> h ! i" using assms(1) less.prems False by (simp add: heap_order_defs)
    finally show ?thesis .
  qed simp
qed

lemma heap_events_nth: "e \<in> heap_events h \<longleftrightarrow> (\<exists>i. 1 \<le> i \<and> i < length h \<and> e = h ! i)"
proof (cases h)
  case (Cons x xs)
  have "(\<exists>i. 1 \<le> i \<and> i < length h \<and> e = h ! i) \<longleftrightarrow> (\<exists>j<length xs. e = xs ! j)"
    using Cons by (metis Suc_le_eq Suc_less_eq Suc_pred length_Cons nth_Cons_Suc One_nat_def
        le_add1 plus_1_eq_Suc)
  then show ?thesis using Cons by (auto simp: heap_events_def in_set_conv_nth)
qed (simp add: heap_events_def)

lemma heap_empty_iff: "h \<noteq> [] \<Longrightarrow> heap_events h = {} \<longleftrightarrow> length h = 1"
  by (cases h) (auto simp: heap_events_def)

lemma heap_Insert_ok:
  assumes "heap_invar h" "insertable (heap_events h) b e"
  shows "\<exists>h'. heap_Insert e h = Inr h' \<and> heap_invar h' \<and> heap_events h' = insert e (heap_events h)"
proof -
  have h: "h \<noteq> []" using assms by (simp add: heap_invar_def)
  have "rising_heap (h @ [e]) (length h)"
    using assms(1) by (auto simp: heap_invar_def heap_order_defs nth_append)
  then obtain h' where h': "heap_Insert e h = Inr h'" "is_heap h'" "same_events (h @ [e]) h'"
    using BottomUp_from_ok [of "h @ [e]" "length h"] h
    by (auto simp: heap_Insert_def BottomUp_def Last_def Suc_le_eq)
  moreover have "heap_events (h @ [e]) = insert e (heap_events h)"
    using h by (cases h) (auto simp: heap_events_def)
  moreover have "heap_invar h'"
  proof (rule same_events_invar [OF h'(3)])
    show "distinct (map uid (tl (h @ [e])))"
      using assms h by (cases h) (auto simp: heap_invar_def insertable_def heap_events_def)
    show "\<forall>x\<in>heap_events (h @ [e]). event_ok x"
      using assms h by (cases h) (auto simp: heap_invar_def insertable_def heap_events_def)
  qed (use h' in auto)
  ultimately show ?thesis using same_events_set by metis
qed

text \<open>Taking the last slot into a hole at \<open>k\<close>: the order may fail below \<open>k\<close>, and above it
  unless the moved event is not earlier than the parent of the hole.\<close>

lemma hole_sinking:
  assumes "is_heap h" "1 \<le> k" "k < length h" "k = 1 \<or> k = Last h \<or> h ! (k div 2) \<le> h ! Last h"
  shows "sinking_heap (butlast (list_swap h k (Last h))) k"
proof -
  let ?g = "butlast (list_swap h k (Last h))"
  have len: "length ?g = length h - 1" "Last h < length h" "Last h = length h - 1"
    using assms by (auto simp: Last_def)
  have nth: "?g ! i = (if i = k then h ! Last h else h ! i)" if "i < length ?g" for i
    using assms that len by (simp add: nth_butlast nth_list_swap)
  have ord: "h ! (i div 2) \<le> h ! i" if "2 \<le> i" "i < length h" for i
    using assms(1) that by (simp add: heap_order_defs)
  have "ordered_at ?g i" if i: "2 \<le> i" "i < length ?g" "i div 2 \<noteq> k" for i
    using i ord [of i] assms(4) len nth [of i] nth [of "i div 2"] by (auto simp: ordered_at_def)
  moreover have "?g ! (k div 2) \<le> ?g ! i" if i: "i < length ?g" "i div 2 = k" "2 \<le> k" for i
  proof -
    have "i \<noteq> k" "k div 2 \<noteq> k" "k div 2 < length ?g" "k < length h" "2 \<le> i" using i by auto
    then show ?thesis
      using i nth ord [of i] ord [of k] len order_trans [of "h ! (k div 2)" "h ! k" "h ! i"] by auto
  qed
  ultimately show ?thesis
    by (auto simp: sinking_heap_def bypass_def)
qed

lemma hole_events:
  assumes "1 \<le> k" "k < length h" "distinct (map uid (tl h))"
  defines "g \<equiv> butlast (list_swap h k (Last h))"
  shows "heap_events g = heap_events h - {h ! k}" "distinct (map uid (tl g))" "g \<noteq> []"
proof -
  let ?s = "list_swap h k (Last h)"
  have L: "1 \<le> Last h" "Last h < length h" "Last h = length ?s - 1" "length ?s > 1"
    using assms(1,2) by (auto simp: Last_def)
  have se: "same_events h ?s" using assms L by (intro same_events_swap) auto
  have "?s ! Last h = h ! k" using assms L by (simp add: nth_list_swap)
  then have "?s = g @ [h ! k]"
    unfolding g_def using L by (metis append_butlast_last_id last_conv_nth length_greater_0_conv
        less_trans zero_less_one)
  moreover show g: "g \<noteq> []" using L(4) by (auto simp: g_def simp flip: length_greater_0_conv)
  ultimately have tl: "tl ?s = tl g @ [h ! k]" by (cases g) auto
  have d: "distinct (map uid (tl ?s))" using se assms(3) by (simp add: same_events_distinct)
  then show "distinct (map uid (tl g))" using tl by simp
  have "heap_events h = insert (h ! k) (heap_events g)" "h ! k \<notin> heap_events g"
    using same_events_set [OF se] tl d by (auto simp: heap_events_def)
  then show "heap_events g = heap_events h - {h ! k}" by auto
qed

lemma hole_TopDown:
  assumes "heap_invar h" "1 \<le> k" "k < length h"
    "k = 1 \<or> k = Last h \<or> h ! (k div 2) \<le> h ! Last h"
  shows "\<exists>h'. bind_res (Exch h k (Last h)) (\<lambda>g. TopDown (butlast g) k) = Inr h' \<and> heap_invar h' \<and>
    heap_events h' = heap_events h - {h ! k}"
proof -
  let ?g = "butlast (list_swap h k (Last h))"
  have inv: "is_heap h" "distinct (map uid (tl h))" "\<forall>e\<in>heap_events h. event_ok e"
    using assms(1) by (auto simp: heap_invar_def)
  note ev = hole_events [OF assms(2,3) inv(2)]
  obtain h' where h': "TopDown ?g k = Inr h'" "is_heap h'" "same_events ?g h'"
    using TopDown_ok [OF hole_sinking [OF inv(1) assms(2-4)] assms(2)] by blast
  have "heap_invar h'"
    using same_events_invar [OF h'(3)] ev inv(3) h'(2) by simp
  moreover have "Exch h k (Last h) = Inr (list_swap h k (Last h))"
    using assms by (intro Exch_in_range) (auto simp: Last_def)
  ultimately show ?thesis
    using h' same_events_set [OF h'(3)] ev by simp
qed

lemma heap_RemoveNext_ok:
  assumes "heap_invar h" "heap_events h \<noteq> {}"
  shows "\<exists>e h'. heap_RemoveNext h = Inr (e, h') \<and> least_event (heap_events h) e \<and> heap_invar h' \<and>
    heap_events h' = heap_events h - {e}"
proof -
  have l: "1 < length h"
    using assms heap_empty_iff [of h] by (cases h) (auto simp: heap_invar_def)
  then obtain h' where "bind_res (Exch h 1 (Last h)) (\<lambda>g. TopDown (butlast g) 1) = Inr h'"
    "heap_invar h'" "heap_events h' = heap_events h - {h ! 1}"
    using hole_TopDown [OF assms(1), of 1] by auto
  moreover have "least_event (heap_events h) (h ! 1)"
    using l assms(1) heap_root_least by (auto simp: least_event_def heap_events_nth heap_invar_def)
  ultimately show ?thesis
    using l by (auto simp: heap_RemoveNext_def heap_PeekNext_def Root_def elim!: bind_res_eq_InrE)
qed

interpretation heap_queue: event_queue heap_ops heap_invar heap_events "\<lambda>_. 0"
proof
  fix h e
  assume inv: "heap_invar h"
  show "finite (heap_events h)" by (simp add: heap_events_def)
  show "inj_on uid (heap_events h)" using inv by (simp add: heap_invar_def heap_events_def distinct_map)
  show "0 \<le> ts e \<and> event_ok e" if "e \<in> heap_events h" using inv that by (simp add: heap_invar_def)
  show "IsEmpty heap_ops h \<longleftrightarrow> heap_events h = {}"
    using inv heap_empty_iff [of h] by (simp add: heap_ops_def heap_IsEmpty_def heap_invar_def)
  show "\<exists>h'. Insert heap_ops e h = Inr h' \<and> heap_invar h' \<and> heap_events h' = insert e (heap_events h)
      \<and> 0 = (0 :: u64)" if "insertable (heap_events h) 0 e"
    using heap_Insert_ok [OF inv that] by (simp add: heap_ops_def)
  show "\<exists>e. PeekNext heap_ops h = Inr e \<and> least_event (heap_events h) e" if "heap_events h \<noteq> {}"
    using heap_RemoveNext_ok [OF inv that]
    by (auto simp: heap_ops_def heap_RemoveNext_def elim!: bind_res_eq_InrE)
  show "\<exists>e h'. RemoveNext heap_ops h = Inr (e, h') \<and> least_event (heap_events h) e \<and> heap_invar h' \<and>
      heap_events h' = heap_events h - {e} \<and> 0 \<le> ts e" if "heap_events h \<noteq> {}"
    using heap_RemoveNext_ok [OF inv that] by (simp add: heap_ops_def)
qed

lemma heap_invar_new [simp]: "heap_invar heap_new" "heap_events heap_new = {}"
  by (auto simp: heap_invar_def heap_new_def is_heap_def heap_events_def)

section \<open>Remove\<close>

lemma heap_Remove_from_found:
  assumes "distinct (map uid (tl h))" "1 \<le> i" "i \<le> k" "k < length h"
  shows "heap_Remove_from (h ! k) h i = bind_res (Exch h k (Last h)) (\<lambda>g. TopDown (butlast g) k)"
  using assms(2-4)
proof (induction "k - i" arbitrary: i)
  case 0
  then have "k = i" by simp
  with 0 show ?case by (simp add: heap_Remove_from.simps [of "h ! i" h i])
next
  case (Suc d)
  then have ik: "i < k" by auto
  have "uid (h ! i) \<noteq> uid (h ! k)"
  proof -
    obtain x xs where h: "h = x # xs" using assms(4) by (cases h) auto
    then have "distinct (map uid xs)" using assms(1) by simp
    moreover have "i - 1 \<noteq> k - 1" "i - 1 < length xs" "k - 1 < length xs"
      using ik Suc.prems assms(4) h by auto
    ultimately have "map uid xs ! (i - 1) \<noteq> map uid xs ! (k - 1)"
      by (simp only: nth_eq_iff_index_eq length_map) simp
    then show ?thesis using h ik Suc.prems assms(4) by (simp add: nth_Cons')
  qed
  moreover have "heap_Remove_from (h ! k) h (Suc i) =
      bind_res (Exch h k (Last h)) (\<lambda>g. TopDown (butlast g) k)"
    using Suc.hyps(1) [of "Suc i"] Suc.hyps(2) Suc.prems ik by simp
  ultimately show ?case
    using ik assms(4) by (simp add: heap_Remove_from.simps [of "h ! k" h i])
qed

definition heap_demo_event :: "u32 \<Rightarrow> event" where
  "heap_demo_event n = Event 1 (EventKey (ucast n) n 0)"

definition heap_demo :: heap where
  "heap_demo = heap_new @ map heap_demo_event [1, 4, 2, 7]"

lemma heap_demo_invar: "heap_invar heap_demo"
proof -
  have "ordered_at heap_demo i" if "2 \<le> i" "i < 5" for i
  proof -
    have "i = 2 \<or> i = 3 \<or> i = 4" using that by auto
    then show ?thesis
      by (auto simp: ordered_at_def heap_demo_def heap_new_def heap_demo_event_def less_eq_event_def
          less_eq_event_key_def key_less_def)
  qed
  then show ?thesis
    by (auto simp: heap_invar_def is_heap_def heap_events_def heap_demo_def heap_new_def
        heap_demo_event_def event_ok_def ts_bound_def)
qed

section \<open>Results\<close>

text \<open>
  C28: from any valid state of the heap scheduler, repeated \<^verbatim>\<open>RemoveNext\<close> delivers every pending
  event exactly once, in order of time stamp and id, and empties the heap; as many rounds as
  there are pending events suffice.
\<close>

theorem heap_delivers_in_order:
  assumes "heap_invar h" "card (heap_events h) \<le> n"
  shows "\<exists>es h'. drain heap_ops n h = Some (Inr (es, h')) \<and> sorted_wrt (\<le>) es \<and> distinct es \<and>
    set es = heap_events h \<and> heap_IsEmpty h'"
  using heap_queue.drain_sorted [OF assms] heap_queue.IsEmpty_iff by (fastforce simp: heap_ops_def)

theorem heap_delivers_in_order_witness:
  "\<exists>es h'. drain heap_ops 4 heap_demo = Some (Inr (es, h')) \<and> sorted_wrt (\<le>) es \<and>
    set es = heap_demo_event ` {1, 2, 4, 7} \<and> heap_IsEmpty h'"
proof -
  have s: "heap_events heap_demo = heap_demo_event ` {1, 2, 4, 7}"
    by (auto simp: heap_demo_def heap_new_def heap_events_def)
  then have "card (heap_events heap_demo) \<le> card {1, 2, 4, 7 :: u32}"
    by (simp only: card_image_le finite.intros)
  also have "\<dots> = 4" by simp
  finally have "card (heap_events heap_demo) \<le> 4" .
  then show ?thesis using heap_delivers_in_order [OF heap_demo_invar, of 4] s by auto
qed

text \<open>
  \<^verbatim>\<open>Insert\<close> into a valid heap of an event with a new id and a time stamp in range returns,
  keeps the heap valid and adds exactly that event.
\<close>

theorem heap_insert_adds:
  assumes "heap_invar h" "insertable (heap_events h) 0 e"
  shows "\<exists>h'. heap_Insert e h = Inr h' \<and> heap_invar h' \<and> heap_events h' = insert e (heap_events h) \<and>
    length h' = length h + 1"
proof -
  obtain h' where h': "heap_Insert e h = Inr h'" "heap_invar h'"
    "heap_events h' = insert e (heap_events h)"
    using heap_Insert_ok [OF assms] by blast
  have c: "card (heap_events g) = length g - 1" "g \<noteq> []" if "heap_invar g" for g
    using that distinct_card [of "tl g"]
    by (auto simp: heap_invar_def heap_events_def distinct_map)
  have "e \<notin> heap_events h" using assms(2) by (auto simp: insertable_def)
  then have "card (heap_events h') = Suc (card (heap_events h))"
    using h'(3) by (simp add: heap_events_def)
  then have "length h' = length h + 1"
    using c [OF assms(1)] c [OF h'(2)] by (cases h; cases h') auto
  with h' show ?thesis by blast
qed

theorem heap_insert_adds_witness:
  "\<exists>h'. heap_Insert (heap_demo_event 3) heap_demo = Inr h' \<and> heap_invar h' \<and> length h' = 6"
proof -
  have "insertable (heap_events heap_demo) 0 (heap_demo_event 3)"
    by (simp add: insertable_def heap_demo_def heap_new_def heap_events_def heap_demo_event_def event_ok_def ts_bound_def)
  moreover have "length heap_demo + 1 = 6" by (simp add: heap_demo_def heap_new_def)
  ultimately show ?thesis using heap_insert_adds [OF heap_demo_invar] by metis
qed

text \<open>
  C29: where the event moved into the hole is not earlier than the parent of the hole (or the
  hole is the root or the last slot), \<^verbatim>\<open>Remove\<close> keeps the heap valid and takes out exactly the
  given event.
\<close>

theorem heap_remove_takes_out:
  assumes "heap_invar h" "1 \<le> k" "k < length h"
    "k = 1 \<or> k = Last h \<or> h ! (k div 2) \<le> h ! Last h"
  shows "\<exists>h'. heap_Remove (h ! k) h = Inr h' \<and> heap_invar h' \<and>
    heap_events h' = heap_events h - {h ! k}"
  using hole_TopDown [OF assms] heap_Remove_from_found [of h 1 k] assms
  by (simp add: heap_Remove_def heap_invar_def)

theorem heap_remove_takes_out_witness:
  "\<exists>h'. heap_Remove (heap_demo_event 4) heap_demo = Inr h' \<and> heap_invar h' \<and>
    heap_demo_event 4 \<notin> heap_events h'"
proof -
  have k: "heap_demo ! 2 = heap_demo_event 4" "heap_demo ! (2 div 2) \<le> heap_demo ! Last heap_demo"
    "2 < length heap_demo"
    by (simp_all add: heap_demo_def heap_new_def Last_def heap_demo_event_def less_eq_event_def
          less_eq_event_key_def key_less_def)
  then show ?thesis using heap_remove_takes_out [OF heap_demo_invar, of 2] by auto
qed

text \<open>Where the moved event is earlier than the parent of the hole, it is earlier than everything below the hole too, and stays there.\<close>

lemma hole_stays:
  assumes "is_heap h" "2 \<le> k" "k < Last h" "h ! Last h < h ! (k div 2)"
  defines "g \<equiv> butlast (list_swap h k (Last h))"
  shows "TopDown g k = Inr g" "g ! k = h ! Last h" "g ! (k div 2) = h ! (k div 2)"
proof -
  have len: "length g = length h - 1" "Last h = length h - 1" "k < length g" "k < length h"
    using assms(2,3) by (auto simp: g_def Last_def)
  have nth: "g ! i = (if i = k then h ! Last h else h ! i)" if "i < length g" for i
    using that len by (simp add: g_def nth_butlast nth_list_swap)
  show gk: "g ! k = h ! Last h" "g ! (k div 2) = h ! (k div 2)"
    using nth [of k] nth [of "k div 2"] len assms(2) by (auto simp: less_imp_diff_less)
  have below: "g ! k < g ! i" if "i < length g" "i div 2 = k" for i
  proof -
    have "h ! k \<le> h ! i" "h ! (k div 2) \<le> h ! k"
      using assms(1,2) that len by (auto simp: heap_order_defs)
    then have "h ! Last h < h ! i" using assms(4) by (meson less_le_trans order_trans)
    moreover have "i \<noteq> k" using that(2) assms(2) by auto
    ultimately show ?thesis using gk(1) nth [OF that(1)] by simp
  qed
  have tmp: "Smallest g (2 * k) (2 * k + 1) = 2 * k \<or> Smallest g (2 * k) (2 * k + 1) = 2 * k + 1" by (auto simp: Smallest_def)
  have "2 * k div 2 = k" "(2 * k + 1) div 2 = k" by simp_all
  then show "TopDown g k = Inr g"
    using tmp below [of "2 * k"] below [of "2 * k + 1"]
    by (auto simp: TopDown.simps [of g k] IsBottom_def RightChild_def LeftChild_def IsLessStrictly_def mult.commute Let_def)
qed

text \<open>
  C30: where the event moved into the hole would have to rise, \<^verbatim>\<open>Remove\<close> breaks the heap. Take a valid heap and an event that is neither at the root nor in the last slot, such that the
  event in the last slot is earlier than the parent of the one removed: \<^verbatim>\<open>Remove\<close> takes out exactly the given event and fails no assertion, but it
  leaves the event from the last slot below its later parent, so the result is no valid heap. \<^verbatim>\<open>Remove\<close> only sinks the event moved into the hole, and
  here it would have to rise.
\<close>

theorem heap_remove_loses_order:
  assumes "heap_invar h" "2 \<le> k" "k < Last h" "h ! Last h < h ! (k div 2)"
  shows "\<exists>h'. heap_Remove (h ! k) h = Inr h' \<and> heap_events h' = heap_events h - {h ! k} \<and>
    h' ! k = h ! Last h \<and> h' ! k < h' ! (k div 2) \<and> \<not> heap_invar h'"
proof -
  let ?g = "butlast (list_swap h k (Last h))"
  have inv: "is_heap h" "distinct (map uid (tl h))" using assms(1) by (auto simp: heap_invar_def)
  have k: "1 \<le> k" "k < length h" "Last h < length h" "k < length ?g" using assms(2,3) by (auto simp: Last_def)
  note stays = hole_stays [OF inv(1) assms(2-4)]
  have "heap_Remove (h ! k) h = Inr ?g"
    using heap_Remove_from_found [OF inv(2), of 1 k] k stays(1) by (simp add: heap_Remove_def Exch_in_range)
  moreover have lt: "?g ! k < ?g ! (k div 2)" using stays(2,3) assms(4) by simp
  then have "\<not> ordered_at ?g k" by (simp add: ordered_at_def less_le_not_le)
  then have "\<not> heap_invar ?g" using assms(2) k(4) by (auto simp: heap_invar_def is_heap_def)
  ultimately show ?thesis using hole_events(1) [OF k(1,2) inv(2)] stays(2) lt by auto
qed

text \<open>A valid heap of seven events, and the order in which what \<^verbatim>\<open>Remove\<close> leaves of it is delivered: 4 before 3.\<close>

definition heap_demo_deep :: heap where
  "heap_demo_deep = heap_new @ map heap_demo_event [1, 4, 2, 7, 5, 6, 3]"

lemma heap_demo_deep_invar: "heap_invar heap_demo_deep"
proof -
  have "ordered_at heap_demo_deep i" if "2 \<le> i" "i < 8" for i
  proof -
    have "i \<in> {2, 3, 4, 5, 6, 7}" using that by auto
    then show ?thesis
      by (auto simp: ordered_at_def heap_demo_deep_def heap_new_def heap_demo_event_def less_eq_event_def less_eq_event_key_def key_less_def)
  qed
  then show ?thesis
    by (auto simp: heap_invar_def is_heap_def heap_events_def heap_demo_deep_def heap_new_def heap_demo_event_def event_ok_def ts_bound_def)
qed

lemma heap_remove_run:
  "bind_res (heap_Remove (heap_demo_event 7) heap_demo_deep) (\<lambda>g.
     case drain heap_ops 6 g of
       Some (Inr (es, _)) \<Rightarrow> Inr (map ts es)
     | _ \<Rightarrow> Inl Fatal_Error) = Inr [1, 2, 4, 3, 5, 6]"
  by code_simp

theorem heap_remove_loses_order_witness:
  "\<exists>h'. heap_Remove (heap_demo_event 7) heap_demo_deep = Inr h' \<and> h' ! 4 = heap_demo_event 3 \<and> \<not> heap_invar h'"
proof -
  have k: "heap_demo_deep ! 4 = heap_demo_event 7" "heap_demo_deep ! Last heap_demo_deep = heap_demo_event 3"
    "heap_demo_deep ! (4 div 2) = heap_demo_event 4" "4 < Last heap_demo_deep"
    by (simp_all add: heap_demo_deep_def heap_new_def Last_def)
  moreover have "heap_demo_event 3 < heap_demo_event 4"
    by (simp add: heap_demo_event_def less_event_def less_event_key_def key_less_def)
  ultimately show ?thesis using heap_remove_loses_order [OF heap_demo_deep_invar, of 4] by auto
qed

end
