(* ===== verification/Default_Simulator.thy ===== *)
theory Default_Simulator
  imports Simulator_Impl Map_Scheduler Heap_Scheduler
begin

text \<open>
  The simulator as the Swift experiment runs it: \<^verbatim>\<open>DefaultSimulatorImpl\<close> over the default
  \<^verbatim>\<open>MapScheduler\<close>. The facts proved in the locale of the scheduler contract are read off
  through the interpretation \<open>map_sched\<close>.
\<close>

abbreviation map_sim_inv :: "event_map sim \<Rightarrow> bool" where
  "map_sim_inv \<equiv> sim_inv (\<lambda>m. list_invar (map_abs m)) (\<lambda>m. set (map_abs m)) (\<lambda>_. 0)"

abbreviation map_well_behaved :: "(impl_ptr \<Rightarrow> event_map sim \<Rightarrow> event_map sim res) \<Rightarrow> bool" where
  "map_well_behaved \<equiv> well_behaved map_ops (\<lambda>m. list_invar (map_abs m)) (\<lambda>m. set (map_abs m)) (\<lambda>_. 0)"

abbreviation map_schedules_nothing :: "(impl_ptr \<Rightarrow> event_map sim \<Rightarrow> event_map sim res) \<Rightarrow> bool" where
  "map_schedules_nothing \<equiv> schedules_nothing (\<lambda>m. list_invar (map_abs m)) (\<lambda>m. set (map_abs m)) (\<lambda>_. 0)"

abbreviation map_pending :: "event_map sim \<Rightarrow> event set" where
  "map_pending s \<equiv> set (map_abs (sim_events s))"

interpretation map_sim: simulator_client map_ops "\<lambda>m. list_invar (map_abs m)"
  "\<lambda>m. set (map_abs m)" "\<lambda>_. 0"
  by unfold_locales

section \<open>A small experiment\<close>

text \<open>Two events at the same time; handling the first schedules a third one five ticks later
  and cancels nothing. It serves as the concrete input of the results below.\<close>

definition demo_sim :: "event_map sim" where
  "demo_sim = (sim_new [(EventKey 3 4 0, 1), (EventKey 3 5 0, 2)])
     \<lparr>sim_uid := 6, sim_unscheduledEvents := 2\<rparr>"


lemma demo_sim_inv: "map_sim_inv demo_sim"
  by (simp add: demo_sim_def sim_new_def sim_inv_def list_invar_def after_current_def uid_consts
      event_ok_def ts_bound_def less_event_def less_event_key_def key_less_def)

lemma demo_pending:
  "map_pending demo_sim = {Event 1 (EventKey 3 4 0), Event 2 (EventKey 3 5 0)}"
  by (simp add: demo_sim_def sim_new_def)


lemma cancel_all_well_behaved:
  "map_well_behaved (\<lambda>p s. Inr (sim_Stop s))"
  by (auto simp: well_behaved_def intro!: r_into_rtranclp api_Stop)

lemma cancel_all_schedules_nothing: "map_schedules_nothing (\<lambda>p s. Inr (sim_Stop s))"
  by (auto simp: schedules_nothing_def sim_Stop_def)

section \<open>Running\<close>



text \<open>
  C2: when the code of the events schedules no further events, \<^verbatim>\<open>Run\<close> returns after at most
  as many rounds as there are pending events, without a failed assertion.
\<close>

theorem simulator_run_returns:
  assumes "map_sim_inv s" "map_well_behaved notify" "map_schedules_nothing notify"
    "card (map_pending s) \<le> n"
  shows "\<exists>es s'. sim_Run map_ops notify n s = Some (Inr (es, s'))"
  using map_sim.Run_terminates [OF assms] map_sim.Run_ok [OF assms(1,2)] by blast

theorem simulator_run_returns_witness:
  "\<exists>es s'. sim_Run map_ops (\<lambda>p s. Inr (sim_Stop s)) 2 demo_sim = Some (Inr (es, s'))"
  by (rule simulator_run_returns [OF demo_sim_inv cancel_all_well_behaved cancel_all_schedules_nothing])
    (simp add: demo_pending)



section \<open>Cancelling\<close>

lemma eid_impl_id: "eid_impl (id_of_event e) = impl e"
  by (simp add: id_of_event_def)

text \<open>
  \<^verbatim>\<open>Schedule\<close> followed by \<^verbatim>\<open>Remove\<close> of the handle it returned leaves the pending events
  and the count \<^verbatim>\<open>Run\<close> checks as they were, keeps the invariant, and the handle then reads as
  expired.
\<close>

theorem schedule_then_remove:
  assumes "map_sim_inv s" "uid_room s" "p \<noteq> 0" "delay_room s d" "\<not> sim_cancelled s p"
  shows "\<exists>i s1 s2. sim_Schedule map_ops True d p s = Inr (i, s1) \<and> \<not> sim_IsExpired s1 i \<and>
    sim_Remove map_ops i s1 = Inr s2 \<and> map_sim_inv s2 \<and> map_pending s2 = map_pending s \<and>
    sim_unscheduledEvents s2 = sim_unscheduledEvents s \<and> sim_IsExpired s2 i"
proof -
  obtain ev s1 where s1: "sim_Schedule map_ops True d p s = Inr (id_of_event ev, s1)"
    "ev = Event p (EventKey (word_of_int (d + uint (sim_currentTs s))) (sim_uid s) (sim_currentContext s))"
    "map_sim_inv s1" "map_pending s1 = insert ev (map_pending s)" "sim_cancelled s1 = sim_cancelled s"
    using map_sim.Schedule_ok [OF assms(1-4)] by metis
  let ?i = "id_of_event ev"
  have ev: "ev \<in> map_pending s1" "impl ev = p" using s1(2,4) by auto
  then have live: "\<not> sim_IsExpired s1 ?i"
    using map_sim.pending_not_expired [OF s1(3)] s1(5) assms(5) by simp
  have uid: "eid_uid ?i \<noteq> UID_DESTROY"
    using s1(2) assms(1) by (auto simp: id_of_event_def sim_inv_def uid_consts)
  have g: "genuine (map_pending s1) s1 ?i" using ev by (simp add: genuine_def)
  obtain s2 where s2: "sim_Remove map_ops ?i s1 = Inr s2" "map_sim_inv s2"
    "map_pending s2 = map_pending s1 - {ev}" "sim_cancelled s2 p"
    using map_sim.Remove_ok_sim [OF s1(3) g] live uid ev(2) eid_impl_id [of ev] by auto
  have "ev \<notin> map_pending s" using map_sim.inv_fresh [OF assms(1)] s1(2) by force
  then have pend: "map_pending s2 = map_pending s" using s2(3) s1(4) by auto
  moreover have "sim_unscheduledEvents s2 = sim_unscheduledEvents s"
    using s2(2) assms(1) pend by (simp add: sim_inv_def)
  moreover have "sim_IsExpired s2 ?i"
    using s2(4) uid ev(2) by (simp add: sim_IsExpired_def id_of_event_def)
  ultimately show ?thesis using s1(1) live s2(1,2) by blast
qed

theorem schedule_then_remove_witness:
  "\<exists>i s1 s2. sim_Schedule map_ops True 7 9 demo_sim = Inr (i, s1) \<and>
    sim_Remove map_ops i s1 = Inr s2 \<and> map_pending s2 = map_pending demo_sim \<and> sim_IsExpired s2 i"
proof -
  have "uid_room demo_sim" "delay_room demo_sim 7" "\<not> sim_cancelled demo_sim 9"
    by (simp_all add: uid_room_def delay_room_def demo_sim_def sim_new_def)
  then show ?thesis using schedule_then_remove [OF demo_sim_inv, of 9 7] by auto
qed

section \<open>Changing the scheduler\<close>

text \<open>
  \<^verbatim>\<open>SetScheduler\<close> from the map scheduler to the heap scheduler moves exactly the pending
  events, and the new scheduler is in a valid state. As many rounds as there are pending
  events suffice.
\<close>

theorem set_scheduler_keeps_events:
  assumes "list_invar (map_abs m)" "length m \<le> n"
  shows "\<exists>h. sim_SetScheduler map_ops heap_ops heap_new n m = Some (Inr h) \<and> heap_invar h \<and>
    heap_events h = set (map_abs m)"
proof -
  have "card (set (map_abs m)) \<le> n"
    using assms(2) card_length [of "map_abs m"] by (simp add: map_abs_def)
  then obtain es m' where es: "drain map_ops n m = Some (Inr (es, m'))" "distinct es"
    "set es = set (map_abs m)"
    using map_sched.drain_sorted [OF assms(1)] by blast
  moreover have "distinct (map uid es)"
    using es(2,3) map_sched.inj_uid [OF assms(1)] by (simp add: distinct_map)
  moreover have "\<forall>e\<in>set es. insertable (heap_events heap_new) 0 e"
    using es(3) map_sched.base_le [OF assms(1)] by (simp add: insertable_def)
  ultimately show ?thesis
    using heap_queue.insert_all_ok [of heap_new es] by (auto simp: sim_SetScheduler_def)
qed

theorem set_scheduler_keeps_events_witness:
  "\<exists>h. sim_SetScheduler map_ops heap_ops heap_new 2 (sim_events demo_sim) = Some (Inr h) \<and>
     heap_events h = {Event 1 (EventKey 3 4 0), Event 2 (EventKey 3 5 0)}"
proof -
  have "list_invar (map_abs (sim_events demo_sim))" using demo_sim_inv by (simp add: sim_inv_def)
  moreover have "length (sim_events demo_sim) \<le> 2" by (simp add: demo_sim_def sim_new_def)
  ultimately show ?thesis
    using set_scheduler_keeps_events [of "sim_events demo_sim" 2] demo_pending by auto
qed

end
