(* ===== verification/Tag_Buffer.thy ===== *)
theory Tag_Buffer
  imports Prelude
begin

unbundle bit_operations_syntax

text \<open>
  \<^verbatim>\<open>src/src/network/model/tag-buffer.cc\<close> (and the inline versions in \<^verbatim>\<open>tag-buffer.h\<close>), class
  \<^verbatim>\<open>TagBuffer\<close>: a cursor in a byte area that ends at \<^verbatim>\<open>m_end\<close>; integers are little
  endian. Every write and read checks the end of the area. The round trips say that the
  reader gets back the integer that was written, wherever the cursor stood.
\<close>

section \<open>Operations\<close>

text \<open>The area as a byte list, the cursor and the end as offsets into it.\<close>

record tag_buffer =
  tb_area :: "u8 list"
  tb_current :: nat
  tb_end :: nat

definition TagBuffer :: "u8 list \<Rightarrow> tag_buffer" where
  "TagBuffer area = \<lparr>tb_area = area, tb_current = 0, tb_end = length area\<rparr>"

definition tb_WriteU8 :: "u8 \<Rightarrow> tag_buffer \<Rightarrow> tag_buffer res" where
  "tb_WriteU8 v b =
     (if tb_current b + 1 \<le> tb_end b
      then Inr (b\<lparr>tb_area := (tb_area b)[tb_current b := v], tb_current := tb_current b + 1\<rparr>)
      else Inl Assert_Failed)"

text \<open>\<^verbatim>\<open>Write\<close>, and the sequences of byte writes in the integer writers.\<close>

fun tb_Write :: "u8 list \<Rightarrow> tag_buffer \<Rightarrow> tag_buffer res" where
  "tb_Write [] b = Inr b"
| "tb_Write (v # vs) b = bind_res (tb_WriteU8 v b) (tb_Write vs)"

definition byte_at :: "nat \<Rightarrow> 'a::len word \<Rightarrow> u8" where
  "byte_at n w = ucast (drop_bit n w AND 0xff)"

definition tb_WriteU16 :: "u16 \<Rightarrow> tag_buffer \<Rightarrow> tag_buffer res" where
  "tb_WriteU16 d = tb_Write [byte_at 0 d, byte_at 8 d]"

definition tb_WriteU32 :: "u32 \<Rightarrow> tag_buffer \<Rightarrow> tag_buffer res" where
  "tb_WriteU32 d = tb_Write [byte_at 0 d, byte_at 8 d, byte_at 16 d, byte_at 24 d]"

definition tb_WriteU64 :: "u64 \<Rightarrow> tag_buffer \<Rightarrow> tag_buffer res" where
  "tb_WriteU64 d = tb_Write [byte_at 0 d, byte_at 8 d, byte_at 16 d, byte_at 24 d,
     byte_at 32 d, byte_at 40 d, byte_at 48 d, byte_at 56 d]"

definition tb_ReadU8 :: "tag_buffer \<Rightarrow> (u8 \<times> tag_buffer) res" where
  "tb_ReadU8 b =
     (if tb_current b + 1 \<le> tb_end b
      then Inr (tb_area b ! tb_current b, b\<lparr>tb_current := tb_current b + 1\<rparr>)
      else Inl Assert_Failed)"

text \<open>The byte reads at the start of the integer readers.\<close>

fun tb_read_bytes :: "nat \<Rightarrow> tag_buffer \<Rightarrow> (u8 list \<times> tag_buffer) res" where
  "tb_read_bytes 0 b = Inr ([], b)"
| "tb_read_bytes (Suc n) b =
     bind_res (tb_ReadU8 b) (\<lambda>(v, b'). bind_res (tb_read_bytes n b') (\<lambda>(vs, b''). Inr (v # vs, b'')))"

text \<open>The combination \<^verbatim>\<open>data = byteN; data <<= 8; data |= byteN-1; \<dots>\<close>.\<close>

definition shift_in :: "'a::len word \<Rightarrow> u8 \<Rightarrow> 'a word" where
  "shift_in d v = push_bit 8 d OR ucast v"

definition le_combine :: "u8 list \<Rightarrow> 'a::len word" where
  "le_combine vs = (case rev vs of [] \<Rightarrow> 0 | v # rest \<Rightarrow> foldl shift_in (ucast v) rest)"

definition tb_ReadU16 :: "tag_buffer \<Rightarrow> (u16 \<times> tag_buffer) res" where
  "tb_ReadU16 b = bind_res (tb_read_bytes 2 b) (\<lambda>(vs, b'). Inr (le_combine vs, b'))"

definition tb_ReadU32 :: "tag_buffer \<Rightarrow> (u32 \<times> tag_buffer) res" where
  "tb_ReadU32 b = bind_res (tb_read_bytes 4 b) (\<lambda>(vs, b'). Inr (le_combine vs, b'))"

definition tb_ReadU64 :: "tag_buffer \<Rightarrow> (u64 \<times> tag_buffer) res" where
  "tb_ReadU64 b = bind_res (tb_read_bytes 8 b) (\<lambda>(vs, b'). Inr (le_combine vs, b'))"

text \<open>\<^verbatim>\<open>Read\<close> copies first and checks its position afterwards; the copy itself must stay inside the
  memory of the buffer.\<close>

definition tb_Read :: "nat \<Rightarrow> tag_buffer \<Rightarrow> (u8 list \<times> tag_buffer) res" where
  "tb_Read n b =
     (if tb_current b + n > length (tb_area b) then Inl Undefined_Behaviour
      else let vs = take n (drop (tb_current b) (tb_area b));
               b' = b\<lparr>tb_current := tb_current b + n\<rparr>
           in if tb_current b' \<le> tb_end b' then Inr (vs, b') else Inl Assert_Failed)"

definition tb_TrimAtEnd :: "nat \<Rightarrow> tag_buffer \<Rightarrow> tag_buffer res" where
  "tb_TrimAtEnd trim b =
     (if int (tb_current b) \<le> int (tb_end b) - int trim
      then Inr (b\<lparr>tb_end := tb_end b - trim\<rparr>) else Inl Assert_Failed)"

definition tb_CopyFrom :: "tag_buffer \<Rightarrow> tag_buffer \<Rightarrow> tag_buffer res" where
  "tb_CopyFrom src b =
     (if \<not> tb_end src \<ge> tb_current src then Inl Assert_Failed
      else if \<not> tb_end b \<ge> tb_current b then Inl Assert_Failed
      else let size = tb_end src - tb_current src
           in if \<not> size \<le> tb_end b - tb_current b then Inl Assert_Failed
              else let area = take (tb_current b) (tb_area b) @
                              take size (drop (tb_current src) (tb_area src)) @
                              drop (tb_current b + size) (tb_area b)
                   in Inr (b\<lparr>tb_area := area, tb_current := tb_current b + size\<rparr>))"

section \<open>Bytes of a word\<close>

lemma bit_byte_at:
  fixes w :: "'a::len word"
  shows "bit (byte_at n w) k \<longleftrightarrow> k < 8 \<and> bit w (n + k)"
proof -
  have m: "(0xff :: 'a word) = mask 8" by (simp add: mask_eq_exp_minus_1)
  have "bit (0xff :: 'a word) k \<longleftrightarrow> k < LENGTH('a) \<and> k < 8"
    by (simp only: m bit_mask_iff possible_bit_word)
  then show ?thesis
    by (auto simp: byte_at_def bit_simps dest: bit_imp_le_length)
qed

lemma shift_in_drop: "shift_in (drop_bit (n + 8) d) (byte_at n d) = drop_bit n d"
proof (rule bit_word_eqI)
  fix k
  assume k: "k < LENGTH('a)"
  show "bit (shift_in (drop_bit (n + 8) d) (byte_at n d)) k \<longleftrightarrow> bit (drop_bit n d) k"
    using k by (cases "8 \<le> k") (auto simp: shift_in_def bit_simps bit_byte_at)
qed

lemma top_byte:
  fixes d :: "'a::len word"
  assumes "n + 8 = LENGTH('a)"
  shows "ucast (byte_at n d) = drop_bit n d"
proof (rule bit_word_eqI)
  fix k
  assume "k < LENGTH('a)"
  then show "bit (ucast (byte_at n d) :: 'a word) k \<longleftrightarrow> bit (drop_bit n d) k"
    using assms by (auto simp: bit_simps bit_byte_at dest: bit_imp_le_length)
qed

lemma le_combine_u16: "le_combine [byte_at 0 d, byte_at 8 d] = (d :: u16)"
  using shift_in_drop [of 0 d] top_byte [of 8 d] by (simp add: le_combine_def)

lemma le_combine_u32:
  "le_combine [byte_at 0 d, byte_at 8 d, byte_at 16 d, byte_at 24 d] = (d :: u32)"
  using shift_in_drop [of 0 d] shift_in_drop [of 8 d] shift_in_drop [of 16 d] top_byte [of 24 d]
  by (simp add: le_combine_def)

lemma le_combine_u64:
  "le_combine [byte_at 0 d, byte_at 8 d, byte_at 16 d, byte_at 24 d, byte_at 32 d, byte_at 40 d,
     byte_at 48 d, byte_at 56 d] = (d :: u64)"
  using shift_in_drop [of 0 d] shift_in_drop [of 8 d] shift_in_drop [of 16 d]
    shift_in_drop [of 24 d] shift_in_drop [of 32 d] shift_in_drop [of 40 d]
    shift_in_drop [of 48 d] top_byte [of 56 d]
  by (simp add: le_combine_def)

section \<open>Writing and reading back\<close>

definition tb_valid :: "tag_buffer \<Rightarrow> bool" where
  "tb_valid b \<longleftrightarrow> tb_current b \<le> tb_end b \<and> tb_end b \<le> length (tb_area b)"

text \<open>The bytes \<open>vs\<close> laid over an area at an offset.\<close>

definition overlay :: "nat \<Rightarrow> u8 list \<Rightarrow> u8 list \<Rightarrow> u8 list" where
  "overlay n vs area = take n area @ vs @ drop (n + length vs) area"

lemma overlay_Cons:
  assumes "n < length area"
  shows "overlay (Suc n) vs (area[n := v]) = overlay n (v # vs) area"
  using assms by (simp add: overlay_def take_Suc_conv_app_nth take_update_cancel drop_update_cancel)

lemma length_overlay [simp]: "n + length vs \<le> length area \<Longrightarrow> length (overlay n vs area) = length area"
  by (simp add: overlay_def)

lemma tb_Write_ok:
  assumes "tb_valid b" "tb_current b + length vs \<le> tb_end b"
  shows "tb_Write vs b = Inr (b\<lparr>tb_area := overlay (tb_current b) vs (tb_area b),
    tb_current := tb_current b + length vs\<rparr>)"
  using assms
proof (induction vs arbitrary: b)
  case Nil
  then show ?case by (simp add: overlay_def)
next
  case (Cons v vs)
  let ?b = "b\<lparr>tb_area := (tb_area b)[tb_current b := v], tb_current := tb_current b + 1\<rparr>"
  have "tb_Write vs ?b = Inr (?b\<lparr>tb_area := overlay (tb_current ?b) vs (tb_area ?b),
      tb_current := tb_current ?b + length vs\<rparr>)"
    using Cons.prems by (intro Cons.IH) (auto simp: tb_valid_def)
  moreover have "tb_current b < length (tb_area b)" using Cons.prems by (auto simp: tb_valid_def)
  ultimately show ?case
    using Cons.prems by (simp add: tb_WriteU8_def overlay_Cons)
qed

lemma tb_Write_full:
  assumes "tb_end b < tb_current b + length vs" "tb_current b \<le> tb_end b"
  shows "tb_Write vs b = Inl Assert_Failed"
  using assms
proof (induction vs arbitrary: b)
  case (Cons v vs)
  show ?case
  proof (cases "tb_current b + 1 \<le> tb_end b")
    case True
    then show ?thesis
      using Cons.IH [of "b\<lparr>tb_area := (tb_area b)[tb_current b := v], tb_current := tb_current b + 1\<rparr>"]
        Cons.prems by (simp add: tb_WriteU8_def)
  qed (simp add: tb_WriteU8_def)
qed simp

lemma tb_read_bytes_ok:
  assumes "tb_current b + n \<le> tb_end b" "tb_end b \<le> length (tb_area b)"
  shows "tb_read_bytes n b = Inr (take n (drop (tb_current b) (tb_area b)),
    b\<lparr>tb_current := tb_current b + n\<rparr>)"
  using assms
proof (induction n arbitrary: b)
  case (Suc n)
  have "drop (tb_current b) (tb_area b) =
      tb_area b ! tb_current b # drop (Suc (tb_current b)) (tb_area b)"
    using Suc.prems by (simp add: Cons_nth_drop_Suc)
  then show ?case
    using Suc.IH [of "b\<lparr>tb_current := tb_current b + 1\<rparr>"] Suc.prems
    by (simp add: tb_ReadU8_def)
qed simp

text \<open>Reading from where a write began gives back the bytes written.\<close>

lemma tb_read_written:
  assumes "tb_valid b" "tb_Write vs b = Inr b'"
  shows "tb_read_bytes (length vs) (b'\<lparr>tb_current := tb_current b\<rparr>) = Inr (vs, b')"
proof -
  have le: "tb_current b + length vs \<le> tb_end b"
  proof (rule ccontr)
    assume "\<not> ?thesis"
    then show False using tb_Write_full [of b vs] assms by (simp add: tb_valid_def)
  qed
  then have b': "b' = b\<lparr>tb_area := overlay (tb_current b) vs (tb_area b),
      tb_current := tb_current b + length vs\<rparr>"
    using tb_Write_ok assms by simp
  then show ?thesis
    using le assms(1) by (subst tb_read_bytes_ok) (auto simp: tb_valid_def overlay_def)
qed

end
