(* ===== verification/Delay_Tag.thy ===== *)
theory Delay_Tag
  imports Tag_Buffer Nstime
begin

text \<open>
  \<^verbatim>\<open>src/scratch/Swift/my-delay-tag.h\<close>, class \<^verbatim>\<open>MyDelayTag\<close>: the packet tag with which the
  Swift experiment measures per-hop delay. The tag is written and read through a
  \<^verbatim>\<open>TagBuffer\<close>; \<^verbatim>\<open>Ipv4L3Protocol::Receive\<close> updates it at every hop
  (\<^verbatim>\<open>src/src/internet/model/ipv4-l3-protocol.cc\<close>, the block marked TAG HANDLING).
\<close>

section \<open>The tag\<close>

record delay_tag =
  m_lastHopTimestampNs :: u64
  m_maxDelayNs :: u64
  dt_hops :: u64

definition MyDelayTag :: delay_tag where
  "MyDelayTag = \<lparr>m_lastHopTimestampNs = 0, m_maxDelayNs = 0, dt_hops = 0\<rparr>"

definition SetLastHopTimestamp :: "u64 \<Rightarrow> delay_tag \<Rightarrow> delay_tag" where
  "SetLastHopTimestamp t g = g\<lparr>m_lastHopTimestampNs := t\<rparr>"

definition SetMaxDelay :: "u64 \<Rightarrow> delay_tag \<Rightarrow> delay_tag" where
  "SetMaxDelay d g = g\<lparr>m_maxDelayNs := d\<rparr>"

definition AddHops :: "delay_tag \<Rightarrow> delay_tag" where
  "AddHops g = g\<lparr>dt_hops := dt_hops g + 1\<rparr>"

definition dt_GetSerializedSize :: nat where
  "dt_GetSerializedSize = 24"

definition dt_Serialize :: "delay_tag \<Rightarrow> tag_buffer \<Rightarrow> tag_buffer res" where
  "dt_Serialize g i =
     bind_res (tb_WriteU64 (m_lastHopTimestampNs g) i) (\<lambda>i.
     bind_res (tb_WriteU64 (m_maxDelayNs g) i) (\<lambda>i.
     tb_WriteU64 (dt_hops g) i))"

definition dt_Deserialize :: "tag_buffer \<Rightarrow> delay_tag res" where
  "dt_Deserialize i =
     bind_res (tb_ReadU64 i) (\<lambda>(a, i).
     bind_res (tb_ReadU64 i) (\<lambda>(b, i).
     bind_res (tb_ReadU64 i) (\<lambda>(c, i).
     Inr \<lparr>m_lastHopTimestampNs = a, m_maxDelayNs = b, dt_hops = c\<rparr>)))"

section \<open>The update at each hop\<close>

text \<open>The tag of the packet before and after \<^verbatim>\<open>Receive\<close>, \<open>None\<close> when the packet has no such
  tag. On the first hop \<^verbatim>\<open>AddPacketTag\<close> stores the tag before \<^verbatim>\<open>AddHops\<close> is called on the
  local copy, which is then dropped.\<close>

definition receive_delay_tag :: "int \<Rightarrow> delay_tag option \<Rightarrow> delay_tag res" where
  "receive_delay_tag now stored =
     (case stored of
        None \<Rightarrow>
          (let delayTag = SetLastHopTimestamp (word_of_int now) MyDelayTag;
               delayTag = SetMaxDelay 0 delayTag;
               packet_tag = delayTag;
               delayTag = AddHops delayTag
           in Inr packet_tag)
      | Some delayTag \<Rightarrow>
          bind_res (time_sub now (TimeStep (m_lastHopTimestampNs delayTag))) (\<lambda>perHopDelay.
            let currentMax = m_maxDelayNs delayTag;
                newDelay = word_of_int perHopDelay;
                currentMax = (if newDelay > currentMax then newDelay else currentMax);
                delayTag = SetLastHopTimestamp (word_of_int now) delayTag;
                delayTag = SetMaxDelay currentMax delayTag
            in Inr (AddHops delayTag)))"

text \<open>A packet on its way: the times at which the IP layer of each node receives it.\<close>

fun travel :: "int list \<Rightarrow> delay_tag option \<Rightarrow> delay_tag option res" where
  "travel [] g = Inr g"
| "travel (t # ts) g = bind_res (receive_delay_tag t g) (\<lambda>g'. travel ts (Some g'))"

section \<open>Round trip\<close>

definition le_bytes64 :: "u64 \<Rightarrow> u8 list" where
  "le_bytes64 d = [byte_at 0 d, byte_at 8 d, byte_at 16 d, byte_at 24 d, byte_at 32 d, byte_at 40 d,
     byte_at 48 d, byte_at 56 d]"

lemma length_le_bytes64 [simp]: "length (le_bytes64 d) = 8"
  by (simp add: le_bytes64_def)

lemma tb_u64_step:
  assumes "tb_valid b" "tb_current b + 8 \<le> tb_end b"
  shows "\<exists>b'. tb_WriteU64 d b = Inr b' \<and> tb_valid b' \<and> tb_end b' = tb_end b \<and>
    tb_current b' = tb_current b + 8 \<and> length (tb_area b') = length (tb_area b) \<and>
    take (tb_current b) (tb_area b') = take (tb_current b) (tb_area b) \<and>
    take 8 (drop (tb_current b) (tb_area b')) = le_bytes64 d"
proof -
  let ?vs = "le_bytes64 d"
  have "tb_Write ?vs b = Inr (b\<lparr>tb_area := overlay (tb_current b) ?vs (tb_area b),
      tb_current := tb_current b + length ?vs\<rparr>)"
    using assms by (intro tb_Write_ok) (auto simp: le_bytes64_def)
  then show ?thesis
    using assms by (auto simp: tb_WriteU64_def tb_valid_def overlay_def le_bytes64_def)
qed

lemma tb_ReadU64_bytes:
  assumes "tb_current b + 8 \<le> tb_end b" "tb_end b \<le> length (tb_area b)"
    "take 8 (drop (tb_current b) (tb_area b)) = le_bytes64 d"
  shows "tb_ReadU64 b = Inr (d, b\<lparr>tb_current := tb_current b + 8\<rparr>)"
  using assms by (simp add: tb_ReadU64_def tb_read_bytes_ok le_combine_u64 le_bytes64_def)

lemma take_drop_take_eq:
  assumes "take n xs = take n ys" "k + m \<le> n"
  shows "take m (drop k xs) = take m (drop k ys)"
proof -
  have "take m (drop k zs) = drop k (take (k + m) (take n zs))" for zs :: "'a list"
    using assms(2) by (simp add: take_drop min.absorb1 add.commute)
  then show ?thesis by (simp only: assms(1))
qed

text \<open>
  A delay tag written into an area of the size it asks for is read back unchanged,
  whatever the area held before.
\<close>

theorem delay_tag_roundtrip:
  assumes "length area = dt_GetSerializedSize"
  shows "\<exists>b. dt_Serialize g (TagBuffer area) = Inr b \<and> dt_Deserialize (TagBuffer (tb_area b)) = Inr g"
proof -
  let ?b0 = "TagBuffer area"
  have 0: "tb_valid ?b0" "tb_current ?b0 + 8 \<le> tb_end ?b0" "tb_end ?b0 = 24" "tb_current ?b0 = 0"
    using assms by (auto simp: TagBuffer_def tb_valid_def dt_GetSerializedSize_def)
  obtain b1 where 1: "tb_WriteU64 (m_lastHopTimestampNs g) ?b0 = Inr b1" "tb_valid b1"
    "tb_end b1 = 24" "tb_current b1 = 8" "length (tb_area b1) = 24"
    "take 8 (tb_area b1) = le_bytes64 (m_lastHopTimestampNs g)"
    using tb_u64_step [OF 0(1,2), of "m_lastHopTimestampNs g"] 0(3,4) assms
    by (auto simp: TagBuffer_def dt_GetSerializedSize_def)
  obtain b2 where 2: "tb_WriteU64 (m_maxDelayNs g) b1 = Inr b2" "tb_valid b2"
    "tb_end b2 = 24" "tb_current b2 = 16" "length (tb_area b2) = 24"
    "take 8 (tb_area b2) = take 8 (tb_area b1)" "take 8 (drop 8 (tb_area b2)) = le_bytes64 (m_maxDelayNs g)"
    using tb_u64_step [OF 1(2), of "m_maxDelayNs g"] 1 by auto
  obtain b3 where 3: "tb_WriteU64 (dt_hops g) b2 = Inr b3" "tb_valid b3"
    "tb_end b3 = 24" "length (tb_area b3) = 24"
    "take 16 (tb_area b3) = take 16 (tb_area b2)" "take 8 (drop 16 (tb_area b3)) = le_bytes64 (dt_hops g)"
    using tb_u64_step [OF 2(2), of "dt_hops g"] 2 by auto
  have w: "take 8 (tb_area b3) = take 8 (tb_area b1)" "take 8 (drop 8 (tb_area b3)) = take 8 (drop 8 (tb_area b2))"
    using take_drop_take_eq [OF 3(5), of 0 8] take_drop_take_eq [OF 3(5), of 8 8] 2(6) by auto
  have "dt_Serialize g ?b0 = Inr b3" using 1 2 3 by (simp add: dt_Serialize_def)
  moreover have "dt_Deserialize (TagBuffer (tb_area b3)) = Inr g"
  proof -
    have "tb_ReadU64 \<lparr>tb_area = tb_area b3, tb_current = 16, tb_end = 24\<rparr> =
        Inr (dt_hops g, \<lparr>tb_area = tb_area b3, tb_current = 24, tb_end = 24\<rparr>)"
      using 3(4,6) by (subst tb_ReadU64_bytes [where d = "dt_hops g"]) simp_all
    then show ?thesis
      unfolding dt_Deserialize_def TagBuffer_def
      using 1(6) 2(7) 3(4) w by (simp add: tb_ReadU64_bytes)
  qed
  ultimately show ?thesis by blast
qed

theorem delay_tag_roundtrip_witness:
  "\<exists>b. dt_Serialize \<lparr>m_lastHopTimestampNs = 7, m_maxDelayNs = 2 ^ 63, dt_hops = 3\<rparr>
      (TagBuffer (replicate 24 0)) = Inr b \<and>
    dt_Deserialize (TagBuffer (tb_area b)) =
      Inr \<lparr>m_lastHopTimestampNs = 7, m_maxDelayNs = 2 ^ 63, dt_hops = 3\<rparr>"
  by (rule delay_tag_roundtrip) (simp add: dt_GetSerializedSize_def)

section \<open>What the tag measures\<close>

text \<open>The largest time between two consecutive receptions.\<close>

fun max_gap :: "int \<Rightarrow> int list \<Rightarrow> int" where
  "max_gap prev [] = 0"
| "max_gap prev (t # ts) = max (t - prev) (max_gap t ts)"

lemma max_gap_nonneg: "0 \<le> max_gap p ts"
  by (induction p ts rule: max_gap.induct) (auto simp: le_max_iff_disj)

definition clock_times :: "int list \<Rightarrow> bool" where
  "clock_times ts \<longleftrightarrow> sorted ts \<and> (\<forall>t\<in>set ts. 0 \<le> t \<and> t < 2 ^ 63)"

lemma receive_tagged:
  assumes "uint (m_lastHopTimestampNs g) = p" "0 \<le> p" "p \<le> t" "t < 2 ^ 63"
  shows "\<exists>g'. receive_delay_tag t (Some g) = Inr g' \<and> uint (m_lastHopTimestampNs g') = t \<and>
    uint (m_maxDelayNs g') = max (uint (m_maxDelayNs g)) (t - p) \<and> dt_hops g' = dt_hops g + 1"
proof -
  let ?w = "word_of_int (t - p) :: u64"
  have last: "m_lastHopTimestampNs g = word_of_int p" using assms(1) by auto
  have "TimeStep (m_lastHopTimestampNs g) = p"
    using assms last by (simp add: TimeStep_of_time)
  moreover have "int64_range (t - p)" using assms by (auto simp: int64_range_def)
  moreover have d: "uint ?w = t - p" using uint_of_time(1) [of "t - p"] assms by simp
  moreover have "?w > m_maxDelayNs g \<longleftrightarrow> t - p > uint (m_maxDelayNs g)"
    by (simp only: word_less_def d)
  moreover have "uint (word_of_int t :: u64) = t" using uint_of_time(1) [of t] assms by simp
  ultimately show ?thesis
    by (simp add: receive_delay_tag_def time_sub_def Let_def SetLastHopTimestamp_def SetMaxDelay_def
        AddHops_def)
qed

lemma travel_tagged:
  assumes "uint (m_lastHopTimestampNs g) = p" "clock_times (p # ts)"
  shows "\<exists>g'. travel ts (Some g) = Inr (Some g') \<and> uint (m_lastHopTimestampNs g') = last (p # ts) \<and>
    uint (m_maxDelayNs g') = max (uint (m_maxDelayNs g)) (max_gap p ts) \<and>
    dt_hops g' = dt_hops g + of_nat (length ts)"
  using assms
proof (induction ts arbitrary: g p)
  case Nil
  then show ?case using uint_ge_0 [of "m_maxDelayNs g"] by (simp add: max_def)
next
  case (Cons t ts)
  then have p: "0 \<le> p" "p \<le> t" "t < 2 ^ 63" "clock_times (t # ts)" by (auto simp: clock_times_def)
  obtain g1 where g1: "receive_delay_tag t (Some g) = Inr g1" "uint (m_lastHopTimestampNs g1) = t"
    "uint (m_maxDelayNs g1) = max (uint (m_maxDelayNs g)) (t - p)" "dt_hops g1 = dt_hops g + 1"
    using receive_tagged [OF Cons.prems(1) p(1-3)] by blast
  then show ?case using Cons.IH [OF g1(2) p(4)] by (auto simp: max.assoc)
qed

text \<open>
  C32: the tag of a packet received by the IP layer of successive nodes at the times
  \<open>t # ts\<close> holds the time of the last reception, the largest time between two consecutive
  receptions, and one less than the number of receptions: the first reception is not counted,
  because \<^verbatim>\<open>AddHops\<close> is applied to the local copy after the tag was stored.
\<close>

theorem delay_tag_measures:
  assumes "clock_times (t # ts)" "length ts < 2 ^ 64"
  shows "\<exists>g. travel (t # ts) None = Inr (Some g) \<and> uint (m_lastHopTimestampNs g) = last (t # ts) \<and>
    uint (m_maxDelayNs g) = max_gap t ts \<and> unat (dt_hops g) = length ts"
proof -
  let ?g = "\<lparr>m_lastHopTimestampNs = word_of_int t, m_maxDelayNs = 0, dt_hops = 0\<rparr> :: delay_tag"
  have "uint (m_lastHopTimestampNs ?g) = t"
    using assms(1) uint_of_time(1) [of t] by (simp add: clock_times_def)
  from travel_tagged [OF this assms(1)] obtain g where g: "travel ts (Some ?g) = Inr (Some g)"
    "uint (m_lastHopTimestampNs g) = last (t # ts)" "uint (m_maxDelayNs g) = max 0 (max_gap t ts)"
    "dt_hops g = of_nat (length ts)"
    by auto
  have "0 \<le> max_gap t ts" by (rule max_gap_nonneg)
  moreover have "unat (of_nat (length ts) :: u64) = length ts"
    using assms(2) by (simp add: unat_of_nat take_bit_nat_eq_self)
  ultimately show ?thesis
    using g by (simp add: receive_delay_tag_def Let_def SetLastHopTimestamp_def SetMaxDelay_def
        MyDelayTag_def)
qed

theorem delay_tag_measures_witness:
  "\<exists>g. travel [5, 12, 40, 41] None = Inr (Some g) \<and> uint (m_lastHopTimestampNs g) = 41 \<and>
    uint (m_maxDelayNs g) = 28 \<and> unat (dt_hops g) = 3"
  using delay_tag_measures [of 5 "[12, 40, 41]"]
  by (simp add: clock_times_def numeral_3_eq_3 del: travel.simps)

end
