(* ===== verification/Sequence_Number.thy ===== *)
theory Sequence_Number
  imports Prelude
begin

text \<open>
  \<^verbatim>\<open>src/src/network/utils/sequence-number.h\<close>, the template instance \<^verbatim>\<open>SequenceNumber32\<close>
  (\<^verbatim>\<open>uint32_t\<close>, \<^verbatim>\<open>int32_t\<close>): TCP sequence numbers on the circle of \<open>2 ^ 32\<close> values. The
  comparison is shown to be the order of the distances from any reference point within
  half the circle, and subtraction to be the signed distance, with the one pair of
  arguments at which the code's negation overflows.
\<close>

type_synonym seq = u32

section \<open>Operations\<close>

definition seq_maxValue :: u32 where
  "seq_maxValue = 0xffffffff"

definition seq_halfMaxValue :: u32 where
  "seq_halfMaxValue = 0x7fffffff"

definition seq_add :: "seq \<Rightarrow> int \<Rightarrow> seq" where
  "seq_add s delta = s + word_of_int delta"

definition seq_sub :: "seq \<Rightarrow> int \<Rightarrow> seq" where
  "seq_sub s delta = s - word_of_int delta"

text \<open>\<^verbatim>\<open>-\<close> on \<^verbatim>\<open>int32_t\<close>: the negation of the least value overflows.\<close>

definition neg_int32 :: "int \<Rightarrow> int res" where
  "neg_int32 x = (if x = - (2 ^ 31) then Inl Undefined_Behaviour else Inr (- x))"

definition seq_diff :: "seq \<Rightarrow> seq \<Rightarrow> int res" where
  "seq_diff a b =
     (if a > b
      then let diff = a - b
           in if diff < seq_halfMaxValue then Inr (sint diff)
              else neg_int32 (sint (seq_maxValue - a + 1 + b))
      else let diff = b - a
           in if diff < seq_halfMaxValue then neg_int32 (sint diff)
              else Inr (sint (seq_maxValue - b + 1 + a)))"

definition seq_gt :: "seq \<Rightarrow> seq \<Rightarrow> bool" where
  "seq_gt a b \<longleftrightarrow> (a > b \<and> a - b \<le> seq_halfMaxValue) \<or> (b > a \<and> b - a > seq_halfMaxValue)"

definition seq_le :: "seq \<Rightarrow> seq \<Rightarrow> bool" where
  "seq_le a b \<longleftrightarrow> \<not> seq_gt a b"

definition seq_ge :: "seq \<Rightarrow> seq \<Rightarrow> bool" where
  "seq_ge a b \<longleftrightarrow> seq_gt a b \<or> a = b"

definition seq_lt :: "seq \<Rightarrow> seq \<Rightarrow> bool" where
  "seq_lt a b \<longleftrightarrow> \<not> seq_gt a b \<and> a \<noteq> b"

lemmas seq_compare_defs = seq_le_def seq_ge_def seq_lt_def

section \<open>The order on the circle\<close>

lemma unat_sub_cases:
  fixes a b :: u32
  shows "unat (a - b) = (if unat b \<le> unat a then unat a - unat b else unat a + 2 ^ 32 - unat b)"
  by (simp add: unat_sub_if')

lemma seq_gt_iff_distance:
  "seq_gt a b \<longleftrightarrow> 0 < unat (a - b) \<and> unat (a - b) < 2 ^ 31 \<or> unat (a - b) = 2 ^ 31 \<and> a < b"
  using unat_u32_less [of a] unat_u32_less [of b]
  by (auto simp: seq_gt_def seq_halfMaxValue_def word_less_nat_alt word_le_nat_alt unat_sub_cases)

lemma seq_gt_irrefl [simp]: "\<not> seq_gt a a"
  by (simp add: seq_gt_def)

lemma seq_gt_asym: "seq_gt a b \<Longrightarrow> \<not> seq_gt b a"
  by (auto simp: seq_gt_def)

lemma seq_gt_total: "a \<noteq> b \<Longrightarrow> seq_gt a b \<or> seq_gt b a"
  by (auto simp: seq_gt_def not_le)

lemma seq_ge_le: "seq_ge a b \<longleftrightarrow> seq_le b a"
  using seq_gt_asym seq_gt_total by (auto simp: seq_compare_defs)

lemma seq_lt_gt: "seq_lt a b \<longleftrightarrow> seq_gt b a"
  using seq_gt_asym seq_gt_total by (auto simp: seq_compare_defs)

text \<open>Measured from a reference point that lies less than half the circle behind both
  numbers, the circular order is the order of the distances.\<close>

definition seq_off :: "seq \<Rightarrow> seq \<Rightarrow> nat" where
  "seq_off base s = unat (s - base)"

lemma seq_gt_off:
  assumes "seq_off base a < 2 ^ 31" "seq_off base b < 2 ^ 31"
  shows "seq_gt a b \<longleftrightarrow> seq_off base b < seq_off base a"
proof -
  have "a - b = (a - base) - (b - base)" by simp
  then have "unat (a - b) = (if seq_off base b \<le> seq_off base a
      then seq_off base a - seq_off base b else seq_off base a + 2 ^ 32 - seq_off base b)"
    unfolding seq_off_def by (metis unat_sub_cases)
  then show ?thesis using assms by (auto simp: seq_gt_iff_distance split: if_splits)
qed

lemma seq_off_inj: "seq_off base a = seq_off base b \<longleftrightarrow> a = b"
  unfolding seq_off_def by (metis diff_add_cancel word_unat_eq_iff)

lemma seq_compare_off:
  assumes "seq_off base a < 2 ^ 31" "seq_off base b < 2 ^ 31"
  shows "seq_lt a b \<longleftrightarrow> seq_off base a < seq_off base b"
    and "seq_le a b \<longleftrightarrow> seq_off base a \<le> seq_off base b"
    and "seq_ge a b \<longleftrightarrow> seq_off base b \<le> seq_off base a"
  using assms seq_gt_off [of base] seq_off_inj [of base a b]
  by (auto simp: seq_lt_gt seq_le_def seq_ge_def)

section \<open>Signed distance\<close>

lemma uint_u32_less: "uint (w :: u32) < 2 ^ 32"
  using uint_bounded [of w] by simp

lemma uint_sub_cases:
  fixes a b :: u32
  shows "uint (a - b) = (if uint b \<le> uint a then uint a - uint b else uint a - uint b + 2 ^ 32)"
  by (simp add: uint_sub_if')

lemma sint_u32: "sint (w :: u32) = (if uint w < 2 ^ 31 then uint w else uint w - 2 ^ 32)"
proof -
  have "sint w = (uint w + 2 ^ 31) mod 2 ^ 32 - 2 ^ 31"
    by (simp add: sint_uint signed_take_bit_eq_take_bit_shift take_bit_eq_mod)
  also have "\<dots> = (if uint w < 2 ^ 31 then uint w else uint w - 2 ^ 32)"
  proof (cases "uint w < 2 ^ 31")
    case False
    have "(uint w + 2 ^ 31) mod 2 ^ 32 = (uint w - 2 ^ 31 + 2 ^ 32) mod 2 ^ 32"
      by (simp add: add.commute)
    also have "\<dots> = (uint w - 2 ^ 31) mod 2 ^ 32" by (rule mod_add_self2)
    finally show ?thesis using False uint_u32_less [of w] by simp
  qed simp
  finally show ?thesis .
qed

lemma neg_int32_sint:
  fixes w :: u32
  shows "neg_int32 (sint w) =
    (if uint w = 2 ^ 31 then Inl Undefined_Behaviour else Inr (sint (- w)))"
proof -
  have "uint (- w) = (if uint w = 0 then 0 else 2 ^ 32 - uint w)"
    using uint_sub_cases [of 0 w] uint_ge_0 [of w] by auto
  moreover have "uint w \<noteq> - 2147483648" using uint_ge_0 [of w] by linarith
  ultimately show ?thesis
    using uint_u32_less [of w] by (auto simp: neg_int32_def sint_u32)
qed

text \<open>\<^verbatim>\<open>operator-\<close> is the signed distance, except at a distance of exactly half the circle with
  the larger value on the left, where the code negates the least \<^verbatim>\<open>int32_t\<close>.\<close>

lemma seq_diff_eq:
  "seq_diff a b = (if a - b = 0x80000000 \<and> a > b then Inl Undefined_Behaviour
                   else Inr (sint (a - b)))"
proof -
  have wrap: "seq_maxValue - x + 1 + y = y - x" for x y
    by (simp add: seq_maxValue_def)
  have neg: "- (b - a) = a - b" by simp
  have half: "uint (b - a) = 2 ^ 31 \<longleftrightarrow> a - b = 0x80000000"
    using uint_u32_less [of a] uint_u32_less [of b] uint_ge_0 [of a] uint_ge_0 [of b]
    by (auto simp: word_uint_eq_iff uint_sub_cases split: if_splits)
  show ?thesis
    unfolding seq_diff_def Let_def wrap neg_int32_sint neg half
    using uint_u32_less [of a] uint_u32_less [of b] uint_ge_0 [of a] uint_ge_0 [of b]
    by (auto simp: seq_halfMaxValue_def word_less_def word_uint_eq_iff uint_sub_cases split: if_splits)
qed

section \<open>Results\<close>

lemma diff_diff_cancel_base: "(a - base) - (b - base) = a - (b :: u32)"
  by simp

lemma seq_diff_off:
  assumes "seq_off base a < 2 ^ 31" "seq_off base b < 2 ^ 31"
  shows "seq_diff a b = Inr (int (seq_off base a) - int (seq_off base b))"
proof -
  have "uint (a - base) = int (seq_off base a)" "uint (b - base) = int (seq_off base b)"
    by (simp_all add: seq_off_def)
  then have u: "uint (a - b) = (if seq_off base b \<le> seq_off base a
      then int (seq_off base a) - int (seq_off base b)
      else int (seq_off base a) - int (seq_off base b) + 2 ^ 32)"
    using uint_sub_cases [of "a - base" "b - base"] by (simp only: diff_diff_cancel_base of_nat_le_iff)
  have "a - b \<noteq> 0x80000000"
    using u assms by (auto simp: word_uint_eq_iff split: if_splits)
  then have "seq_diff a b = Inr (sint (a - b))" by (simp add: seq_diff_eq)
  also have "sint (a - b) = int (seq_off base a) - int (seq_off base b)"
    unfolding sint_u32 u using assms by auto
  finally show ?thesis .
qed

text \<open>
  C33: within a window of less than half the sequence space the circular comparisons and the
  difference are those of the distances from the start of the window, also where the numbers
  wrap around zero.
\<close>

theorem seq_window_order:
  assumes "seq_off base a < 2 ^ 31" "seq_off base b < 2 ^ 31"
  shows "(seq_lt a b \<longleftrightarrow> seq_off base a < seq_off base b) \<and>
    (seq_gt a b \<longleftrightarrow> seq_off base b < seq_off base a) \<and>
    (seq_le a b \<longleftrightarrow> seq_off base a \<le> seq_off base b) \<and>
    (seq_ge a b \<longleftrightarrow> seq_off base b \<le> seq_off base a) \<and>
    seq_diff a b = Inr (int (seq_off base a) - int (seq_off base b))"
  using seq_compare_off [OF assms] seq_gt_off [OF assms] seq_diff_off [OF assms] by simp

theorem seq_window_order_witness:
  "seq_lt (0xfffffff0 :: seq) 5 \<and> seq_gt (5 :: seq) 0xfffffff0 \<and> seq_diff 5 0xfffffff0 = Inr 21"
  using seq_window_order [of "0xfffffff0" 5 "0xfffffff0"] seq_window_order [of "0xfffffff0" "0xfffffff0" 5]
  by (simp add: seq_off_def)

text \<open>
  C34: for any two sequence numbers exactly one of less, equal and greater holds, and the
  difference is the signed 32-bit distance, except at a distance of exactly half the space
  with the larger number on the left: there \<^verbatim>\<open>operator-\<close> negates the least \<^verbatim>\<open>int32_t\<close>, which
  C++ leaves undefined.
\<close>

theorem seq_trichotomy_and_difference:
  "(seq_lt a b \<and> a \<noteq> b \<and> \<not> seq_gt a b \<or> \<not> seq_lt a b \<and> a = b \<and> \<not> seq_gt a b \<or>
    \<not> seq_lt a b \<and> a \<noteq> b \<and> seq_gt a b) \<and>
   seq_diff a b = (if a - b = 0x80000000 \<and> a > b then Inl Undefined_Behaviour
                   else Inr (sint (a - b)))"
  using seq_gt_total [of a b] seq_gt_asym [of a b] seq_lt_gt [of a b] seq_diff_eq [of a b] by auto

end
