(* ===== verification/Ieee_Double.thy ===== *)
theory Ieee_Double
  imports Prelude Complex_Main "HOL-Library.Log_Nat"
begin

text \<open>
  The C++ type \<^verbatim>\<open>double\<close> as the sources use it: IEEE 754 arithmetic with 53 bits of precision,
  rounding to nearest with ties to even, and the \<^verbatim>\<open>long double\<close> of the x86-64 platform with 64
  bits. A finite value is a rational number; every operation computes exactly and rounds once.
  Zeros carry no sign: a division by zero takes the divisor to be a positive zero. The
  conversions to unsigned integers truncate, and are undefined behaviour out of range.

  The facts the clients need of rounding (it is monotone and leaves representable numbers
  alone) are the laws of the locale \<open>rounding\<close>, which the definition interprets.
\<close>

section \<open>Rounding\<close>

definition round_even :: "rat \<Rightarrow> int" where
  "round_even q =
     (let f = \<lfloor>q\<rfloor>; d = q - of_int f
      in if d < 1 / 2 then f else if d > 1 / 2 then f + 1 else if even f then f else f + 1)"

text \<open>Powers of two, by repeated squaring when they are evaluated.\<close>

definition pow2 :: "int \<Rightarrow> rat" where
  "pow2 k = 2 powi k"

function pow2_int :: "int \<Rightarrow> int" where
  "pow2_int k =
     (if k \<le> 0 then 1
      else let h = pow2_int (k div 2) in if even k then h * h else 2 * h * h)"
  by auto
termination
  by (relation "measure nat") auto

declare pow2_int.simps [simp del]

lemma pow2_int_eq: "0 \<le> k \<Longrightarrow> pow2_int k = 2 ^ nat k"
proof (induction k rule: pow2_int.induct)
  case (1 k)
  show ?case
  proof (cases "k \<le> 0")
    case True
    then show ?thesis using "1.prems" by (simp add: pow2_int.simps)
  next
    case False
    then have h: "pow2_int (k div 2) = 2 ^ nat (k div 2)" using 1 by simp
    have n: "nat k = nat (k div 2) + nat (k div 2) + (if even k then 0 else 1)"
      using False by (auto elim!: evenE oddE simp: nat_mult_distrib nat_add_distrib)
    show ?thesis
      using False by (simp add: pow2_int.simps [of k] h Let_def n power_add mult.assoc)
  qed
qed

lemma pow2_code [code]:
  "pow2 k = (if 0 \<le> k then of_int (pow2_int k) else 1 / of_int (pow2_int (- k)))"
proof (cases "0 \<le> k")
  case False
  then have "(2 :: rat) powi k = 1 / 2 ^ nat (- k)"
    using power_int_minus_divide [of "2 :: rat" "- k"] by (simp add: power_int_nonneg_exp)
  then show ?thesis using False by (simp add: pow2_def pow2_int_eq)
qed (simp add: pow2_def pow2_int_eq power_int_nonneg_exp)

text \<open>The exponent of the leading bit of a positive rational.\<close>

definition lg :: "rat \<Rightarrow> int" where
  "lg q = (case quotient_of q of (a, b) \<Rightarrow>
     let k = bitlen a - bitlen b in if q < pow2 k then k - 1 else k)"

definition ulp_exp :: "int \<Rightarrow> int \<Rightarrow> rat \<Rightarrow> int" where
  "ulp_exp p emin q = max emin (lg q - (p - 1))"

definition rnd_pos :: "int \<Rightarrow> int \<Rightarrow> rat \<Rightarrow> rat" where
  "rnd_pos p emin q =
     (let e = ulp_exp p emin q in of_int (round_even (q / pow2 e)) * pow2 e)"

definition rnd :: "int \<Rightarrow> int \<Rightarrow> rat \<Rightarrow> rat" where
  "rnd p emin q = (if q = 0 then 0 else if q > 0 then rnd_pos p emin q else - rnd_pos p emin (- q))"

lemma round_even_le: "q \<le> of_int n \<Longrightarrow> round_even q \<le> n"
  and round_even_ge: "of_int n \<le> q \<Longrightarrow> n \<le> round_even q"
proof -
  assume "q \<le> of_int n"
  then have "\<lfloor>q\<rfloor> < n \<or> q = of_int n"
    by (metis floor_less_iff order_le_less)
  then show "round_even q \<le> n" by (auto simp: round_even_def Let_def)
next
  assume "of_int n \<le> q"
  then have "n \<le> \<lfloor>q\<rfloor>" by (simp add: le_floor_iff)
  then show "n \<le> round_even q" by (auto simp: round_even_def Let_def)
qed

lemma round_even_of_int [simp]: "round_even (of_int n) = n"
  by (simp add: round_even_def)

lemma round_even_mono: "x \<le> y \<Longrightarrow> round_even x \<le> round_even y"
proof -
  assume xy: "x \<le> y"
  consider "\<lfloor>x\<rfloor> = \<lfloor>y\<rfloor>" | "\<lfloor>x\<rfloor> + 1 \<le> \<lfloor>y\<rfloor>" using floor_mono [OF xy] by linarith
  then show ?thesis
  proof cases
    case 1
    then show ?thesis using xy by (auto simp: round_even_def Let_def)
  next
    case 2
    have "round_even x \<le> \<lfloor>x\<rfloor> + 1" by (rule round_even_le) linarith
    also have "\<dots> \<le> round_even y" using 2 by (intro round_even_ge) linarith
    finally show ?thesis .
  qed
qed

lemma powi2_pos [simp]: "0 < (2 :: rat) powi k"
  by simp

lemma powi2_less_iff [simp]: "(2 :: rat) powi a < 2 powi b \<longleftrightarrow> a < b"
  using power_int_strict_increasing [of a b "2 :: rat"] power_int_increasing [of b a "2 :: rat"]
  by (cases "a < b") auto

lemma powi2_le_iff [simp]: "(2 :: rat) powi a \<le> 2 powi b \<longleftrightarrow> a \<le> b"
  by (simp add: not_less [symmetric])

lemma powi2_eq_of_int: "0 \<le> k \<Longrightarrow> (2 :: rat) powi k = of_int (2 ^ nat k)"
  by (simp add: power_int_def)

lemma lg_bounds:
  assumes "0 < q"
  shows "2 powi (lg q) \<le> q" "q < 2 powi (lg q + 1)"
proof -
  obtain a b where ab: "quotient_of q = (a, b)" by fastforce
  have b: "0 < b" "q = of_int a / of_int b"
    using ab by (auto simp: quotient_of_denom_pos quotient_of_div)
  then have a: "0 < a" using assms by (simp add: zero_less_divide_iff)
  define k l where "k = bitlen a" and "l = bitlen b"
  have kl: "0 < k" "0 < l"
    using a b bitlen_nonneg [of a] bitlen_nonneg [of b] bitlen_eq_zero_iff [of a] bitlen_eq_zero_iff [of b]
    by (auto simp: k_def l_def order_less_le)
  have pw: "(2 :: rat) powi (m - 1) \<le> of_int n \<and> of_int n < (2 :: rat) powi m"
    if "m = bitlen n" "0 < m" "0 < n" for m n
  proof -
    have "2 ^ nat (m - 1) \<le> n" "n < 2 ^ nat m" using bitlen_bounds [of n] that by auto
    then have "(of_int (2 ^ nat (m - 1)) :: rat) \<le> of_int n" "(of_int n :: rat) < of_int (2 ^ nat m)"
      by (simp_all only: of_int_le_iff of_int_less_iff)
    then show ?thesis using that(2) by (simp add: powi2_eq_of_int)
  qed
  note A = pw [OF k_def kl(1) a] and B = pw [OF l_def kl(2) b(1)]
  have bp: "(0 :: rat) < of_int b" using b by simp
  have "2 powi (k - l - 1) = (2 :: rat) powi (k - 1) / 2 powi l"
    by (simp flip: power_int_diff add: algebra_simps)
  also have "\<dots> < q"
    unfolding b(2) using A B bp a by (intro frac_less2) auto
  finally have lo: "2 powi (k - l - 1) < q" .
  have "q < (2 :: rat) powi k / 2 powi (l - 1)"
    unfolding b(2) using A B bp a by (intro frac_less) auto
  also have "\<dots> = 2 powi (k - l + 1)"
    by (simp flip: power_int_diff add: algebra_simps)
  finally have hi: "q < 2 powi (k - l + 1)" .
  show "2 powi (lg q) \<le> q" "q < 2 powi (lg q + 1)"
    using lo hi by (auto simp: lg_def ab Let_def pow2_def k_def l_def)
qed

lemma lg_less: "0 < x \<Longrightarrow> x \<le> y \<Longrightarrow> lg x \<le> lg y"
  using lg_bounds [of x] lg_bounds [of y] powi2_less_iff [of "lg x" "lg y + 1"] by linarith

lemma scale_dyadic:
  assumes "e \<le> k"
  shows "of_int m * 2 powi k = of_int (m * 2 ^ nat (k - e)) * (2 :: rat) powi e"
proof -
  have "(2 :: rat) powi k = 2 powi (k - e) * 2 powi e" by (simp flip: power_int_add)
  then show ?thesis using assms by (simp add: powi2_eq_of_int)
qed

lemma rnd_pos_le:
  assumes "0 < q" "q \<le> of_int m * 2 powi k" "ulp_exp p emin q \<le> k"
  shows "rnd_pos p emin q \<le> of_int m * 2 powi k"
proof -
  define e where "e = ulp_exp p emin q"
  have "of_int m * 2 powi k = of_int (m * 2 ^ nat (k - e)) * (2 :: rat) powi e"
    using assms(3) unfolding e_def by (rule scale_dyadic)
  moreover from this have "round_even (q / 2 powi e) \<le> m * 2 ^ nat (k - e)"
    using assms(2) by (intro round_even_le) (simp only: pos_divide_le_eq [OF powi2_pos])
  then have "of_int (round_even (q / 2 powi e)) * 2 powi e \<le> of_int (m * 2 ^ nat (k - e)) * (2 :: rat) powi e"
    by (intro mult_right_mono) (simp_all only: of_int_le_iff, simp)
  ultimately show ?thesis unfolding rnd_pos_def pow2_def Let_def e_def [symmetric] by (simp only:)
qed

lemma rnd_pos_ge:
  assumes "0 < q" "of_int m * 2 powi k \<le> q" "ulp_exp p emin q \<le> k"
  shows "of_int m * 2 powi k \<le> rnd_pos p emin q"
proof -
  define e where "e = ulp_exp p emin q"
  have "of_int m * 2 powi k = of_int (m * 2 ^ nat (k - e)) * (2 :: rat) powi e"
    using assms(3) unfolding e_def by (rule scale_dyadic)
  moreover from this have "m * 2 ^ nat (k - e) \<le> round_even (q / 2 powi e)"
    using assms(2) by (intro round_even_ge) (simp only: pos_le_divide_eq [OF powi2_pos])
  then have "of_int (m * 2 ^ nat (k - e)) * (2 :: rat) powi e \<le> of_int (round_even (q / 2 powi e)) * 2 powi e"
    by (intro mult_right_mono) (simp_all only: of_int_le_iff, simp)
  ultimately show ?thesis unfolding rnd_pos_def pow2_def Let_def e_def [symmetric] by (simp only:)
qed

lemma rnd_pos_nonneg: "0 < q \<Longrightarrow> 0 \<le> rnd_pos p emin q"
  using rnd_pos_ge [of q 0 "ulp_exp p emin q" p emin] by simp

lemma rnd_pos_mono:
  assumes "0 < x" "x \<le> y" "1 \<le> p"
  shows "rnd_pos p emin x \<le> rnd_pos p emin y"
proof (cases "ulp_exp p emin x = ulp_exp p emin y")
  case True
  have "round_even (x / 2 powi ulp_exp p emin y) \<le> round_even (y / 2 powi ulp_exp p emin y)"
    using assms(2) by (intro round_even_mono divide_right_mono) auto
  then show ?thesis using True by (simp add: rnd_pos_def Let_def pow2_def)
next
  case False
  have l: "lg x \<le> lg y" using assms(1,2) by (rule lg_less)
  with False have e: "ulp_exp p emin y = lg y - (p - 1)" "ulp_exp p emin x < ulp_exp p emin y" "lg x < lg y"
    by (auto simp: ulp_exp_def max_def split: if_splits)
  let ?m = "2 powi (lg y) :: rat"
  have xm: "x \<le> ?m"
    using lg_bounds(2) [OF assms(1)] e(3) powi2_le_iff [of "lg x + 1" "lg y"] by linarith
  have my: "?m \<le> y" using lg_bounds(1) [of y] assms by linarith
  have "rnd_pos p emin x \<le> ?m"
    using rnd_pos_le [of x 1 "lg y" p emin] assms xm e by simp
  also have "\<dots> \<le> rnd_pos p emin y"
    using rnd_pos_ge [of y 1 "lg y" p emin] assms my e by simp
  finally show ?thesis .
qed

text \<open>A number with \<open>p\<close> significant bits above the least exponent is left alone.\<close>

definition representable :: "int \<Rightarrow> int \<Rightarrow> rat \<Rightarrow> bool" where
  "representable p emin q \<longleftrightarrow> (\<exists>m k. q = of_int m * 2 powi k \<and> \<bar>m\<bar> < 2 ^ nat p \<and> emin \<le> k)"

lemma representableI: "\<bar>m\<bar> < 2 ^ nat p \<Longrightarrow> emin \<le> k \<Longrightarrow> representable p emin (of_int m * 2 powi k)"
  unfolding representable_def by blast

lemma rnd_pos_exact:
  assumes "0 < q" "representable p emin q" "1 \<le> p"
  shows "rnd_pos p emin q = q"
proof -
  obtain m k where q: "q = of_int m * 2 powi k" "\<bar>m\<bar> < 2 ^ nat p" "emin \<le> k"
    using assms(2) by (auto simp: representable_def)
  have "q \<le> \<bar>of_int m\<bar> * 2 powi k" using q(1) by (simp add: mult_right_mono)
  also have "\<dots> < 2 powi p * 2 powi k"
  proof (rule mult_strict_right_mono)
    have "(of_int \<bar>m\<bar> :: rat) < of_int (2 ^ nat p)" using q(2) by (simp only: of_int_less_iff)
    then show "\<bar>of_int m\<bar> < (2 :: rat) powi p" using assms(3) by (simp add: powi2_eq_of_int)
  qed simp
  also have "\<dots> = 2 powi (p + k)" by (simp add: power_int_add)
  finally have "lg q < p + k"
    using lg_bounds(1) [OF assms(1)] by (metis le_less_trans powi2_less_iff)
  then have "ulp_exp p emin q \<le> k" using q(3) by (simp add: ulp_exp_def)
  then show ?thesis
    using rnd_pos_le [of q m k p emin] rnd_pos_ge [of q m k p emin] q(1) assms(1) by fastforce
qed

locale rounding =
  fixes r :: "rat \<Rightarrow> rat" and p :: int and emin :: int
  assumes r_mono: "x \<le> y \<Longrightarrow> r x \<le> r y"
    and r_exact: "representable p emin x \<Longrightarrow> r x = x"
    and p_ge: "53 \<le> p" and emin_le: "emin \<le> - 60"
begin

lemma r_dyadic:
  assumes "\<bar>m\<bar> < 2 ^ 53" "emin \<le> k"
  shows "r (of_int m * 2 powi k) = of_int m * 2 powi k"
proof (rule r_exact)
  have "(2 :: int) ^ 53 \<le> 2 ^ nat p" using p_ge by (intro power_increasing) auto
  then show "representable p emin (of_int m * 2 powi k)"
    unfolding representable_def using assms by (metis less_le_trans)
qed

lemma r_int: "\<bar>m\<bar> < 2 ^ 53 \<Longrightarrow> r (of_int m) = of_int m"
  using r_dyadic [of m 0] emin_le by simp

lemma r_half: "\<bar>m\<bar> < 2 ^ 53 \<Longrightarrow> r (of_int m / 2) = of_int m / 2"
  using r_dyadic [of m "- 1"] emin_le by (simp add: field_simps)

lemma r_0 [simp]: "r 0 = 0" and r_1 [simp]: "r 1 = 1"
  using r_int [of 0] r_int [of 1] by simp_all

lemma r_nonneg: "0 \<le> x \<Longrightarrow> 0 \<le> r x"
  using r_mono [of 0 x] by simp

lemma r_le_int: "x \<le> of_int m \<Longrightarrow> \<bar>m\<bar> < 2 ^ 53 \<Longrightarrow> r x \<le> of_int m"
  using r_mono [of x "of_int m"] by (simp add: r_int)

lemma r_ge_int: "of_int m \<le> x \<Longrightarrow> \<bar>m\<bar> < 2 ^ 53 \<Longrightarrow> of_int m \<le> r x"
  using r_mono [of "of_int m" x] by (simp add: r_int)

lemma r_le_half: "x \<le> of_int m / 2 \<Longrightarrow> \<bar>m\<bar> < 2 ^ 53 \<Longrightarrow> r x \<le> of_int m / 2"
  using r_mono [of x "of_int m / 2"] by (simp add: r_half)

end

lemma rnd_mono:
  assumes "x \<le> y" "1 \<le> p"
  shows "rnd p emin x \<le> rnd p emin y"
proof -
  consider "0 < x" | "x \<le> 0" "0 \<le> y" | "y < 0" by linarith
  then show ?thesis
  proof cases
    case 1
    then show ?thesis using assms rnd_pos_mono [of x y] by (simp add: rnd_def)
  next
    case 2
    then show ?thesis
      using rnd_pos_nonneg [of y p emin] rnd_pos_nonneg [of "- x" p emin]
      by (cases "x = 0"; cases "y = 0") (auto simp: rnd_def)
  next
    case 3
    then show ?thesis using assms rnd_pos_mono [of "- y" "- x"] by (simp add: rnd_def)
  qed
qed

lemma representable_minus: "representable p emin q \<Longrightarrow> representable p emin (- q)"
  unfolding representable_def by (metis abs_minus_cancel mult_minus_left of_int_minus)

lemma rnd_exact: "representable p emin q \<Longrightarrow> 1 \<le> p \<Longrightarrow> rnd p emin q = q"
  using rnd_pos_exact [of q p emin] rnd_pos_exact [of "- q" p emin] representable_minus [of p emin q]
  by (auto simp: rnd_def)

interpretation double_rnd: rounding "rnd 53 (- 1074)" 53 "- 1074"
  by unfold_locales (simp_all add: rnd_mono rnd_exact)

interpretation long_double_rnd: rounding "rnd 64 (- 16445)" 64 "- 16445"
  by unfold_locales (simp_all add: rnd_mono rnd_exact)

text \<open>The result of rounding is representable, so rounding twice changes nothing.\<close>

lemma representable_rnd_pos:
  assumes "0 < q" "1 \<le> p"
  shows "representable p emin (rnd_pos p emin q)"
proof -
  define e where "e = ulp_exp p emin q"
  define m where "m = round_even (q / 2 powi e)"
  have e: "emin \<le> e" "lg q + 1 \<le> p + e" by (auto simp: e_def ulp_exp_def)
  have "q < 2 powi (lg q + 1)" by (rule lg_bounds(2) [OF assms(1)])
  also have "\<dots> \<le> 2 powi (p + e)" using e by simp
  also have "\<dots> = of_int (2 ^ nat p) * 2 powi e" using assms(2) by (simp add: power_int_add powi2_eq_of_int)
  finally have "q / 2 powi e \<le> of_int (2 ^ nat p)"
    by (simp only: pos_divide_le_eq [OF powi2_pos])
  then have m: "m \<le> 2 ^ nat p" unfolding m_def by (rule round_even_le)
  have m0: "0 \<le> m" unfolding m_def using assms(1) by (intro round_even_ge) simp
  have r: "rnd_pos p emin q = of_int m * 2 powi e" by (simp add: rnd_pos_def m_def e_def Let_def pow2_def)
  show ?thesis
  proof (cases "m = 2 ^ nat p")
    case True
    have "(1 :: int) < 2 ^ nat p" using assms(2) by simp
    moreover have "rnd_pos p emin q = of_int 1 * 2 powi (p + e)"
      using r True assms(2) by (simp add: power_int_add powi2_eq_of_int)
    ultimately show ?thesis using e assms(2) representableI [of 1 p emin "p + e"] by simp
  next
    case False
    then show ?thesis unfolding r using m m0 e by (intro representableI) auto
  qed
qed

lemma rnd_idem:
  assumes "1 \<le> p"
  shows "rnd p emin (rnd p emin q) = rnd p emin q"
proof (rule rnd_exact [OF _ assms])
  have "representable p emin 0" using representableI [of 0 p emin emin] by simp
  then show "representable p emin (rnd p emin q)"
    using representable_rnd_pos [of q p emin] representable_rnd_pos [of "- q" p emin] assms
      representable_minus [of p emin "rnd_pos p emin (- q)"]
    by (auto simp: rnd_def)
qed

section \<open>Values and operations\<close>

datatype dbl = Fin rat | PInf | MInf | NaN

definition mk_double :: "rat \<Rightarrow> dbl" where
  "mk_double q =
     (let v = rnd 53 (- 1074) q
      in if v \<ge> pow2 1024 then PInf else if v \<le> - pow2 1024 then MInf else Fin v)"

definition d_sign :: "rat \<Rightarrow> dbl" where
  "d_sign q = (if q > 0 then PInf else if q < 0 then MInf else NaN)"

fun d_neg :: "dbl \<Rightarrow> dbl" where
  "d_neg (Fin a) = Fin (- a)"
| "d_neg PInf = MInf"
| "d_neg MInf = PInf"
| "d_neg NaN = NaN"

fun d_add :: "dbl \<Rightarrow> dbl \<Rightarrow> dbl" where
  "d_add (Fin a) (Fin b) = mk_double (a + b)"
| "d_add (Fin a) y = y"
| "d_add x (Fin b) = x"
| "d_add PInf PInf = PInf"
| "d_add MInf MInf = MInf"
| "d_add _ _ = NaN"

definition d_sub :: "dbl \<Rightarrow> dbl \<Rightarrow> dbl" where
  "d_sub x y = d_add x (d_neg y)"

fun d_mul :: "dbl \<Rightarrow> dbl \<Rightarrow> dbl" where
  "d_mul (Fin a) (Fin b) = mk_double (a * b)"
| "d_mul (Fin a) PInf = d_sign a"
| "d_mul (Fin a) MInf = d_sign (- a)"
| "d_mul PInf (Fin b) = d_sign b"
| "d_mul MInf (Fin b) = d_sign (- b)"
| "d_mul PInf PInf = PInf"
| "d_mul PInf MInf = MInf"
| "d_mul MInf PInf = MInf"
| "d_mul MInf MInf = PInf"
| "d_mul _ _ = NaN"

fun d_div :: "dbl \<Rightarrow> dbl \<Rightarrow> dbl" where
  "d_div (Fin a) (Fin b) = (if b = 0 then d_sign a else mk_double (a / b))"
| "d_div (Fin a) PInf = Fin 0"
| "d_div (Fin a) MInf = Fin 0"
| "d_div PInf (Fin b) = (if b \<ge> 0 then PInf else MInf)"
| "d_div MInf (Fin b) = (if b \<ge> 0 then MInf else PInf)"
| "d_div _ _ = NaN"

fun d_less :: "dbl \<Rightarrow> dbl \<Rightarrow> bool" where
  "d_less (Fin a) (Fin b) = (a < b)"
| "d_less (Fin a) PInf = True"
| "d_less MInf (Fin b) = True"
| "d_less MInf PInf = True"
| "d_less _ _ = False"

fun d_ge :: "dbl \<Rightarrow> dbl \<Rightarrow> bool" where
  "d_ge (Fin a) (Fin b) = (a \<ge> b)"
| "d_ge PInf NaN = False"
| "d_ge PInf _ = True"
| "d_ge (Fin a) MInf = True"
| "d_ge MInf MInf = True"
| "d_ge _ _ = False"

text \<open>\<^verbatim>\<open>std::min\<close> and \<^verbatim>\<open>std::max\<close>: the first argument unless the second compares strictly.\<close>

definition d_min :: "dbl \<Rightarrow> dbl \<Rightarrow> dbl" where
  "d_min x y = (if d_less y x then y else x)"

definition d_max :: "dbl \<Rightarrow> dbl \<Rightarrow> dbl" where
  "d_max x y = (if d_less x y then y else x)"

text \<open>The correctly rounded square root: 71 bits of the root and a sticky bit decide the rounding.\<close>

function isqrt :: "int \<Rightarrow> int" where
  "isqrt n = (if n \<le> 0 then 0
     else let s = 2 * isqrt (n div 4) in if (s + 1) * (s + 1) \<le> n then s + 1 else s)"
  by auto
termination
  by (relation "measure nat") auto

declare isqrt.simps [simp del]

fun d_sqrt :: "dbl \<Rightarrow> dbl" where
  "d_sqrt (Fin a) =
     (if a = 0 then Fin 0 else if a < 0 then NaN
      else let k = 70 - lg a div 2;
               q = a * pow2 (2 * k);
               s = isqrt \<lfloor>q\<rfloor>;
               t = (if of_int (s * s) = q then of_int s else of_int s + 1 / 2)
           in mk_double (t * pow2 (- k)))"
| "d_sqrt PInf = PInf"
| "d_sqrt _ = NaN"

definition d_of_int :: "int \<Rightarrow> dbl" where
  "d_of_int n = mk_double (of_int n)"

abbreviation d_of_word :: "'a::len word \<Rightarrow> dbl" where
  "d_of_word w \<equiv> d_of_int (uint w)"

text \<open>\<^verbatim>\<open>static_cast\<close> to an unsigned integer type.\<close>

definition d_to_word :: "dbl \<Rightarrow> 'a::len word res" where
  "d_to_word x =
     (case x of
        Fin a \<Rightarrow> (let n = (if a \<ge> 0 then \<lfloor>a\<rfloor> else - \<lfloor>- a\<rfloor>)
                  in if 0 \<le> n \<and> n < 2 ^ LENGTH('a) then Inr (word_of_int n) else Inl Undefined_Behaviour)
      | _ \<Rightarrow> Inl Undefined_Behaviour)"

end
