(* ===== verification/Fixed_Point.thy ===== *)
theory Fixed_Point
  imports Ieee_Double
begin

text \<open>
  \<^verbatim>\<open>src/src/core/model/int64x64-128.cc\<close> and \<^verbatim>\<open>int64x64-128.h\<close>, class \<^verbatim>\<open>int64x64_t\<close>: 64.64 fixed
  point numbers over 128-bit integers, used to convert times between units. An \<^verbatim>\<open>int128_t\<close> or
  \<^verbatim>\<open>uint128_t\<close> is an \<open>int\<close> with the wrap-around written out. The results: multiplication is the
  exact product rounded down, and the division of a time by a unit through the precomputed
  128-bit inverse has the exact integer part. \<^verbatim>\<open>Time::To\<close> and \<^verbatim>\<open>Time::GetSeconds\<close> of
  \<^verbatim>\<open>nstime.h\<close> are at the end.
\<close>

section \<open>128-bit arithmetic\<close>

definition u128 :: "int \<Rightarrow> int" where
  "u128 x = x mod 2 ^ 128"

definition i128 :: "int \<Rightarrow> int" where
  "i128 x = (x + 2 ^ 127) mod 2 ^ 128 - 2 ^ 127"

definition hp_lo :: "int \<Rightarrow> int" where
  "hp_lo x = x mod 2 ^ 64"

definition hp_hi :: "int \<Rightarrow> int" where
  "hp_hi x = x div 2 ^ 64"

definition output_sign :: "int \<Rightarrow> int \<Rightarrow> bool \<times> int \<times> int" where
  "output_sign sa sb =
     (let negA = sa < 0; negB = sb < 0;
          ua = (if negA then u128 (- sa) else sa);
          ub = (if negB then u128 (- sb) else sb)
      in (negA \<noteq> negB, ua, ub))"

definition Umul :: "int \<Rightarrow> int \<Rightarrow> int res" where
  "Umul a b =
     (let al = hp_lo a; bl = hp_lo b; ah = hp_hi a; bh = hp_hi b;
          res0 = u128 (al * bl) div 2 ^ 64;
          mid = u128 (u128 (ah * bl) + u128 (al * bh));
          res1 = u128 (res0 + mid);
          high = u128 (ah * bh)
      in if \<not> high \<le> 2 ^ 63 then Inl Assert_Failed
         else let high = u128 (high * 2 ^ 64)
              in if \<not> u128 (res1 + high) \<ge> res1 then Inl Assert_Failed
                 else Inr (u128 (res1 + high)))"

definition hp_Mul :: "int \<Rightarrow> int \<Rightarrow> int res" where
  "hp_Mul v ov =
     (case output_sign v ov of (negative, a, b) \<Rightarrow>
        bind_res (Umul a b) (\<lambda>result.
          if negative
          then if \<not> result \<le> 2 ^ 127 then Inl Assert_Failed else Inr (i128 (u128 (- result)))
          else if \<not> result < 2 ^ 127 then Inl Assert_Failed else Inr (i128 result)))"

text \<open>The loops of \<^verbatim>\<open>Udiv\<close>: skip trailing zeros of the divisor, skip leading zeros of the
  remainder, cast off bits of the divisor, and the outer loop over the digits.\<close>

function skip_den :: "nat \<Rightarrow> int \<Rightarrow> nat \<times> int" where
  "skip_den shift den =
     (if shift < 64 \<and> \<not> odd den then skip_den (shift + 1) (den div 2) else (shift, den))"
  by auto
termination
  by (relation "measure (\<lambda>(shift, _). 64 - shift)") auto

function skip_rem :: "nat \<Rightarrow> nat \<Rightarrow> int \<Rightarrow> nat \<times> int" where
  "skip_rem digis shift rem =
     (if digis + shift < 64 \<and> \<not> odd (rem div 2 ^ 127)
      then skip_rem digis (shift + 1) (u128 (rem * 2)) else (shift, rem))"
  by auto
termination
  by (relation "measure (\<lambda>(digis, shift, _). 64 - (digis + shift))") auto

function cast_off :: "nat \<Rightarrow> nat \<Rightarrow> int \<Rightarrow> int \<Rightarrow> nat \<times> int" where
  "cast_off digis shift rem den =
     (if digis + shift < 64 \<and> (\<not> odd den \<or> rem < den)
      then cast_off digis (shift + 1) rem (den div 2) else (shift, den))"
  by auto
termination
  by (relation "measure (\<lambda>(digis, shift, _). 64 - (digis + shift))") auto

declare skip_den.simps [simp del] skip_rem.simps [simp del] cast_off.simps [simp del]

text \<open>The outer loop is given 130 rounds: a round that yields no digit leaves a remainder below
  the divisor, so the next one yields a digit, and 64 digits are needed. Running out is
  \<open>None\<close>.\<close>

fun udiv_loop :: "nat \<Rightarrow> nat \<Rightarrow> nat \<Rightarrow> int \<Rightarrow> int \<Rightarrow> int \<Rightarrow> (nat \<times> int) option" where
  "udiv_loop 0 digis shift rem den result = None"
| "udiv_loop (Suc n) digis shift rem den result =
     (if digis < 64 \<and> rem \<noteq> 0
      then case skip_rem digis shift rem of (shift, rem) \<Rightarrow>
           case cast_off digis shift rem den of (shift, den) \<Rightarrow>
             let quo = rem div den; rem = rem mod den;
                 result = u128 (u128 (result * 2 ^ shift) + quo)
             in udiv_loop n (digis + shift) 0 rem den result
      else Some (digis, result))"

definition Udiv :: "int \<Rightarrow> int \<Rightarrow> int res" where
  "Udiv a b =
     (if b = 0 then Inl Undefined_Behaviour
      else let quo = a div b; rem = a mod b
           in if \<not> rem < b then Inl Assert_Failed
              else case skip_den 0 b of (shift, den) \<Rightarrow>
                (case udiv_loop 130 0 shift rem den quo of
                   None \<Rightarrow> Inl Fatal_Error
                 | Some (digis, result) \<Rightarrow>
                     Inr (if digis < 64 then u128 (result * 2 ^ (64 - digis)) else result)))"

definition hp_Div :: "int \<Rightarrow> int \<Rightarrow> int res" where
  "hp_Div v ov =
     (case output_sign v ov of (negative, a, b) \<Rightarrow>
        bind_res (Udiv a b) (\<lambda>result.
          let result = i128 result in Inr (if negative then i128 (- result) else result)))"

definition UmulByInvert :: "int \<Rightarrow> int \<Rightarrow> int res" where
  "UmulByInvert a b =
     (if \<not> b \<le> 2 ^ 127 then Inl Assert_Failed
      else let al = hp_lo a; bl = hp_lo b; ah = hp_hi a; bh = hp_hi b;
               high = u128 (ah * bh);
               mid = u128 (u128 (ah * bl) + u128 (al * bh)) div 2 ^ 64
           in Inr (u128 (high + mid)))"

definition MulByInvert :: "int \<Rightarrow> int \<Rightarrow> int res" where
  "MulByInvert v ov =
     (let negResult = v < 0;
          a = (if negResult then u128 (- v) else v)
      in bind_res (UmulByInvert a (u128 ov)) (\<lambda>result.
           Inr (i128 (if negResult then u128 (- result) else result))))"

definition GetHigh :: "int \<Rightarrow> int" where
  "GetHigh v = v div 2 ^ 64"

definition GetLow :: "int \<Rightarrow> int" where
  "GetLow v = v mod 2 ^ 64"

definition hp_GetInt :: "int \<Rightarrow> int" where
  "hp_GetInt v =
     (let negative = v < 0; u = (if negative then u128 (- v) else v); retval = hp_hi u
      in if negative then - retval else retval)"

definition hp_Invert :: "int \<Rightarrow> int res" where
  "hp_Invert v =
     (if \<not> v > 1 then Inl Assert_Failed
      else bind_res (Udiv (2 ^ 64) v) (\<lambda>result.
           bind_res (MulByInvert (i128 (v * 2 ^ 64)) result) (\<lambda>tmp.
             Inr (if GetHigh tmp \<noteq> 1 then result + 1 else result))))"

definition hp_GetDouble :: "int \<Rightarrow> dbl" where
  "hp_GetDouble v =
     (let negative = v < 0;
          vTemp = v + (if v = - (2 ^ 127) then 1 else 0);
          u = (if negative then - vTemp else vTemp);
          fhi = rnd 64 (- 16445) (of_int (hp_hi u));
          flo = rnd 64 (- 16445) (rnd 64 (- 16445) (of_int (hp_lo u)) / 2 ^ 64);
          retval = rnd 64 (- 16445) (fhi + flo)
      in mk_double (if negative then - retval else retval))"

section \<open>Times in seconds\<close>

text \<open>The table entry of \<^verbatim>\<open>Time::SetResolution\<close> for seconds at nanosecond resolution has
  \<^verbatim>\<open>factor = 10^9\<close>, \<^verbatim>\<open>toMul = false\<close> and \<^verbatim>\<open>timeTo = Invert (factor)\<close>.\<close>

definition time_To :: "int \<Rightarrow> int \<Rightarrow> int res" where
  "time_To factor m_data =
     bind_res (hp_Invert factor) (\<lambda>timeTo. MulByInvert (m_data * 2 ^ 64) timeTo)"

definition GetSeconds :: "int \<Rightarrow> dbl res" where
  "GetSeconds m_data = bind_res (time_To (10 ^ 9) m_data) (\<lambda>v. Inr (hp_GetDouble v))"

section \<open>The division loop ends\<close>

lemma cast_off_ok:
  assumes "cast_off digis shift rem den = (s, d)" "0 < den" "0 < rem"
  shows "0 < d \<and> shift \<le> s \<and> (digis + shift \<le> 64 \<longrightarrow> digis + s \<le> 64) \<and>
    (s = shift \<longrightarrow> d = den \<and> (digis + shift < 64 \<longrightarrow> den \<le> rem))"
  using assms
proof (induction digis shift rem den rule: cast_off.induct)
  case (1 digis shift rem den)
  show ?case
  proof (cases "digis + shift < 64 \<and> (\<not> odd den \<or> rem < den)")
    case True
    moreover have "0 < den div 2" using True "1.prems" by (auto elim!: evenE)
    ultimately show ?thesis
      using "1.IH" "1.prems" cast_off.simps [of digis shift rem den] by fastforce
  next
    case False
    then show ?thesis using "1.prems" cast_off.simps [of digis shift rem den] by auto
  qed
qed

lemma skip_rem_ok:
  assumes "skip_rem digis shift rem = (s, r)" "0 < rem" "rem < 2 ^ 128"
  shows "0 < r \<and> r < 2 ^ 128 \<and> shift \<le> s \<and> (digis + shift \<le> 64 \<longrightarrow> digis + s \<le> 64) \<and>
    (s = shift \<longrightarrow> r = rem)"
  using assms
proof (induction digis shift rem rule: skip_rem.induct)
  case (1 digis shift rem)
  show ?case
  proof (cases "digis + shift < 64 \<and> \<not> odd (rem div 2 ^ 127)")
    case True
    have "rem div 2 ^ 127 < 2" using "1.prems" by (simp add: div_less_iff_less_mult)
    moreover have "0 \<le> rem div 2 ^ 127" using "1.prems" by simp
    ultimately have "rem div 2 ^ 127 = 0 \<or> rem div 2 ^ 127 = 1" by linarith
    then have "rem div 2 ^ 127 = 0" using True by auto
    then have "rem < 2 ^ 127" using "1.prems" by (simp add: zdiv_eq_0_iff)
    then have "u128 (rem * 2) = rem * 2" using "1.prems" by (simp add: u128_def)
    then show ?thesis
      using "1.IH" True "1.prems" \<open>rem < 2 ^ 127\<close> skip_rem.simps [of digis shift rem] by fastforce
  next
    case False
    then show ?thesis using "1.prems" skip_rem.simps [of digis shift rem] by auto
  qed
qed

lemma skip_den_pos: "skip_den shift den = (s, d) \<Longrightarrow> 0 < den \<Longrightarrow> shift \<le> 64 \<Longrightarrow> 0 < d \<and> s \<le> 64"
proof (induction shift den rule: skip_den.induct)
  case (1 shift den)
  then show ?case
    using skip_den.simps [of shift den] by (auto split: if_splits elim!: evenE)
qed

lemma udiv_loop_returns:
  assumes "0 < den" "0 \<le> rem" "rem < 2 ^ 128" "digis + shift \<le> 64"
    "2 * (64 - digis) + (if rem < den then 0 else 1) < n"
  shows "\<exists>r. udiv_loop n digis shift rem den result = Some r"
  using assms
proof (induction n arbitrary: digis shift rem den result)
  case 0
  then show ?case by simp
next
  case (Suc n)
  show ?case
  proof (cases "digis < 64 \<and> rem \<noteq> 0")
    case True
    obtain s1 r1 where 1: "skip_rem digis shift rem = (s1, r1)" by fastforce
    obtain s2 d2 where 2: "cast_off digis s1 r1 den = (s2, d2)" by fastforce
    note a = skip_rem_ok [OF 1] and b = cast_off_ok [OF 2]
    have r1: "0 < r1" "r1 < 2 ^ 128" "shift \<le> s1" "digis + s1 \<le> 64" "s1 = shift \<longrightarrow> r1 = rem"
      using a True Suc.prems by auto
    have d2: "0 < d2" "s1 \<le> s2" "digis + s2 \<le> 64" "s2 = s1 \<longrightarrow> d2 = den \<and> (digis + s1 < 64 \<longrightarrow> den \<le> r1)"
      using b r1 Suc.prems by auto
    have m: "0 \<le> r1 mod d2" "r1 mod d2 < d2" using d2 by auto
    moreover have "r1 mod d2 < 2 ^ 128" using r1 d2 by (intro le_less_trans [OF zmod_le_nonneg_dividend]) auto
    moreover have "2 * (64 - (digis + s2)) < n"
    proof (cases "s2 = 0")
      case s0: True
      then have "s1 = 0" "shift = 0" using d2 r1 by auto
      then have "den \<le> rem" using d2 r1 True s0 by auto
      then show ?thesis using Suc.prems(5) s0 by auto
    next
      case False
      then show ?thesis using Suc.prems(5) True by auto
    qed
    ultimately show ?thesis
      using Suc.IH [of d2 "r1 mod d2" "digis + s2" 0] d2 1 2 True by (simp add: Let_def)
  qed auto
qed

lemma Udiv_returns:
  assumes "0 < b" "b < 2 ^ 128"
  shows "\<exists>r. Udiv a b = Inr r"
proof -
  obtain s d where s: "skip_den 0 b = (s, d)" by fastforce
  have d: "0 < d" "s \<le> 64" using skip_den_pos [OF s] assms by auto
  have m: "0 \<le> a mod b" "a mod b < b" using assms by auto
  then have "a mod b < 2 ^ 128" using assms by linarith
  moreover have "2 * (64 - 0) + (if a mod b < d then 0 else 1) < (129 :: nat) + 1" by simp
  ultimately obtain r where "udiv_loop 130 0 s (a mod b) d (a div b) = Some r"
    using udiv_loop_returns [of d "a mod b" 0 s 130 "a div b"] d m by auto
  then show ?thesis
    using assms s m by (auto simp: Udiv_def Let_def split: prod.splits option.splits)
qed

section \<open>Products\<close>

lemma u128_id: "0 \<le> x \<Longrightarrow> x < 2 ^ 128 \<Longrightarrow> u128 x = x"
  by (simp add: u128_def)

lemma i128_id: "- (2 ^ 127) \<le> x \<Longrightarrow> x < 2 ^ 127 \<Longrightarrow> i128 x = x"
  by (simp add: i128_def)

lemma mult_bound:
  fixes x y :: int
  assumes "0 \<le> x" "x \<le> a" "0 \<le> y" "y \<le> b"
  shows "0 \<le> x * y" "x * y \<le> a * b"
  using assms by (auto intro: mult_mono)

lemma split_product:
  fixes a b :: int
  defines "M \<equiv> 2 ^ 64 :: int"
  shows "a * b div M = (a div M) * (b div M) * M + ((a div M) * (b mod M) + (a mod M) * (b div M)) +
    (a mod M) * (b mod M) div M"
proof -
  define ah al bh bl where "ah = a div M" and "al = a mod M" and "bh = b div M" and "bl = b mod M"
  have a: "a = ah * M + al" "b = bh * M + bl"
    by (simp_all add: ah_def al_def bh_def bl_def)
  have "a * b = (ah * bh * M + (ah * bl + al * bh)) * M + al * bl"
    unfolding a by (simp add: algebra_simps)
  moreover have "M \<noteq> 0" by (simp add: M_def)
  ultimately have "a * b div M = ah * bh * M + (ah * bl + al * bh) + al * bl div M" by simp
  then show ?thesis unfolding ah_def al_def bh_def bl_def .
qed

lemma half_bounds:
  assumes "0 \<le> a" "a \<le> 2 ^ 127"
  shows "0 \<le> hp_hi a" "hp_hi a \<le> 2 ^ 63" "0 \<le> hp_lo a" "hp_lo a < 2 ^ 64"
proof -
  have "a div 2 ^ 64 \<le> 2 ^ 127 div 2 ^ 64" using assms(2) by (rule zdiv_mono1) simp
  then show "hp_hi a \<le> 2 ^ 63" by (simp add: hp_hi_def)
qed (use assms in \<open>simp_all add: hp_hi_def hp_lo_def\<close>)

lemma Umul_exact:
  assumes "0 \<le> a" "a \<le> 2 ^ 127" "0 \<le> b" "b \<le> 2 ^ 127" "a * b div 2 ^ 64 \<le> 2 ^ 127"
  shows "Umul a b = Inr (a * b div 2 ^ 64)"
proof -
  define ah al bh bl where "ah = hp_hi a" and "al = hp_lo a" and "bh = hp_hi b" and "bl = hp_lo b"
  note A = half_bounds [OF assms(1,2), folded ah_def al_def]
  note B = half_bounds [OF assms(3,4), folded bh_def bl_def]
  have P: "a * b div 2 ^ 64 = ah * bh * 2 ^ 64 + (ah * bl + al * bh) + al * bl div 2 ^ 64"
    using split_product [of a b] by (simp only: ah_def al_def bh_def bl_def hp_hi_def hp_lo_def)
  have ll: "0 \<le> al * bl" "al * bl \<le> (2 ^ 64 - 1) * (2 ^ 64 - 1)"
    using mult_bound [of al "2 ^ 64 - 1" bl "2 ^ 64 - 1"] A B by simp_all
  then have lo: "0 \<le> al * bl div 2 ^ 64" "al * bl < 2 ^ 128" by auto
  have m1: "0 \<le> ah * bl" "ah * bl \<le> 2 ^ 63 * (2 ^ 64 - 1)" and m2: "0 \<le> al * bh" "al * bh \<le> (2 ^ 64 - 1) * 2 ^ 63"
    using mult_bound [of ah "2 ^ 63" bl "2 ^ 64 - 1"] mult_bound [of al "2 ^ 64 - 1" bh "2 ^ 63"] A B
    by simp_all
  have h: "0 \<le> ah * bh" using A B by simp
  have hl: "ah * bh * 2 ^ 64 \<le> 2 ^ 127" using P assms(5) lo m1 m2 by linarith
  then have h63: "ah * bh \<le> 2 ^ 63" by simp
  have "u128 (al * bl) = al * bl" "u128 (ah * bl) = ah * bl" "u128 (al * bh) = al * bh"
    "u128 (ah * bl + al * bh) = ah * bl + al * bh" "u128 (ah * bh) = ah * bh"
    "u128 (ah * bh * 2 ^ 64) = ah * bh * 2 ^ 64"
    using ll lo m1 m2 h h63 hl by (auto intro!: u128_id)
  moreover have "u128 (al * bl div 2 ^ 64 + (ah * bl + al * bh)) = al * bl div 2 ^ 64 + (ah * bl + al * bh)"
    using lo m1 m2 P assms(5) h by (intro u128_id) auto
  moreover have "u128 (al * bl div 2 ^ 64 + (ah * bl + al * bh) + ah * bh * 2 ^ 64) =
      al * bl div 2 ^ 64 + (ah * bl + al * bh) + ah * bh * 2 ^ 64"
    using lo m1 m2 P assms(5) h by (intro u128_id) auto
  ultimately show ?thesis
    using h63 h P
    by (simp add: Umul_def Let_def ah_def [symmetric] al_def [symmetric] bh_def [symmetric] bl_def [symmetric]
        del: power_numeral)
qed

definition int128_range :: "int \<Rightarrow> bool" where
  "int128_range v \<longleftrightarrow> - (2 ^ 127) \<le> v \<and> v < 2 ^ 127"

lemma output_sign_eq:
  assumes "int128_range v" "int128_range w"
  shows "output_sign v w = ((v < 0) \<noteq> (w < 0), \<bar>v\<bar>, \<bar>w\<bar>)"
  using assms by (auto simp: output_sign_def Let_def int128_range_def u128_id)

lemma hp_Mul_value:
  assumes "int128_range v" "int128_range w" "\<bar>v\<bar> * \<bar>w\<bar> div 2 ^ 64 < 2 ^ 127"
  shows "hp_Mul v w = Inr (if (v < 0) = (w < 0) then \<bar>v\<bar> * \<bar>w\<bar> div 2 ^ 64
                          else - (\<bar>v\<bar> * \<bar>w\<bar> div 2 ^ 64))"
proof -
  let ?p = "\<bar>v\<bar> * \<bar>w\<bar> div 2 ^ 64"
  have p: "0 \<le> ?p" by (simp add: pos_imp_zdiv_nonneg_iff)
  have "Umul \<bar>v\<bar> \<bar>w\<bar> = Inr ?p"
    using assms by (intro Umul_exact) (auto simp: int128_range_def)
  moreover have "i128 (u128 (- ?p)) = - ?p"
  proof -
    have "u128 (- ?p) = - ?p mod 2 ^ 128" by (simp add: u128_def)
    then have "i128 (u128 (- ?p)) = (- ?p + 2 ^ 127) mod 2 ^ 128 - 2 ^ 127"
      by (simp add: i128_def mod_simps)
    then show ?thesis using p assms(3) by (simp add: i128_def)
  qed
  moreover have "i128 ?p = ?p" using p assms(3) by (intro i128_id) auto
  ultimately show ?thesis
    using assms(3) by (simp add: hp_Mul_def output_sign_eq [OF assms(1,2)])
qed

section \<open>Results\<close>

text \<open>
  C36: the fixed-point product of two 64.64 numbers is the exact product of their values rounded
  towards zero, and no assertion fails, whenever that product is in the range of the type.
\<close>

theorem fixed_point_product:
  assumes "int128_range v" "int128_range w" "\<bar>v\<bar> * \<bar>w\<bar> div 2 ^ 64 < 2 ^ 127"
  shows "hp_Mul v w = Inr (if (v < 0) = (w < 0) then \<bar>v\<bar> * \<bar>w\<bar> div 2 ^ 64
                          else - (\<bar>v\<bar> * \<bar>w\<bar> div 2 ^ 64))"
  using hp_Mul_value [OF assms] .

theorem fixed_point_product_witness:
  "hp_Mul (- 3 * 2 ^ 63) (5 * 2 ^ 62) = Inr (- (15 * 2 ^ 61))"
  using fixed_point_product [of "- 3 * 2 ^ 63" "5 * 2 ^ 62"] by (simp add: int128_range_def)

text \<open>Dividing \<open>n\<close> by \<open>f\<close> through an inverse that errs by less than one unit in the last place per
  \<open>f\<close>.\<close>

lemma inverse_div:
  fixes n f w :: int
  assumes "0 \<le> n" "n < 2 ^ 63" "0 < f" "2 ^ 128 \<le> f * w" "f * w < 2 ^ 128 + 2 ^ 64"
  shows "n * w div 2 ^ 128 = n div f"
proof -
  define q r where "q = n div f" and "r = n mod f"
  have n: "n = f * q + r" "0 \<le> r" "r < f" "0 \<le> q" using assms by (auto simp: q_def r_def pos_imp_zdiv_nonneg_iff)
  define d where "d = f * w - 2 ^ 128"
  have d: "0 \<le> d" "d < 2 ^ 64" "f * w = 2 ^ 128 + d" using assms by (auto simp: d_def)
  have e: "f * (n * w) = n * 2 ^ 128 + n * d"
    using d(3) by (metis distrib_left mult.commute mult.left_commute)
  have nd: "0 \<le> n * d" "n * d < 2 ^ 127"
  proof -
    show "0 \<le> n * d" using assms d by simp
    have "n * d \<le> (2 ^ 63) * (2 ^ 64 - 1)" using assms d by (intro mult_mono) auto
    then show "n * d < 2 ^ 127" by simp
  qed
  have lo: "f * (q * 2 ^ 128) \<le> f * (n * w)"
  proof -
    have "f * q * 2 ^ 128 \<le> n * 2 ^ 128" using n by simp
    then show ?thesis using e nd by (simp add: mult.assoc)
  qed
  have hi: "f * (n * w) < f * ((q + 1) * 2 ^ 128)"
  proof -
    have "n + 1 \<le> f * (q + 1)" using n by (simp add: algebra_simps)
    then have "(n + 1) * 2 ^ 128 \<le> f * (q + 1) * 2 ^ 128" by (rule mult_right_mono) simp
    then show ?thesis using e nd by (simp add: mult.assoc)
  qed
  have "q * 2 ^ 128 \<le> n * w" "n * w < (q + 1) * 2 ^ 128"
    using lo hi assms(3) by simp_all
  then have "n * w div 2 ^ 128 = q"
    by (intro int_div_pos_eq [of _ _ _ "n * w - q * 2 ^ 128"]) auto
  then show ?thesis by (simp add: q_def)
qed

lemma MulByInvert_whole:
  assumes "0 \<le> n" "n < 2 ^ 63" "0 \<le> w" "w \<le> 2 ^ 127"
  shows "MulByInvert (n * 2 ^ 64) w = Inr (n * w div 2 ^ 64)"
proof -
  have nb: "n * 2 ^ 64 \<le> 2 ^ 127" using assms by simp
  have h: "hp_hi (n * 2 ^ 64) = n" "hp_lo (n * 2 ^ 64) = 0" by (simp_all add: hp_hi_def hp_lo_def)
  note W = half_bounds [OF assms(3,4)]
  have m: "0 \<le> n * hp_hi w" "n * hp_hi w \<le> 2 ^ 63 * 2 ^ 63" "0 \<le> n * hp_lo w" "n * hp_lo w \<le> 2 ^ 63 * (2 ^ 64 - 1)"
    using mult_bound [of n "2 ^ 63" "hp_hi w" "2 ^ 63"] mult_bound [of n "2 ^ 63" "hp_lo w" "2 ^ 64 - 1"] assms W
    by simp_all
  have l: "0 \<le> n * hp_lo w div 2 ^ 64" "n * hp_lo w div 2 ^ 64 < 2 ^ 63"
    using m by (auto simp: div_less_iff_less_mult)
  have P: "n * w div 2 ^ 64 = n * hp_hi w + n * hp_lo w div 2 ^ 64"
  proof -
    have "n * w = (n * hp_hi w) * 2 ^ 64 + n * hp_lo w"
      by (metis hp_hi_def hp_lo_def distrib_left div_mult_mod_eq mult.assoc)
    then show ?thesis by simp
  qed
  have "u128 w = w" using assms by (intro u128_id) auto
  moreover have "u128 (n * hp_hi w) = n * hp_hi w" "u128 (n * hp_lo w) = n * hp_lo w"
    "u128 (n * hp_hi w + n * hp_lo w div 2 ^ 64) = n * w div 2 ^ 64" "i128 (n * w div 2 ^ 64) = n * w div 2 ^ 64"
    unfolding P using m l by (auto intro!: u128_id i128_id)
  moreover have "\<not> n * 2 ^ 64 < 0" using assms by simp
  ultimately show ?thesis
    using assms by (simp add: MulByInvert_def UmulByInvert_def Let_def h u128_def [of 0] del: power_numeral)
qed

lemma Invert_values:
  "hp_Invert (10 ^ 3) = Inr 340282366920938463463374607431768212"
  "hp_Invert (10 ^ 6) = Inr 340282366920938463463374607431769"
  "hp_Invert (10 ^ 9) = Inr 340282366920938463463374607432"
  by code_simp+

text \<open>
  Converting a time of \<open>n\<close> nanoseconds to microseconds, milliseconds or seconds through the
  precomputed 128-bit inverse gives a fixed-point number whose integer part is exactly the
  time \<open>n\<close> divided by the unit, for every non-negative 64-bit time.
\<close>

theorem unit_conversion_exact:
  assumes "0 \<le> n" "n < 2 ^ 63" "f \<in> {10 ^ 3, 10 ^ 6, 10 ^ 9}"
  shows "\<exists>v. time_To f n = Inr v \<and> GetHigh v = n div f"
proof -
  obtain w where w: "hp_Invert f = Inr w" "0 \<le> w" "w \<le> 2 ^ 127" "2 ^ 128 \<le> f * w" "f * w < 2 ^ 128 + 2 ^ 64"
    "0 < f"
    using assms(3) Invert_values by auto
  have "GetHigh (n * w div 2 ^ 64) = n * w div 2 ^ 128"
    by (simp add: GetHigh_def zdiv_zmult2_eq [symmetric])
  then show ?thesis
    using w MulByInvert_whole [OF assms(1,2) w(2,3)] inverse_div [OF assms(1,2) w(6,4,5)]
    by (simp add: time_To_def)
qed

theorem unit_conversion_exact_witness:
  "\<exists>v. time_To (10 ^ 9) 86399999999999 = Inr v \<and> GetHigh v = 86399"
  using unit_conversion_exact [of 86399999999999 "10 ^ 9"] by simp

section \<open>Seconds as a double\<close>

abbreviation inv_second :: int where
  "inv_second \<equiv> 340282366920938463463374607432"

lemma hp_GetDouble_nonneg:
  assumes "0 \<le> v" "v < 2 ^ 127"
  shows "hp_GetDouble v = mk_double (rnd 64 (- 16445) (of_int v / 2 ^ 64))"
proof -
  have hi: "0 \<le> hp_hi v" "hp_hi v < 2 ^ 64" and lo: "0 \<le> hp_lo v" "hp_lo v < 2 ^ 64"
    using half_bounds [of v] assms by auto
  have dy: "rnd 64 (- 16445) (of_int m * 2 powi k) = of_int m * 2 powi k"
    if "0 \<le> m" "m < 2 ^ 64" "k = 0 \<or> k = - 64" for m k
    using that by (intro rnd_exact representableI) auto
  have "rnd 64 (- 16445) (of_int (hp_hi v)) = of_int (hp_hi v)"
    "rnd 64 (- 16445) (of_int (hp_lo v)) = of_int (hp_lo v)"
    using dy [of "hp_hi v" 0] dy [of "hp_lo v" 0] hi lo by simp_all
  moreover have "rnd 64 (- 16445) (of_int (hp_lo v) / 2 ^ 64) = of_int (hp_lo v) / 2 ^ 64"
  proof -
    have "(2 :: rat) powi (- 64) = 1 / 2 ^ 64" by (simp add: power_int_minus_divide)
    then show ?thesis using dy [of "hp_lo v" "- 64"] lo by simp
  qed
  moreover have "(of_int v :: rat) = of_int (hp_hi v) * 2 ^ 64 + of_int (hp_lo v)"
  proof -
    have "v = hp_hi v * 2 ^ 64 + hp_lo v" by (simp add: hp_hi_def hp_lo_def)
    then have "(of_int v :: rat) = of_int (hp_hi v * 2 ^ 64 + hp_lo v)" by (rule arg_cong)
    then show ?thesis by simp
  qed
  then have "(of_int (hp_hi v) + of_int (hp_lo v) / 2 ^ 64 :: rat) = of_int v / 2 ^ 64" by simp
  ultimately show ?thesis using assms by (simp add: hp_GetDouble_def Let_def del: power_numeral)
qed

lemma mk_double_Fin:
  assumes "\<bar>q\<bar> \<le> 2 ^ 100"
  shows "mk_double q = Fin (rnd 53 (- 1074) q)"
proof -
  have "representable 53 (- 1074) (of_int 1 * 2 powi 100)" "representable 53 (- 1074) (of_int (- 1) * 2 powi 100)"
    by (intro representableI; simp)+
  then have e: "rnd 53 (- 1074) (2 ^ 100) = 2 ^ 100" "rnd 53 (- 1074) (- (2 ^ 100)) = - (2 ^ 100)"
    by (auto dest!: rnd_exact)
  have "rnd 53 (- 1074) q \<le> 2 ^ 100" "- (2 ^ 100) \<le> rnd 53 (- 1074) q"
    using double_rnd.r_mono [of q "2 ^ 100"] double_rnd.r_mono [of "- (2 ^ 100)" q] assms
    unfolding e by (auto simp: abs_le_iff)
  moreover have "(2 :: rat) ^ 100 < 2 ^ 1024" by (rule power_strict_increasing) auto
  ultimately show ?thesis by (auto simp: mk_double_def Let_def pow2_def)
qed

lemma GetSeconds_eq:
  assumes "0 \<le> n" "n < 2 ^ 63"
  shows "GetSeconds n = Inr (Fin (rnd 53 (- 1074) (rnd 64 (- 16445) (of_int (n * inv_second div 2 ^ 64) / 2 ^ 64))))"
proof -
  let ?v = "n * inv_second div 2 ^ 64"
  have v: "0 \<le> ?v" "?v < 2 ^ 127"
    using assms by (auto simp: pos_imp_zdiv_nonneg_iff div_less_iff_less_mult)
  have "of_int ?v / 2 ^ 64 \<le> (of_int (2 ^ 63) :: rat)"
  proof -
    have "?v \<le> 2 ^ 63 * 2 ^ 64" using v by simp
    then have "(of_int ?v :: rat) \<le> of_int (2 ^ 63 * 2 ^ 64)" by (simp only: of_int_le_iff)
    then show ?thesis by (simp add: divide_le_eq)
  qed
  moreover have "representable 64 (- 16445) (of_int 1 * 2 powi 63)"
    by (intro representableI; simp)
  then have "rnd 64 (- 16445) (of_int (2 ^ 63)) = of_int (2 ^ 63)" by (auto dest!: rnd_exact)
  ultimately have "rnd 64 (- 16445) (of_int ?v / 2 ^ 64) \<le> of_int (2 ^ 63)"
    by (metis long_double_rnd.r_mono)
  moreover have "0 \<le> rnd 64 (- 16445) (of_int ?v / 2 ^ 64)"
    using v by (intro long_double_rnd.r_nonneg) simp
  ultimately have "mk_double (rnd 64 (- 16445) (of_int ?v / 2 ^ 64)) =
      Fin (rnd 53 (- 1074) (rnd 64 (- 16445) (of_int ?v / 2 ^ 64)))"
    by (intro mk_double_Fin) (simp add: abs_le_iff)
  moreover have "time_To (10 ^ 9) n = Inr ?v"
    using MulByInvert_whole [OF assms, of inv_second] Invert_values(3) by (simp add: time_To_def)
  ultimately show ?thesis by (simp only: GetSeconds_def bind_res_simps hp_GetDouble_nonneg [OF v])
qed

lemma GetSeconds_pos:
  assumes "0 < n" "n < 2 ^ 63"
  shows "\<exists>x. GetSeconds n = Inr (Fin x) \<and> 0 < x \<and> x \<le> 2 ^ 34 \<and> rnd 53 (- 1074) x = x"
proof -
  let ?v = "n * inv_second div 2 ^ 64"
  have "inv_second div 2 ^ 64 \<le> ?v" using assms by (intro zdiv_mono1) auto
  then have "1 \<le> ?v" by simp
  then have "(1 :: rat) \<le> of_int ?v" by (simp only: of_int_1_le_iff)
  then have lo: "1 / 2 ^ 64 \<le> (of_int ?v / 2 ^ 64 :: rat)" by (rule divide_right_mono) simp
  have "?v < 2 ^ 98" using assms by (simp add: div_less_iff_less_mult)
  then have "?v \<le> 2 ^ 98" by (rule less_imp_le)
  then have "(of_int ?v :: rat) \<le> of_int (2 ^ 98)" by (simp only: of_int_le_iff)
  then have hi: "(of_int ?v / 2 ^ 64 :: rat) \<le> 2 ^ 34" by (simp add: divide_le_eq)
  have pw: "(2 :: rat) powi (- 64) = 1 / 2 ^ 64" by (simp add: power_int_minus_divide)
  have ex: "rnd 53 (- 1074) (1 / 2 ^ 64) = 1 / 2 ^ 64" "rnd 64 (- 16445) (1 / 2 ^ 64) = 1 / 2 ^ 64"
    "rnd 53 (- 1074) (2 ^ 34) = 2 ^ 34" "rnd 64 (- 16445) (2 ^ 34) = 2 ^ 34"
    using double_rnd.r_dyadic [of 1 "- 64"] long_double_rnd.r_dyadic [of 1 "- 64"]
      double_rnd.r_dyadic [of 1 34] long_double_rnd.r_dyadic [of 1 34] pw
    by simp_all
  let ?x = "rnd 53 (- 1074) (rnd 64 (- 16445) (of_int ?v / 2 ^ 64))"
  have "1 / 2 ^ 64 \<le> ?x" "?x \<le> 2 ^ 34"
    using double_rnd.r_mono [OF long_double_rnd.r_mono [OF lo]] double_rnd.r_mono [OF long_double_rnd.r_mono [OF hi]]
    by (simp_all only: ex)
  moreover have "(0 :: rat) < 1 / 2 ^ 64" by simp
  ultimately show ?thesis using GetSeconds_eq [of n] assms rnd_idem [of 53] by (auto intro: less_le_trans)
qed

text \<open>
  \<^verbatim>\<open>Time::GetSeconds\<close> of a non-negative time is a finite, non-negative number, it never
  decreases when the time grows, and a time of zero gives zero.
\<close>

theorem seconds_monotone:
  assumes "0 \<le> m" "m \<le> n" "n < 2 ^ 63"
  shows "\<exists>x y. GetSeconds m = Inr (Fin x) \<and> GetSeconds n = Inr (Fin y) \<and> 0 \<le> x \<and> x \<le> y \<and>
    GetSeconds 0 = Inr (Fin 0)"
proof -
  have "m * inv_second div 2 ^ 64 \<le> n * inv_second div 2 ^ 64"
    using assms by (intro zdiv_mono1) auto
  then have "(of_int (m * inv_second div 2 ^ 64) / 2 ^ 64 :: rat) \<le> of_int (n * inv_second div 2 ^ 64) / 2 ^ 64"
    by (intro divide_right_mono) (simp_all only: of_int_le_iff, simp)
  moreover have "0 \<le> (of_int (m * inv_second div 2 ^ 64) / 2 ^ 64 :: rat)"
    using assms by (simp add: pos_imp_zdiv_nonneg_iff)
  ultimately show ?thesis
    using GetSeconds_eq [of m] GetSeconds_eq [of n] GetSeconds_eq [of 0] assms
    by (auto intro!: double_rnd.r_mono long_double_rnd.r_mono double_rnd.r_nonneg long_double_rnd.r_nonneg)
qed

theorem seconds_monotone_witness:
  "\<exists>x y. GetSeconds 300000 = Inr (Fin x) \<and> GetSeconds 1500000000 = Inr (Fin y) \<and> 0 \<le> x \<and> x \<le> y"
  using seconds_monotone [of 300000 1500000000] by auto

end
