(* ===== verification/Tcp_Socket_State.thy ===== *)
theory Tcp_Socket_State
  imports Sequence_Number Nstime Delay_Tag Fixed_Point
begin

text \<open>
  \<^verbatim>\<open>src/src/internet/model/tcp-socket-state.h\<close>, class \<^verbatim>\<open>TcpSocketState\<close>: the transmission control
  block shared by a TCP socket and its congestion control, with the three fields the Swift
  experiment adds; and the part of \<^verbatim>\<open>TcpSocketBase::ForwardUp\<close>
  (\<^verbatim>\<open>src/src/internet/model/tcp-socket-base.cc\<close>) that fills them from the delay tag.
  The pacing fields and the receive buffer are not part of the record.
\<close>

datatype cong_state = CA_OPEN | CA_DISORDER | CA_CWR | CA_RECOVERY | CA_LOSS

datatype ca_event = CA_EVENT_TX_START | CA_EVENT_CWND_RESTART | CA_EVENT_COMPLETE_CWR |
  CA_EVENT_LOSS | CA_EVENT_ECN_NO_CE | CA_EVENT_ECN_IS_CE | CA_EVENT_DELAYED_ACK |
  CA_EVENT_NON_DELAYED_ACK

datatype ecn_state = ECN_DISABLED | ECN_IDLE | ECN_CE_RCVD | ECN_SENDING_ECE | ECN_ECE_RCVD |
  ECN_CWR_SENT

datatype use_ecn = Ecn_Off | Ecn_On | Ecn_AcceptOnly

record tcb =
  m_cWnd :: u32
  m_cWndInfl :: u32
  m_ssThresh :: u32
  m_segmentSize :: u32
  m_lastAckedSeq :: seq
  m_congState :: cong_state
  m_ecnState :: ecn_state
  m_highTxMark :: seq
  m_nextTxSequence :: seq
  m_bytesInFlight :: u32
  m_isCwndLimited :: bool
  m_srtt :: int
  m_lastRtt :: int
  m_minRtt :: int
  m_maxDelay :: u64
  m_target_delay :: u64
  m_hops :: u64
  m_isRetransDataAcked :: bool
  m_lastAckedSackedBytes :: u32
  m_rcvTimestampValue :: u32
  m_rcvTimestampEchoReply :: u32
  m_useEcn :: use_ecn

definition GetCwndInSegments :: "tcb \<Rightarrow> u32 res" where
  "GetCwndInSegments tcb =
     (if m_segmentSize tcb = 0 then Inl Undefined_Behaviour else Inr (m_cWnd tcb div m_segmentSize tcb))"

definition GetSsThreshInSegments :: "tcb \<Rightarrow> u32 res" where
  "GetSsThreshInSegments tcb =
     (if m_segmentSize tcb = 0 then Inl Undefined_Behaviour
      else Inr (m_ssThresh tcb div m_segmentSize tcb))"

text \<open>The block of \<^verbatim>\<open>ForwardUp\<close> that reads the tag of an incoming segment.\<close>

definition forward_up_tag :: "delay_tag option \<Rightarrow> tcb \<Rightarrow> tcb" where
  "forward_up_tag tag tcb =
     (case tag of
        None \<Rightarrow> tcb
      | Some delayTag \<Rightarrow>
          (let maxDelayNs = m_maxDelayNs delayTag;
               tcb = (if maxDelayNs > m_maxDelay tcb then tcb\<lparr>m_maxDelay := maxDelayNs\<rparr> else tcb)
           in tcb\<lparr>m_hops := dt_hops delayTag\<rparr>))"

text \<open>A transmission control block in the state of a fresh connection, for concrete inputs.\<close>

definition demo_tcb :: "u32 \<Rightarrow> u32 \<Rightarrow> tcb" where
  "demo_tcb cwnd seg = \<lparr>m_cWnd = cwnd, m_cWndInfl = cwnd, m_ssThresh = 0xffffffff, m_segmentSize = seg,
     m_lastAckedSeq = 0, m_congState = CA_OPEN, m_ecnState = ECN_DISABLED, m_highTxMark = 0,
     m_nextTxSequence = 0, m_bytesInFlight = 0, m_isCwndLimited = False, m_srtt = 0, m_lastRtt = 0,
     m_minRtt = 0, m_maxDelay = 0, m_target_delay = 0, m_hops = 0, m_isRetransDataAcked = False,
     m_lastAckedSackedBytes = 0, m_rcvTimestampValue = 0, m_rcvTimestampEchoReply = 0, m_useEcn = Ecn_Off\<rparr>"

text \<open>The field takes the maximum.\<close>

lemma forward_up_max:
  "m_maxDelay (forward_up_tag (Some g) tcb) = max (m_maxDelay tcb) (m_maxDelayNs g)"
  by (auto simp: forward_up_tag_def Let_def max_def)

text \<open>
  A connection that receives tagged segments one after another keeps the largest per-hop
  delay any of them measured, and the hop count of the last one.
\<close>

theorem connection_keeps_largest_delay:
  "m_maxDelay (fold (\<lambda>g. forward_up_tag (Some g)) gs tcb) = fold max (map m_maxDelayNs gs) (m_maxDelay tcb) \<and>
   m_hops (fold (\<lambda>g. forward_up_tag (Some g)) gs tcb) = (if gs = [] then m_hops tcb else dt_hops (last gs))"
proof (induction gs arbitrary: tcb)
  case (Cons g gs)
  have "m_hops (forward_up_tag (Some g) tcb) = dt_hops g"
    by (simp add: forward_up_tag_def Let_def)
  then show ?case using Cons [of "forward_up_tag (Some g) tcb"] by (simp add: forward_up_max max.commute)
qed simp

end
