(* ===== verification/Tcp_Congestion.thy ===== *)
theory Tcp_Congestion
  imports Tcp_Socket_State
begin

text \<open>
  \<^verbatim>\<open>src/src/internet/model/tcp-congestion-ops.cc\<close>, class \<^verbatim>\<open>TcpNewReno\<close>: slow start, congestion
  avoidance and the reaction to a loss. Window arithmetic wraps at 32 bits; the increment of
  congestion avoidance is computed in \<^verbatim>\<open>double\<close>.
\<close>

definition reno_SlowStart :: "u32 \<Rightarrow> tcb \<Rightarrow> u32 \<times> tcb" where
  "reno_SlowStart segmentsAcked tcb =
     (if segmentsAcked \<ge> 1
      then (segmentsAcked - 1, tcb\<lparr>m_cWnd := m_cWnd tcb + m_segmentSize tcb\<rparr>)
      else (0, tcb))"

definition reno_CongestionAvoidance :: "u32 \<Rightarrow> tcb \<Rightarrow> tcb res" where
  "reno_CongestionAvoidance segmentsAcked tcb =
     (if segmentsAcked > 0
      then let adder = d_div (d_of_word (m_segmentSize tcb * m_segmentSize tcb)) (d_of_word (m_cWnd tcb));
               adder = d_max (Fin 1) adder
           in bind_res (d_to_word adder) (\<lambda>inc. Inr (tcb\<lparr>m_cWnd := m_cWnd tcb + inc\<rparr>))
      else Inr tcb)"

definition reno_IncreaseWindow :: "u32 \<Rightarrow> tcb \<Rightarrow> tcb res" where
  "reno_IncreaseWindow segmentsAcked tcb =
     (let (segmentsAcked, tcb) =
        (if m_cWnd tcb < m_ssThresh tcb then reno_SlowStart segmentsAcked tcb else (segmentsAcked, tcb))
      in if m_cWnd tcb \<ge> m_ssThresh tcb then reno_CongestionAvoidance segmentsAcked tcb else Inr tcb)"

definition reno_GetSsThresh :: "tcb \<Rightarrow> u32 \<Rightarrow> u32" where
  "reno_GetSsThresh state bytesInFlight = max (2 * m_segmentSize state) (bytesInFlight div 2)"

section \<open>Integers as doubles\<close>

abbreviation D :: "rat \<Rightarrow> rat" where
  "D \<equiv> rnd 53 (- 1074)"

lemma mk_double_unit:
  assumes "0 \<le> q" "q \<le> 1"
  shows "mk_double q = Fin (D q)"
proof (rule mk_double_Fin)
  have "(1 :: rat) \<le> 2 ^ 100" by simp
  then show "\<bar>q\<bar> \<le> 2 ^ 100" using assms by (simp only: abs_of_nonneg order_trans)
qed

lemma d_of_int_exact:
  assumes "\<bar>n\<bar> < 2 ^ 53"
  shows "d_of_int n = Fin (of_int n)"
proof -
  have "\<bar>of_int n :: rat\<bar> \<le> of_int (2 ^ 53)"
    using assms by (simp only: of_int_abs [symmetric] of_int_le_iff)
  then have "mk_double (of_int n) = Fin (D (of_int n))" by (intro mk_double_Fin) simp
  then show ?thesis using double_rnd.r_int [OF assms] by (simp add: d_of_int_def)
qed

lemma uint32_less: "uint (w :: u32) < 2 ^ 32"
  using uint_bounded [of w] by simp

lemma d_of_u32: "d_of_word (w :: u32) = Fin (of_int (uint w))"
  using uint32_less [of w] uint_ge_0 [of w] by (intro d_of_int_exact) auto

lemma d_to_u32:
  assumes "0 \<le> x" "x < 2 ^ 32"
  shows "(d_to_word (Fin x) :: u32 res) = Inr (word_of_int \<lfloor>x\<rfloor>)"
proof -
  have "0 \<le> \<lfloor>x\<rfloor>" using assms(1) by simp
  moreover have "\<lfloor>x\<rfloor> < 2 ^ 32" using assms(2) by (simp add: floor_less_iff)
  ultimately show ?thesis using assms by (simp add: d_to_word_def)
qed

lemma uint_word_of_floor:
  assumes "0 \<le> x" "x < 2 ^ 32"
  shows "uint (word_of_int \<lfloor>x\<rfloor> :: u32) = \<lfloor>x\<rfloor>"
proof (rule word_of_int_inverse [OF refl])
  show "0 \<le> \<lfloor>x\<rfloor>" using assms(1) by simp
  show "\<lfloor>x\<rfloor> < 2 ^ LENGTH(32)" using assms(2) by (simp add: floor_less_iff)
qed

section \<open>Quotients of 32-bit numbers\<close>

text \<open>A quotient of two 32-bit numbers that exceeds an integer exceeds it by enough for its double to exceed it too.\<close>

lemma above_by_a_bit:
  fixes a b n :: int
  assumes "0 < b" "b \<le> 2 ^ k" "n * b < a"
  shows "of_int (n * 2 ^ k + 1) / 2 ^ k \<le> (of_int a / of_int b :: rat)"
proof -
  have "(n * 2 ^ k + 1) * b = n * b * 2 ^ k + b" by (simp add: algebra_simps)
  also have "\<dots> \<le> n * b * 2 ^ k + 2 ^ k" using assms(2) by simp
  also have "\<dots> = (n * b + 1) * 2 ^ k" by (simp add: algebra_simps)
  also have "\<dots> \<le> a * 2 ^ k" using assms(3) by (intro mult_right_mono) simp_all
  finally have "(of_int ((n * 2 ^ k + 1) * b) :: rat) \<le> of_int (a * 2 ^ k)" by (simp only: of_int_le_iff)
  then show ?thesis using assms(1) by (simp add: field_simps)
qed

text \<open>A quotient below an integer stays below it by as much.\<close>

lemma below_by_a_bit:
  fixes a b n :: int
  assumes "0 < b" "b \<le> 2 ^ k" "a < n * b"
  shows "(of_int a / of_int b :: rat) \<le> of_int (n * 2 ^ k - 1) / 2 ^ k"
proof -
  have "a * 2 ^ k \<le> (n * b - 1) * 2 ^ k" using assms(3) by (intro mult_right_mono) simp_all
  also have "\<dots> = n * b * 2 ^ k - 2 ^ k" by (simp add: algebra_simps)
  also have "\<dots> \<le> n * b * 2 ^ k - b" using assms(2) by simp
  also have "\<dots> = (n * 2 ^ k - 1) * b" by (simp add: algebra_simps)
  finally have "(of_int (a * 2 ^ k) :: rat) \<le> of_int ((n * 2 ^ k - 1) * b)" by (simp only: of_int_le_iff)
  then show ?thesis using assms(1) by (simp add: field_simps)
qed

lemma dyadic_double:
  assumes "\<bar>m\<bar> < 2 ^ 53" "k \<le> 60"
  shows "D (of_int m / 2 ^ k) = of_int m / 2 ^ k"
proof -
  have "(2 :: rat) powi (- int k) = 1 / 2 ^ k" by (simp add: power_int_minus field_simps)
  then show ?thesis using double_rnd.r_dyadic [OF assms(1), of "- int k"] assms(2) by simp
qed

text \<open>The double of a quotient below \<open>2 ^ 16\<close> has the same integer part as the quotient.\<close>

lemma floor_quotient:
  fixes a b :: int
  assumes a: "0 \<le> a" and b: "0 < b" "b < 2 ^ 32" and q: "a div b \<le> 2 ^ 16"
  shows "\<lfloor>D (of_int a / of_int b)\<rfloor> = a div b"
proof -
  let ?n = "a div b"
  have n: "0 \<le> ?n" using a b by (simp add: pos_imp_zdiv_nonneg_iff)
  have le: "of_int ?n \<le> (of_int a / of_int b :: rat)"
    using of_int_floor_le [of "of_int a / of_int b :: rat"] by (simp only: floor_divide_of_int_eq)
  have lo: "of_int ?n \<le> D (of_int a / of_int b)"
    by (rule double_rnd.r_ge_int [OF le]) (use n q in simp)
  have "(?n + 1) * b = ?n * b + b" by (simp only: distrib_right mult_1)
  then have "a < (?n + 1) * b" using div_mult_mod_eq [of a b] pos_mod_bound [OF b(1), of a] by linarith
  then have "(of_int a / of_int b :: rat) \<le> of_int ((?n + 1) * 2 ^ 32 - 1) / 2 ^ 32"
    using b by (intro below_by_a_bit) simp_all
  then have "D (of_int a / of_int b) \<le> D (of_int ((?n + 1) * 2 ^ 32 - 1) / 2 ^ 32)" by (rule double_rnd.r_mono)
  also have "\<dots> = of_int ((?n + 1) * 2 ^ 32 - 1) / 2 ^ 32"
  proof (rule dyadic_double)
    have "0 \<le> (?n + 1) * 2 ^ 32 - 1" "(?n + 1) * 2 ^ 32 \<le> (2 ^ 16 + 1) * 2 ^ 32" using n q by simp_all
    then show "\<bar>(?n + 1) * 2 ^ 32 - 1\<bar> < 2 ^ 53" by simp
  qed simp
  also have "\<dots> < of_int (?n + 1)" by (simp add: field_simps)
  finally show ?thesis using lo by (simp add: floor_eq_iff)
qed

section \<open>NewReno\<close>

lemma reno_avoidance_step:
  fixes tcb :: tcb
  defines "g \<equiv> uint (m_segmentSize tcb)" and "c \<equiv> uint (m_cWnd tcb)"
  assumes "g < 2 ^ 16" "g \<le> c" "0 < c" "0 < acked"
  shows "reno_CongestionAvoidance acked tcb = Inr (tcb\<lparr>m_cWnd := m_cWnd tcb + word_of_int (max 1 (g * g div c))\<rparr>)"
proof -
  have gc: "0 \<le> g" "g < 2 ^ 16" "g \<le> c" "0 < c" "c < 2 ^ 32" using assms(3-5) uint32_less [of "m_cWnd tcb"] by (simp_all add: g_def c_def)
  have "g * g \<le> (2 ^ 16 - 1) * (2 ^ 16 - 1)" using gc by (intro mult_mono) auto
  then have gg: "0 \<le> g * g" "g * g < 2 ^ 32" using gc(1) by simp_all
  then have "uint (m_segmentSize tcb * m_segmentSize tcb) = g * g"
    by (simp add: uint_word_ariths g_def)
  then have a: "d_of_word (m_segmentSize tcb * m_segmentSize tcb) = Fin (of_int (g * g))"
    using d_of_u32 [of "m_segmentSize tcb * m_segmentSize tcb"] by simp
  have le: "g * g div c \<le> g"
  proof -
    have "g * g div c \<le> g * c div c" using gc by (intro zdiv_mono1 mult_left_mono) simp_all
    then show ?thesis using gc(4) by simp
  qed
  define q where "q = D (of_int (g * g) / of_int c)"
  have fl: "\<lfloor>q\<rfloor> = g * g div c" unfolding q_def using gc gg le by (intro floor_quotient) simp_all
  have q: "0 \<le> q" unfolding q_def using gc gg by (intro double_rnd.r_nonneg) simp
  have up: "q < 2 ^ 17"
  proof -
    have "q < of_int (\<lfloor>q\<rfloor> + 1)" by linarith
    also have "\<lfloor>q\<rfloor> + 1 \<le> 2 ^ 17" using fl le gc(2) by simp
    then have "(of_int (\<lfloor>q\<rfloor> + 1) :: rat) \<le> of_int (2 ^ 17)" by (simp only: of_int_le_iff)
    finally show ?thesis by simp
  qed
  have "(of_int (g * g) / of_int c :: rat) \<le> of_int (g * g)" using gc gg by (simp add: divide_le_eq mult_le_cancel_left1)
  also have "\<dots> \<le> of_int (2 ^ 32)" using gg by (simp only: of_int_le_iff)
  also have "\<dots> \<le> (2 :: rat) ^ 100" by simp
  finally have "d_div (Fin (of_int (g * g))) (Fin (of_int c)) = Fin q"
    unfolding q_def using gc gg by (simp add: mk_double_Fin)
  then have add: "d_max (Fin 1) (d_div (Fin (of_int (g * g))) (Fin (of_int c))) = Fin (max 1 q)"
    by (simp add: d_max_def max_def)
  have m: "0 \<le> max 1 q" "max 1 q < 2 ^ 32" using q up by auto
  have "\<lfloor>max 1 q\<rfloor> = max 1 \<lfloor>q\<rfloor>" by (simp add: max_def le_floor_iff)
  then have "\<lfloor>max 1 q\<rfloor> = max 1 (g * g div c)" unfolding fl .
  then show ?thesis
    using assms(6) a add d_to_u32 [OF m]
    by (simp add: reno_CongestionAvoidance_def Let_def d_of_u32 [of "m_cWnd tcb"] c_def)
qed

text \<open>
  C35: what NewReno makes of an acknowledgement, for a window that is not zero and not below one segment and a segment below 64 KiB. With no
  whole segment acknowledged nothing changes. In congestion avoidance (window at or above the threshold) the window grows by
  \<open>seg\<^sup>2 / window\<close> bytes, rounded down but at least one, however many segments are acknowledged. In slow start it grows by one segment, and if
  that reaches the threshold and more than one segment was acknowledged, by the increment of congestion avoidance for the larger window as well.
  The additions are those of \<^verbatim>\<open>uint32_t\<close>, so near \<open>2 ^ 32\<close> the increments can make the window wrap; in slow start the window and a segment
  are assumed to fit in 32 bits.
\<close>

theorem reno_window_growth:
  fixes tcb :: tcb
  defines "seg \<equiv> uint (m_segmentSize tcb)"
  defines "inc w \<equiv> word_of_int (max 1 (seg * seg div uint w))"
  assumes "seg < 2 ^ 16" "seg \<le> uint (m_cWnd tcb)" "0 < m_cWnd tcb"
    and "m_cWnd tcb < m_ssThresh tcb \<Longrightarrow> uint (m_cWnd tcb) + seg < 2 ^ 32"
  shows "reno_IncreaseWindow acked tcb = Inr (tcb\<lparr>m_cWnd :=
    (if acked = 0 then m_cWnd tcb
     else if m_ssThresh tcb \<le> m_cWnd tcb then m_cWnd tcb + inc (m_cWnd tcb)
     else let w = m_cWnd tcb + m_segmentSize tcb in if 1 < acked \<and> m_ssThresh tcb \<le> w then w + inc w else w)\<rparr>)"
proof -
  have pos: "0 < uint (m_cWnd tcb)" using assms(5) by (simp add: word_less_def)
  let ?t = "tcb\<lparr>m_cWnd := m_cWnd tcb + m_segmentSize tcb\<rparr>"
  consider "acked = 0" | "acked \<noteq> 0" "m_ssThresh tcb \<le> m_cWnd tcb" | "acked \<noteq> 0" "m_cWnd tcb < m_ssThresh tcb" by fastforce
  then show ?thesis
  proof cases
    case 1
    then show ?thesis by (simp add: reno_IncreaseWindow_def reno_SlowStart_def reno_CongestionAvoidance_def)
  next
    case 2
    then have "0 < acked" "\<not> m_cWnd tcb < m_ssThresh tcb" by (simp_all add: word_greater_zero_iff)
    then show ?thesis
      using 2 reno_avoidance_step [of tcb acked] assms(3,4) pos by (simp add: reno_IncreaseWindow_def seg_def inc_def)
  next
    case 3
    have u: "uint (m_cWnd ?t) = uint (m_cWnd tcb) + seg"
      using assms(6) [OF 3(2)] by (simp add: uint_word_ariths seg_def)
    have one: "1 \<le> acked" "1 < acked \<longleftrightarrow> 0 < acked - 1"
      using 3(1) unat_minus_one [of acked] by (auto simp: word_le_nat_alt word_less_nat_alt unat_eq_0 [symmetric])
    have ss: "reno_SlowStart acked tcb = (acked - 1, ?t)" using one(1) by (simp add: reno_SlowStart_def)
    show ?thesis
    proof (cases "1 < acked \<and> m_ssThresh tcb \<le> m_cWnd ?t")
      case True
      moreover have "seg \<le> uint (m_cWnd ?t)" "0 < uint (m_cWnd ?t)" using u pos uint_ge_0 [of "m_segmentSize tcb"] unfolding seg_def by linarith+
      ultimately show ?thesis
        using reno_avoidance_step [of ?t "acked - 1"] 3 ss one assms(3) by (simp add: reno_IncreaseWindow_def seg_def inc_def Let_def)
    next
      case False
      then show ?thesis
        using 3 ss one(2) by (auto simp: reno_IncreaseWindow_def reno_CongestionAvoidance_def Let_def)
    qed
  qed
qed

theorem reno_window_growth_witness:
  "reno_IncreaseWindow 2 ((demo_tcb 14480 1448)\<lparr>m_ssThresh := 15000\<rparr>) =
     Inr ((demo_tcb 14480 1448)\<lparr>m_ssThresh := 15000, m_cWnd := 16059\<rparr>)"
  using reno_window_growth [of "(demo_tcb 14480 1448)\<lparr>m_ssThresh := 15000\<rparr>" 2] by (simp add: demo_tcb_def Let_def)

end
