(* ===== verification/Tcp_Swift.thy ===== *)
theory Tcp_Swift
  imports Tcp_Congestion
begin

text \<open>
  \<^verbatim>\<open>src/src/internet/model/tcp-swift.cc\<close>, class \<^verbatim>\<open>TcpSwift\<close>, the delay-based congestion control of
  the experiment. All arithmetic on windows and delays is in \<^verbatim>\<open>double\<close>, so every step of it is
  rounded as in \<open>Ieee_Double\<close>; \<open>now\<close> is \<^verbatim>\<open>Simulator::Now ()\<close>. Writing the log file changes no
  state of the program and is left out.
\<close>

section \<open>State and operations\<close>

record swift =
  m_ai :: dbl
  m_beta :: dbl
  m_maxMdf :: dbl
  m_baseTarget :: int
  m_retxResetThreshold :: u32
  m_retransmitCount :: u32
  m_alpha :: dbl
  m_rtt :: int
  m_canDecrease :: bool
  m_tLastDecrease :: int

text \<open>A decimal literal of the source is the nearest double.\<close>

definition lit :: "rat \<Rightarrow> dbl" where
  "lit q = mk_double q"

text \<open>The constructor with the default attribute values of \<^verbatim>\<open>GetTypeId\<close>.\<close>

definition TcpSwift :: swift where
  "TcpSwift =
     (let denom = d_sub (d_div (lit 1) (d_sqrt (lit (1 / 10)))) (d_div (lit 1) (d_sqrt (lit 32)));
          alpha = d_div (lit 4) denom;
          beta = d_div (d_mul (lit (- 1)) alpha) (d_sqrt (lit 32))
      in \<lparr>m_ai = lit 2, m_beta = beta, m_maxMdf = lit 1, m_baseTarget = 300000,
          m_retxResetThreshold = 3, m_retransmitCount = 0, m_alpha = alpha, m_rtt = 0,
          m_canDecrease = False, m_tLastDecrease = 0\<rparr>)"

definition swift_Init :: "int \<Rightarrow> swift \<Rightarrow> swift" where
  "swift_Init now s = s\<lparr>m_retransmitCount := 0, m_canDecrease := False, m_tLastDecrease := now\<rparr>"

definition CanDecrease :: "int \<Rightarrow> swift \<Rightarrow> bool res" where
  "CanDecrease now s =
     (if m_rtt s = 0 then Inr False
      else bind_res (time_sub now (m_tLastDecrease s)) (\<lambda>d. Inr (d \<ge> m_rtt s)))"

definition target_delay :: "swift \<Rightarrow> u32 \<Rightarrow> u64 \<Rightarrow> dbl res" where
  "target_delay s segments hops =
     (let cwnd = d_of_word segments;
          term = d_add (d_div (m_alpha s) (d_sqrt cwnd)) (m_beta s);
          term = d_min (lit 4) term
      in bind_res (GetSeconds (m_baseTarget s)) (\<lambda>baseTarget.
           Inr (d_add (d_mul baseTarget (d_add (lit 1) term)) (d_mul (d_of_word hops) (lit (825 / 10000000))))))"

definition ComputeTargetDelay :: "swift \<Rightarrow> tcb \<Rightarrow> (dbl \<times> tcb) res" where
  "ComputeTargetDelay s tcb =
     bind_res (GetCwndInSegments tcb) (\<lambda>segments.
     bind_res (target_delay s segments (m_hops tcb)) (\<lambda>targetDelay.
     bind_res (d_to_word targetDelay) (\<lambda>w.
     Inr (targetDelay, tcb\<lparr>m_target_delay := w\<rparr>))))"

definition swift_PktsAcked :: "int \<Rightarrow> tcb \<Rightarrow> swift \<Rightarrow> swift" where
  "swift_PktsAcked rtt tcb s = (if rtt \<noteq> 0 then s\<lparr>m_rtt := m_srtt tcb\<rparr> else s)"

definition additive_increase :: "swift \<Rightarrow> u32 \<Rightarrow> dbl \<Rightarrow> dbl" where
  "additive_increase s segmentsAcked cwnd =
     (if d_ge cwnd (lit 1)
      then d_add cwnd (d_mul (d_div (m_ai s) cwnd) (d_of_word segmentsAcked))
      else d_add cwnd (d_mul (m_ai s) (d_of_word segmentsAcked)))"

definition decrease_factor :: "swift \<Rightarrow> dbl \<Rightarrow> dbl \<Rightarrow> dbl" where
  "decrease_factor s measuredDelay targetDelay =
     (let factor = d_sub (lit 1) (d_div (d_mul (lit (4 / 10)) (d_sub measuredDelay targetDelay)) measuredDelay);
          lowerBound = d_sub (lit 1) (m_maxMdf s)
      in d_max factor lowerBound)"

definition SwiftUpdateCwndOnAck :: "int \<Rightarrow> u32 \<Rightarrow> swift \<times> tcb \<Rightarrow> (swift \<times> tcb) res" where
  "SwiftUpdateCwndOnAck now segmentsAcked st =
     (case st of (s, tcb) \<Rightarrow>
        let s = s\<lparr>m_retransmitCount := 0\<rparr>
        in bind_res (GetSeconds (m_rtt s)) (\<lambda>measuredDelay.
           bind_res (ComputeTargetDelay s tcb) (\<lambda>(targetDelay, tcb).
           bind_res (GetCwndInSegments tcb) (\<lambda>segments.
           bind_res (CanDecrease now s) (\<lambda>can.
             let s = s\<lparr>m_canDecrease := can\<rparr>;
                 cwnd = d_of_word segments;
                 (s, cwnd) =
                   (if d_less measuredDelay targetDelay then (s, additive_increase s segmentsAcked cwnd)
                    else if m_canDecrease s
                    then (s\<lparr>m_tLastDecrease := now\<rparr>, d_mul cwnd (decrease_factor s measuredDelay targetDelay))
                    else (s, cwnd))
             in bind_res (d_to_word (d_mul cwnd (d_of_word (m_segmentSize tcb)))) (\<lambda>newCwnd.
                Inr (s, tcb\<lparr>m_cWnd := newCwnd, m_maxDelay := 0\<rparr>)))))))"

definition swift_IncreaseWindow :: "int \<Rightarrow> u32 \<Rightarrow> swift \<times> tcb \<Rightarrow> (swift \<times> tcb) res" where
  "swift_IncreaseWindow now segmentsAcked st = SwiftUpdateCwndOnAck now segmentsAcked st"

definition swift_GetSsThresh :: "tcb \<Rightarrow> u32 \<Rightarrow> u32" where
  "swift_GetSsThresh tcb bytesInFlight = max (2 * m_segmentSize tcb) (m_cWnd tcb div 2)"

definition MinCwnd :: "tcb \<Rightarrow> u32" where
  "MinCwnd tcb = m_segmentSize tcb"

text \<open>The multiplicative decrease shared by the reactions to a timeout and to fast recovery.\<close>

definition loss_decrease :: "int \<Rightarrow> swift \<times> tcb \<Rightarrow> (swift \<times> tcb) res" where
  "loss_decrease now st =
     (case st of (s, tcb) \<Rightarrow>
        bind_res (GetCwndInSegments tcb) (\<lambda>segments.
          let cwnd = d_mul (d_of_word segments) (d_sub (lit 1) (m_maxMdf s))
          in bind_res (d_to_word cwnd) (\<lambda>w.
             Inr (s\<lparr>m_tLastDecrease := now\<rparr>, tcb\<lparr>m_cWnd := max 1 w * m_segmentSize tcb\<rparr>))))"

definition swift_CwndEvent :: "int \<Rightarrow> ca_event \<Rightarrow> swift \<times> tcb \<Rightarrow> (swift \<times> tcb) res" where
  "swift_CwndEvent now ev st =
     (case st of (s, tcb) \<Rightarrow>
        bind_res (CanDecrease now s) (\<lambda>can.
          let s = s\<lparr>m_canDecrease := can\<rparr>
          in if ev = CA_EVENT_LOSS
             then let s = s\<lparr>m_retransmitCount := m_retransmitCount s + 1\<rparr>
                  in bind_res
                       (if m_retransmitCount s \<ge> m_retxResetThreshold s
                        then Inr (s, tcb\<lparr>m_cWnd := MinCwnd tcb\<rparr>)
                        else if m_canDecrease s then loss_decrease now (s, tcb)
                        else Inr (s, tcb))
                       (\<lambda>(s, tcb). bind_res (ComputeTargetDelay s tcb) (\<lambda>(_, tcb). Inr (s, tcb)))
             else Inr (s, tcb)))"

definition swift_CongestionStateSet :: "int \<Rightarrow> cong_state \<Rightarrow> swift \<times> tcb \<Rightarrow> (swift \<times> tcb) res" where
  "swift_CongestionStateSet now newState st =
     (case st of (s, tcb) \<Rightarrow>
        if newState = CA_OPEN then Inr (s\<lparr>m_retransmitCount := 0\<rparr>, tcb)
        else if newState = CA_RECOVERY
        then let s = s\<lparr>m_retransmitCount := 0\<rparr>
             in bind_res (CanDecrease now s) (\<lambda>can.
                  let s = s\<lparr>m_canDecrease := can\<rparr>
                  in if m_canDecrease s
                     then bind_res (loss_decrease now (s, tcb)) (\<lambda>(s, tcb).
                          bind_res (ComputeTargetDelay s tcb) (\<lambda>(_, tcb). Inr (s, tcb)))
                     else Inr (s, tcb))
        else Inr (s, tcb))"

section \<open>Facts shared by the results\<close>

lemma lit_1 [simp]: "lit 1 = Fin 1"
  using d_of_int_exact [of 1] by (simp add: lit_def d_of_int_def)

lemma target_delay_update [simp]:
  "target_delay (s\<lparr>m_retransmitCount := n\<rparr>) = target_delay s"
  "target_delay (s\<lparr>m_canDecrease := b\<rparr>) = target_delay s"
  "target_delay (s\<lparr>m_tLastDecrease := t\<rparr>) = target_delay s"
  by (simp_all add: target_delay_def fun_eq_iff)

lemma CanDecrease_update [simp]: "CanDecrease now (s\<lparr>m_retransmitCount := n\<rparr>) = CanDecrease now s"
  by (simp add: CanDecrease_def)

lemma CanDecrease_eq:
  assumes "0 < m_rtt s" "0 \<le> now" "now < 2 ^ 63" "0 \<le> m_tLastDecrease s" "m_tLastDecrease s < 2 ^ 63"
  shows "CanDecrease now s = Inr (m_rtt s \<le> now - m_tLastDecrease s)"
proof -
  have "int64_range (now - m_tLastDecrease s)" using assms by (auto simp: int64_range_def)
  then show ?thesis using assms by (simp add: CanDecrease_def time_sub_def)
qed

text \<open>The update on an acknowledgement, once delays and segment size are known.\<close>

lemma SwiftUpdate_eq:
  fixes k :: u32
  assumes "m_segmentSize tcb \<noteq> 0" "GetSeconds (m_rtt s) = Inr (Fin m)"
    "target_delay s (m_cWnd tcb div m_segmentSize tcb) (m_hops tcb) = Inr (Fin t)"
    "0 \<le> t" "t < 2 ^ 64" "CanDecrease now s = Inr can"
  defines "c \<equiv> d_of_word (m_cWnd tcb div m_segmentSize tcb)"
  defines "cw \<equiv> (if m < t then additive_increase s k c
                  else if can then d_mul c (decrease_factor s (Fin m) (Fin t)) else c)"
  shows "SwiftUpdateCwndOnAck now k (s, tcb) =
    bind_res (d_to_word (d_mul cw (d_of_word (m_segmentSize tcb)))) (\<lambda>newCwnd.
      Inr (s\<lparr>m_retransmitCount := 0, m_canDecrease := can,
             m_tLastDecrease := (if \<not> m < t \<and> can then now else m_tLastDecrease s)\<rparr>,
           tcb\<lparr>m_target_delay := word_of_int \<lfloor>t\<rfloor>, m_cWnd := newCwnd, m_maxDelay := 0\<rparr>))"
proof -
  have "\<lfloor>t\<rfloor> < 2 ^ 64" "0 \<le> \<lfloor>t\<rfloor>" using assms(4,5) by (simp_all add: floor_less_iff)
  then have w: "(d_to_word (Fin t) :: u64 res) = Inr (word_of_int \<lfloor>t\<rfloor>)"
    using assms(4) by (simp add: d_to_word_def)
  have inc: "additive_increase (s\<lparr>m_retransmitCount := 0, m_canDecrease := b\<rparr>) k c = additive_increase s k c"
    and dec: "decrease_factor (s\<lparr>m_retransmitCount := 0, m_canDecrease := b\<rparr>) x y = decrease_factor s x y"
    for b x y
    by (simp_all add: additive_increase_def decrease_factor_def)
  show ?thesis
    using assms(1-3,6) w
    by (auto simp: SwiftUpdateCwndOnAck_def ComputeTargetDelay_def GetCwndInSegments_def Let_def c_def cw_def
        inc [unfolded c_def] dec intro!: bind_res_cong)
qed

lemma whole_segments:
  fixes a g :: u32
  assumes "g \<noteq> 0"
  shows "uint (a div g) * uint g \<le> uint a" "uint (a div g) = uint a div uint g" "0 < uint g"
proof -
  show q: "uint (a div g) = uint a div uint g" by (rule uint_div)
  have "uint g \<noteq> 0" using assms by (simp add: word_uint_eq_iff)
  then show g: "0 < uint g" using uint_ge_0 [of g] by linarith
  have "uint a div uint g * uint g + uint a mod uint g = uint a" by (rule div_mult_mod_eq)
  moreover have "0 \<le> uint a mod uint g" using g by simp
  ultimately show "uint (a div g) * uint g \<le> uint a" unfolding q by linarith
qed

lemma mk_double_u32_product:
  assumes "0 \<le> x" "x \<le> of_int n" "n < 2 ^ 32"
  shows "mk_double x = Fin (D x)" "0 \<le> D x" "D x \<le> of_int n"
proof -
  have n: "0 \<le> n" using assms by linarith
  have "(of_int n :: rat) \<le> of_int (2 ^ 32)" using assms(3) by (simp only: of_int_le_iff)
  then show "mk_double x = Fin (D x)" using assms by (intro mk_double_Fin) simp
  show "0 \<le> D x" using assms by (intro double_rnd.r_nonneg)
  show "D x \<le> of_int n" using assms n by (intro double_rnd.r_le_int) auto
qed

section \<open>The target delay\<close>

text \<open>A value that is a finite number at least \<open>l\<close>, or positive infinity.\<close>

fun at_least :: "rat \<Rightarrow> dbl \<Rightarrow> bool" where
  "at_least l (Fin x) = (l \<le> x)"
| "at_least l PInf = True"
| "at_least l _ = False"

lemma mk_double_at_least:
  assumes "l \<le> q" "D l = l" "\<bar>l\<bar> \<le> 2 ^ 100"
  shows "at_least l (mk_double q)"
proof -
  have "l \<le> D q" using double_rnd.r_mono [OF assms(1)] assms(2) by simp
  moreover have "(2 :: rat) ^ 100 < 2 ^ 1024" by (rule power_strict_increasing) auto
  ultimately have "\<not> D q \<le> - (2 ^ 1024)" using assms(3) by linarith
  then show ?thesis using \<open>l \<le> D q\<close> by (simp add: mk_double_def Let_def pow2_def)
qed

lemma isqrt_nonneg: "0 \<le> isqrt n"
  by (induction n rule: isqrt.induct) (simp add: isqrt.simps Let_def)

lemma d_sqrt_nonneg: "0 \<le> x \<Longrightarrow> at_least 0 (d_sqrt (Fin x))"
  using isqrt_nonneg by (auto simp: Let_def pow2_def intro!: mk_double_at_least mult_nonneg_nonneg)

lemma d_div_nonneg: "0 < a \<Longrightarrow> at_least 0 x \<Longrightarrow> at_least 0 (d_div (Fin a) x)"
  by (cases x) (auto simp: d_sign_def intro!: mk_double_at_least)

lemma swift_term_bounds:
  assumes "m_alpha s = Fin a" "0 < a" "m_beta s = Fin b" "- 1 \<le> b"
  shows "\<exists>x. d_min (lit 4) (d_add (d_div (m_alpha s) (d_sqrt (d_of_word (n :: u32)))) (m_beta s)) = Fin x \<and>
    - 1 \<le> x \<and> x \<le> 4"
proof -
  have "at_least 0 (d_div (Fin a) (d_sqrt (Fin (of_int (uint n)))))"
    using assms(2) by (intro d_div_nonneg d_sqrt_nonneg) (simp_all only: of_int_0_le_iff uint_ge_0)
  moreover have "D (- 1) = - 1" using double_rnd.r_int [of "- 1"] by simp
  ultimately have "at_least (- 1) (d_add (d_div (Fin a) (d_sqrt (Fin (of_int (uint n))))) (Fin b))"
    using assms(4) by (cases "d_div (Fin a) (d_sqrt (Fin (of_int (uint n))))") (auto intro!: mk_double_at_least)
  moreover have "lit 4 = Fin 4" using d_of_int_exact [of 4] by (simp add: lit_def d_of_int_def)
  ultimately show ?thesis
    unfolding assms(1,3) d_of_u32
    by (cases "d_add (d_div (Fin a) (d_sqrt (Fin (of_int (uint n))))) (Fin b)") (auto simp: d_min_def)
qed

lemma mk_double_range:
  assumes "0 \<le> q" "q \<le> 2 ^ k" "k \<le> 100"
  shows "mk_double q = Fin (D q) \<and> 0 \<le> D q \<and> D q \<le> 2 ^ k"
proof -
  have "(2 :: rat) ^ k \<le> 2 ^ 100" using assms(3) by (rule power_increasing) simp
  then have "\<bar>q\<bar> \<le> 2 ^ 100" using assms(1,2) by simp
  moreover have "D (2 ^ k) = 2 ^ k" using double_rnd.r_dyadic [of 1 "int k"] by simp
  ultimately show ?thesis
    using mk_double_Fin [of q] double_rnd.r_mono [OF assms(2)] double_rnd.r_nonneg [OF assms(1)] by simp
qed

text \<open>The attribute values with which the target delay is a number: a positive slope, an offset of
  at least \<open>- 1\<close> and a base target that is a 64-bit time.\<close>

definition swift_params :: "swift \<Rightarrow> bool" where
  "swift_params s \<longleftrightarrow> (\<exists>a b. m_alpha s = Fin a \<and> 0 < a \<and> m_beta s = Fin b \<and> - 1 \<le> b) \<and>
     0 < m_baseTarget s \<and> m_baseTarget s < 2 ^ 63"

lemma target_delay_range:
  assumes "swift_params s"
  shows "\<exists>t base. target_delay s n h = Inr (Fin t) \<and> GetSeconds (m_baseTarget s) = Inr (Fin base) \<and>
    0 \<le> t \<and> t < 2 ^ 64 \<and> t \<le> D (D (base * 5) + D (D (of_int (uint h)) * D (825 / 10000000)))"
proof -
  obtain a b where ab: "m_alpha s = Fin a" "0 < a" "m_beta s = Fin b" "- 1 \<le> b"
    using assms by (auto simp: swift_params_def)
  obtain x where x: "d_min (lit 4) (d_add (d_div (m_alpha s) (d_sqrt (d_of_word n))) (m_beta s)) = Fin x"
    "- 1 \<le> x" "x \<le> 4"
    using swift_term_bounds [OF ab] by blast
  obtain base where base: "GetSeconds (m_baseTarget s) = Inr (Fin base)" "0 < base" "base \<le> 2 ^ 34"
    using GetSeconds_pos [of "m_baseTarget s"] assms by (auto simp: swift_params_def)
  have x1: "0 \<le> 1 + x" "1 + x \<le> 2 ^ 3" using x by auto
  note f = mk_double_range [OF x1]
  define y where "y = D (1 + x)"
  have y: "mk_double (1 + x) = Fin y" "0 \<le> y" "y \<le> 5"
    using f double_rnd.r_le_int [of "1 + x" 5] x by (simp_all add: y_def)
  have by5: "0 \<le> base * y" "base * y \<le> base * 5" using base y by auto
  have "base * 5 \<le> 2 ^ 34 * 2 ^ 3" using base(2,3) by (intro mult_mono) auto
  then have b37: "base * y \<le> 2 ^ 37" "base * 5 \<le> 2 ^ 37" using by5 by simp_all
  note p = mk_double_range [OF by5(1) b37(1)]
  have h64: "uint h < 2 ^ 64" using uint_bounded [of h] by simp
  then have "(of_int (uint h) :: rat) \<le> of_int (2 ^ 64)" by (simp only: of_int_le_iff)
  then have h: "0 \<le> (of_int (uint h) :: rat)" "(of_int (uint h) :: rat) \<le> 2 ^ 64"
    by (simp_all only: of_int_0_le_iff uint_ge_0 of_int_power of_int_numeral)
  note q = mk_double_range [OF h]
  define c where "c = D (825 / 10000000)"
  have c: "lit (825 / 10000000) = Fin c" "0 \<le> c" "c \<le> 1"
    using mk_double_unit [of "825 / 10000000"] double_rnd.r_le_int [of "825 / 10000000" 1]
    by (auto simp: c_def lit_def intro!: double_rnd.r_nonneg)
  have c12: "c \<le> 1 / 2 ^ 12"
  proof -
    have pw: "(2 :: rat) powi (- 12) = 1 / 2 ^ 12" by (simp add: power_int_minus_divide)
    have "D (1 / 2 ^ 12) = 1 / 2 ^ 12" using double_rnd.r_dyadic [of 1 "- 12"] unfolding pw by simp
    then show ?thesis using double_rnd.r_mono [of "825 / 10000000" "1 / 2 ^ 12"] by (simp add: c_def)
  qed
  have "D (of_int (uint h)) * c \<le> 2 ^ 64 * (1 / 2 ^ 12)" using q c c12 by (intro mult_mono) auto
  then have hc: "0 \<le> D (of_int (uint h)) * c" "D (of_int (uint h)) * c \<le> 2 ^ 52" using q c by auto
  note r = mk_double_range [OF hc]
  define z where "z = D (base * y) + D (D (of_int (uint h)) * c)"
  have "D (base * y) \<le> 2 ^ 52" using p by (auto intro: order_trans)
  then have z: "0 \<le> z" "z \<le> 2 ^ 53" using p r by (auto simp: z_def)
  note u = mk_double_range [OF z]
  have "target_delay s n h = Inr (Fin (D z))"
    unfolding target_delay_def Let_def x(1)
    using base(1) y(1) p q r u c(1) by (simp add: d_of_int_def z_def)
  moreover have "D z \<le> D (D (base * 5) + D (D (of_int (uint h)) * c))"
    unfolding z_def using by5(2) by (intro double_rnd.r_mono add_right_mono) auto
  moreover have "D z < 2 ^ 64" using u by (auto intro: le_less_trans)
  ultimately show ?thesis using base(1) u by (auto simp: c_def)
qed

text \<open>
  C16: with the parameters the constructor computes, the target delay is a finite, non-negative
  number for every window and hop count, at most five times the base target plus the term for
  the hops, each step rounded.
\<close>

theorem swift_target_bounds:
  assumes "swift_params s"
  shows "\<exists>t base. target_delay s n h = Inr (Fin t) \<and> GetSeconds (m_baseTarget s) = Inr (Fin base) \<and>
    0 \<le> t \<and> t \<le> D (D (base * 5) + D (D (of_int (uint h)) * D (825 / 10000000)))"
  using target_delay_range [OF assms, of n h] by blast

text \<open>The constants of the constructor, and the delays used as concrete inputs, step by step.\<close>

lemma swift_ctor_steps:
  "lit (1 / 10) = Fin (3602879701896397 / 36028797018963968)"
  "lit 32 = Fin 32"
  "lit 4 = Fin 4"
  "lit 2 = Fin 2"
  "lit (- 1) = Fin (- 1)"
  "d_sqrt (Fin (3602879701896397 / 36028797018963968)) = Fin (5696652996790543 / 18014398509481984)"
  "d_sqrt (Fin 32) = Fin (6369051672525773 / 1125899906842624)"
  "d_div (Fin 1) (Fin (5696652996790543 / 18014398509481984)) = Fin (3560408122994089 / 1125899906842624)"
  "d_div (Fin 1) (Fin (6369051672525773 / 1125899906842624)) = Fin (1592262918131443 / 9007199254740992)"
  "d_sub (Fin (3560408122994089 / 1125899906842624)) (Fin (1592262918131443 / 9007199254740992)) = Fin (6722750516455317 / 2251799813685248)"
  "d_div (Fin 4) (Fin (6722750516455317 / 2251799813685248)) = Fin (3016980855381483 / 2251799813685248)"
  "d_mul (Fin (- 1)) (Fin (3016980855381483 / 2251799813685248)) = Fin (- (3016980855381483 / 2251799813685248))"
  "d_div (Fin (- (3016980855381483 / 2251799813685248))) (Fin (6369051672525773 / 1125899906842624)) = Fin (- (8533310486200949 / 36028797018963968))"
  by code_simp+

lemma swift_seconds:
  "GetSeconds 300000 = Inr (Fin (5534023222112865 / 18446744073709551616))"
  "GetSeconds 100000 = Inr (Fin (1844674407370955 / 18446744073709551616))"
  "GetSeconds 100000000 = Inr (Fin (3602879701896397 / 36028797018963968))"
proof -
  have "GetSeconds 300000 = Inr (Fin (D (rnd 64 (- 16445) (of_int (300000 * inv_second div 2 ^ 64) / 2 ^ 64))))"
    "GetSeconds 100000 = Inr (Fin (D (rnd 64 (- 16445) (of_int (100000 * inv_second div 2 ^ 64) / 2 ^ 64))))"
    "GetSeconds 100000000 = Inr (Fin (D (rnd 64 (- 16445) (of_int (100000000 * inv_second div 2 ^ 64) / 2 ^ 64))))"
    by (rule GetSeconds_eq; simp)+
  moreover have "D (rnd 64 (- 16445) (of_int (300000 * inv_second div 2 ^ 64) / 2 ^ 64)) =
      5534023222112865 / 18446744073709551616" by code_simp
  moreover have "D (rnd 64 (- 16445) (of_int (100000 * inv_second div 2 ^ 64) / 2 ^ 64)) =
      1844674407370955 / 18446744073709551616" by code_simp
  moreover have "D (rnd 64 (- 16445) (of_int (100000000 * inv_second div 2 ^ 64) / 2 ^ 64)) =
      3602879701896397 / 36028797018963968" by code_simp
  ultimately show
    "GetSeconds 300000 = Inr (Fin (5534023222112865 / 18446744073709551616))"
    "GetSeconds 100000 = Inr (Fin (1844674407370955 / 18446744073709551616))"
    "GetSeconds 100000000 = Inr (Fin (3602879701896397 / 36028797018963968))"
    by (simp_all only:)
qed

lemma swift_hop_steps:
  "lit (825 / 10000000) = Fin (760928193040519 / 9223372036854775808)"
  "d_of_int 0 = Fin 0"
  "d_mul (Fin 0) (Fin (760928193040519 / 9223372036854775808)) = Fin 0"
  by code_simp+

lemma swift_target_steps_10a:
  "d_of_int 10 = Fin 10"
  "d_sqrt (Fin 10) = Fin (7120816245988179 / 2251799813685248)"
  "d_div (Fin (3016980855381483 / 2251799813685248)) (Fin (7120816245988179 / 2251799813685248)) = Fin (7632424928102841 / 18014398509481984)"
  by code_simp+

lemma swift_target_steps_10b:
  "d_add (Fin (7632424928102841 / 18014398509481984)) (Fin (- (8533310486200949 / 36028797018963968))) = Fin (6731539370004733 / 36028797018963968)"
  "d_add (Fin 1) (Fin (6731539370004733 / 36028797018963968)) = Fin (167032564019409 / 140737488355328)"
  "d_mul (Fin (5534023222112865 / 18446744073709551616)) (Fin (167032564019409 / 140737488355328)) = Fin (820998458668199 / 2305843009213693952)"
  "d_add (Fin (820998458668199 / 2305843009213693952)) (Fin 0) = Fin (820998458668199 / 2305843009213693952)"
  by code_simp+

lemmas swift_target_steps = swift_seconds swift_hop_steps swift_target_steps_10a swift_target_steps_10b

lemma swift_compare: "(6731539370004733 / 36028797018963968 < (4 :: rat)) = True"
  by simp

lemma uint_10_0: "uint (10 :: u32) = 10" "uint (0 :: u64) = 0"
  by simp_all

lemma TcpSwift_params:
  "m_alpha TcpSwift = Fin (3016980855381483 / 2251799813685248)"
  "m_beta TcpSwift = Fin (- (8533310486200949 / 36028797018963968))"
  "m_ai TcpSwift = Fin 2" "m_maxMdf TcpSwift = Fin 1" "m_baseTarget TcpSwift = 300000"
  "m_retxResetThreshold TcpSwift = 3" "m_retransmitCount TcpSwift = 0" "m_tLastDecrease TcpSwift = 0"
  by (simp_all only: TcpSwift_def Let_def swift_ctor_steps lit_1 swift.simps)

lemma target_delay_10: "m_alpha s = m_alpha TcpSwift \<Longrightarrow> m_beta s = m_beta TcpSwift \<Longrightarrow>
    m_baseTarget s = 300000 \<Longrightarrow> target_delay s 10 0 = Inr (Fin (820998458668199 / 2305843009213693952))"
  by (simp only: target_delay_def Let_def TcpSwift_params swift_ctor_steps swift_target_steps lit_1 uint_10_0
      bind_res_simps d_min_def d_less.simps swift_compare if_True)

lemma swift_params_TcpSwift: "swift_params TcpSwift"
  unfolding swift_params_def TcpSwift_params
  by (intro conjI exI [of _ "3016980855381483 / 2251799813685248"]
      exI [of _ "- (8533310486200949 / 36028797018963968)"]) simp_all

theorem swift_target_bounds_witness:
  "\<exists>t. target_delay TcpSwift 10 4 = Inr (Fin t) \<and> 0 \<le> t"
  using swift_target_bounds [OF swift_params_TcpSwift, of 10 4] by blast

text \<open>
  The square root from below: a root bound \<open>l\<close> that is a multiple of a sixteenth is one of the
  rounded root as well.
\<close>

lemma isqrt_ge: "0 \<le> m \<Longrightarrow> m * m \<le> n \<Longrightarrow> m \<le> isqrt n"
proof (induction n arbitrary: m rule: isqrt.induct)
  case (1 n)
  show ?case
  proof (cases "n \<le> 0")
    case True
    then have "m * m \<le> 0" using "1.prems"(2) by linarith
    then have "m = 0" using "1.prems"(1) by (simp add: mult_le_0_iff)
    then show ?thesis by (simp add: isqrt_nonneg)
  next
    case False
    have "2 * (m div 2) \<le> m" by simp
    then have "2 * (m div 2) * (2 * (m div 2)) \<le> m * m" using "1.prems"(1) by (intro mult_mono) auto
    then have "(m div 2) * (m div 2) \<le> n div 4" using "1.prems"(2) by simp
    then have "m div 2 \<le> isqrt (n div 4)" using "1.IH" [OF False, of "m div 2"] "1.prems"(1) by simp
    then consider "m \<le> 2 * isqrt (n div 4)" | "m = 2 * isqrt (n div 4) + 1" by linarith
    then show ?thesis
      using False "1.prems"(2) by cases (auto simp: isqrt.simps [of n] Let_def)
  qed
qed

lemma d_sqrt_ge:
  assumes "0 \<le> l" "l < 2 ^ 52" "of_int (l * l) \<le> 256 * a" "0 < a" "a < 2 ^ 64"
  shows "at_least (of_int l / 16) (d_sqrt (Fin a))"
proof -
  have "(2 :: rat) powi lg a < 2 powi 64" using lg_bounds(1) [OF assms(4)] assms(5) by simp
  then have "lg a < 64" by (simp only: powi2_less_iff)
  then have k4: "4 \<le> 70 - lg a div 2" by linarith
  define k where "k = 70 - lg a div 2"
  define j where "j = nat (k - 4)"
  have k: "k = int j + 4" using k4 by (simp add: j_def k_def)
  have p0: "(2 :: rat) powi k = 16 * 2 ^ j" by (simp add: k power_int_add)
  have "(2 :: rat) powi (k + k) = 2 powi k * 2 powi k" by (rule power_int_add) simp
  moreover have "(2 :: rat) powi (- k) = 1 / 2 powi k" by (rule power_int_minus_divide)
  ultimately have p: "pow2 (2 * k) = 256 * (2 ^ j * 2 ^ j)" "pow2 (- k) = 1 / (16 * 2 ^ j)"
    unfolding pow2_def mult_2 p0 by simp_all
  define m where "m = l * 2 ^ j"
  have "of_int (m * m) = of_int (l * l) * (2 ^ j * 2 ^ j :: rat)" by (simp add: m_def)
  also have "\<dots> \<le> 256 * a * (2 ^ j * 2 ^ j)" using assms(3) by (intro mult_right_mono) auto
  finally have "m * m \<le> \<lfloor>a * pow2 (2 * k)\<rfloor>" unfolding p le_floor_iff by (simp add: ac_simps)
  then have "m \<le> isqrt \<lfloor>a * pow2 (2 * k)\<rfloor>" using assms(1) by (intro isqrt_ge) (auto simp: m_def)
  then have s: "of_int m \<le> (of_int (isqrt \<lfloor>a * pow2 (2 * k)\<rfloor>) :: rat)" by (simp only: of_int_le_iff)
  have e: "of_int l / 16 = of_int m * pow2 (- k)" unfolding p by (simp add: m_def)
  have dl: "D (of_int l / 16) = of_int l / 16"
    using double_rnd.r_dyadic [of l "- 4"] assms(1,2) by (simp add: power_int_minus_divide)
  have "(of_int l :: rat) \<le> of_int (2 ^ 52)" using assms(2) by (simp only: of_int_le_iff)
  then have small: "\<bar>of_int l / 16 :: rat\<bar> \<le> 2 ^ 100" using assms(1) by simp
  have "of_int l / 16 \<le> t * pow2 (- k)" if "of_int m \<le> t" for t
    unfolding e using that by (intro mult_right_mono) (simp_all add: pow2_def)
  then show ?thesis
    using s assms(4) dl small
    by (auto simp: Let_def k_def [symmetric] intro!: mk_double_at_least intro: order_trans)
qed

lemma d_div_le:
  assumes "at_least l x" "0 < l" "0 < a" "a / l \<le> 2 ^ 100"
  shows "\<exists>y. d_div (Fin a) x = Fin y \<and> y \<le> D (a / l)"
proof (cases x)
  case (Fin r)
  then have r: "0 < r" "a / r \<le> a / l" using assms by (auto intro: divide_left_mono)
  then have "mk_double (a / r) = Fin (D (a / r))" using assms by (intro mk_double_Fin) simp
  then show ?thesis using Fin r double_rnd.r_mono [OF r(2)] by simp
qed (use assms in \<open>auto intro!: double_rnd.r_nonneg\<close>)

text \<open>From 33 segments on the window-dependent term is negative.\<close>

lemma swift_negative_steps:
  "D (3016980855381483 / 2251799813685248 / (of_int 91 / 16)) = 2121832689499065 / 9007199254740992"
  "D (2121832689499065 / 9007199254740992 + - (8533310486200949 / 36028797018963968)) =
     - (45979728204689 / 36028797018963968)"
  "D (1 + - (45979728204689 / 36028797018963968)) = 2248926080672455 / 2251799813685248"
  "D (5534023222112865 / 18446744073709551616 * (2248926080672455 / 2251799813685248)) =
     5526960735860625 / 18446744073709551616"
  "D (5526960735860625 / 18446744073709551616) = 5526960735860625 / 18446744073709551616"
  "D 0 = 0"
  "D (825 / 10000000) = 760928193040519 / 9223372036854775808"
  "D (5534023222112865 / 18446744073709551616 * 5) = 6917529027641081 / 4611686018427387904"
  "D (9999 * (760928193040519 / 9223372036854775808)) = 3715098145611401 / 4503599627370496"
  "D (6917529027641081 / 4611686018427387904 + 3715098145611401 / 4503599627370496) =
     7443707090104913 / 9007199254740992"
  by code_simp+

lemma swift_below_base:
  assumes "m_alpha s = m_alpha TcpSwift" "m_beta s = m_beta TcpSwift" "m_baseTarget s = 300000"
    "32 < uint (n :: u32)" "target_delay s n 0 = Inr (Fin t)"
  shows "t < 5534023222112865 / 18446744073709551616"
proof -
  let ?a = "3016980855381483 / 2251799813685248 :: rat"
  let ?b = "- (8533310486200949 / 36028797018963968) :: rat"
  let ?base = "5534023222112865 / 18446744073709551616 :: rat"
  let ?x = "d_sqrt (Fin (of_int (uint n)))"
  have n: "(33 :: rat) \<le> of_int (uint n)" "of_int (uint n) < (2 :: rat) ^ 64"
  proof -
    have "of_int 33 \<le> (of_int (uint n) :: rat)" using assms(4) by (simp only: of_int_le_iff)
    then show "(33 :: rat) \<le> of_int (uint n)" by simp
    have "(of_int (uint n) :: rat) < of_int (2 ^ 64)"
      using order_less_trans [OF uint32_less [of n], of "2 ^ 64"] by (simp only: of_int_less_iff) simp
    then show "of_int (uint n) < (2 :: rat) ^ 64" by simp
  qed
  have "at_least (of_int 91 / 16) ?x" using n by (intro d_sqrt_ge) simp_all
  then obtain y where y: "d_div (Fin ?a) ?x = Fin y" "y \<le> D (?a / (of_int 91 / 16))"
    using d_div_le [of "of_int 91 / 16" ?x ?a] by auto
  have "at_least 0 (d_div (Fin ?a) ?x)" using n by (intro d_div_nonneg d_sqrt_nonneg) simp_all
  then have y0: "0 \<le> y" by (simp only: y(1) at_least.simps)
  note yb = y(2) [unfolded swift_negative_steps]
  define z where "z = D (y + ?b)"
  have "y + ?b \<le> 2121832689499065 / 9007199254740992 + ?b" using yb by linarith
  then have z: "z \<le> - (45979728204689 / 36028797018963968)" "- 1 \<le> z" "d_add (Fin y) (Fin ?b) = Fin z"
    using double_rnd.r_mono swift_negative_steps(2) y0 yb double_rnd.r_ge_int [of "- 1" "y + ?b"]
    by (fastforce simp: z_def, fastforce simp: z_def, simp add: z_def mk_double_Fin)
  have c4: "d_min (Fin 4) (Fin z) = Fin z" using z(1) by (simp add: d_min_def)
  define f where "f = D (1 + z)"
  have "1 + z \<le> 1 + - (45979728204689 / 36028797018963968)" using z(1) by linarith
  then have f: "f \<le> 2248926080672455 / 2251799813685248" "0 \<le> f" "d_add (Fin 1) (Fin z) = Fin f"
    using double_rnd.r_mono swift_negative_steps(3) z(1,2)
    by (fastforce simp: f_def, simp add: f_def double_rnd.r_nonneg, simp add: f_def mk_double_Fin)
  have bf: "0 \<le> ?base * f" "?base * f \<le> ?base * (2248926080672455 / 2251799813685248)"
    using f(1,2) by (simp, intro mult_left_mono) auto
  have "\<bar>?base * f\<bar> \<le> 2 ^ 100" using bf(1) f(1) by (simp only: abs_of_nonneg) simp
  then have mk: "mk_double (?base * f) = Fin (D (?base * f))" by (rule mk_double_Fin)
  define v where "v = D (?base * f)"
  have v: "v \<le> 5526960735860625 / 18446744073709551616" "0 \<le> v" "d_mul (Fin ?base) (Fin f) = Fin v"
    using double_rnd.r_mono [OF bf(2)] unfolding v_def swift_negative_steps(4)
    by (assumption, intro double_rnd.r_nonneg bf(1), simp only: d_mul.simps mk)
  have "D (v + 0) \<le> 5526960735860625 / 18446744073709551616"
    using double_rnd.r_mono [OF v(1)] swift_negative_steps(5) by simp
  moreover have "d_add (Fin v) (Fin 0) = Fin (D (v + 0))" using v(1,2) by (simp add: mk_double_Fin)
  moreover have "d_of_word n = Fin (of_int (uint n))" by (rule d_of_u32)
  moreover have "t = D (v + 0)"
    using assms(5) calculation(2,3) y(1) z(3) c4 f(3) v(3)
    by (simp only: target_delay_def Let_def assms(1-3) TcpSwift_params swift_ctor_steps swift_seconds lit_1
        uint_10_0 swift_hop_steps bind_res_simps sum.inject dbl.inject)
  ultimately show ?thesis by simp
qed

text \<open>Up to ten thousand hops the target delay is below a second.\<close>

lemma swift_below_second:
  assumes "m_alpha s = m_alpha TcpSwift" "m_beta s = m_beta TcpSwift" "m_baseTarget s = 300000" "h < 10000"
  shows "\<exists>t. target_delay s n h = Inr (Fin t) \<and> 0 \<le> t \<and> t < 1"
proof -
  have "swift_params s" using swift_params_TcpSwift assms(1-3) by (simp add: swift_params_def)
  then obtain t base where tb: "target_delay s n h = Inr (Fin t)" "GetSeconds 300000 = Inr (Fin base)" "0 \<le> t"
    "t \<le> D (D (base * 5) + D (D (of_int (uint h)) * D (825 / 10000000)))"
    using target_delay_range [of s n h] unfolding assms(3) by blast
  have "base = 5534023222112865 / 18446744073709551616"
    using tb(2) unfolding swift_seconds by (simp only: sum.inject dbl.inject)
  note t = tb(1,3) tb(4) [unfolded this]
  have "uint h < 10000" using assms(4) by (simp add: word_less_def)
  then have h: "(of_int (uint h) :: rat) \<le> of_int 9999" by (simp only: of_int_le_iff)
  have "D (of_int (uint h)) \<le> of_int 9999" using double_rnd.r_le_int [OF h] by simp
  then have "D (of_int (uint h)) * D (825 / 10000000) \<le> 9999 * (760928193040519 / 9223372036854775808)"
    unfolding swift_negative_steps by (intro mult_right_mono) auto
  from double_rnd.r_mono [OF this]
  have "D (D (of_int (uint h)) * D (825 / 10000000)) \<le> 3715098145611401 / 4503599627370496"
    unfolding swift_negative_steps .
  then have "D (5534023222112865 / 18446744073709551616 * 5) + D (D (of_int (uint h)) * D (825 / 10000000)) \<le>
      6917529027641081 / 4611686018427387904 + 3715098145611401 / 4503599627370496"
    unfolding swift_negative_steps by simp
  from double_rnd.r_mono [OF this] t(3) have "t \<le> 7443707090104913 / 9007199254740992"
    unfolding swift_negative_steps by linarith
  then show ?thesis using t by simp
qed

text \<open>
  C17: the window-dependent term of the target delay is clamped from above only. With the
  parameters the constructor computes, a non-zero segment size and fewer than ten thousand hops,
  computing the target delay succeeds and changes nothing of the socket state but the copy kept
  in \<^verbatim>\<open>m_target_delay\<close>, which becomes zero whatever it was before (it is an integer number of
  seconds); and for every window of more than 32 whole segments on a path without hops the target
  delay is below the base target delay.
\<close>

theorem swift_target_below_base:
  assumes "m_alpha s = m_alpha TcpSwift" "m_beta s = m_beta TcpSwift" "m_baseTarget s = m_baseTarget TcpSwift"
    "m_segmentSize tcb \<noteq> 0" "m_hops tcb < 10000"
  shows "\<exists>t base. GetSeconds (m_baseTarget s) = Inr (Fin base) \<and>
    ComputeTargetDelay s tcb = Inr (Fin t, tcb\<lparr>m_target_delay := 0\<rparr>) \<and>
    (m_hops tcb = 0 \<and> 32 < m_cWnd tcb div m_segmentSize tcb \<longrightarrow> t < base)"
proof -
  let ?n = "m_cWnd tcb div m_segmentSize tcb"
  have bt: "m_baseTarget s = 300000" by (simp only: assms(3) TcpSwift_params)
  obtain t where t: "target_delay s ?n (m_hops tcb) = Inr (Fin t)" "0 \<le> t" "t < 1"
    using swift_below_second [OF assms(1,2) bt assms(5)] by blast
  have "\<lfloor>t\<rfloor> = 0" using t(2,3) by (simp add: floor_eq_iff)
  then have c: "ComputeTargetDelay s tcb = Inr (Fin t, tcb\<lparr>m_target_delay := 0\<rparr>)"
    using t assms(4) by (simp add: ComputeTargetDelay_def GetCwndInSegments_def d_to_word_def)
  have "t < 5534023222112865 / 18446744073709551616" if "m_hops tcb = 0" "32 < ?n"
    using that swift_below_base [OF assms(1,2) bt, of ?n t] t(1) by (simp add: word_less_def)
  then show ?thesis using c swift_seconds(1) by (simp only: bt) blast
qed

theorem swift_target_below_base_witness:
  "\<exists>t base. GetSeconds (m_baseTarget TcpSwift) = Inr (Fin base) \<and>
     ComputeTargetDelay TcpSwift ((demo_tcb 144800 1448)\<lparr>m_target_delay := 7\<rparr>) =
       Inr (Fin t, demo_tcb 144800 1448) \<and> t < base"
  using swift_target_below_base [of TcpSwift "(demo_tcb 144800 1448)\<lparr>m_target_delay := 7\<rparr>"]
  by (simp add: demo_tcb_def)

section \<open>Decrease\<close>

lemma decrease_factor_bounds:
  assumes "0 < m" "m \<le> 2 ^ 63" "D m = m" "0 \<le> t" "t \<le> m" "m_maxMdf s = Fin f" "0 \<le> f" "f \<le> 1"
  shows "\<exists>x. decrease_factor s (Fin m) (Fin t) = Fin x \<and> 0 \<le> x \<and> x \<le> 1"
proof -
  define d where "d = D (m - t)"
  have d: "0 \<le> d" "d \<le> m"
    unfolding d_def using assms double_rnd.r_mono [of "m - t" m] by (auto intro!: double_rnd.r_nonneg)
  have k: "lit (4 / 10) = Fin (D (4 / 10))" by (simp add: lit_def mk_double_Fin)
  define c where "c = D (4 / 10)"
  have c: "0 \<le> c" "c \<le> 1"
    unfolding c_def using double_rnd.r_le_int [of "4 / 10" 1] by (auto intro!: double_rnd.r_nonneg)
  have "c * d \<le> 1 * m" using c d by (intro mult_mono) auto
  then have cd: "0 \<le> c * d" "c * d \<le> m" using c d by auto
  define y where "y = D (c * d)"
  have y: "0 \<le> y" "y \<le> m"
    unfolding y_def using cd double_rnd.r_mono [OF cd(2)] assms(3) by (auto intro!: double_rnd.r_nonneg)
  define z where "z = D (y / m)"
  have ym: "0 \<le> y / m" "y / m \<le> 1" using y assms(1) by (auto simp: divide_le_eq)
  have z: "0 \<le> z" "z \<le> 1"
    unfolding z_def using ym double_rnd.r_le_int [of "y / m" 1] by (auto intro!: double_rnd.r_nonneg)
  have big: "(2 :: rat) ^ 63 \<le> 2 ^ 100" by simp
  have b: "\<bar>x\<bar> \<le> 2 ^ 100" if "0 \<le> x" "x \<le> m" for x using that assms(2) big by simp
  have "d_sub (Fin m) (Fin t) = Fin d"
    using b [of "m - t"] assms by (simp add: d_sub_def d_def mk_double_Fin)
  moreover have "d_mul (Fin c) (Fin d) = Fin y" using b [OF cd] by (simp add: y_def mk_double_Fin)
  moreover have "d_div (Fin y) (Fin m) = Fin z"
    using mk_double_unit [OF ym] assms(1) by (simp add: z_def)
  ultimately have e: "d_div (d_mul (lit (4 / 10)) (d_sub (Fin m) (Fin t))) (Fin m) = Fin z"
    unfolding k c_def [symmetric] by (simp only:)
  have o: "mk_double (1 + - x) = Fin (D (1 + - x)) \<and> 0 \<le> D (1 + - x) \<and> D (1 + - x) \<le> 1"
    if "0 \<le> x" "x \<le> 1" for x
    using that double_rnd.r_le_int [of "1 + - x" 1] by (auto intro!: mk_double_Fin double_rnd.r_nonneg)
  have "decrease_factor s (Fin m) (Fin t) = d_max (Fin (D (1 + - z))) (Fin (D (1 + - f)))"
    unfolding decrease_factor_def Let_def e assms(6) using o [OF z] o [OF assms(7,8)] by (simp add: d_sub_def)
  then show ?thesis using o [OF z] o [OF assms(7,8)] by (auto simp: d_max_def)
qed

text \<open>
  C14: an acknowledgement that finds the measured delay at or above the target never raises the
  window. The segment size is not zero, the clock, the positive round-trip time and the time of
  the last decrease fit 63 bits, the target delay that the code computes is a number \<open>t\<close> with
  \<open>0 \<le> t \<le> m\<close> for the measured delay \<open>m\<close> in seconds, and the largest decrease
  \<^verbatim>\<open>m_maxMdf\<close> lies between 0 and 1. Then the update succeeds. Less than a round-trip time after
  the last decrease, the window is cut to its whole segments (a partial segment of it is dropped,
  and nothing else) and the time of the last decrease stays; after that the window may shrink
  by the decrease factor and the time of the last decrease becomes the current one.
\<close>

theorem swift_decrease:
  assumes "m_segmentSize tcb \<noteq> 0" "0 < m_rtt s" "m_rtt s < 2 ^ 63"
    "GetSeconds (m_rtt s) = Inr (Fin m)"
    "target_delay s (m_cWnd tcb div m_segmentSize tcb) (m_hops tcb) = Inr (Fin t)" "0 \<le> t" "t \<le> m"
    "m_maxMdf s = Fin f" "0 \<le> f" "f \<le> 1"
    "0 \<le> now" "now < 2 ^ 63" "0 \<le> m_tLastDecrease s" "m_tLastDecrease s < 2 ^ 63"
  shows "\<exists>s' tcb'. SwiftUpdateCwndOnAck now k (s, tcb) = Inr (s', tcb') \<and> m_cWnd tcb' \<le> m_cWnd tcb \<and>
    (if now - m_tLastDecrease s < m_rtt s
     then m_cWnd tcb' = m_cWnd tcb div m_segmentSize tcb * m_segmentSize tcb \<and>
          m_tLastDecrease s' = m_tLastDecrease s
     else m_tLastDecrease s' = now)"
proof -
  define g n where "g = uint (m_segmentSize tcb)" and "n = uint (m_cWnd tcb div m_segmentSize tcb)"
  have ng: "n * g \<le> uint (m_cWnd tcb)" "0 < g" "0 \<le> n"
    using whole_segments(1) [OF assms(1), of "m_cWnd tcb"] whole_segments(3) [OF assms(1)]
    by (auto simp: n_def g_def)
  then have ng32: "n * g < 2 ^ 32" using uint32_less [of "m_cWnd tcb"] by linarith
  obtain m' where m': "GetSeconds (m_rtt s) = Inr (Fin m')" "0 < m'" "m' \<le> 2 ^ 34" "D m' = m'"
    using GetSeconds_pos [OF assms(2,3)] by blast
  moreover have "(2 :: rat) ^ 34 \<le> 2 ^ 63" by simp
  ultimately have m: "0 < m" "m \<le> 2 ^ 63" "D m = m" using assms(4) by (auto intro: order_trans)
  have "(2 :: rat) ^ 63 < 2 ^ 64" by simp
  then have t: "t < 2 ^ 64" using assms(7) m(2) by linarith
  obtain x where x: "decrease_factor s (Fin m) (Fin t) = Fin x" "0 \<le> x" "x \<le> 1"
    using decrease_factor_bounds [OF m assms(6-10)] by blast
  note can = CanDecrease_eq [OF assms(2,11-14)]
  let ?can = "m_rtt s \<le> now - m_tLastDecrease s"
  define cw where "cw = (if ?can then D (of_int n * x) else of_int n)"
  have n32: "n < 2 ^ 32" using uint32_less [of "m_cWnd tcb div m_segmentSize tcb"] by (simp add: n_def)
  have nx: "0 \<le> of_int n * x" "of_int n * x \<le> of_int n"
    using ng x by (auto simp: mult_left_le)
  note p = mk_double_u32_product [OF nx n32]
  have cw: "0 \<le> cw" "cw \<le> of_int n" using p ng by (auto simp: cw_def)
  have cwg: "0 \<le> cw * of_int g" "cw * of_int g \<le> of_int (n * g)"
    using cw ng by (auto intro: mult_right_mono)
  note q = mk_double_u32_product [OF cwg ng32]
  have fl: "0 \<le> \<lfloor>D (cw * of_int g)\<rfloor>" "\<lfloor>D (cw * of_int g)\<rfloor> \<le> n * g"
    using q(2,3) by (simp_all add: floor_le_iff)
  have "(of_int (n * g) :: rat) < of_int (2 ^ 32)" using ng32 by (simp only: of_int_less_iff)
  then have lt: "D (cw * of_int g) < 2 ^ 32" using q(3) by simp
  define w where "w = (word_of_int \<lfloor>D (cw * of_int g)\<rfloor> :: u32)"
  have w: "uint w = \<lfloor>D (cw * of_int g)\<rfloor>" unfolding w_def by (rule uint_word_of_floor [OF q(2) lt])
  have word: "(d_to_word (d_mul (Fin cw) (d_of_word (m_segmentSize tcb))) :: u32 res) = Inr w"
    using q(1) d_to_u32 [OF q(2) lt] by (simp add: d_of_u32 g_def w_def)
  have up: "SwiftUpdateCwndOnAck now k (s, tcb) =
     Inr (s\<lparr>m_retransmitCount := 0, m_canDecrease := ?can,
            m_tLastDecrease := (if ?can then now else m_tLastDecrease s)\<rparr>,
          tcb\<lparr>m_target_delay := word_of_int \<lfloor>t\<rfloor>, m_cWnd := w, m_maxDelay := 0\<rparr>)"
    using SwiftUpdate_eq [OF assms(1,4,5,6) t can, of k] assms(7) word p(1) x(1)
    by (auto simp: d_of_u32 [of "m_cWnd tcb div m_segmentSize tcb"] n_def cw_def)
  have "w \<le> m_cWnd tcb" using w fl ng by (simp add: word_le_def)
  moreover have "w = m_cWnd tcb div m_segmentSize tcb * m_segmentSize tcb" if "\<not> ?can"
  proof -
    have "D (of_int n * of_int g) = of_int (n * g)"
      using double_rnd.r_int [of "n * g"] ng32 ng by simp
    then have "\<lfloor>D (of_int n * of_int g)\<rfloor> = n * g" by (simp only: floor_of_int)
    then have "uint w = n * g" unfolding w cw_def using that by simp
    also have "\<dots> = uint (m_cWnd tcb div m_segmentSize tcb * m_segmentSize tcb)"
      using ng ng32 by (simp add: uint_word_ariths n_def g_def)
    finally show ?thesis by (simp only: word_uint_eq_iff)
  qed
  ultimately show ?thesis unfolding up by auto
qed

theorem swift_decrease_witness:
  "\<exists>s' tcb'. SwiftUpdateCwndOnAck 1000000000 1 (TcpSwift\<lparr>m_rtt := 100000000\<rparr>, demo_tcb 14480 1448) =
     Inr (s', tcb') \<and> m_cWnd tcb' \<le> 14480 \<and> m_tLastDecrease s' = 1000000000"
proof -
  let ?s = "TcpSwift\<lparr>m_rtt := 100000000\<rparr>"
  have m: "GetSeconds (m_rtt ?s) = Inr (Fin (3602879701896397 / 36028797018963968))"
    using swift_seconds(3) by simp
  have t: "target_delay ?s (m_cWnd (demo_tcb 14480 1448) div m_segmentSize (demo_tcb 14480 1448))
      (m_hops (demo_tcb 14480 1448)) = Inr (Fin (820998458668199 / 2305843009213693952))"
    using target_delay_10 [of ?s] TcpSwift_params by (simp add: demo_tcb_def)
  show ?thesis
    using swift_decrease [OF _ _ _ m t, of 1 1000000000 1] TcpSwift_params by (auto simp: demo_tcb_def)
qed

section \<open>Increase\<close>

text \<open>
  The window is kept in bytes, but every update starts from its whole segments, so what an
  acknowledgement adds below one segment is gone at the next one. A \<open>swift_ack\<close> is one new
  acknowledgement as the socket reports it: the clock, the smoothed round-trip time (which the
  socket stores in \<^verbatim>\<open>m_srtt\<close> and passes to \<^verbatim>\<open>PktsAcked\<close>), the hop count of the segment's tag and
  the number of segments acknowledged. \<open>swift_run\<close> takes a whole sequence of them, each with its
  own values, through \<^verbatim>\<open>PktsAcked\<close> and \<^verbatim>\<open>IncreaseWindow\<close>.
\<close>

record swift_ack =
  ack_now :: int
  ack_srtt :: int
  ack_hops :: u64
  ack_segments :: u32

definition swift_step :: "swift_ack \<Rightarrow> swift \<times> tcb \<Rightarrow> (swift \<times> tcb) res" where
  "swift_step a st =
     (case st of (s, tcb) \<Rightarrow>
        let tcb = tcb\<lparr>m_srtt := ack_srtt a, m_hops := ack_hops a\<rparr>
        in swift_IncreaseWindow (ack_now a) (ack_segments a) (swift_PktsAcked (ack_srtt a) tcb s, tcb))"

fun swift_run :: "swift_ack list \<Rightarrow> swift \<times> tcb \<Rightarrow> (swift \<times> tcb) res" where
  "swift_run [] st = Inr st"
| "swift_run (a # acks) st = bind_res (swift_step a st) (swift_run acks)"

text \<open>An increment of at most half a segment.\<close>

lemma small_increase:
  assumes "m_ai s = Fin a" "0 \<le> a" "a * 2 ^ (e + 1) \<le> of_int n" "1 \<le> n" "n < 2 ^ 32"
    "unat (k :: u32) \<le> 2 ^ e" "e \<le> 32"
  shows "\<exists>x. additive_increase s k (Fin (of_int n)) = Fin x \<and> of_int n \<le> x \<and> x \<le> of_int (2 * n + 1) / 2"
proof -
  define y where "y = D (a / of_int n)"
  have pw: "(2 :: rat) powi (- int (e + 1)) = 1 / 2 ^ (e + 1)"
    by (simp add: power_int_minus_divide del: of_nat_add of_nat_Suc)
  have an: "0 \<le> a / of_int n" "a / of_int n \<le> 1 / 2 ^ (e + 1)"
    using assms(2-4) by (auto simp: divide_simps mult.commute)
  have "D (1 / 2 ^ (e + 1)) = 1 / 2 ^ (e + 1)"
    using double_rnd.r_dyadic [of 1 "- int (e + 1)"] assms(7) unfolding pw by simp
  then have y: "0 \<le> y" "y \<le> 1 / 2 ^ (e + 1)"
    unfolding y_def using an double_rnd.r_mono [OF an(2)] by (auto intro!: double_rnd.r_nonneg)
  have "(1 :: rat) / 2 ^ (e + 1) \<le> 1" by (simp add: divide_le_eq_1 one_le_power del: power_Suc)
  then have m1: "mk_double (a / of_int n) = Fin y"
    unfolding y_def using an by (intro mk_double_unit) linarith+
  define u :: rat where "u = of_int (uint k)"
  have u: "0 \<le> u" "u \<le> 2 ^ e"
  proof -
    have "of_nat (unat k) \<le> (of_nat (2 ^ e) :: rat)" using assms(6) by (simp only: of_nat_le_iff)
    then show "u \<le> 2 ^ e" by (simp add: u_def)
    show "0 \<le> u" unfolding u_def by (simp only: of_int_0_le_iff uint_ge_0)
  qed
  have "y * u \<le> 1 / 2 ^ (e + 1) * 2 ^ e" using y u by (intro mult_mono) auto
  then have yu: "0 \<le> y * u" "y * u \<le> of_int 1 / 2" using y u by auto
  define z where "z = D (y * u)"
  have z: "0 \<le> z" "z \<le> 1 / 2"
    unfolding z_def using yu double_rnd.r_le_half [OF yu(2)] by (auto intro!: double_rnd.r_nonneg)
  have m2: "mk_double (y * u) = Fin z" unfolding z_def using yu by (intro mk_double_Fin) simp
  have nz: "of_int n \<le> of_int n + z" "of_int n + z \<le> of_int (2 * n + 1) / 2" using z by auto
  have "(of_int n :: rat) \<le> of_int (2 ^ 32)" using assms(5) by (simp only: of_int_le_iff)
  then have m3: "mk_double (of_int n + z) = Fin (D (of_int n + z))"
    using z assms(4) by (intro mk_double_Fin) simp
  have "of_int n \<le> D (of_int n + z)" "D (of_int n + z) \<le> of_int (2 * n + 1) / 2"
    using double_rnd.r_ge_int [OF nz(1)] double_rnd.r_le_half [OF nz(2)] assms(4,5) by auto
  moreover have "additive_increase s k (Fin (of_int n)) = Fin (D (of_int n + z))"
    using assms(1,4) m1 m2 m3 by (simp add: additive_increase_def d_of_u32 u_def)
  ultimately show ?thesis by blast
qed

text \<open>
  The two conditions of the result. \<open>stuck_at n e\<close> is one on the state: the window has \<open>n\<close> whole
  segments and room for one more, and an acknowledgement of \<open>2 ^ e\<close> segments adds at most half a
  segment. \<open>below_target n s a\<close> is one on an acknowledgement: its round-trip time is below the
  target delay of \<open>n\<close> segments and its own hop count.
\<close>

definition stuck_at :: "int \<Rightarrow> nat \<Rightarrow> swift \<times> tcb \<Rightarrow> bool" where
  "stuck_at n e st \<longleftrightarrow> (case st of (s, tcb) \<Rightarrow>
     m_segmentSize tcb \<noteq> 0 \<and> uint (m_cWnd tcb) div uint (m_segmentSize tcb) = n \<and> 1 \<le> n \<and>
     (n + 1) * uint (m_segmentSize tcb) < 2 ^ 32 \<and>
     (\<exists>a. m_ai s = Fin a \<and> 0 \<le> a \<and> a * 2 ^ (e + 1) \<le> of_int n) \<and>
     0 \<le> m_tLastDecrease s \<and> m_tLastDecrease s < 2 ^ 63)"

definition below_target :: "int \<Rightarrow> swift \<Rightarrow> swift_ack \<Rightarrow> bool" where
  "below_target n s a \<longleftrightarrow> 0 < ack_srtt a \<and> ack_srtt a < 2 ^ 63 \<and> 0 \<le> ack_now a \<and> ack_now a < 2 ^ 63 \<and>
     (\<exists>m t. GetSeconds (ack_srtt a) = Inr (Fin m) \<and>
        target_delay s (word_of_int n) (ack_hops a) = Inr (Fin t) \<and> m < t \<and> t < 2 ^ 64)"

lemma stuck_step:
  assumes "stuck_at n e (s0, tcb0)" "below_target n s0 a" "unat (ack_segments a) \<le> 2 ^ e" "e \<le> 32"
  shows "\<exists>s' tcb'. swift_step a (s0, tcb0) = Inr (s', tcb') \<and> stuck_at n e (s', tcb') \<and>
    target_delay s' = target_delay s0 \<and> m_segmentSize tcb' = m_segmentSize tcb0 \<and>
    n * uint (m_segmentSize tcb0) \<le> uint (m_cWnd tcb') \<and>
    2 * uint (m_cWnd tcb') \<le> (2 * n + 1) * uint (m_segmentSize tcb0)"
proof -
  define tcb where "tcb = tcb0\<lparr>m_srtt := ack_srtt a, m_hops := ack_hops a\<rparr>"
  define s where "s = s0\<lparr>m_rtt := ack_srtt a\<rparr>"
  define now where "now = ack_now a"
  define k where "k = ack_segments a"
  have same: "m_segmentSize tcb = m_segmentSize tcb0" "m_cWnd tcb = m_cWnd tcb0" "m_hops tcb = ack_hops a"
    "target_delay s = target_delay s0" "m_rtt s = ack_srtt a" "m_tLastDecrease s = m_tLastDecrease s0"
    "m_ai s = m_ai s0"
    by (simp_all add: tcb_def s_def target_delay_def fun_eq_iff)
  have stuck: "stuck_at n e (s, tcb)" using assms(1) by (simp add: stuck_at_def same)
  have now: "0 \<le> now" "now < 2 ^ 63" using assms(2) by (simp_all add: below_target_def now_def)
  have k: "unat k \<le> 2 ^ e" using assms(3) by (simp add: k_def)
  have step: "swift_step a (s0, tcb0) = SwiftUpdateCwndOnAck now k (s, tcb)"
    using assms(2) by (simp add: swift_step_def swift_IncreaseWindow_def swift_PktsAcked_def below_target_def
        s_def tcb_def now_def k_def)
  define g where "g = uint (m_segmentSize tcb)"
  obtain c m t where st: "m_segmentSize tcb \<noteq> 0" "uint (m_cWnd tcb) div g = n" "1 \<le> n"
    "(n + 1) * g < 2 ^ 32" "m_ai s = Fin c" "0 \<le> c" "c * 2 ^ (e + 1) \<le> of_int n"
    "0 < m_rtt s" "m_rtt s < 2 ^ 63" "0 \<le> m_tLastDecrease s" "m_tLastDecrease s < 2 ^ 63"
    "GetSeconds (m_rtt s) = Inr (Fin m)" "target_delay s (word_of_int n) (m_hops tcb) = Inr (Fin t)"
    "m < t" "t < 2 ^ 64"
    using stuck assms(2) by (auto simp: stuck_at_def below_target_def g_def same)
  have g: "0 < g" using whole_segments(3) [OF st(1)] by (simp add: g_def)
  have un: "uint (m_cWnd tcb div m_segmentSize tcb) = n" using st(2) by (simp add: uint_div g_def)
  then have wn: "m_cWnd tcb div m_segmentSize tcb = word_of_int n"
    by (metis word_of_int_uint)
  have n32: "n < 2 ^ 32" using un uint32_less by metis
  have "0 < m" using GetSeconds_pos [OF st(8,9)] st(12) by auto
  then have t0: "0 \<le> t" using st(14) by simp
  obtain x where x: "additive_increase s k (Fin (of_int n)) = Fin x" "of_int n \<le> x" "x \<le> of_int (2 * n + 1) / 2"
    using small_increase [OF st(5-7,3) n32 k assms(4)] by blast
  have xg: "of_int (n * g) \<le> x * of_int g" "x * of_int g \<le> of_int ((2 * n + 1) * g) / 2"
    using mult_right_mono [OF x(2), of "of_int g"] mult_right_mono [OF x(3), of "of_int g"] g by auto
  have bound: "(2 * n + 1) * g < 2 * 2 ^ 32" using st(4) g by (simp add: algebra_simps)
  have lo: "of_int (n * g) \<le> D (x * of_int g)"
    using xg(1) st(3,4) g by (intro double_rnd.r_ge_int) (auto simp: algebra_simps)
  have hi: "D (x * of_int g) \<le> of_int ((2 * n + 1) * g) / 2"
    using xg(2) st(3) g bound by (intro double_rnd.r_le_half) auto
  have "of_int ((2 * n + 1) * g) < (of_int (2 * 2 ^ 32) :: rat)" using bound by (simp only: of_int_less_iff)
  then have half: "of_int ((2 * n + 1) * g) / 2 < (2 :: rat) ^ 32" by simp
  have pos: "(0 :: rat) \<le> of_int (n * g)" using st(3) g by simp
  have mk: "mk_double (x * of_int g) = Fin (D (x * of_int g))"
    using xg half pos by (intro mk_double_Fin) (simp only: abs_of_nonneg [OF order_trans [OF pos xg(1)]], simp)
  define v where "v = \<lfloor>D (x * of_int g)\<rfloor>"
  have r: "0 \<le> D (x * of_int g)" "D (x * of_int g) < 2 ^ 32" using lo hi half pos by linarith+
  have v: "uint (word_of_int v :: u32) = v" "n * g \<le> v" "2 * v \<le> (2 * n + 1) * g"
  proof -
    show "uint (word_of_int v :: u32) = v" unfolding v_def by (rule uint_word_of_floor [OF r])
    show "n * g \<le> v" using lo by (simp only: v_def le_floor_iff)
    have "of_int v \<le> D (x * of_int g)" by (simp add: v_def)
    then have "(of_int (2 * v) :: rat) \<le> of_int ((2 * n + 1) * g)" using hi by simp
    then show "2 * v \<le> (2 * n + 1) * g" by (simp only: of_int_le_iff)
  qed
  have "v div g = n"
    using v(2,3) g by (intro int_div_pos_eq [of _ _ _ "v - n * g"]) (auto simp: algebra_simps)
  let ?can = "m_rtt s \<le> now - m_tLastDecrease s"
  have "CanDecrease now s = Inr ?can" by (rule CanDecrease_eq [OF st(8) now st(10,11)])
  from SwiftUpdate_eq [OF st(1,12) st(13) [folded wn] t0 st(15) this, of k]
  have "SwiftUpdateCwndOnAck now k (s, tcb) =
     Inr (s\<lparr>m_retransmitCount := 0, m_canDecrease := ?can\<rparr>,
          tcb\<lparr>m_target_delay := word_of_int \<lfloor>t\<rfloor>, m_cWnd := word_of_int v, m_maxDelay := 0\<rparr>)"
    using st(14) un x(1) mk d_to_u32 [OF r] d_of_u32 [of "m_cWnd tcb div m_segmentSize tcb"]
      d_of_u32 [of "m_segmentSize tcb"]
    by (simp add: g_def [symmetric] v_def)
  moreover have "stuck_at n e (s\<lparr>m_retransmitCount := 0, m_canDecrease := ?can\<rparr>,
      tcb\<lparr>m_target_delay := word_of_int \<lfloor>t\<rfloor>, m_cWnd := word_of_int v, m_maxDelay := 0\<rparr>)"
    using st v(1) \<open>v div g = n\<close> by (simp add: stuck_at_def g_def)
  ultimately show ?thesis using v by (simp add: g_def step same)
qed

lemma below_target_cong: "target_delay s' = target_delay s \<Longrightarrow> below_target n s' a = below_target n s a"
  by (simp add: below_target_def)

lemma stuck_run:
  assumes "stuck_at n e st" "e \<le> 32" "\<forall>a\<in>set acks. below_target n (fst st) a \<and> unat (ack_segments a) \<le> 2 ^ e"
  shows "\<exists>s' tcb'. swift_run acks st = Inr (s', tcb') \<and> stuck_at n e (s', tcb') \<and>
    m_segmentSize tcb' = m_segmentSize (snd st) \<and>
    (acks \<noteq> [] \<longrightarrow> n * uint (m_segmentSize tcb') \<le> uint (m_cWnd tcb') \<and>
       2 * uint (m_cWnd tcb') \<le> (2 * n + 1) * uint (m_segmentSize tcb'))"
  using assms(1,3)
proof (induction acks arbitrary: st)
  case (Cons a acks)
  obtain s tcb where st: "st = (s, tcb)" by fastforce
  obtain s1 tcb1 where 1: "swift_step a (s, tcb) = Inr (s1, tcb1)" "stuck_at n e (s1, tcb1)"
    "target_delay s1 = target_delay s" "m_segmentSize tcb1 = m_segmentSize tcb"
    "n * uint (m_segmentSize tcb) \<le> uint (m_cWnd tcb1)" "2 * uint (m_cWnd tcb1) \<le> (2 * n + 1) * uint (m_segmentSize tcb)"
    using stuck_step [of n e s tcb a] Cons.prems st assms(2) by auto
  have "\<forall>b\<in>set acks. below_target n (fst (s1, tcb1)) b \<and> unat (ack_segments b) \<le> 2 ^ e"
    using Cons.prems(2) below_target_cong [OF 1(3)] st by simp
  from Cons.IH [OF 1(2) this] show ?case using 1 st by (cases acks) auto
qed auto

text \<open>
  C13: the additive increase is lost. Take a state whose window has \<open>n \<ge> 1\<close> whole segments
  (the segment size is not zero and \<open>n + 1\<close> segments fit 32 bits), whose increment parameter is a
  number between 0 and \<open>n / 2 ^ (e + 1)\<close>, and whose last decrease is a 63-bit time. Then any
  non-empty sequence of new acknowledgements, each with its own clock value, round-trip time,
  hop count and number of segments, leaves the window at \<open>n\<close> whole segments and at most half a
  segment more, provided that every acknowledgement is for at most \<open>2 ^ e\<close> segments
  (\<open>e \<le> 32\<close>), its times fit 63 bits with a positive round-trip time, and the round-trip time
  in seconds is below the target delay that the code computes for \<open>n\<close> segments and that hop
  count (a number below \<open>2 ^ 64\<close>). The window does not grow, however many there are.
\<close>

theorem swift_window_sticks:
  assumes "stuck_at n e (s, tcb)" "e \<le> 32" "acks \<noteq> []"
    "\<forall>a\<in>set acks. below_target n s a \<and> unat (ack_segments a) \<le> 2 ^ e"
  shows "\<exists>s' tcb'. swift_run acks (s, tcb) = Inr (s', tcb') \<and> m_segmentSize tcb' = m_segmentSize tcb \<and>
    n * uint (m_segmentSize tcb) \<le> uint (m_cWnd tcb') \<and>
    2 * uint (m_cWnd tcb') \<le> (2 * n + 1) * uint (m_segmentSize tcb)"
  using stuck_run [OF assms(1,2), of acks] assms(3,4) by auto

text \<open>A thousand acknowledgements a tenth of a millisecond apart, with two round-trip times.\<close>

definition demo_acks :: "swift_ack list" where
  "demo_acks = map (\<lambda>i. \<lparr>ack_now = 1000000000 + 100000 * int i, ack_srtt = (if even i then 100000 else 300000),
     ack_hops = 0, ack_segments = 1\<rparr>) [0 ..< 1000]"

lemma demo_stuck: "stuck_at 10 0 (TcpSwift, demo_tcb 14480 1448)"
  by (simp add: stuck_at_def demo_tcb_def TcpSwift_params)

lemma demo_below: "a \<in> set demo_acks \<Longrightarrow> below_target 10 TcpSwift a \<and> unat (ack_segments a) \<le> 2 ^ 0"
proof -
  assume "a \<in> set demo_acks"
  then obtain i where "i < 1000" and a: "a = \<lparr>ack_now = 1000000000 + 100000 * int i,
      ack_srtt = (if even i then 100000 else 300000), ack_hops = 0, ack_segments = 1\<rparr>"
    by (auto simp: demo_acks_def)
  have t: "target_delay TcpSwift 10 0 = Inr (Fin (820998458668199 / 2305843009213693952))"
    using target_delay_10 [of TcpSwift] TcpSwift_params by simp
  define m :: rat where "m = (if even i then 1844674407370955 else 5534023222112865) / 18446744073709551616"
  have sec: "GetSeconds (ack_srtt a) = Inr (Fin m)" by (simp add: a m_def swift_seconds del: sum.inject dbl.inject)
  have lt: "m < 820998458668199 / 2305843009213693952" "(820998458668199 / 2305843009213693952 :: rat) < 2 ^ 64"
    by (simp_all add: m_def)
  have t': "target_delay TcpSwift (word_of_int 10) (ack_hops a) = Inr (Fin (820998458668199 / 2305843009213693952))"
    using t by (simp add: a)
  have "\<exists>m t. GetSeconds (ack_srtt a) = Inr (Fin m) \<and> target_delay TcpSwift (word_of_int 10) (ack_hops a) = Inr (Fin t) \<and>
      m < t \<and> t < 2 ^ 64"
    using sec t' lt by blast
  then show ?thesis using \<open>i < 1000\<close> by (simp add: below_target_def a)
qed

theorem swift_window_sticks_witness:
  "\<exists>s' tcb'. swift_run demo_acks (TcpSwift, demo_tcb 14480 1448) = Inr (s', tcb') \<and>
     uint (m_cWnd tcb') < 11 * 1448"
proof -
  have "demo_acks \<noteq> []" by (simp add: demo_acks_def)
  from swift_window_sticks [OF demo_stuck _ this] demo_below
  obtain s' tcb' where "swift_run demo_acks (TcpSwift, demo_tcb 14480 1448) = Inr (s', tcb')"
    "2 * uint (m_cWnd tcb') \<le> (2 * 10 + 1) * uint (m_segmentSize (demo_tcb 14480 1448))"
    by fastforce
  then show ?thesis by (auto simp: demo_tcb_def)
qed

section \<open>Loss\<close>

lemma ComputeTargetDelay_cWnd:
  "ComputeTargetDelay s tcb = Inr (t, tcb') \<Longrightarrow> m_cWnd tcb' = m_cWnd tcb \<and> m_segmentSize tcb' = m_segmentSize tcb"
  by (auto simp: ComputeTargetDelay_def elim!: bind_res_eq_InrE)

lemma loss_decrease_bounds:
  assumes "m_segmentSize tcb \<noteq> 0" "m_segmentSize tcb \<le> m_cWnd tcb" "m_maxMdf s = Fin f" "0 \<le> f" "f \<le> 1"
  shows "\<exists>w. loss_decrease now (s, tcb) = Inr (s\<lparr>m_tLastDecrease := now\<rparr>, tcb\<lparr>m_cWnd := w\<rparr>) \<and>
    m_segmentSize tcb \<le> w \<and> w \<le> m_cWnd tcb"
proof -
  define g n where "g = uint (m_segmentSize tcb)" and "n = uint (m_cWnd tcb div m_segmentSize tcb)"
  have n: "n * g \<le> uint (m_cWnd tcb)" "n = uint (m_cWnd tcb) div g" "0 < g"
    using whole_segments(1,2) [OF assms(1), of "m_cWnd tcb"] whole_segments(3) [OF assms(1)]
    by (auto simp: n_def g_def)
  have "g \<le> uint (m_cWnd tcb)" using assms(2) by (simp add: g_def word_le_def)
  then have n1: "1 \<le> n" using zdiv_mono1 [of g "uint (m_cWnd tcb)" g] n(2,3) by simp
  have n32: "n < 2 ^ 32" using uint32_less [of "m_cWnd tcb div m_segmentSize tcb"] by (simp add: n_def)
  define y where "y = D (1 + - f)"
  have f01: "0 \<le> 1 + - f" "1 + - f \<le> 1" using assms(4,5) by auto
  have y: "mk_double (1 + - f) = Fin y" "0 \<le> y" "y \<le> 1"
    using mk_double_unit [OF f01] double_rnd.r_le_int [of "1 + - f" 1] f01
    by (auto simp: y_def intro!: double_rnd.r_nonneg)
  have ny: "0 \<le> of_int n * y" "of_int n * y \<le> of_int n" using n1 y by (auto simp: mult_left_le)
  note p = mk_double_u32_product [OF ny n32]
  define v where "v = \<lfloor>D (of_int n * y)\<rfloor>"
  have "(of_int n :: rat) < of_int (2 ^ 32)" using n32 by (simp only: of_int_less_iff)
  then have lt: "D (of_int n * y) < 2 ^ 32" using p(3) by simp
  have v: "0 \<le> v" "v \<le> n" "uint (word_of_int v :: u32) = v"
    using p(2,3) uint_word_of_floor [OF p(2) lt] by (simp_all add: v_def floor_le_iff)
  define w where "w = max 1 (word_of_int v :: u32)"
  have w: "1 \<le> uint w" "uint w \<le> n" "uint w * g \<le> n * g"
    using v n1 n(3) by (auto simp: w_def max_def word_le_def intro!: mult_right_mono)
  have ge: "g \<le> uint w * g" using w(1) n(3) by (simp add: mult_le_cancel_right1)
  have "0 \<le> uint w * g" using w(1) n(3) by simp
  moreover have "uint w * g < 2 ^ 32" using w(3) n(1) uint32_less [of "m_cWnd tcb"] by linarith
  ultimately have "uint (w * m_segmentSize tcb) = uint w * g" by (simp add: uint_word_ariths g_def)
  moreover have "loss_decrease now (s, tcb) =
      Inr (s\<lparr>m_tLastDecrease := now\<rparr>, tcb\<lparr>m_cWnd := w * m_segmentSize tcb\<rparr>)"
    using assms(1,3) y(1) p(1) d_to_u32 [OF p(2) lt] d_of_u32 [of "m_cWnd tcb div m_segmentSize tcb", folded n_def]
    by (simp add: loss_decrease_def GetCwndInSegments_def Let_def d_sub_def n_def [symmetric]
        w_def v_def [symmetric])
  ultimately show ?thesis using ge w(3) n(1) by (auto simp: word_le_def g_def)
qed

text \<open>
  C15: a retransmission timeout keeps the window between one segment and its old value, and
  from the configured number of consecutive timeouts on it is exactly one segment.
\<close>

theorem swift_timeout_window:
  assumes "m_segmentSize tcb \<noteq> 0" "m_segmentSize tcb \<le> m_cWnd tcb" "m_maxMdf s = Fin f" "0 \<le> f" "f \<le> 1"
    "0 < m_rtt s" "0 \<le> now" "now < 2 ^ 63" "0 \<le> m_tLastDecrease s" "m_tLastDecrease s < 2 ^ 63"
    "swift_params s"
  shows "\<exists>s' tcb'. swift_CwndEvent now CA_EVENT_LOSS (s, tcb) = Inr (s', tcb') \<and>
    m_segmentSize tcb \<le> m_cWnd tcb' \<and> m_cWnd tcb' \<le> m_cWnd tcb \<and>
    m_retransmitCount s' = m_retransmitCount s + 1 \<and>
    (m_retxResetThreshold s \<le> m_retransmitCount s + 1 \<longrightarrow> m_cWnd tcb' = m_segmentSize tcb)"
proof -
  have target: "\<exists>t tcb'. ComputeTargetDelay s' tcb1 = Inr (t, tcb') \<and> m_cWnd tcb' = m_cWnd tcb1"
    if "target_delay s' = target_delay s" "m_segmentSize tcb1 \<noteq> 0" "m_hops tcb1 = m_hops tcb" for s' tcb1
  proof -
    obtain t where t: "target_delay s (m_cWnd tcb1 div m_segmentSize tcb1) (m_hops tcb) = Inr (Fin t)"
      "0 \<le> t" "t < 2 ^ 64" using target_delay_range [OF assms(11)] by blast
    then have "\<lfloor>t\<rfloor> < 2 ^ 64" "0 \<le> \<lfloor>t\<rfloor>" by (simp_all add: floor_less_iff)
    then show ?thesis
      using that t by (simp add: ComputeTargetDelay_def GetCwndInSegments_def d_to_word_def)
  qed
  let ?can = "m_rtt s \<le> now - m_tLastDecrease s"
  let ?s = "s\<lparr>m_canDecrease := ?can, m_retransmitCount := m_retransmitCount s + 1\<rparr>"
  have can: "CanDecrease now s = Inr ?can" by (rule CanDecrease_eq [OF assms(6-10)])
  obtain w where w: "loss_decrease now (?s, tcb) = Inr (?s\<lparr>m_tLastDecrease := now\<rparr>, tcb\<lparr>m_cWnd := w\<rparr>)"
    "m_segmentSize tcb \<le> w" "w \<le> m_cWnd tcb"
    using loss_decrease_bounds [of tcb ?s f now] assms(1-5) by auto
  show ?thesis
    using target [of ?s "tcb\<lparr>m_cWnd := MinCwnd tcb\<rparr>"] target [of ?s tcb]
      target [of "?s\<lparr>m_tLastDecrease := now\<rparr>" "tcb\<lparr>m_cWnd := w\<rparr>"] w can assms(1,2)
    by (auto simp: swift_CwndEvent_def Let_def MinCwnd_def)
qed

theorem swift_timeout_window_witness:
  "\<exists>s' tcb'. swift_CwndEvent 1000000000 CA_EVENT_LOSS (TcpSwift\<lparr>m_rtt := 100000\<rparr>, demo_tcb 14480 1448) =
     Inr (s', tcb') \<and> 1448 \<le> m_cWnd tcb' \<and> m_cWnd tcb' \<le> 14480 \<and> m_retransmitCount s' = 1"
proof -
  have "swift_params (TcpSwift\<lparr>m_rtt := 100000\<rparr>)"
    using swift_params_TcpSwift by (simp add: swift_params_def)
  then show ?thesis
    using swift_timeout_window [of "demo_tcb 14480 1448" "TcpSwift\<lparr>m_rtt := 100000\<rparr>" 1 1000000000] TcpSwift_params
    by (auto simp: demo_tcb_def)
qed

end
