(* ===== verification/Packet_Queue.thy ===== *)
theory Packet_Queue
  imports Prelude
begin

text \<open>
  \<^verbatim>\<open>src/src/network/utils/queue.h\<close>, \<^verbatim>\<open>queue.cc\<close>, \<^verbatim>\<open>queue-size.h\<close> and \<^verbatim>\<open>drop-tail-queue.h\<close>: the
  accounting of \<^verbatim>\<open>Queue<Packet>\<close> and the tail-drop queue of the network devices. A packet is its
  identity and its bytes; the container is a list and an iterator a position in it. Counters
  are \<^verbatim>\<open>uint32_t\<close> and wrap. Trace callbacks are left out.

  The contract of a device queue is the locale \<open>packet_fifo\<close>, which \<open>Drop_Tail_Queue\<close> meets.
\<close>

section \<open>Packets and sizes\<close>

record packet =
  p_uid :: nat
  p_bytes :: "u8 list"

definition GetSize :: "packet \<Rightarrow> u32" where
  "GetSize p = of_nat (length (p_bytes p))"

datatype size_unit = PACKETS | BYTES

record queue_size =
  qs_unit :: size_unit
  qs_value :: u32

definition QueueSize :: "size_unit \<Rightarrow> u32 \<Rightarrow> queue_size" where
  "QueueSize u v = \<lparr>qs_unit = u, qs_value = v\<rparr>"

definition qs_less :: "queue_size \<Rightarrow> queue_size \<Rightarrow> bool res" where
  "qs_less a b = (if qs_unit a \<noteq> qs_unit b then Inl Fatal_Error else Inr (qs_value a < qs_value b))"

definition qs_greater :: "queue_size \<Rightarrow> queue_size \<Rightarrow> bool res" where
  "qs_greater a b = (if qs_unit a \<noteq> qs_unit b then Inl Fatal_Error else Inr (qs_value a > qs_value b))"

definition qs_plus :: "queue_size \<Rightarrow> packet \<Rightarrow> queue_size" where
  "qs_plus s p =
     (case qs_unit s of
        PACKETS \<Rightarrow> QueueSize PACKETS (qs_value s + 1)
      | BYTES \<Rightarrow> QueueSize BYTES (qs_value s + GetSize p))"

section \<open>The queue\<close>

record pqueue =
  q_packets :: "packet list"
  m_nBytes :: u32
  m_nTotalReceivedBytes :: u32
  m_nPackets :: u32
  m_nTotalReceivedPackets :: u32
  m_nTotalDroppedBytes :: u32
  m_nTotalDroppedBytesBeforeEnqueue :: u32
  m_nTotalDroppedBytesAfterDequeue :: u32
  m_nTotalDroppedPackets :: u32
  m_nTotalDroppedPacketsBeforeEnqueue :: u32
  m_nTotalDroppedPacketsAfterDequeue :: u32
  m_maxSize :: queue_size

definition QueueBase :: pqueue where
  "QueueBase = \<lparr>q_packets = [], m_nBytes = 0, m_nTotalReceivedBytes = 0, m_nPackets = 0,
     m_nTotalReceivedPackets = 0, m_nTotalDroppedBytes = 0, m_nTotalDroppedBytesBeforeEnqueue = 0,
     m_nTotalDroppedBytesAfterDequeue = 0, m_nTotalDroppedPackets = 0,
     m_nTotalDroppedPacketsBeforeEnqueue = 0, m_nTotalDroppedPacketsAfterDequeue = 0,
     m_maxSize = QueueSize PACKETS 0xffffffff\<rparr>"

definition queue_IsEmpty :: "pqueue \<Rightarrow> bool" where
  "queue_IsEmpty q \<longleftrightarrow> m_nPackets q = 0"

definition GetCurrentSize :: "pqueue \<Rightarrow> queue_size" where
  "GetCurrentSize q =
     (if qs_unit (m_maxSize q) = PACKETS then QueueSize PACKETS (m_nPackets q)
      else QueueSize BYTES (m_nBytes q))"

definition ResetStatistics :: "pqueue \<Rightarrow> pqueue" where
  "ResetStatistics q = q\<lparr>m_nTotalReceivedBytes := 0, m_nTotalReceivedPackets := 0,
     m_nTotalDroppedBytes := 0, m_nTotalDroppedBytesBeforeEnqueue := 0,
     m_nTotalDroppedBytesAfterDequeue := 0, m_nTotalDroppedPackets := 0,
     m_nTotalDroppedPacketsBeforeEnqueue := 0, m_nTotalDroppedPacketsAfterDequeue := 0\<rparr>"

definition SetMaxSize :: "queue_size \<Rightarrow> pqueue \<Rightarrow> pqueue res" where
  "SetMaxSize s q =
     (if qs_value s = 0 then Inr q
      else let q = q\<lparr>m_maxSize := s\<rparr>
           in bind_res (qs_less s (GetCurrentSize q)) (\<lambda>b. if b then Inl Fatal_Error else Inr q))"

definition WouldOverflow :: "u32 \<Rightarrow> u32 \<Rightarrow> pqueue \<Rightarrow> bool" where
  "WouldOverflow nPackets nBytes q \<longleftrightarrow>
     (if qs_unit (m_maxSize q) = PACKETS then m_nPackets q + nPackets > qs_value (m_maxSize q)
      else m_nBytes q + nBytes > qs_value (m_maxSize q))"

definition DropBeforeEnqueue :: "packet \<Rightarrow> pqueue \<Rightarrow> pqueue" where
  "DropBeforeEnqueue p q = q\<lparr>m_nTotalDroppedPackets := m_nTotalDroppedPackets q + 1,
     m_nTotalDroppedPacketsBeforeEnqueue := m_nTotalDroppedPacketsBeforeEnqueue q + 1,
     m_nTotalDroppedBytes := m_nTotalDroppedBytes q + GetSize p,
     m_nTotalDroppedBytesBeforeEnqueue := m_nTotalDroppedBytesBeforeEnqueue q + GetSize p\<rparr>"

definition DropAfterDequeue :: "packet \<Rightarrow> pqueue \<Rightarrow> pqueue" where
  "DropAfterDequeue p q = q\<lparr>m_nTotalDroppedPackets := m_nTotalDroppedPackets q + 1,
     m_nTotalDroppedPacketsAfterDequeue := m_nTotalDroppedPacketsAfterDequeue q + 1,
     m_nTotalDroppedBytes := m_nTotalDroppedBytes q + GetSize p,
     m_nTotalDroppedBytesAfterDequeue := m_nTotalDroppedBytesAfterDequeue q + GetSize p\<rparr>"

definition DoEnqueue :: "nat \<Rightarrow> packet \<Rightarrow> pqueue \<Rightarrow> (bool \<times> pqueue) res" where
  "DoEnqueue pos p q =
     bind_res (qs_greater (qs_plus (GetCurrentSize q) p) (m_maxSize q)) (\<lambda>full.
       if full then Inr (False, DropBeforeEnqueue p q)
       else let sz = GetSize p
            in Inr (True, q\<lparr>q_packets := take pos (q_packets q) @ p # drop pos (q_packets q),
                            m_nBytes := m_nBytes q + sz,
                            m_nTotalReceivedBytes := m_nTotalReceivedBytes q + sz,
                            m_nPackets := m_nPackets q + 1,
                            m_nTotalReceivedPackets := m_nTotalReceivedPackets q + 1\<rparr>))"

text \<open>\<^verbatim>\<open>DoDequeue\<close> and \<^verbatim>\<open>DoRemove\<close> dereference the iterator: at \<^verbatim>\<open>end ()\<close> that is undefined.\<close>

definition take_item :: "nat \<Rightarrow> pqueue \<Rightarrow> (packet \<times> pqueue) res" where
  "take_item pos q =
     (if pos \<ge> length (q_packets q) then Inl Undefined_Behaviour
      else let p = q_packets q ! pos;
               q = q\<lparr>q_packets := take pos (q_packets q) @ drop (pos + 1) (q_packets q)\<rparr>
           in if \<not> m_nBytes q \<ge> GetSize p then Inl Assert_Failed
              else if \<not> m_nPackets q > 0 then Inl Assert_Failed
              else Inr (p, q\<lparr>m_nBytes := m_nBytes q - GetSize p, m_nPackets := m_nPackets q - 1\<rparr>))"

definition DoDequeue :: "nat \<Rightarrow> pqueue \<Rightarrow> (packet option \<times> pqueue) res" where
  "DoDequeue pos q =
     (if m_nPackets q = 0 then Inr (None, q)
      else bind_res (take_item pos q) (\<lambda>(p, q). Inr (Some p, q)))"

definition DoRemove :: "nat \<Rightarrow> pqueue \<Rightarrow> (packet option \<times> pqueue) res" where
  "DoRemove pos q =
     (if m_nPackets q = 0 then Inr (None, q)
      else bind_res (take_item pos q) (\<lambda>(p, q). Inr (Some p, DropAfterDequeue p q)))"

definition DoPeek :: "nat \<Rightarrow> pqueue \<Rightarrow> packet option res" where
  "DoPeek pos q =
     (if m_nPackets q = 0 then Inr None
      else if pos \<ge> length (q_packets q) then Inl Undefined_Behaviour
      else Inr (Some (q_packets q ! pos)))"

section \<open>The tail-drop queue\<close>

definition dt_Enqueue :: "packet \<Rightarrow> pqueue \<Rightarrow> (bool \<times> pqueue) res" where
  "dt_Enqueue p q = DoEnqueue (length (q_packets q)) p q"

definition dt_Dequeue :: "pqueue \<Rightarrow> (packet option \<times> pqueue) res" where
  "dt_Dequeue q = DoDequeue 0 q"

definition dt_Remove :: "pqueue \<Rightarrow> (packet option \<times> pqueue) res" where
  "dt_Remove q = DoRemove 0 q"

definition dt_Peek :: "pqueue \<Rightarrow> packet option res" where
  "dt_Peek q = DoPeek 0 q"

text \<open>\<^verbatim>\<open>Flush\<close> removes until the queue is empty; the fuel bounds the rounds.\<close>

fun dt_Flush :: "nat \<Rightarrow> pqueue \<Rightarrow> pqueue res option" where
  "dt_Flush 0 q = (if queue_IsEmpty q then Some (Inr q) else None)"
| "dt_Flush (Suc n) q =
     (if queue_IsEmpty q then Some (Inr q)
      else case dt_Remove q of
        Inl err \<Rightarrow> Some (Inl err)
      | Inr (_, q') \<Rightarrow> dt_Flush n q')"

section \<open>The contract of a device queue\<close>

locale packet_fifo =
  fixes Enqueue :: "packet \<Rightarrow> 'q \<Rightarrow> (bool \<times> 'q) res"
    and Dequeue :: "'q \<Rightarrow> (packet option \<times> 'q) res"
    and invar :: "'q \<Rightarrow> bool"
    and items :: "'q \<Rightarrow> packet list"
    and fits :: "packet \<Rightarrow> 'q \<Rightarrow> bool"
    and pkt_ok :: "packet \<Rightarrow> bool"
  assumes Enqueue_law: "invar q \<Longrightarrow> pkt_ok p \<Longrightarrow>
      \<exists>q'. Enqueue p q = Inr (fits p q, q') \<and> invar q' \<and>
        items q' = (if fits p q then items q @ [p] else items q)"
    and Dequeue_law: "invar q \<Longrightarrow>
      \<exists>q'. Dequeue q = Inr (case items q of [] \<Rightarrow> None | p # _ \<Rightarrow> Some p, q') \<and> invar q' \<and>
        items q' = tl (items q)"
begin

text \<open>A packet accepted by an empty queue is the next one out, and leaves it empty.\<close>

lemma pass_through:
  assumes "invar q" "items q = []" "pkt_ok p" "fits p q"
  shows "\<exists>q1 q2. Enqueue p q = Inr (True, q1) \<and> Dequeue q1 = Inr (Some p, q2) \<and> invar q2 \<and> items q2 = []"
  using Enqueue_law [OF assms(1,3)] Dequeue_law assms by fastforce

end

section \<open>The tail-drop queue meets it\<close>

text \<open>Packets of at least one byte and less than 64 KiB and a limit under which the 32-bit byte count cannot wrap.\<close>

definition small_packet :: "packet \<Rightarrow> bool" where
  "small_packet p \<longleftrightarrow> p_bytes p \<noteq> [] \<and> length (p_bytes p) < 2 ^ 16"

definition bytes_of :: "packet list \<Rightarrow> nat" where
  "bytes_of ps = sum_list (map (\<lambda>p. length (p_bytes p)) ps)"

definition within :: "queue_size \<Rightarrow> packet list \<Rightarrow> bool" where
  "within m ps \<longleftrightarrow>
     (if qs_unit m = PACKETS then length ps \<le> unat (qs_value m) \<and> unat (qs_value m) \<le> 2 ^ 16
      else bytes_of ps \<le> unat (qs_value m) \<and> unat (qs_value m) \<le> 2 ^ 31)"

definition dt_invar :: "pqueue \<Rightarrow> bool" where
  "dt_invar q \<longleftrightarrow>
     unat (m_nPackets q) = length (q_packets q) \<and> unat (m_nBytes q) = bytes_of (q_packets q) \<and>
     list_all small_packet (q_packets q) \<and> within (m_maxSize q) (q_packets q)"

definition spec_fits :: "queue_size \<Rightarrow> packet \<Rightarrow> packet list \<Rightarrow> bool" where
  "spec_fits m p ps \<longleftrightarrow>
     (if qs_unit m = PACKETS then length ps + 1 \<le> unat (qs_value m)
      else bytes_of ps + length (p_bytes p) \<le> unat (qs_value m))"

definition dt_fits :: "packet \<Rightarrow> pqueue \<Rightarrow> bool" where
  "dt_fits p q \<longleftrightarrow> spec_fits (m_maxSize q) p (q_packets q)"

lemma bytes_of_simps [simp]:
  "bytes_of [] = 0"
  "bytes_of (p # ps) = length (p_bytes p) + bytes_of ps"
  "bytes_of (ps @ qs) = bytes_of ps + bytes_of qs"
  by (simp_all add: bytes_of_def)

lemma bytes_of_small: "list_all small_packet ps \<Longrightarrow> bytes_of ps \<le> length ps * (2 ^ 16 - 1)"
  by (induction ps) (auto simp: small_packet_def)

lemma length_le_bytes: "list_all small_packet ps \<Longrightarrow> length ps \<le> bytes_of ps"
proof (induction ps)
  case (Cons p ps)
  then have "1 \<le> length (p_bytes p)" by (simp add: small_packet_def Suc_le_eq)
  moreover have "length ps \<le> bytes_of ps" using Cons by simp
  ultimately show ?case by (simp only: length_Cons bytes_of_simps)
qed simp

lemma unat_GetSize: "small_packet p \<Longrightarrow> unat (GetSize p) = length (p_bytes p)"
  by (simp add: small_packet_def GetSize_def unat_of_nat take_bit_nat_eq_self)

text \<open>In a valid state the byte count of the queue and one more packet does not wrap.\<close>

lemma dt_no_wrap:
  assumes "dt_invar q" "small_packet p"
  shows "unat (m_nPackets q + 1) = length (q_packets q) + 1"
    "dt_fits p q \<or> qs_unit (m_maxSize q) = BYTES \<Longrightarrow>
       unat (m_nBytes q + GetSize p) = bytes_of (q_packets q) + length (p_bytes p)"
proof -
  note d = assms(1) [unfolded dt_invar_def within_def]
  have sp: "unat (GetSize p) = length (p_bytes p)" "length (p_bytes p) < 2 ^ 16"
    using assms(2) unat_GetSize by (auto simp: small_packet_def)
  have "length (q_packets q) < 2 ^ 31 + 1"
    using d length_le_bytes [of "q_packets q"] by (auto split: if_splits)
  then show "unat (m_nPackets q + 1) = length (q_packets q) + 1"
    using d by (subst unat_add_lt) auto
  assume f: "dt_fits p q \<or> qs_unit (m_maxSize q) = BYTES"
  have "bytes_of (q_packets q) + length (p_bytes p) < 2 ^ 32"
  proof (cases "qs_unit (m_maxSize q)")
    case PACKETS
    then have l: "length (q_packets q) + 1 \<le> 2 ^ 16" using d f by (auto simp: dt_fits_def spec_fits_def)
    have "bytes_of (q_packets q) \<le> length (q_packets q) * (2 ^ 16 - 1)" using d bytes_of_small by blast
    also have "\<dots> \<le> (2 ^ 16 - 1) * (2 ^ 16 - 1)" using l by (intro mult_right_mono) auto
    finally show ?thesis using sp(2) by simp
  next
    case BYTES
    then show ?thesis using d sp(2) by auto
  qed
  then show "unat (m_nBytes q + GetSize p) = bytes_of (q_packets q) + length (p_bytes p)"
    using d sp(1) by (subst unat_add_lt) auto
qed

lemma dt_Enqueue_eq:
  assumes "dt_invar q" "small_packet p"
  shows "dt_Enqueue p q =
    Inr (if dt_fits p q
         then (True, q\<lparr>q_packets := q_packets q @ [p], m_nBytes := m_nBytes q + GetSize p,
                m_nTotalReceivedBytes := m_nTotalReceivedBytes q + GetSize p, m_nPackets := m_nPackets q + 1,
                m_nTotalReceivedPackets := m_nTotalReceivedPackets q + 1\<rparr>)
         else (False, DropBeforeEnqueue p q))"
proof -
  have "qs_greater (qs_plus (GetCurrentSize q) p) (m_maxSize q) = Inr (\<not> dt_fits p q)"
    using dt_no_wrap [OF assms]
    by (cases "qs_unit (m_maxSize q)")
      (auto simp: qs_greater_def qs_plus_def GetCurrentSize_def QueueSize_def dt_fits_def spec_fits_def
        word_less_nat_alt)
  then show ?thesis by (simp add: dt_Enqueue_def DoEnqueue_def Let_def)
qed

lemma dt_invar_DropBefore [simp]: "dt_invar (DropBeforeEnqueue p q) = dt_invar q"
  and dt_invar_DropAfter [simp]: "dt_invar (DropAfterDequeue p q) = dt_invar q"
  by (simp_all add: dt_invar_def DropBeforeEnqueue_def DropAfterDequeue_def)

lemma dt_Enqueue_ok:
  assumes "dt_invar q" "small_packet p"
  shows "\<exists>q'. dt_Enqueue p q = Inr (dt_fits p q, q') \<and> dt_invar q' \<and> m_maxSize q' = m_maxSize q \<and>
    q_packets q' = (if dt_fits p q then q_packets q @ [p] else q_packets q)"
proof (cases "dt_fits p q")
  case True
  then show ?thesis
    using dt_Enqueue_eq [OF assms] dt_no_wrap [OF assms] assms
    by (cases "qs_unit (m_maxSize q)") (auto simp: dt_invar_def dt_fits_def spec_fits_def within_def)
next
  case False
  then show ?thesis using dt_Enqueue_eq [OF assms] assms by (simp add: DropBeforeEnqueue_def dt_invar_def)
qed

lemma take_item_ok:
  assumes "dt_invar q" "q_packets q = p # ps"
  shows "\<exists>q'. take_item 0 q = Inr (p, q') \<and> dt_invar q' \<and> q_packets q' = ps \<and> m_maxSize q' = m_maxSize q \<and>
    m_nTotalDroppedPackets q' = m_nTotalDroppedPackets q \<and> m_nPackets q' = m_nPackets q - 1"
proof -
  have sp: "unat (GetSize p) = length (p_bytes p)" using assms unat_GetSize by (auto simp: dt_invar_def)
  have nb: "unat (m_nBytes q) = length (p_bytes p) + bytes_of ps" "unat (m_nPackets q) = Suc (length ps)"
    using assms by (auto simp: dt_invar_def)
  then have le: "GetSize p \<le> m_nBytes q" "0 < m_nPackets q"
    using sp by (auto simp: word_le_nat_alt word_less_nat_alt)
  have "unat (m_nBytes q - GetSize p) = bytes_of ps" "unat (m_nPackets q - 1) = length ps"
    using le nb sp by (simp_all add: unat_sub word_le_nat_alt)
  then show ?thesis
    using assms le by (cases "qs_unit (m_maxSize q)") (auto simp: take_item_def Let_def dt_invar_def within_def)
qed

lemma dt_empty_iff: "dt_invar q \<Longrightarrow> m_nPackets q = 0 \<longleftrightarrow> q_packets q = []"
  by (simp add: dt_invar_def unat_eq_zero [symmetric])

interpretation drop_tail: packet_fifo dt_Enqueue dt_Dequeue dt_invar q_packets dt_fits small_packet
proof
  fix q p
  assume q: "dt_invar q"
  show "\<exists>q'. dt_Enqueue p q = Inr (dt_fits p q, q') \<and> dt_invar q' \<and>
      q_packets q' = (if dt_fits p q then q_packets q @ [p] else q_packets q)" if "small_packet p"
    using dt_Enqueue_ok [OF q that] by blast
  show "\<exists>q'. dt_Dequeue q = Inr (case q_packets q of [] \<Rightarrow> None | p # _ \<Rightarrow> Some p, q') \<and> dt_invar q' \<and>
      q_packets q' = tl (q_packets q)"
  proof (cases "q_packets q")
    case Nil
    then show ?thesis using q dt_empty_iff [OF q] by (simp add: dt_Dequeue_def DoDequeue_def)
  next
    case (Cons p ps)
    then show ?thesis
      using take_item_ok [OF q Cons] dt_empty_iff [OF q] by (auto simp: dt_Dequeue_def DoDequeue_def)
  qed
qed

section \<open>Results\<close>

text \<open>The operations a client performs, with what each returns to it.\<close>

datatype queue_op = Enq packet | Deq | Rem

datatype queue_answer = Accepted bool | Out "packet option"

definition dt_do :: "queue_op \<Rightarrow> pqueue \<Rightarrow> (queue_answer \<times> pqueue) res" where
  "dt_do x q =
     (case x of
        Enq p \<Rightarrow> bind_res (dt_Enqueue p q) (\<lambda>(b, q). Inr (Accepted b, q))
      | Deq \<Rightarrow> bind_res (dt_Dequeue q) (\<lambda>(r, q). Inr (Out r, q))
      | Rem \<Rightarrow> bind_res (dt_Remove q) (\<lambda>(r, q). Inr (Out r, q)))"

fun dt_run :: "queue_op list \<Rightarrow> pqueue \<Rightarrow> (queue_answer list \<times> pqueue) res" where
  "dt_run [] q = Inr ([], q)"
| "dt_run (x # xs) q = bind_res (dt_do x q) (\<lambda>(r, q). bind_res (dt_run xs q) (\<lambda>(rs, q). Inr (r # rs, q)))"

text \<open>
  The bounded list they are meant to implement, with the packets it has received, refused and removed so far, in order.
\<close>

record fifo =
  ff_items :: "packet list"
  ff_received :: "packet list"
  ff_refused :: "packet list"
  ff_removed :: "packet list"

definition spec_do :: "queue_size \<Rightarrow> queue_op \<Rightarrow> fifo \<Rightarrow> queue_answer \<times> fifo" where
  "spec_do m x f =
     (case x of
        Enq p \<Rightarrow> if spec_fits m p (ff_items f)
          then (Accepted True, f\<lparr>ff_items := ff_items f @ [p], ff_received := ff_received f @ [p]\<rparr>)
          else (Accepted False, f\<lparr>ff_refused := ff_refused f @ [p]\<rparr>)
      | Deq \<Rightarrow> (case ff_items f of [] \<Rightarrow> (Out None, f) | p # ps \<Rightarrow> (Out (Some p), f\<lparr>ff_items := ps\<rparr>))
      | Rem \<Rightarrow> (case ff_items f of [] \<Rightarrow> (Out None, f)
                | p # ps \<Rightarrow> (Out (Some p), f\<lparr>ff_items := ps, ff_removed := ff_removed f @ [p]\<rparr>)))"

fun spec_run :: "queue_size \<Rightarrow> queue_op list \<Rightarrow> fifo \<Rightarrow> queue_answer list \<times> fifo" where
  "spec_run m [] f = ([], f)"
| "spec_run m (x # xs) f = (case spec_do m x f of (r, f) \<Rightarrow> case spec_run m xs f of (rs, f) \<Rightarrow> (r # rs, f))"

text \<open>The totals of a queue that had those of \<open>q0\<close> when the list had received, refused and removed nothing.\<close>

definition counts :: "pqueue \<Rightarrow> fifo \<Rightarrow> pqueue \<Rightarrow> bool" where
  "counts q0 f q \<longleftrightarrow>
     m_nTotalReceivedPackets q = m_nTotalReceivedPackets q0 + of_nat (length (ff_received f)) \<and>
     m_nTotalReceivedBytes q = m_nTotalReceivedBytes q0 + of_nat (bytes_of (ff_received f)) \<and>
     m_nTotalDroppedPacketsBeforeEnqueue q = m_nTotalDroppedPacketsBeforeEnqueue q0 + of_nat (length (ff_refused f)) \<and>
     m_nTotalDroppedBytesBeforeEnqueue q = m_nTotalDroppedBytesBeforeEnqueue q0 + of_nat (bytes_of (ff_refused f)) \<and>
     m_nTotalDroppedPacketsAfterDequeue q = m_nTotalDroppedPacketsAfterDequeue q0 + of_nat (length (ff_removed f)) \<and>
     m_nTotalDroppedBytesAfterDequeue q = m_nTotalDroppedBytesAfterDequeue q0 + of_nat (bytes_of (ff_removed f)) \<and>
     m_nTotalDroppedPackets q = m_nTotalDroppedPackets q0 + of_nat (length (ff_refused f) + length (ff_removed f)) \<and>
     m_nTotalDroppedBytes q = m_nTotalDroppedBytes q0 + of_nat (bytes_of (ff_refused f) + bytes_of (ff_removed f))"

definition implements :: "pqueue \<Rightarrow> fifo \<Rightarrow> pqueue \<Rightarrow> bool" where
  "implements q0 f q \<longleftrightarrow> dt_invar q \<and> m_maxSize q = m_maxSize q0 \<and> q_packets q = ff_items f \<and> counts q0 f q"

definition same_totals :: "pqueue \<Rightarrow> pqueue \<Rightarrow> bool" where
  "same_totals q q' \<longleftrightarrow> (\<forall>q0 f. counts q0 f q' = counts q0 f q)"

lemma take_item_totals: "take_item pos q = Inr (p, q') \<Longrightarrow> same_totals q q'"
  by (auto simp: take_item_def Let_def same_totals_def counts_def split: if_splits)

text \<open>Each operation keeps the queue an implementation of the list, and answers as the list does.\<close>

lemma do_implements:
  assumes "implements q0 f q" "\<forall>p. x = Enq p \<longrightarrow> small_packet p"
  shows "\<exists>q'. dt_do x q = Inr (fst (spec_do (m_maxSize q0) x f), q') \<and> implements q0 (snd (spec_do (m_maxSize q0) x f)) q'"
proof -
  have q: "dt_invar q" "m_maxSize q = m_maxSize q0" "q_packets q = ff_items f" "counts q0 f q" using assms(1) by (simp_all add: implements_def)
  note empty = dt_empty_iff [OF q(1)]
  show ?thesis
  proof (cases x)
    case (Enq p)
    have p: "small_packet p" using assms(2) Enq by simp
    have "implements q0 (snd (spec_do (m_maxSize q0) x f)) q'" if "dt_Enqueue p q = Inr (dt_fits p q, q')" for q'
      using dt_Enqueue_ok [OF q(1) p] dt_Enqueue_eq [OF q(1) p] that q
      by (auto simp: Enq spec_do_def implements_def counts_def dt_fits_def GetSize_def DropBeforeEnqueue_def)
    then show ?thesis using dt_Enqueue_ok [OF q(1) p] q(2,3) by (auto simp: Enq dt_do_def spec_do_def dt_fits_def)
  next
    case Deq
    show ?thesis
    proof (cases "q_packets q")
      case (Cons p ps)
      obtain q1 where q1: "take_item 0 q = Inr (p, q1)" "dt_invar q1" "q_packets q1 = ps" "m_maxSize q1 = m_maxSize q"
        using take_item_ok [OF q(1) Cons] by blast
      then show ?thesis
        using Cons q empty take_item_totals [OF q1(1)]
        by (auto simp: Deq dt_do_def spec_do_def dt_Dequeue_def DoDequeue_def implements_def same_totals_def counts_def)
    qed (use q empty assms(1) in \<open>auto simp: Deq dt_do_def spec_do_def dt_Dequeue_def DoDequeue_def\<close>)
  next
    case Rem
    show ?thesis
    proof (cases "q_packets q")
      case (Cons p ps)
      obtain q1 where q1: "take_item 0 q = Inr (p, q1)" "dt_invar q1" "q_packets q1 = ps" "m_maxSize q1 = m_maxSize q"
        using take_item_ok [OF q(1) Cons] by blast
      have "counts q0 (f\<lparr>ff_items := ps, ff_removed := ff_removed f @ [p]\<rparr>) (DropAfterDequeue p q1)"
        using q(4) take_item_totals [OF q1(1)] by (simp add: same_totals_def) (simp add: counts_def DropAfterDequeue_def GetSize_def algebra_simps)
      then show ?thesis
        using Cons q empty q1
        by (auto simp: Rem dt_do_def spec_do_def dt_Remove_def DoRemove_def implements_def) (simp_all add: DropAfterDequeue_def)
    qed (use q empty assms(1) in \<open>auto simp: Rem dt_do_def spec_do_def dt_Remove_def DoRemove_def\<close>)
  qed
qed

lemma run_implements:
  assumes "implements q0 f q" "\<forall>p. Enq p \<in> set xs \<longrightarrow> small_packet p"
  shows "\<exists>q'. dt_run xs q = Inr (fst (spec_run (m_maxSize q0) xs f), q') \<and> implements q0 (snd (spec_run (m_maxSize q0) xs f)) q'"
  using assms
proof (induction xs arbitrary: f q)
  case (Cons x xs)
  obtain r f1 where f1: "spec_do (m_maxSize q0) x f = (r, f1)" by fastforce
  obtain q1 where q1: "dt_do x q = Inr (r, q1)" "implements q0 f1 q1"
    using do_implements [OF Cons.prems(1), of x] Cons.prems(2) f1 by auto
  have "\<forall>p. Enq p \<in> set xs \<longrightarrow> small_packet p" using Cons.prems(2) by simp
  from Cons.IH [OF q1(2) this] q1(1) f1 show ?case by (auto split: prod.splits)
qed simp

text \<open>
  C39: let a client perform any sequence of enqueue, dequeue and remove operations on a tail-drop queue whose limit is at most \<open>2 ^ 16\<close> packets
  or \<open>2 ^ 31\<close> bytes and whose counters agree with its content (\<open>dt_invar\<close>), each packet having from 1 to 65535 bytes (\<open>small_packet\<close>). Every
  call answers as a first-in first-out list with that limit does (whether the packet was accepted, which packet was taken out), no assertion fails,
  the queue holds the packets of the list, its packet and byte counts are exact, and each total of packets and bytes received, dropped before
  enqueueing, dropped after dequeueing, and dropped, has grown by exactly what the list received, refused and removed (modulo \<open>2 ^ 32\<close>).
\<close>

theorem drop_tail_refines_fifo:
  assumes "dt_invar q" "\<forall>p. Enq p \<in> set xs \<longrightarrow> small_packet p"
    and "spec_run (m_maxSize q) xs \<lparr>ff_items = q_packets q, ff_received = [], ff_refused = [], ff_removed = []\<rparr> = (answers, f)"
  shows "\<exists>q'. dt_run xs q = Inr (answers, q') \<and> dt_invar q' \<and> q_packets q' = ff_items f \<and>
    unat (m_nPackets q') = length (ff_items f) \<and> unat (m_nBytes q') = bytes_of (ff_items f) \<and> counts q f q'"
proof -
  have "implements q \<lparr>ff_items = q_packets q, ff_received = [], ff_refused = [], ff_removed = []\<rparr> q"
    using assms(1) by (simp add: implements_def counts_def)
  from run_implements [OF this assms(2)] assms(3) show ?thesis by (auto simp: implements_def dt_invar_def)
qed

definition demo_packet :: "nat \<Rightarrow> packet" where
  "demo_packet n = \<lparr>p_uid = n, p_bytes = [1, 2, 3]\<rparr>"

definition demo_queue :: pqueue where
  "demo_queue = QueueBase\<lparr>m_maxSize := QueueSize PACKETS 2\<rparr>"

lemma demo_queue_invar: "dt_invar demo_queue"
  by (simp add: dt_invar_def within_def demo_queue_def QueueBase_def QueueSize_def)

lemma small_demo_packet [simp]: "small_packet (demo_packet n)"
  by (simp add: small_packet_def demo_packet_def)

theorem drop_tail_refines_fifo_witness:
  "\<exists>q'. dt_run [Enq (demo_packet 1), Enq (demo_packet 2), Enq (demo_packet 3), Deq, Rem, Deq] demo_queue =
     Inr ([Accepted True, Accepted True, Accepted False, Out (Some (demo_packet 1)), Out (Some (demo_packet 2)), Out None], q') \<and>
     q_packets q' = [] \<and> m_nTotalReceivedPackets q' = 2 \<and> m_nTotalDroppedPacketsBeforeEnqueue q' = 1 \<and> m_nTotalDroppedBytes q' = 6"
  using drop_tail_refines_fifo [OF demo_queue_invar,
      of "[Enq (demo_packet 1), Enq (demo_packet 2), Enq (demo_packet 3), Deq, Rem, Deq]"]
  by (force simp: demo_queue_def QueueBase_def QueueSize_def spec_fits_def spec_do_def counts_def demo_packet_def bytes_of_def small_packet_def
    simp del: dt_run.simps)

end
