(* ===== verification/Buffer_Iterator.thy ===== *)
theory Buffer_Iterator
  imports Prelude
begin

text \<open>
  \<^verbatim>\<open>Buffer::Iterator\<close> of \<^verbatim>\<open>src/src/network/model/buffer.h\<close> and \<^verbatim>\<open>buffer.cc\<close>, the cursor through which every
  header is written to and read from a packet. A packet's payload is a virtual zero area
  \<^verbatim>\<open>[m_zeroStart, m_zeroEnd)\<close> that takes no room in \<^verbatim>\<open>m_data\<close>: an offset below it indexes \<^verbatim>\<open>m_data\<close>
  directly and one above it is shifted down.

  The iterator record holds the bytes of \<^verbatim>\<open>m_data\<close>, so that the assignment \<^verbatim>\<open>i = start\<close> of the
  sources is a reset of \<^verbatim>\<open>m_current\<close> alone. Offsets are naturals: they are below \<^verbatim>\<open>2^32\<close> as packets are.
  An access to \<^verbatim>\<open>m_data\<close> outside the allocated bytes is undefined behaviour.

  The section on contracts reduces every operation to \<open>put_bytes\<close> and \<open>get_bytes\<close>, and the
  header theories rest on its rules.
\<close>

unbundle bit_operations_syntax

named_theorems write_intros \<open>which bytes a write operation appends\<close>
named_theorems read_intros \<open>which function of the next bytes a read operation returns\<close>

section \<open>State\<close>

record iterator =
  it_data :: "u8 list"
  m_zeroStart :: nat
  m_zeroEnd :: nat
  m_dataStart :: nat
  m_dataEnd :: nat
  m_current :: nat

type_synonym write_op = "iterator \<Rightarrow> iterator res"
type_synonym 'a read_op = "iterator \<Rightarrow> ('a \<times> iterator) res"

definition poke :: "nat \<Rightarrow> u8 \<Rightarrow> write_op" where
  "poke k b it = (if k < length (it_data it) then Inr (it\<lparr>it_data := (it_data it)[k := b]\<rparr>)
                  else Inl Undefined_Behaviour)"

definition load :: "nat \<Rightarrow> iterator \<Rightarrow> u8 res" where
  "load k it = (if k < length (it_data it) then Inr (it_data it ! k) else Inl Undefined_Behaviour)"

definition advance :: "nat \<Rightarrow> iterator \<Rightarrow> iterator" where
  "advance n it = it\<lparr>m_current := m_current it + n\<rparr>"

fun memcpy :: "nat \<Rightarrow> u8 list \<Rightarrow> write_op" where
  "memcpy k [] it = Inr it"
| "memcpy k (b # bs) it = bind_res (poke k b it) (memcpy (k + 1) bs)"

fun do_all :: "write_op list \<Rightarrow> write_op" where
  "do_all [] it = Inr it"
| "do_all (f # fs) it = bind_res (f it) (do_all fs)"

section \<open>Position\<close>

definition Construct :: "nat \<Rightarrow> nat \<Rightarrow> nat \<Rightarrow> nat \<Rightarrow> u8 list \<Rightarrow> iterator" where
  "Construct zeroAreaStart zeroAreaEnd start iend data =
     \<lparr>it_data = data, m_zeroStart = zeroAreaStart, m_zeroEnd = zeroAreaEnd, m_dataStart = start,
      m_dataEnd = iend, m_current = start\<rparr>"

definition it_Next :: "nat \<Rightarrow> write_op" where
  "it_Next delta it =
     (if \<not> m_current it + delta \<le> m_dataEnd it then Inl Assert_Failed else Inr (advance delta it))"

definition it_Prev :: "nat \<Rightarrow> write_op" where
  "it_Prev delta it =
     (if \<not> m_current it \<ge> delta then Inl Assert_Failed
      else Inr (it\<lparr>m_current := m_current it - delta\<rparr>))"

definition IsEnd :: "iterator \<Rightarrow> bool" where
  "IsEnd it \<longleftrightarrow> m_current it = m_dataEnd it"

definition IsStart :: "iterator \<Rightarrow> bool" where
  "IsStart it \<longleftrightarrow> m_current it = m_dataStart it"

definition GetDistanceFrom :: "iterator \<Rightarrow> iterator \<Rightarrow> nat" where
  "GetDistanceFrom it other =
     (if m_current it > m_current other then m_current it - m_current other else m_current other - m_current it)"

definition it_GetSize :: "iterator \<Rightarrow> nat" where
  "it_GetSize it = m_dataEnd it - m_dataStart it"

definition GetRemainingSize :: "iterator \<Rightarrow> nat" where
  "GetRemainingSize it = m_dataEnd it - m_current it"

definition CheckNoZero :: "nat \<Rightarrow> nat \<Rightarrow> iterator \<Rightarrow> bool" where
  "CheckNoZero start iend it \<longleftrightarrow>
     \<not> (start < m_dataStart it \<or> iend > m_dataEnd it \<or>
        (iend > m_zeroStart it \<and> start < m_zeroEnd it \<and> m_zeroEnd it \<noteq> m_zeroStart it \<and> start \<noteq> iend))"

definition Check :: "nat \<Rightarrow> iterator \<Rightarrow> bool" where
  "Check i it \<longleftrightarrow> i \<ge> m_dataStart it \<and> \<not> (i \<ge> m_zeroStart it \<and> i < m_zeroEnd it) \<and> i \<le> m_dataEnd it"

section \<open>Writing\<close>

abbreviation zero_size :: "iterator \<Rightarrow> nat" where
  "zero_size it \<equiv> m_zeroEnd it - m_zeroStart it"

definition WriteU8 :: "u8 \<Rightarrow> write_op" where
  "WriteU8 data it =
     (if \<not> Check (m_current it) it then Inl Assert_Failed
      else let k = (if m_current it < m_zeroStart it then m_current it else m_current it - zero_size it)
           in bind_res (poke k data it) (\<lambda>it. Inr (advance 1 it)))"

definition WriteU8_len :: "u8 \<Rightarrow> nat \<Rightarrow> write_op" where
  "WriteU8_len data len it =
     (if \<not> CheckNoZero (m_current it) (m_current it + len) it then Inl Assert_Failed
      else let k = (if m_current it \<le> m_zeroStart it then m_current it else m_current it - zero_size it)
           in bind_res (memcpy k (replicate len data) it) (\<lambda>it. Inr (advance len it)))"

definition byte :: "nat \<Rightarrow> 'a::len word \<Rightarrow> u8" where
  "byte n w = ucast (drop_bit n w AND 0xff)"

definition WriteHtonU16 :: "u16 \<Rightarrow> write_op" where
  "WriteHtonU16 data it =
     (if \<not> CheckNoZero (m_current it) (m_current it + 2) it then Inl Assert_Failed
      else let k = (if m_current it + 2 \<le> m_zeroStart it then m_current it else m_current it - zero_size it)
           in bind_res (memcpy k [byte 8 data, byte 0 data] it) (\<lambda>it. Inr (advance 2 it)))"

definition WriteHtonU32 :: "u32 \<Rightarrow> write_op" where
  "WriteHtonU32 data it =
     (if \<not> CheckNoZero (m_current it) (m_current it + 4) it then Inl Assert_Failed
      else let k = (if m_current it + 4 \<le> m_zeroStart it then m_current it else m_current it - zero_size it)
           in bind_res (memcpy k [byte 24 data, byte 16 data, byte 8 data, byte 0 data] it)
                (\<lambda>it. Inr (advance 4 it)))"

definition WriteU16 :: "u16 \<Rightarrow> write_op" where
  "WriteU16 data = do_all [WriteU8 (byte 0 data), WriteU8 (byte 0 (drop_bit 8 data))]"

definition WriteU32 :: "u32 \<Rightarrow> write_op" where
  "WriteU32 data = do_all (map (\<lambda>n. WriteU8 (byte 0 (drop_bit (8 * n) data))) [0, 1, 2, 3])"

definition WriteU64 :: "u64 \<Rightarrow> write_op" where
  "WriteU64 data = do_all (map (\<lambda>n. WriteU8 (byte 0 (drop_bit (8 * n) data))) [0, 1, 2, 3, 4, 5, 6, 7])"

definition WriteHtolsbU16 :: "u16 \<Rightarrow> write_op" where
  "WriteHtolsbU16 data = do_all [WriteU8 (byte 0 data), WriteU8 (byte 8 data)]"

definition WriteHtolsbU32 :: "u32 \<Rightarrow> write_op" where
  "WriteHtolsbU32 data = do_all (map (\<lambda>n. WriteU8 (byte n data)) [0, 8, 16, 24])"

definition WriteHtolsbU64 :: "u64 \<Rightarrow> write_op" where
  "WriteHtolsbU64 data = do_all (map (\<lambda>n. WriteU8 (byte n data)) [0, 8, 16, 24, 32, 40, 48, 56])"

definition WriteHtonU64 :: "u64 \<Rightarrow> write_op" where
  "WriteHtonU64 data = do_all (map (\<lambda>n. WriteU8 (byte n data)) [56, 48, 40, 32, 24, 16, 8, 0])"

text \<open>The range passed to the check of the block write is \<^verbatim>\<open>(m_current, size)\<close>, as in the source.\<close>

definition Write_block :: "u8 list \<Rightarrow> write_op" where
  "Write_block buffer it =
     (let size = length buffer in
      if \<not> CheckNoZero (m_current it) size it then Inl Assert_Failed
      else let k = (if m_current it \<le> m_zeroStart it then m_current it else m_current it - zero_size it)
           in bind_res (memcpy k buffer it) (\<lambda>it. Inr (advance size it)))"

section \<open>Reading\<close>

definition PeekU8 :: "iterator \<Rightarrow> u8 res" where
  "PeekU8 it =
     (if \<not> (m_current it \<ge> m_dataStart it \<and> m_current it < m_dataEnd it) then Inl Assert_Failed
      else if m_current it < m_zeroStart it then load (m_current it) it
      else if m_current it < m_zeroEnd it then Inr 0
      else load (m_current it - zero_size it) it)"

definition ReadU8 :: "u8 read_op" where
  "ReadU8 it = bind_res (PeekU8 it) (\<lambda>ret. Inr (ret, advance 1 it))"

fun Read_block :: "nat \<Rightarrow> u8 list read_op" where
  "Read_block 0 it = Inr ([], it)"
| "Read_block (Suc n) it = bind_res (ReadU8 it) (\<lambda>(b, it). bind_res (Read_block n it) (\<lambda>(bs, it). Inr (b # bs, it)))"

text \<open>\<^verbatim>\<open>data <<= 8; data |= b\<close> over the bytes, most significant first.\<close>

definition join_be :: "u8 list \<Rightarrow> 'a::len word" where
  "join_be bs = foldl (\<lambda>w b. push_bit 8 w OR ucast b) 0 bs"

definition ReadU16 :: "u16 read_op" where
  "ReadU16 it = bind_res (Read_block 2 it) (\<lambda>(bs, it). Inr (join_be (rev bs), it))"

definition ReadU32 :: "u32 read_op" where
  "ReadU32 it = bind_res (Read_block 4 it) (\<lambda>(bs, it). Inr (join_be (rev bs), it))"

definition ReadU64 :: "u64 read_op" where
  "ReadU64 it = bind_res (Read_block 8 it) (\<lambda>(bs, it). Inr (join_be (rev bs), it))"

definition SlowReadNtohU16 :: "u16 read_op" where
  "SlowReadNtohU16 it = bind_res (Read_block 2 it) (\<lambda>(bs, it). Inr (join_be bs, it))"

definition SlowReadNtohU32 :: "u32 read_op" where
  "SlowReadNtohU32 it = bind_res (Read_block 4 it) (\<lambda>(bs, it). Inr (join_be bs, it))"

definition ReadNtohU64 :: "u64 read_op" where
  "ReadNtohU64 it = bind_res (Read_block 8 it) (\<lambda>(bs, it). Inr (join_be bs, it))"

fun load_list :: "nat \<Rightarrow> nat \<Rightarrow> iterator \<Rightarrow> u8 list res" where
  "load_list k 0 it = Inr []"
| "load_list k (Suc n) it = bind_res (load k it) (\<lambda>b. bind_res (load_list (k + 1) n it) (\<lambda>bs. Inr (b # bs)))"

definition ReadNtohU16 :: "u16 read_op" where
  "ReadNtohU16 it =
     (if m_current it + 2 \<le> m_zeroStart it
      then bind_res (load_list (m_current it) 2 it) (\<lambda>bs. Inr (join_be bs, advance 2 it))
      else if m_current it \<ge> m_zeroEnd it
      then bind_res (load_list (m_current it - zero_size it) 2 it) (\<lambda>bs. Inr (join_be bs, advance 2 it))
      else SlowReadNtohU16 it)"

definition ReadNtohU32 :: "u32 read_op" where
  "ReadNtohU32 it =
     (if m_current it + 4 \<le> m_zeroStart it
      then bind_res (load_list (m_current it) 4 it) (\<lambda>bs. Inr (join_be bs, advance 4 it))
      else if m_current it \<ge> m_zeroEnd it
      then bind_res (load_list (m_current it - zero_size it) 4 it) (\<lambda>bs. Inr (join_be bs, advance 4 it))
      else SlowReadNtohU32 it)"

definition ReadLsbtohU16 :: "u16 read_op" where
  "ReadLsbtohU16 it = bind_res (Read_block 2 it) (\<lambda>(bs, it). Inr (join_be (rev bs), it))"

definition ReadLsbtohU32 :: "u32 read_op" where
  "ReadLsbtohU32 it = bind_res (Read_block 4 it) (\<lambda>(bs, it). Inr (join_be (rev bs), it))"

definition ReadLsbtohU64 :: "u64 read_op" where
  "ReadLsbtohU64 it = bind_res (Read_block 8 it) (\<lambda>(bs, it). Inr (join_be (rev bs), it))"

section \<open>The internet checksum\<close>

fun sum_words :: "nat \<Rightarrow> u32 \<Rightarrow> u32 read_op" where
  "sum_words 0 acc it = Inr (acc, it)"
| "sum_words (Suc n) acc it = bind_res (ReadU16 it) (\<lambda>(w, it). sum_words n (acc + ucast w) it)"

lemma and_ffff:
  fixes w :: "'a::len word"
  shows "w AND 0xffff = take_bit 16 w" "w AND 0xff = take_bit 8 w"
  by (simp_all add: take_bit_eq_mask mask_eq_exp_minus_1)

lemma unat_high: "unat (drop_bit 16 (acc :: u32)) = unat acc div 65536"
  by (simp add: drop_bit_eq_div unat_div)

lemma fold_step:
  fixes acc :: u32
  shows "unat ((acc AND 0xffff) + drop_bit 16 acc) = unat acc mod 65536 + unat acc div 65536"
proof -
  have "unat (acc AND 0xffff) = unat acc mod 65536"
    by (simp add: and_ffff take_bit_eq_mod unat_mod)
  moreover have "unat acc < 2 ^ 32" using unsigned_less [of acc] by simp
  then have "unat acc mod 65536 + unat acc div 65536 < 2 ^ 32" by simp
  ultimately show ?thesis by (simp add: unat_add_lt unat_high)
qed

lemma high_zero_iff: "drop_bit 16 (acc :: u32) = 0 \<longleftrightarrow> unat acc < 65536"
  by (simp add: unat_eq_zero [symmetric] unat_high div_eq_0_iff)

function fold_sum :: "u32 \<Rightarrow> u32" where
  "fold_sum acc = (if drop_bit 16 acc \<noteq> 0 then fold_sum ((acc AND 0xffff) + drop_bit 16 acc) else acc)"
  by auto
termination
proof (relation "measure unat")
  fix acc :: u32
  assume "drop_bit 16 acc \<noteq> 0"
  then have "unat acc div 65536 \<noteq> 0" by (simp add: high_zero_iff)
  then have "unat acc mod 65536 + unat acc div 65536 < unat acc"
    using div_mult_mod_eq [of "unat acc" 65536] by linarith
  then show "((acc AND 0xffff) + drop_bit 16 acc, acc) \<in> measure unat"
    by (simp add: fold_step)
qed simp

declare fold_sum.simps [simp del]

definition CalculateIpChecksum :: "nat \<Rightarrow> u32 \<Rightarrow> u16 read_op" where
  "CalculateIpChecksum len initialChecksum it =
     bind_res (sum_words (len div 2) initialChecksum it) (\<lambda>(acc, it).
     bind_res (if odd len then bind_res (ReadU8 it) (\<lambda>(b, it). Inr (acc + ucast b, it)) else Inr (acc, it))
       (\<lambda>(acc, it). Inr (ucast (NOT (fold_sum acc)), it)))"

section \<open>Contracts\<close>

text \<open>The virtual contents: the byte at an offset, with the zero area in place.\<close>

definition view :: "iterator \<Rightarrow> nat \<Rightarrow> u8" where
  "view it i = (if i < m_zeroStart it then it_data it ! i
                else if i < m_zeroEnd it then 0 else it_data it ! (i - zero_size it))"

definition it_ok :: "iterator \<Rightarrow> bool" where
  "it_ok it \<longleftrightarrow> m_dataStart it \<le> m_zeroStart it \<and> m_zeroStart it \<le> m_zeroEnd it \<and> m_zeroEnd it \<le> m_dataEnd it \<and>
     m_dataEnd it - zero_size it \<le> length (it_data it) \<and>
     m_dataStart it \<le> m_current it \<and> m_current it \<le> m_dataEnd it"

definition room :: "nat \<Rightarrow> iterator \<Rightarrow> bool" where
  "room n it \<longleftrightarrow> it_ok it \<and> CheckNoZero (m_current it) (m_current it + n) it"

definition slot :: "iterator \<Rightarrow> nat" where
  "slot it = (if m_current it < m_zeroStart it then m_current it else m_current it - zero_size it)"

fun put_bytes :: "u8 list \<Rightarrow> iterator \<Rightarrow> iterator" where
  "put_bytes [] it = it"
| "put_bytes (b # bs) it = put_bytes bs (advance 1 (it\<lparr>it_data := (it_data it)[slot it := b]\<rparr>))"

definition get_bytes :: "nat \<Rightarrow> iterator \<Rightarrow> u8 list" where
  "get_bytes n it = map (\<lambda>j. view it (m_current it + j)) [0..<n]"

definition writes :: "write_op \<Rightarrow> u8 list \<Rightarrow> bool" where
  "writes f bs \<longleftrightarrow> (\<forall>it. room (length bs) it \<longrightarrow> f it = Inr (put_bytes bs it))"

definition reads :: "'a read_op \<Rightarrow> nat \<Rightarrow> (u8 list \<Rightarrow> 'a) \<Rightarrow> bool" where
  "reads f n g \<longleftrightarrow> (\<forall>it. it_ok it \<and> m_current it + n \<le> m_dataEnd it \<longrightarrow> f it = Inr (g (get_bytes n it), advance n it))"

lemma put_bytes_append: "put_bytes (as @ bs) it = put_bytes bs (put_bytes as it)"
  by (induction as arbitrary: it) simp_all

lemma advance_simps [simp]:
  "it_data (advance n it) = it_data it" "m_zeroStart (advance n it) = m_zeroStart it"
  "m_zeroEnd (advance n it) = m_zeroEnd it" "m_dataStart (advance n it) = m_dataStart it"
  "m_dataEnd (advance n it) = m_dataEnd it" "m_current (advance n it) = m_current it + n"
  "advance 0 it = it" "advance m (advance n it) = advance (n + m) it"
  by (simp_all add: advance_def add.assoc)

lemma put_bytes_fields [simp]:
  "m_zeroStart (put_bytes bs it) = m_zeroStart it" "m_zeroEnd (put_bytes bs it) = m_zeroEnd it"
  "m_dataStart (put_bytes bs it) = m_dataStart it" "m_dataEnd (put_bytes bs it) = m_dataEnd it"
  "m_current (put_bytes bs it) = m_current it + length bs"
  "length (it_data (put_bytes bs it)) = length (it_data it)"
  by (induction bs arbitrary: it) simp_all

lemma room_append:
  assumes "room (m + n) it"
  shows "room m it" "length bs = m \<Longrightarrow> room n (put_bytes bs it)"
  using assms by (auto simp: room_def it_ok_def CheckNoZero_def)

lemma slot_bound:
  assumes "room n it" "0 < n"
  shows "slot it < length (it_data it)"
  using assms by (auto simp: room_def it_ok_def CheckNoZero_def slot_def)

lemma poke_advance: "poke k b (advance n it) = bind_res (poke k b it) (\<lambda>it. Inr (advance n it))"
  by (cases it) (simp add: poke_def advance_def)

text \<open>A run of bytes that avoids the zero area is contiguous in \<^verbatim>\<open>m_data\<close>.\<close>

lemma memcpy_put:
  assumes "room (length bs) it" "k = slot it \<or> bs = []"
  shows "bind_res (memcpy k bs it) (\<lambda>it. Inr (advance (length bs) it)) = Inr (put_bytes bs it)"
  using assms
proof (induction bs arbitrary: it k)
  case (Cons b bs)
  let ?it = "it\<lparr>it_data := (it_data it)[slot it := b]\<rparr>"
  have k: "k = slot it" "slot it < length (it_data it)" using Cons.prems slot_bound [of "length (b # bs)" it] by auto
  have r: "room (length bs) (advance 1 ?it)"
    using room_append(2) [of 1 "length bs" it "[b]"] Cons.prems(1) by simp
  have s: "slot it + 1 = slot (advance 1 ?it) \<or> bs = []"
    using Cons.prems(1) by (cases bs) (auto simp: room_def it_ok_def CheckNoZero_def slot_def)
  have adv: "memcpy j cs (advance n x) = bind_res (memcpy j cs x) (\<lambda>y. Inr (advance n y))" for j cs n x
    by (induction cs arbitrary: j x) (simp_all add: poke_advance bind_res_assoc)
  have "bind_res (memcpy (slot it + 1) bs (advance 1 ?it)) (\<lambda>it. Inr (advance (length bs) it)) =
      Inr (put_bytes bs (advance 1 ?it))"
    by (rule Cons.IH [OF r s])
  then show ?case using k by (simp add: poke_def adv bind_res_assoc)
qed simp

lemma writes_memcpy:
  assumes "\<And>it. room (length bs) it \<Longrightarrow> f it = bind_res (memcpy (slot it) bs it) (\<lambda>it. Inr (advance (length bs) it))"
  shows "writes f bs"
  using assms memcpy_put by (simp add: writes_def)

lemma writes_U8 [write_intros]: "writes (WriteU8 b) [b]"
  by (rule writes_memcpy) (auto simp: WriteU8_def Let_def slot_def room_def it_ok_def CheckNoZero_def Check_def
      bind_res_assoc)

lemma writes_HtonU16 [write_intros]: "writes (WriteHtonU16 w) [byte 8 w, byte 0 w]"
  by (rule writes_memcpy)
    (auto simp: WriteHtonU16_def Let_def slot_def room_def it_ok_def CheckNoZero_def numeral_2_eq_2)

lemma writes_HtonU32 [write_intros]: "writes (WriteHtonU32 w) [byte 24 w, byte 16 w, byte 8 w, byte 0 w]"
  by (rule writes_memcpy)
    (auto simp: WriteHtonU32_def Let_def slot_def room_def it_ok_def CheckNoZero_def numeral_eq_Suc)

lemma writes_do_all:
  assumes "list_all2 writes fs bss"
  shows "writes (do_all fs) (concat bss)"
  using assms
proof (induction rule: list_all2_induct)
  case (Cons f fs bs bss)
  show ?case
    unfolding writes_def
  proof (intro allI impI)
    fix it
    assume "room (length (concat (bs # bss))) it"
    then have r: "room (length bs + length (concat bss)) it" by simp
    have "f it = Inr (put_bytes bs it)" using room_append(1) [OF r] Cons by (simp add: writes_def)
    moreover have "do_all fs (put_bytes bs it) = Inr (put_bytes (concat bss) (put_bytes bs it))"
      using room_append(2) [OF r] Cons by (simp add: writes_def)
    ultimately show "do_all (f # fs) it = Inr (put_bytes (concat (bs # bss)) it)"
      by (simp add: put_bytes_append)
  qed
qed (simp add: writes_def)

lemma writesD: "writes f bs \<Longrightarrow> room (length bs) it \<Longrightarrow> f it = Inr (put_bytes bs it)"
  by (simp add: writes_def)

lemma writes_seq: "list_all2 writes fs bss \<Longrightarrow> bs = concat bss \<Longrightarrow> writes (do_all fs) bs"
  using writes_do_all by blast

lemma byte_0 [simp]: "byte n 0 = 0"
  by (simp add: byte_def)

lemma byte_drop: "byte m (drop_bit n w) = byte (n + m) w"
  by (simp add: byte_def add.commute)

lemma writes_U16 [write_intros]: "writes (WriteU16 w) [byte 0 w, byte 8 w]"
  unfolding WriteU16_def by (rule writes_seq [of _ "[[byte 0 w], [byte 8 w]]"]) (auto simp: byte_drop writes_U8)

lemma writes_U32 [write_intros]: "writes (WriteU32 w) [byte 0 w, byte 8 w, byte 16 w, byte 24 w]"
  unfolding WriteU32_def
  by (rule writes_seq [of _ "map (\<lambda>n. [byte n w]) [0, 8, 16, 24]"]) (auto simp: byte_drop writes_U8)

lemma writes_HtonU64 [write_intros]:
  "writes (WriteHtonU64 w) (map (\<lambda>n. byte n w) [56, 48, 40, 32, 24, 16, 8, 0])"
  unfolding WriteHtonU64_def
  by (rule writes_seq [of _ "map (\<lambda>n. [byte n w]) [56, 48, 40, 32, 24, 16, 8, 0]"]) (auto simp: writes_U8)

section \<open>Reading back\<close>

lemma view_position [simp]:
  "view (advance n it) = view it"
  "view (it\<lparr>m_current := c\<rparr>) = view it"
  by (auto simp: view_def fun_eq_iff)

lemma get_bytes_simps:
  "get_bytes 0 it = []"
  "get_bytes (Suc n) it = view it (m_current it) # get_bytes n (advance 1 it)"
  by (simp_all add: get_bytes_def upt_conv_Cons map_Suc_upt [symmetric] view_def del: upt_Suc)

lemma reads_U8 [read_intros]: "reads ReadU8 1 hd"
  by (auto simp: reads_def ReadU8_def PeekU8_def load_def get_bytes_def view_def it_ok_def)

lemma Read_block_ok:
  assumes "it_ok it" "m_current it + n \<le> m_dataEnd it"
  shows "Read_block n it = Inr (get_bytes n it, advance n it)"
  using assms
proof (induction n arbitrary: it)
  case (Suc n)
  have "ReadU8 it = Inr (view it (m_current it), advance 1 it)"
    using reads_U8 Suc.prems by (auto simp: reads_def get_bytes_def)
  moreover have "it_ok (advance 1 it)" using Suc.prems by (auto simp: it_ok_def)
  ultimately show ?case using Suc.IH [of "advance 1 it"] Suc.prems by (simp add: get_bytes_simps)
qed (simp add: get_bytes_simps)

lemma load_list_ok:
  assumes "k + n \<le> length (it_data it)"
  shows "load_list k n it = Inr (map (\<lambda>j. it_data it ! (k + j)) [0..<n])"
  using assms
proof (induction n arbitrary: k)
  case (Suc n)
  then show ?case
    by (simp add: load_def upt_conv_Cons map_Suc_upt [symmetric] del: upt_Suc)
qed simp

lemma reads_block:
  assumes "\<And>it. f it = bind_res (Read_block n it) (\<lambda>(bs, it). Inr (g bs, it))"
  shows "reads f n g"
  by (auto simp: reads_def assms Read_block_ok)

lemma reads_words [read_intros]:
  "reads ReadU16 2 (\<lambda>bs. join_be (rev bs))"
  "reads ReadU32 4 (\<lambda>bs. join_be (rev bs))"
  "reads SlowReadNtohU16 2 join_be"
  "reads SlowReadNtohU32 4 join_be"
  "reads ReadNtohU64 8 join_be"
  by (rule reads_block; simp add: ReadU16_def ReadU32_def SlowReadNtohU16_def SlowReadNtohU32_def ReadNtohU64_def)+

lemma load_list_get:
  assumes "it_ok it" "m_current it + n \<le> m_dataEnd it"
  shows "m_current it + n \<le> m_zeroStart it \<Longrightarrow> load_list (m_current it) n it = Inr (get_bytes n it)"
    "m_current it \<ge> m_zeroEnd it \<Longrightarrow> load_list (m_current it - zero_size it) n it = Inr (get_bytes n it)"
proof -
  assume "m_current it + n \<le> m_zeroStart it"
  then show "load_list (m_current it) n it = Inr (get_bytes n it)"
    using assms by (subst load_list_ok) (auto simp: it_ok_def get_bytes_def view_def)
next
  assume "m_current it \<ge> m_zeroEnd it"
  then show "load_list (m_current it - zero_size it) n it = Inr (get_bytes n it)"
    using assms by (subst load_list_ok) (auto simp: it_ok_def get_bytes_def view_def intro!: arg_cong2 [of _ _ _ _ nth])
qed

lemma reads_NtohU16 [read_intros]: "reads ReadNtohU16 2 join_be"
  using reads_words(3) load_list_get [of _ 2] by (auto simp: reads_def ReadNtohU16_def)

lemma reads_NtohU32 [read_intros]: "reads ReadNtohU32 4 join_be"
  using reads_words(4) load_list_get [of _ 4] by (auto simp: reads_def ReadNtohU32_def)

lemma view_put_one:
  assumes "room 1 it" "m_dataStart it \<le> j" "j < m_dataEnd it"
  shows "view (it\<lparr>it_data := (it_data it)[slot it := b]\<rparr>) j = (if j = m_current it then b else view it j)"
  using assms slot_bound [of 1 it]
  by (auto simp: view_def slot_def room_def it_ok_def CheckNoZero_def nth_list_update)

lemma view_put_bytes:
  assumes "room (length bs) it" "m_dataStart it \<le> j" "j < m_dataEnd it"
  shows "view (put_bytes bs it) j =
    (if m_current it \<le> j \<and> j < m_current it + length bs then bs ! (j - m_current it) else view it j)"
  using assms
proof (induction bs arbitrary: it)
  case (Cons b bs)
  let ?it = "advance 1 (it\<lparr>it_data := (it_data it)[slot it := b]\<rparr>)"
  have r: "room (1 + length bs) it" using Cons.prems by simp
  have "view (put_bytes bs ?it) j =
      (if m_current ?it \<le> j \<and> j < m_current ?it + length bs then bs ! (j - m_current ?it) else view ?it j)"
    using room_append(2) [OF r, of "[b]"] Cons.prems by (intro Cons.IH) simp_all
  moreover have "view ?it j = (if j = m_current it then b else view it j)"
    using view_put_one [of it j b] room_append(1) [OF r] Cons.prems by simp
  ultimately show ?case
    by (auto simp: nth_Cons')
qed auto

lemma view_put_outside:
  assumes "room (length bs) it" "m_dataStart it \<le> j" "j < m_dataEnd it" "j < m_current it \<or> m_current it + length bs \<le> j"
  shows "view (put_bytes bs it) j = view it j"
  using view_put_bytes [OF assms(1-3)] assms(4) by auto

text \<open>What a write leaves behind: the bytes written, and everything else as before.\<close>

definition rewind :: "iterator \<Rightarrow> iterator \<Rightarrow> iterator" where
  "rewind start it = it\<lparr>m_current := m_current start\<rparr>"

lemma get_put_bytes:
  assumes "room (length bs) it"
  shows "get_bytes (length bs) (rewind it (put_bytes bs it)) = bs"
proof (rule nth_equalityI)
  fix j
  assume "j < length (get_bytes (length bs) (rewind it (put_bytes bs it)))"
  then have j: "j < length bs" by (simp add: get_bytes_def)
  have "view (put_bytes bs it) (m_current it + j) = bs ! j"
    using view_put_bytes [OF assms, of "m_current it + j"] assms j by (simp add: room_def it_ok_def CheckNoZero_def)
  then show "get_bytes (length bs) (rewind it (put_bytes bs it)) ! j = bs ! j"
    using j by (simp add: get_bytes_def rewind_def)
qed (simp add: get_bytes_def)

lemma it_ok_rewind: "room (length bs) it \<Longrightarrow> it_ok (rewind it (put_bytes bs it))"
  by (auto simp: room_def it_ok_def rewind_def)

lemma get_bytes_part: "m + n \<le> k \<Longrightarrow> get_bytes n (advance m it) = take n (drop m (get_bytes k it))"
  by (rule nth_equalityI) (auto simp: get_bytes_def view_def add.assoc)

section \<open>Bytes of a word\<close>

lemma bit_byte: "bit (byte k w) n \<longleftrightarrow> n < 8 \<and> bit w (k + n)"
  by (auto simp: byte_def bit_simps and_ffff)

lemma join_be_snoc: "join_be (bs @ [b]) = push_bit 8 (join_be bs) OR ucast b"
  by (simp add: join_be_def)

lemma join_be_bytes:
  "join_be (map (\<lambda>n. byte (8 * n) w) (rev [0..<k])) = take_bit (8 * k) (w :: 'a::len word)"
proof (induction k arbitrary: w)
  case (Suc k)
  have "rev [0..<Suc k] = map Suc (rev [0..<k]) @ [0]"
    by (simp add: rev_map [symmetric] map_Suc_upt upt_conv_Cons del: upt_Suc)
  then have "map (\<lambda>n. byte (8 * n) w) (rev [0..<Suc k]) =
      map (\<lambda>n. byte (8 * n) (drop_bit 8 w)) (rev [0..<k]) @ [byte 0 w]"
    by (simp add: byte_drop)
  then have "join_be (map (\<lambda>n. byte (8 * n) w) (rev [0..<Suc k])) =
      push_bit 8 (take_bit (8 * k) (drop_bit 8 w)) OR (ucast (byte 0 w) :: 'a word)"
    by (simp only: join_be_snoc Suc.IH)
  also have "\<dots> = take_bit (8 * Suc k) w"
    by (rule bit_word_eqI) (auto simp: bit_simps bit_byte)
  finally show ?case .
qed (simp add: join_be_def)

lemma join_be_words [simp]:
  "join_be [byte 8 a, byte 0 a] = (a :: u16)"
  "join_be [byte 24 b, byte 16 b, byte 8 b, byte 0 b] = (b :: u32)"
  "join_be [byte 56 c, byte 48 c, byte 40 c, byte 32 c, byte 24 c, byte 16 c, byte 8 c, byte 0 c] = (c :: u64)"
  using join_be_bytes [of a 2] join_be_bytes [of b 4] join_be_bytes [of c 8]
  by (simp_all add: upt_rec take_bit_word_eq_self)

section \<open>The checksum as a number\<close>

text \<open>The sum of the little-endian 16-bit words, and its one's complement folding to 16 bits.\<close>

fun le_sum :: "u8 list \<Rightarrow> nat" where
  "le_sum [] = 0"
| "le_sum [a] = unat a"
| "le_sum (a # b # bs) = unat a + 256 * unat b + le_sum bs"

definition fold16 :: "nat \<Rightarrow> nat" where
  "fold16 n = (if n = 0 then 0 else (n - 1) mod 65535 + 1)"

lemma fold16_le: "fold16 n \<le> 65535"
  by (simp add: fold16_def Suc_le_eq)

lemma fold16_small: "n < 65536 \<Longrightarrow> fold16 n = n"
  by (cases n) (auto simp: fold16_def)

lemma fold16_step: "fold16 (n mod 65536 + n div 65536) = fold16 n"
proof (cases "n = 0")
  case False
  let ?m = "n mod 65536 + n div 65536"
  have d: "n div 65536 * 65536 + n mod 65536 = n" by (rule div_mult_mod_eq)
  then have n: "n = ?m + 65535 * (n div 65536)" by linarith
  moreover have "?m \<noteq> 0" using False d by auto
  ultimately have "n - 1 = (?m - 1) + 65535 * (n div 65536)" by linarith
  then have "(n - 1) mod 65535 = (?m - 1) mod 65535" by (metis mod_mult_self2)
  then show ?thesis using False \<open>?m \<noteq> 0\<close> by (simp add: fold16_def)
qed (simp add: fold16_def)

lemma unat_fold_sum: "unat (fold_sum s) = fold16 (unat s)"
proof (induction s rule: fold_sum.induct)
  case (1 s)
  then show ?case
    by (subst fold_sum.simps) (auto simp: fold_step fold16_step high_zero_iff fold16_small)
qed

lemma checksum_completes:
  assumes "c = 65535 - fold16 n"
  shows "fold16 (n + c) = 65535"
proof (cases "n = 0")
  case False
  let ?k = "(n - 1) div 65535"
  have "n - 1 = 65535 * ?k + (n - 1) mod 65535" by simp
  moreover have "(n - 1) mod 65535 < 65535" by simp
  moreover have "c = 65535 - ((n - 1) mod 65535 + 1)" using assms False by (simp add: fold16_def)
  ultimately have "n + c - 1 = 65534 + 65535 * ?k"
    using False by linarith
  then have "(n + c - 1) mod 65535 = 65534" by (simp only: mod_mult_self2) simp
  then show ?thesis using False by (simp add: fold16_def)
qed (use assms in \<open>simp add: fold16_def\<close>)

lemma unat_u8: "unat (a :: u8) < 256"
proof -
  have "unat a < 2 ^ LENGTH(8)" by (rule unsigned_less)
  then show ?thesis by simp
qed

lemma unat_join_le: "unat (join_be [b, a] :: u16) = unat a + 256 * unat b"
proof -
  have "(join_be [b, a] :: u16) = push_bit 8 (ucast b) OR ucast a" by (simp add: join_be_def)
  also have "\<dots> = push_bit 8 (ucast b) + ucast a"
    by (rule disjunctive_add [symmetric]) (auto simp: bit_simps dest: bit_imp_le_length)
  also have "\<dots> = of_nat (unat a + 256 * unat b)"
    by (simp add: push_bit_eq_mult)
  finally have eq: "(join_be [b, a] :: u16) = of_nat (unat a + 256 * unat b)" .
  have "unat (of_nat n :: u16) = n" if "n < 65536" for n using that by (simp add: unat_of_nat)
  then show ?thesis unfolding eq using unat_u8 [of a] unat_u8 [of b] by (simp only:)
qed

lemma le_sum_bound: "le_sum bs \<le> 65535 * ((length bs + 1) div 2)"
proof (induction bs rule: le_sum.induct)
  case (2 a)
  then show ?case using unat_u8 [of a] by simp
next
  case (3 a b bs)
  show ?case using 3 unat_u8 [of a] unat_u8 [of b] by simp
qed simp

lemma sum_words_ok:
  assumes "it_ok it" "m_current it + 2 * n \<le> m_dataEnd it" "unat acc + le_sum (get_bytes (2 * n) it) < 2 ^ 32"
  shows "\<exists>s. sum_words n acc it = Inr (s, advance (2 * n) it) \<and> unat s = unat acc + le_sum (get_bytes (2 * n) it)"
  using assms
proof (induction n arbitrary: acc it)
  case (Suc n)
  let ?a = "view it (m_current it)" and ?b = "view it (Suc (m_current it))"
  have g: "get_bytes (2 * Suc n) it = ?a # ?b # get_bytes (2 * n) (advance 2 it)"
    by (simp add: get_bytes_simps numeral_2_eq_2)
  have r: "ReadU16 it = Inr (join_be [?b, ?a], advance 2 it)"
    using reads_words(1) Suc.prems by (simp add: reads_def get_bytes_simps numeral_2_eq_2)
  let ?w = "ucast (join_be [?b, ?a] :: u16) :: u32"
  have "unat ?a + 256 * unat ?b < 2 ^ 32" using unat_u8 [of ?a] unat_u8 [of ?b] by simp
  then have w: "unat ?w = unat ?a + 256 * unat ?b" by (simp add: unat_join_le unsigned_ucast_eq take_bit_nat_eq_self)
  have s: "unat (acc + ?w) = unat acc + unat ?a + 256 * unat ?b"
    using Suc.prems(3) [unfolded g] w by (simp add: unat_add_lt)
  have "it_ok (advance 2 it)" using Suc.prems by (auto simp: it_ok_def)
  moreover have "unat (acc + ?w) + le_sum (get_bytes (2 * n) (advance 2 it)) < 2 ^ 32"
    using Suc.prems(3) [unfolded g] s by simp
  ultimately show ?case
    unfolding g using Suc.IH [of "advance 2 it" "acc + ?w"] Suc.prems(2) r s by (auto simp: add.assoc)
qed (simp add: get_bytes_simps)

lemma unat_not_low:
  assumes "unat (w :: u32) \<le> 65535"
  shows "unat (ucast (NOT w) :: u16) = 65535 - unat w"
proof -
  have "(ucast (NOT w) :: u16) = NOT (ucast w)" by (rule bit_word_eqI) (auto simp: bit_simps)
  moreover have "unat (ucast w :: u16) = unat w"
    using assms by (simp add: unsigned_ucast_eq take_bit_nat_eq_self)
  moreover have "NOT x = - 1 - x" for x :: u16 by (simp add: not_eq_complement)
  then have "unat (NOT x) = 65535 - unat x" for x :: u16
    by (simp add: unat_sub unsigned_minus_1_eq_mask mask_eq_exp_minus_1)
  ultimately show ?thesis by simp
qed

text \<open>The checksum of an even number of bytes is the complement of the folded sum.\<close>

lemma CalculateIpChecksum_ok:
  assumes "it_ok it" "m_current it + 2 * n \<le> m_dataEnd it" "unat init + 65535 * n < 2 ^ 32"
  shows "\<exists>c. CalculateIpChecksum (2 * n) init it = Inr (c, advance (2 * n) it) \<and>
    unat c = 65535 - fold16 (unat init + le_sum (get_bytes (2 * n) it))"
proof -
  have "le_sum (get_bytes (2 * n) it) \<le> 65535 * n"
    using le_sum_bound [of "get_bytes (2 * n) it"] by (simp add: get_bytes_def)
  then obtain s where s: "sum_words n init it = Inr (s, advance (2 * n) it)"
    "unat s = unat init + le_sum (get_bytes (2 * n) it)"
    using sum_words_ok [OF assms(1,2), of init] assms(3) by auto
  have "unat (ucast (NOT (fold_sum s)) :: u16) = 65535 - fold16 (unat s)"
    using unat_not_low [of "fold_sum s"] fold16_le by (simp add: unat_fold_sum)
  then show ?thesis using s by (simp add: CalculateIpChecksum_def)
qed

section \<open>Results\<close>

text \<open>Reading \<open>n\<close> bytes at distance \<open>m\<close> from a place where the bytes \<open>xs\<close> are.\<close>

definition holds :: "iterator \<Rightarrow> u8 list \<Rightarrow> bool" where
  "holds it xs \<longleftrightarrow> it_ok it \<and> m_current it + length xs \<le> m_dataEnd it \<and> get_bytes (length xs) it = xs"

lemma holds_put: "room (length bs) it \<Longrightarrow> holds (rewind it (put_bytes bs it)) bs"
  using it_ok_rewind [of bs it] get_put_bytes [of bs it]
  by (simp add: holds_def rewind_def room_def CheckNoZero_def)

lemma reads_at:
  assumes "reads f n g" "holds it xs" "m + n \<le> length xs"
  shows "f (advance m it) = Inr (g (take n (drop m xs)), advance (m + n) it)"
proof -
  have "it_ok (advance m it)" using assms by (auto simp: it_ok_def holds_def)
  then show ?thesis
    using assms get_bytes_part [of m n "length xs" it] by (auto simp: reads_def holds_def)
qed

lemma holds_nth: "holds it xs \<Longrightarrow> j < length xs \<Longrightarrow> view it (m_current it + j) = xs ! j"
proof -
  assume "holds it xs" "j < length xs"
  then have "get_bytes (length xs) it ! j = xs ! j" by (simp add: holds_def)
  then show ?thesis using \<open>j < length xs\<close> by (simp add: get_bytes_def)
qed

lemma holdsI:
  assumes "it_ok it" "m_current it + length xs \<le> m_dataEnd it"
    "\<And>j. j < length xs \<Longrightarrow> view it (m_current it + j) = xs ! j"
  shows "holds it xs"
  using assms by (auto simp: holds_def get_bytes_def intro: nth_equalityI)

lemma room_within:
  assumes "room n it" "m + k \<le> n"
  shows "room k (advance m it)"
  using assms by (auto simp: room_def it_ok_def CheckNoZero_def)

lemma holds_overwrite:
  assumes "holds it xs" "room (length xs) it" "m + length bs \<le> length xs"
  shows "holds (rewind it (put_bytes bs (advance m it))) (take m xs @ bs @ drop (m + length bs) xs)"
proof (rule holdsI)
  let ?i = "put_bytes bs (advance m it)"
  have r: "room (length bs) (advance m it)" using room_within [OF assms(2,3)] .
  show "it_ok (rewind it ?i)" "m_current (rewind it ?i) + length (take m xs @ bs @ drop (m + length bs) xs) \<le> m_dataEnd (rewind it ?i)"
    using assms by (auto simp: holds_def it_ok_def rewind_def)
  fix j
  assume "j < length (take m xs @ bs @ drop (m + length bs) xs)"
  then have j: "j < length xs" using assms(3) by simp
  have "view ?i (m_current it + j) = (if m \<le> j \<and> j < m + length bs then bs ! (j - m) else xs ! j)"
    using view_put_bytes [OF r, of "m_current it + j"] holds_nth [OF assms(1) j] assms j
    by (auto simp: holds_def it_ok_def)
  then show "view (rewind it ?i) (m_current (rewind it ?i) + j) = (take m xs @ bs @ drop (m + length bs) xs) ! j"
    using assms(3) j by (auto simp: rewind_def nth_append)
qed

lemma room_rewind: "room n start \<Longrightarrow> room n (rewind start (put_bytes bs start))"
  by (auto simp: room_def it_ok_def CheckNoZero_def rewind_def)

lemma take_drop_upt: "m + n \<le> length xs \<Longrightarrow> take n (drop m xs) = map (\<lambda>j. xs ! (m + j)) [0..<n]"
  by (rule nth_equalityI) auto

lemma take_drop_nth:
  "m + 1 \<le> length xs \<Longrightarrow> take 1 (drop m xs) = [xs ! m]"
  "m + 2 \<le> length xs \<Longrightarrow> take 2 (drop m xs) = [xs ! m, xs ! (m + 1)]"
  "m + 4 \<le> length xs \<Longrightarrow> take 4 (drop m xs) = [xs ! m, xs ! (m + 1), xs ! (m + 2), xs ! (m + 3)]"
  by (simp_all add: take_drop_upt upt_rec eval_nat_numeral)

text \<open>The reads at a place where known bytes are, for the deserialisers.\<close>

lemma read_at:
  assumes "holds it xs"
  shows "m + 1 \<le> length xs \<Longrightarrow> ReadU8 (advance m it) = Inr (xs ! m, advance (m + 1) it)"
    "m + 2 \<le> length xs \<Longrightarrow> ReadU16 (advance m it) = Inr (join_be [xs ! (m + 1), xs ! m], advance (m + 2) it)"
    "m + 2 \<le> length xs \<Longrightarrow> ReadNtohU16 (advance m it) = Inr (join_be [xs ! m, xs ! (m + 1)], advance (m + 2) it)"
    "m + 4 \<le> length xs \<Longrightarrow> ReadNtohU32 (advance m it) =
       Inr (join_be [xs ! m, xs ! (m + 1), xs ! (m + 2), xs ! (m + 3)], advance (m + 4) it)"
proof -
  assume m: "m + 1 \<le> length xs"
  show "ReadU8 (advance m it) = Inr (xs ! m, advance (m + 1) it)"
    using reads_at [OF reads_U8 assms m] unfolding take_drop_nth(1) [OF m] by simp
next
  assume m: "m + 2 \<le> length xs"
  show "ReadU16 (advance m it) = Inr (join_be [xs ! (m + 1), xs ! m], advance (m + 2) it)"
    "ReadNtohU16 (advance m it) = Inr (join_be [xs ! m, xs ! (m + 1)], advance (m + 2) it)"
    using reads_at [OF reads_words(1) assms m] reads_at [OF reads_NtohU16 assms m] unfolding take_drop_nth(2) [OF m] by simp_all
next
  assume m: "m + 4 \<le> length xs"
  show "ReadNtohU32 (advance m it) = Inr (join_be [xs ! m, xs ! (m + 1), xs ! (m + 2), xs ! (m + 3)], advance (m + 4) it)"
    using reads_at [OF reads_NtohU32 assms m] unfolding take_drop_nth(3) [OF m] .
qed

text \<open>
  Numbers of 16, 32 and 64 bits written in network order through an iterator with room for them
  are read back as they were by an iterator at the same place, whatever side of the zero area
  they are on; the cursor moves by the bytes written, no assertion fails, and every other byte of
  the buffer, the virtual zero area included, reads as before.
\<close>

theorem iterator_roundtrip:
  assumes "room 14 it"
  shows "\<exists>it'. do_all [WriteHtonU16 a, WriteHtonU32 b, WriteHtonU64 c] it = Inr it' \<and>
    m_current it' = m_current it + 14 \<and>
    ReadNtohU16 (rewind it it') = Inr (a, advance 2 (rewind it it')) \<and>
    ReadNtohU32 (advance 2 (rewind it it')) = Inr (b, advance 6 (rewind it it')) \<and>
    ReadNtohU64 (advance 6 (rewind it it')) = Inr (c, advance 14 (rewind it it')) \<and>
    (\<forall>j. m_dataStart it \<le> j \<and> j < m_dataEnd it \<and> (j < m_current it \<or> m_current it + 14 \<le> j) \<longrightarrow> view it' j = view it j)"
proof -
  let ?a = "[byte 8 a, byte 0 a]" and ?b = "[byte 24 b, byte 16 b, byte 8 b, byte 0 b]"
    and ?c = "map (\<lambda>n. byte n c) [56, 48, 40, 32, 24, 16, 8, 0]"
  let ?bs = "?a @ ?b @ ?c"
  let ?it = "put_bytes ?bs it"
  have len: "length ?bs = 14" by simp
  have r: "room (length ?bs) it" using assms by (simp only: len)
  have w: "do_all [WriteHtonU16 a, WriteHtonU32 b, WriteHtonU64 c] it = Inr ?it"
    using writes_HtonU64 [of c]
    by (intro writesD [OF writes_seq [of _ "[?a, ?b, ?c]"] r]) (simp_all add: write_intros)
  let ?r = "rewind it ?it"
  have h: "holds ?r ?bs" by (rule holds_put [OF r])
  have "ReadNtohU16 ?r = Inr (a, advance 2 ?r)" "ReadNtohU32 (advance 2 ?r) = Inr (b, advance 6 ?r)"
    "ReadNtohU64 (advance 6 ?r) = Inr (c, advance 14 ?r)"
    using reads_at [OF reads_NtohU16 h, of 0] reads_at [OF reads_NtohU32 h, of 2]
      reads_at [OF reads_words(5) h, of 6]
    by (simp_all del: put_bytes.simps)
  moreover have "view ?it j = view it j"
    if "m_dataStart it \<le> j" "j < m_dataEnd it" "j < m_current it \<or> m_current it + 14 \<le> j" for j
    using view_put_outside [OF r that(1,2)] that(3) by (simp only: len)
  ultimately show ?thesis using w by (auto simp del: put_bytes.simps)
qed

definition demo_iterator :: iterator where
  "demo_iterator = Construct 20 1000 0 1004 (replicate 24 0)"

theorem iterator_roundtrip_witness:
  "\<exists>it'. do_all [WriteHtonU16 0x1234, WriteHtonU32 0xdeadbeef, WriteHtonU64 7] demo_iterator = Inr it' \<and>
    ReadNtohU16 (rewind demo_iterator it') = Inr (0x1234, advance 2 (rewind demo_iterator it')) \<and>
    view it' 500 = 0"
proof -
  have d: "room 14 demo_iterator" "view demo_iterator 500 = 0" "m_dataStart demo_iterator = 0"
    "m_dataEnd demo_iterator = 1004" "m_current demo_iterator = 0"
    by (simp_all add: room_def it_ok_def CheckNoZero_def demo_iterator_def Construct_def view_def)
  from iterator_roundtrip [OF d(1), of "0x1234" "0xdeadbeef" 7] show ?thesis
    unfolding d(3-5) using d(2) by (elim exE conjE) (rule exI, auto simp del: do_all.simps)
qed

end
