(* ===== verification/Packet_Header.thy ===== *)
theory Packet_Header
  imports Packet_Queue Buffer_Iterator
begin

text \<open>
  Headers on packets: \<^verbatim>\<open>Packet::AddHeader\<close> and \<^verbatim>\<open>Packet::RemoveHeader\<close> of \<^verbatim>\<open>src/src/network/model/packet.cc\<close> over the
  bytes of a packet, and the two-byte header of \<^verbatim>\<open>src/src/point-to-point/model/ppp-header.cc\<close>. Byte tags and
  metadata are left out. A packet's bytes are those its buffer's iterators see, so the iterator at its
  beginning has an empty zero area.
\<close>

definition buffer_Begin :: "u8 list \<Rightarrow> iterator" where
  "buffer_Begin bs = Construct 0 0 0 (length bs) bs"

definition packet_AddHeader :: "nat \<Rightarrow> write_op \<Rightarrow> packet \<Rightarrow> packet res" where
  "packet_AddHeader sz ser p =
     bind_res (ser (buffer_Begin (replicate sz 0 @ p_bytes p))) (\<lambda>i. Inr (p\<lparr>p_bytes := it_data i\<rparr>))"

definition packet_RemoveHeader :: "(iterator \<Rightarrow> (nat \<times> 'h) res) \<Rightarrow> packet \<Rightarrow> ('h \<times> packet) res" where
  "packet_RemoveHeader des p =
     bind_res (des (buffer_Begin (p_bytes p))) (\<lambda>(deserialized, h). Inr (h, p\<lparr>p_bytes := drop deserialized (p_bytes p)\<rparr>))"

section \<open>The point-to-point protocol header\<close>

definition ppp_GetSerializedSize :: nat where
  "ppp_GetSerializedSize = 2"

definition ppp_Serialize :: "u16 \<Rightarrow> write_op" where
  "ppp_Serialize protocol start = WriteHtonU16 protocol start"

definition ppp_Deserialize :: "iterator \<Rightarrow> (nat \<times> u16) res" where
  "ppp_Deserialize start = bind_res (ReadNtohU16 start) (\<lambda>(protocol, _). Inr (ppp_GetSerializedSize, protocol))"

section \<open>Lemmas\<close>

lemma put_bytes_front:
  assumes "length bs \<le> length xs" "k = length ys"
  shows "it_data (put_bytes bs (advance k (buffer_Begin (ys @ xs)))) = ys @ bs @ drop (length bs) xs"
  using assms
proof (induction bs arbitrary: k xs ys)
  case (Cons b bs)
  then obtain x xs' where xs: "xs = x # xs'" by (cases xs) auto
  have "advance (Suc k) (buffer_Begin (ys @ xs)\<lparr>it_data := (ys @ xs)[k := b]\<rparr>) = advance (Suc k) (buffer_Begin ((ys @ [b]) @ xs'))"
    using Cons.prems xs by (simp add: buffer_Begin_def Construct_def)
  then show ?case
    using Cons.IH [of xs' "Suc k" "ys @ [b]"] Cons.prems xs
    by (simp add: buffer_Begin_def Construct_def slot_def advance_def)
qed (simp add: buffer_Begin_def Construct_def)

lemma buffer_Begin_room: "n \<le> length xs \<Longrightarrow> room n (buffer_Begin xs)"
  by (simp add: buffer_Begin_def Construct_def room_def it_ok_def CheckNoZero_def)

lemma buffer_Begin_holds: "holds (buffer_Begin (bs @ xs)) bs"
  by (rule holdsI) (auto simp: buffer_Begin_def Construct_def it_ok_def view_def nth_append)

lemma packet_AddHeader_ok:
  assumes "writes ser bs" "length bs = sz"
  shows "packet_AddHeader sz ser p = Inr (p\<lparr>p_bytes := bs @ p_bytes p\<rparr>)"
proof -
  let ?i = "buffer_Begin (replicate sz 0 @ p_bytes p)"
  have "ser ?i = Inr (put_bytes bs ?i)"
    using assms buffer_Begin_room [of sz "replicate sz 0 @ p_bytes p"] by (auto simp: writes_def)
  moreover have "it_data (put_bytes bs ?i) = bs @ p_bytes p"
    using put_bytes_front [of bs "replicate sz 0 @ p_bytes p" 0 "[]"] assms(2) by simp
  ultimately show ?thesis by (simp add: packet_AddHeader_def)
qed

lemma ppp_AddHeader:
  "packet_AddHeader ppp_GetSerializedSize (ppp_Serialize w) p = Inr (p\<lparr>p_bytes := [byte 8 w, byte 0 w] @ p_bytes p\<rparr>)"
proof -
  have "ppp_Serialize w = WriteHtonU16 w" by (simp add: ppp_Serialize_def fun_eq_iff)
  then show ?thesis
    using packet_AddHeader_ok [OF writes_HtonU16 [of w], of 2 p] by (simp add: ppp_GetSerializedSize_def)
qed

lemma ppp_RemoveHeader:
  assumes "p_bytes p = [byte 8 w, byte 0 w] @ bs"
  shows "packet_RemoveHeader ppp_Deserialize p = Inr (w, p\<lparr>p_bytes := bs\<rparr>)"
proof -
  have "ReadNtohU16 (buffer_Begin (p_bytes p)) = Inr (w, advance 2 (buffer_Begin (p_bytes p)))"
    using read_at(3) [OF buffer_Begin_holds [of "[byte 8 w, byte 0 w]" bs], of 0] assms by simp
  then show ?thesis by (simp add: packet_RemoveHeader_def ppp_Deserialize_def ppp_GetSerializedSize_def assms)
qed

end
