(* ===== verification/Data_Rate.thy ===== *)
theory Data_Rate
  imports Fixed_Point
begin

text \<open>
  \<^verbatim>\<open>src/src/network/utils/data-rate.cc\<close>, the transmission time of a number of bytes at a rate:
  the fixed-point quotient of bits and rate, converted from seconds to ticks by
  \<^verbatim>\<open>Time::From\<close> (\<^verbatim>\<open>nstime.h\<close>) and rounded by \<^verbatim>\<open>int64x64_t::Round\<close>. The division loop is exact on
  whole numbers, which gives the time to within a nanosecond.
\<close>

definition hp_Round :: "int \<Rightarrow> int res" where
  "hp_Round v =
     (let negative = v < 0;
          u = (if negative then - v else v) + 2 ^ 63
      in if u \<ge> 2 ^ 127 then Inl Undefined_Behaviour
         else let retval = GetHigh u in Inr (if negative then - retval else retval))"

text \<open>\<^verbatim>\<open>Seconds (v)\<close>: \<^verbatim>\<open>Time::From (v, Time::S)\<close>, whose table entry has \<^verbatim>\<open>fromMul = true\<close> and
  \<^verbatim>\<open>timeFrom = 10^9\<close>.\<close>

definition time_From :: "int \<Rightarrow> int \<Rightarrow> int res" where
  "time_From factor v = bind_res (hp_Mul v (factor * 2 ^ 64)) hp_Round"

definition CalculateBitsTxTime :: "u32 \<Rightarrow> u64 \<Rightarrow> int res" where
  "CalculateBitsTxTime bits bps =
     bind_res (hp_Div (uint bits * 2 ^ 64) (i128 (uint bps * 2 ^ 64))) (time_From (10 ^ 9))"

definition CalculateBytesTxTime :: "u32 \<Rightarrow> u64 \<Rightarrow> int res" where
  "CalculateBytesTxTime bytes bps = CalculateBitsTxTime (bytes * 8) bps"

section \<open>Division of whole numbers\<close>

lemma skip_den_shift:
  "n \<le> 64 \<Longrightarrow> skip_den (64 - n) (y * 2 ^ n) = (64, y)"
proof (induction n)
  case 0
  then show ?case by (simp add: skip_den.simps [of 64])
next
  case (Suc n)
  have h: "y * 2 ^ Suc n div 2 = y * 2 ^ n" "even (y * 2 ^ Suc n)" "64 - Suc n + 1 = 64 - n" "64 - Suc n < 64"
    using Suc.prems by auto
  have "skip_den (64 - Suc n) (y * 2 ^ Suc n) = skip_den (64 - Suc n + 1) (y * 2 ^ Suc n div 2)"
    using h(2,4) by (subst skip_den.simps) (simp only: if_True simp_thms)
  then show ?case using Suc h by (simp only: h)
qed

lemma Udiv_whole:
  assumes "0 \<le> x" "x < 2 ^ 63" "0 < y" "y < 2 ^ 63"
  shows "Udiv (x * 2 ^ 64) (y * 2 ^ 64) = Inr (x * 2 ^ 64 div y)"
proof -
  define q r where "q = x div y" and "r = x mod y"
  have x: "x = q * y + r" "0 \<le> r" "r < y" "0 \<le> q"
    using assms by (auto simp: q_def r_def pos_imp_zdiv_nonneg_iff)
  have "q \<le> x" using assms by (simp add: q_def int_div_le_dividend)
  then have q63: "q < 2 ^ 63" using assms(2) by linarith
  have d: "x * 2 ^ 64 div (y * 2 ^ 64) = q" "x * 2 ^ 64 mod (y * 2 ^ 64) = r * 2 ^ 64"
    by (simp_all add: q_def r_def mult_mod_right mod_mult_mult2)
  have sd: "skip_den 0 (y * 2 ^ 64) = (64, y)" using skip_den_shift [of 64 y] by simp
  have res: "x * 2 ^ 64 div y = q * 2 ^ 64 + r * 2 ^ 64 div y"
  proof -
    have "x * 2 ^ 64 = q * 2 ^ 64 * y + r * 2 ^ 64" unfolding x(1) by (simp add: algebra_simps)
    then show ?thesis using assms(3) by (simp add: mult.commute)
  qed
  have "r * 2 ^ 64 < 2 ^ 64 * y" using x by simp
  then have rb: "0 \<le> r * 2 ^ 64 div y" "r * 2 ^ 64 div y < 2 ^ 64"
    using x int_div_less [OF assms(3)] assms(3) by (simp_all add: pos_imp_zdiv_nonneg_iff del: power_numeral)
  have u: "u128 (q * 2 ^ 64) = q * 2 ^ 64" "u128 (q * 2 ^ 64 + r * 2 ^ 64 div y) = q * 2 ^ 64 + r * 2 ^ 64 div y"
    using x(4) q63 rb by (auto intro!: u128_id)
  have "udiv_loop (Suc (Suc n)) 0 64 (r * 2 ^ 64) y q =
      Some (if r = 0 then (0, q) else (64, q * 2 ^ 64 + r * 2 ^ 64 div y))" for n
    using u by (simp add: skip_rem.simps [of 0 64] cast_off.simps [of 0 64] Let_def)
  from this [of 128] have loop: "udiv_loop 130 0 64 (r * 2 ^ 64) y q =
      Some (if r = 0 then (0, q) else (64, q * 2 ^ 64 + r * 2 ^ 64 div y))" by simp
  show ?thesis
    using assms x sd d loop u res by (simp add: Udiv_def Let_def)
qed

section \<open>Transmission times\<close>

lemma CalculateBitsTxTime_eq:
  assumes "0 < uint bps" "uint bps < 2 ^ 63"
  shows "CalculateBitsTxTime bits bps =
    Inr ((uint bits * 2 ^ 64 div uint bps * 10 ^ 9 + 2 ^ 63) div 2 ^ 64)"
proof -
  let ?q = "uint bits * 2 ^ 64 div uint bps"
  have b: "0 \<le> uint bits" "uint bits < 2 ^ 32" using uint_lt2p [of bits] by auto
  have q: "0 \<le> ?q" "?q \<le> uint bits * 2 ^ 64"
    using assms b int_div_le_dividend [of "uint bps" "uint bits * 2 ^ 64"]
    by (auto simp: pos_imp_zdiv_nonneg_iff)
  have q96: "?q < 2 ^ 96" using q b by simp
  have "i128 (uint bps * 2 ^ 64) = uint bps * 2 ^ 64" "i128 ?q = ?q"
    using assms q q96 by (auto intro!: i128_id)
  moreover have "output_sign (uint bits * 2 ^ 64) (uint bps * 2 ^ 64) = (False, uint bits * 2 ^ 64, uint bps * 2 ^ 64)"
    using assms by (simp add: output_sign_def Let_def mult_less_0_iff)
  ultimately have "hp_Div (uint bits * 2 ^ 64) (i128 (uint bps * 2 ^ 64)) = Inr ?q"
    using Udiv_whole [of "uint bits" "uint bps"] assms b by (simp add: hp_Div_def)
  moreover have "hp_Mul ?q (10 ^ 9 * 2 ^ 64) = Inr (?q * 10 ^ 9)"
    using hp_Mul_value [of ?q "10 ^ 9 * 2 ^ 64"] q q96 by (simp add: int128_range_def)
  moreover have "hp_Round (?q * 10 ^ 9) = Inr ((?q * 10 ^ 9 + 2 ^ 63) div 2 ^ 64)"
    using q q96 by (simp add: hp_Round_def GetHigh_def Let_def)
  ultimately show ?thesis by (simp add: CalculateBitsTxTime_def time_From_def del: power_numeral)
qed

lemma rounded_quotient:
  fixes x y :: int
  assumes y: "0 < y"
  defines "t \<equiv> (x * 2 ^ 64 div y * 10 ^ 9 + 2 ^ 63) div 2 ^ 64"
  shows "y * t * 2 ^ 64 \<le> x * 10 ^ 9 * 2 ^ 64 + y * 2 ^ 63"
    "x * 10 ^ 9 * 2 ^ 64 < y * (t * 2 ^ 64 + 2 ^ 63 + 10 ^ 9)"
proof -
  define q where "q = x * 2 ^ 64 div y"
  have q: "q * y \<le> x * 2 ^ 64" "x * 2 ^ 64 < q * y + y" using int_div_bounds [OF y, of "x * 2 ^ 64"] by (simp_all add: q_def)
  have t: "t * 2 ^ 64 \<le> q * 10 ^ 9 + 2 ^ 63" "q * 10 ^ 9 + 2 ^ 63 < t * 2 ^ 64 + 2 ^ 64"
    using int_div_bounds [of "2 ^ 64" "q * 10 ^ 9 + 2 ^ 63"] by (simp_all add: t_def q_def del: power_numeral)
  have "y * (t * 2 ^ 64) \<le> y * (q * 10 ^ 9 + 2 ^ 63)" using t y by (intro mult_left_mono) auto
  also have "\<dots> = q * y * 10 ^ 9 + y * 2 ^ 63" by (simp only: algebra_simps)
  also have "\<dots> \<le> x * 2 ^ 64 * 10 ^ 9 + y * 2 ^ 63" using q by simp
  finally show "y * t * 2 ^ 64 \<le> x * 10 ^ 9 * 2 ^ 64 + y * 2 ^ 63" by simp
  have "x * 10 ^ 9 * 2 ^ 64 < y * (q * 10 ^ 9) + y * 10 ^ 9" using q by (simp add: algebra_simps)
  also have "y * (q * 10 ^ 9) \<le> y * (t * 2 ^ 64 + 2 ^ 63)" using t y by (intro mult_left_mono) auto
  finally show "x * 10 ^ 9 * 2 ^ 64 < y * (t * 2 ^ 64 + 2 ^ 63 + 10 ^ 9)" by (simp add: algebra_simps)
qed

text \<open>
  C40: the transmission time of \<open>bytes\<close> bytes at \<open>bps\<close> bits per second is computed without
  overflow for every frame whose size in bits fits 32 bits. It is the true time to within a
  nanosecond, it is never more than half a nanosecond too long, and it is exact when the true time
  is a whole number of nanoseconds.
\<close>

theorem transmission_time:
  assumes "0 < uint bps" "uint bps < 2 ^ 63" "uint bytes < 2 ^ 29"
  shows "\<exists>t. CalculateBytesTxTime bytes bps = Inr t \<and> 0 \<le> t \<and>
    uint bps * (2 * t - 1) \<le> 2 * (8 * uint bytes * 10 ^ 9) \<and>
    8 * uint bytes * 10 ^ 9 < uint bps * (t + 1) \<and>
    (uint bps dvd 8 * uint bytes * 10 ^ 9 \<longrightarrow> t = 8 * uint bytes * 10 ^ 9 div uint bps)"
proof -
  let ?x = "8 * uint bytes" and ?y = "uint bps"
  define t where "t = (?x * 2 ^ 64 div ?y * 10 ^ 9 + 2 ^ 63) div 2 ^ 64"
  note R = rounded_quotient [OF assms(1), of ?x, folded t_def]
  have "uint (bytes * 8) = ?x" using assms(3) by (simp add: uint_word_ariths mult.commute)
  then have eq: "CalculateBytesTxTime bytes bps = Inr t"
    using CalculateBitsTxTime_eq [OF assms(1,2), of "bytes * 8"] by (simp add: CalculateBytesTxTime_def t_def del: power_numeral)
  have nn: "0 \<le> t" using assms by (simp add: t_def pos_imp_zdiv_nonneg_iff)
  have up: "?y * (2 * t - 1) \<le> 2 * (?x * 10 ^ 9)" using R(1) by (simp add: algebra_simps)
  have "?y * (t * 2 ^ 64 + 2 ^ 63 + 10 ^ 9) \<le> ?y * ((t + 1) * 2 ^ 64)" using assms(1) by (intro mult_left_mono) auto
  then have "?x * 10 ^ 9 * 2 ^ 64 < ?y * (t + 1) * 2 ^ 64" using R(2) by (simp only: mult.assoc)
  then have lo: "?x * 10 ^ 9 < ?y * (t + 1)" by simp
  have "t = n" if n: "?x * 10 ^ 9 = ?y * n" for n
  proof -
    have "?y * (2 * t - 1) \<le> ?y * (2 * n)" using up n by simp
    then have "2 * t - 1 \<le> 2 * n" using assms(1) by simp
    moreover have "?y * (n * 2 ^ 64) < ?y * (t * 2 ^ 64 + 2 ^ 63 + 10 ^ 9)" using R(2) n by simp
    then have "n * 2 ^ 64 < t * 2 ^ 64 + 2 ^ 63 + 10 ^ 9" using assms(1) by simp
    ultimately show ?thesis by simp
  qed
  then show ?thesis using eq nn up lo assms(1) by (auto elim!: dvdE)
qed

text \<open>An Ethernet frame of 1500 bytes at one gigabit per second takes 12 microseconds.\<close>

theorem transmission_time_witness:
  "CalculateBytesTxTime 1500 1000000000 = Inr 12000"
  using transmission_time [of 1000000000 1500] by auto

end
