(* ===== verification/Point_To_Point.thy ===== *)
theory Point_To_Point
  imports Packet_Header Data_Rate
begin

text \<open>
  The point-to-point link of the experiment: \<^verbatim>\<open>src/src/point-to-point/model/point-to-point-net-device.cc\<close> and
  \<^verbatim>\<open>point-to-point-channel.cc\<close>. A device is a transmitter that is \<^verbatim>\<open>READY\<close> or \<^verbatim>\<open>BUSY\<close>, a queue, and a channel shared
  with its peer. The queue's operations are arguments of the device's operations, since the device calls
  them through a pointer to \<^verbatim>\<open>Queue<Packet>\<close>. An operation returns the events it passes to
  \<^verbatim>\<open>Simulator::Schedule\<close>, with their delays; trace sources and the notification callbacks of the link state are left
  out, and the receive callback is the returned packet and protocol.

  \<open>p2p_world\<close> puts two devices, their channel and the pending events together. Its steps are a \<^verbatim>\<open>Send\<close>
  of one of the devices and the execution of the first pending event, in the order the simulator keeps.
  The locale \<open>p2p_link\<close> shows what such a link guarantees over any queue that meets \<open>packet_fifo\<close>.
\<close>

section \<open>Protocol numbers\<close>

definition PppToEther :: "u16 \<Rightarrow> u16 res" where
  "PppToEther proto =
     (if proto = 0x0021 then Inr 0x0800 else if proto = 0x0057 then Inr 0x86DD else Inl Assert_Failed)"

definition EtherToPpp :: "u16 \<Rightarrow> u16 res" where
  "EtherToPpp proto =
     (if proto = 0x0800 then Inr 0x0021 else if proto = 0x86DD then Inr 0x0057 else Inl Assert_Failed)"

section \<open>The channel\<close>

datatype wire_state = INITIALIZING | IDLE | TRANSMITTING | PROPAGATING

record p2p_wire =
  l_state :: wire_state
  l_src :: "nat option"
  l_dst :: "nat option"

record p2p_channel =
  pc_delay :: int
  pc_nDevices :: nat
  pc_link :: "p2p_wire list"

datatype p2p_event = Ev_TransmitComplete nat | Ev_Receive nat packet

type_synonym p2p_out = "(int \<times> p2p_event) list"

definition PointToPointChannel :: "int \<Rightarrow> p2p_channel" where
  "PointToPointChannel delay =
     \<lparr>pc_delay = delay, pc_nDevices = 0, pc_link = replicate 2 \<lparr>l_state = INITIALIZING, l_src = None, l_dst = None\<rparr>\<rparr>"

definition channel_Attach :: "nat \<Rightarrow> p2p_channel \<Rightarrow> p2p_channel res" where
  "channel_Attach device ch =
     (if \<not> pc_nDevices ch < 2 then Inl Assert_Failed
      else let n = pc_nDevices ch;
               link = (pc_link ch)[n := (pc_link ch ! n)\<lparr>l_src := Some device\<rparr>];
               ch = ch\<lparr>pc_link := link, pc_nDevices := n + 1\<rparr>
           in Inr (if pc_nDevices ch = 2
                   then ch\<lparr>pc_link := [(link ! 0)\<lparr>l_dst := l_src (link ! 1), l_state := IDLE\<rparr>,
                                     (link ! 1)\<lparr>l_dst := l_src (link ! 0), l_state := IDLE\<rparr>]\<rparr>
                   else ch))"

definition channel_TransmitStart :: "packet \<Rightarrow> nat \<Rightarrow> int \<Rightarrow> p2p_channel \<Rightarrow> (bool \<times> p2p_out) res" where
  "channel_TransmitStart p src txTime ch =
     (if l_state (pc_link ch ! 0) = INITIALIZING then Inl Assert_Failed
      else if l_state (pc_link ch ! 1) = INITIALIZING then Inl Assert_Failed
      else let wire = (if Some src = l_src (pc_link ch ! 0) then 0 else 1)
           in case l_dst (pc_link ch ! wire) of
                None \<Rightarrow> Inl Undefined_Behaviour
              | Some dst \<Rightarrow> Inr (True, [(txTime + pc_delay ch, Ev_Receive dst p)]))"

section \<open>The device\<close>

datatype tx_machine_state = READY | BUSY

record 'q p2p_device =
  pd_txMachineState :: tx_machine_state
  pd_linkUp :: bool
  pd_hasChannel :: bool
  pd_currentPkt :: "packet option"
  pd_bps :: u64
  pd_tInterframeGap :: int
  pd_queue :: 'q
  pd_receiveErrorModel :: "(packet \<Rightarrow> bool) option"

definition PointToPointNetDevice :: "u64 \<Rightarrow> int \<Rightarrow> 'q \<Rightarrow> (packet \<Rightarrow> bool) option \<Rightarrow> 'q p2p_device" where
  "PointToPointNetDevice bps gap queue em =
     \<lparr>pd_txMachineState = READY, pd_linkUp = False, pd_hasChannel = False, pd_currentPkt = None, pd_bps = bps,
      pd_tInterframeGap = gap, pd_queue = queue, pd_receiveErrorModel = em\<rparr>"

definition p2p_AddHeader :: "packet \<Rightarrow> u16 \<Rightarrow> packet res" where
  "p2p_AddHeader p protocolNumber =
     bind_res (EtherToPpp protocolNumber) (\<lambda>w. packet_AddHeader ppp_GetSerializedSize (ppp_Serialize w) p)"

definition p2p_ProcessHeader :: "packet \<Rightarrow> (packet \<times> u16) res" where
  "p2p_ProcessHeader p =
     bind_res (packet_RemoveHeader ppp_Deserialize p) (\<lambda>(w, p). bind_res (PppToEther w) (\<lambda>param. Inr (p, param)))"

definition device_Attach :: "nat \<Rightarrow> p2p_channel \<Rightarrow> 'q p2p_device \<Rightarrow> ('q p2p_device \<times> p2p_channel) res" where
  "device_Attach me ch d =
     bind_res (channel_Attach me ch) (\<lambda>ch. Inr (d\<lparr>pd_hasChannel := True, pd_linkUp := True\<rparr>, ch))"

definition device_TransmitStart ::
    "p2p_channel \<Rightarrow> nat \<Rightarrow> packet \<Rightarrow> 'q p2p_device \<Rightarrow> (bool \<times> 'q p2p_device \<times> p2p_out) res" where
  "device_TransmitStart ch me p d =
     (if pd_txMachineState d \<noteq> READY then Inl Assert_Failed
      else let d = d\<lparr>pd_txMachineState := BUSY, pd_currentPkt := Some p\<rparr>
           in bind_res (CalculateBytesTxTime (GetSize p) (pd_bps d)) (\<lambda>txTime.
              let txCompleteTime = txTime + pd_tInterframeGap d
              in if \<not> pd_hasChannel d then Inl Undefined_Behaviour
                 else bind_res (channel_TransmitStart p me txTime ch) (\<lambda>(result, out).
                        Inr (result, d, (txCompleteTime, Ev_TransmitComplete me) # out))))"

definition device_TransmitComplete ::
    "('q \<Rightarrow> (packet option \<times> 'q) res) \<Rightarrow> p2p_channel \<Rightarrow> nat \<Rightarrow> 'q p2p_device \<Rightarrow> ('q p2p_device \<times> p2p_out) res" where
  "device_TransmitComplete deq ch me d =
     (if pd_txMachineState d \<noteq> BUSY then Inl Assert_Failed
      else let d = d\<lparr>pd_txMachineState := READY\<rparr>
           in if pd_currentPkt d = None then Inl Assert_Failed
              else let d = d\<lparr>pd_currentPkt := None\<rparr>
                   in bind_res (deq (pd_queue d)) (\<lambda>(r, q).
                      let d = d\<lparr>pd_queue := q\<rparr>
                      in case r of
                           None \<Rightarrow> Inr (d, [])
                         | Some p \<Rightarrow> bind_res (device_TransmitStart ch me p d) (\<lambda>(_, d, out). Inr (d, out))))"

definition device_Send ::
    "(packet \<Rightarrow> 'q \<Rightarrow> (bool \<times> 'q) res) \<Rightarrow> ('q \<Rightarrow> (packet option \<times> 'q) res) \<Rightarrow> p2p_channel \<Rightarrow> nat \<Rightarrow> packet \<Rightarrow> u16 \<Rightarrow>
     'q p2p_device \<Rightarrow> (bool \<times> 'q p2p_device \<times> p2p_out) res" where
  "device_Send enq deq ch me p protocolNumber d =
     (if \<not> pd_linkUp d then Inr (False, d, [])
      else bind_res (p2p_AddHeader p protocolNumber) (\<lambda>p.
           bind_res (enq p (pd_queue d)) (\<lambda>(accepted, q).
           let d = d\<lparr>pd_queue := q\<rparr>
           in if accepted
              then if pd_txMachineState d = READY
                   then bind_res (deq (pd_queue d)) (\<lambda>(r, q).
                        case r of
                          None \<Rightarrow> Inl Undefined_Behaviour
                        | Some p \<Rightarrow> device_TransmitStart ch me p (d\<lparr>pd_queue := q\<rparr>))
                   else Inr (True, d, [])
              else Inr (False, d, []))))"

definition device_GetRemote :: "p2p_channel \<Rightarrow> nat \<Rightarrow> nat option res" where
  "device_GetRemote ch me =
     (if pc_nDevices ch \<noteq> 2 then Inl Assert_Failed
      else if l_src (pc_link ch ! 0) \<noteq> Some me then Inr (l_src (pc_link ch ! 0))
      else if l_src (pc_link ch ! 1) \<noteq> Some me then Inr (l_src (pc_link ch ! 1))
      else Inl Assert_Failed)"

definition is_corrupt :: "'q p2p_device \<Rightarrow> packet \<Rightarrow> bool" where
  "is_corrupt d p = (case pd_receiveErrorModel d of None \<Rightarrow> False | Some em \<Rightarrow> em p)"

definition device_Receive :: "p2p_channel \<Rightarrow> nat \<Rightarrow> packet \<Rightarrow> 'q p2p_device \<Rightarrow> (packet \<times> u16) option res" where
  "device_Receive ch me p d =
     (if is_corrupt d p then Inr None
      else bind_res (p2p_ProcessHeader p) (\<lambda>(p, protocol).
           bind_res (device_GetRemote ch me) (\<lambda>_. Inr (Some (p, protocol)))))"

section \<open>The link\<close>

record 'q p2p_world =
  w_dev :: "nat \<Rightarrow> 'q p2p_device"
  w_chan :: p2p_channel
  w_now :: int
  w_events :: "(int \<times> p2p_event) list"
  w_rx :: "(nat \<times> packet \<times> u16) list"

text \<open>Pending events are kept by time and, at one time, in the order they were scheduled.\<close>

fun add_event :: "int \<times> p2p_event \<Rightarrow> (int \<times> p2p_event) list \<Rightarrow> (int \<times> p2p_event) list" where
  "add_event x [] = [x]"
| "add_event x (y # ys) = (if fst x < fst y then x # y # ys else y # add_event x ys)"

fun schedule :: "int \<Rightarrow> p2p_out \<Rightarrow> (int \<times> p2p_event) list \<Rightarrow> (int \<times> p2p_event) list res" where
  "schedule now [] es = Inr es"
| "schedule now ((delay, e) # out) es =
     (if delay < 0 then Inl Assert_Failed else schedule now out (add_event (now + delay, e) es))"

definition world_set :: "nat \<Rightarrow> 'q p2p_device \<Rightarrow> p2p_out \<Rightarrow> 'q p2p_world \<Rightarrow> 'q p2p_world res" where
  "world_set i d out w =
     bind_res (schedule (w_now w) out (w_events w)) (\<lambda>es. Inr (w\<lparr>w_dev := (w_dev w)(i := d), w_events := es\<rparr>))"

definition world_Send ::
    "(packet \<Rightarrow> 'q \<Rightarrow> (bool \<times> 'q) res) \<Rightarrow> ('q \<Rightarrow> (packet option \<times> 'q) res) \<Rightarrow> nat \<Rightarrow> packet \<Rightarrow> u16 \<Rightarrow>
     'q p2p_world \<Rightarrow> (bool \<times> 'q p2p_world) res" where
  "world_Send enq deq i p proto w =
     bind_res (device_Send enq deq (w_chan w) i p proto (w_dev w i)) (\<lambda>(ok, d, out).
     bind_res (world_set i d out w) (\<lambda>w. Inr (ok, w)))"

definition world_fire :: "('q \<Rightarrow> (packet option \<times> 'q) res) \<Rightarrow> 'q p2p_world \<Rightarrow> 'q p2p_world res" where
  "world_fire deq w =
     (case w_events w of
        [] \<Rightarrow> Inr w
      | (t, e) # es \<Rightarrow>
          let w = w\<lparr>w_now := t, w_events := es\<rparr>
          in case e of
               Ev_TransmitComplete i \<Rightarrow>
                 bind_res (device_TransmitComplete deq (w_chan w) i (w_dev w i)) (\<lambda>(d, out). world_set i d out w)
             | Ev_Receive i p \<Rightarrow>
                 bind_res (device_Receive (w_chan w) i p (w_dev w i)) (\<lambda>r.
                   Inr (case r of None \<Rightarrow> w | Some x \<Rightarrow> w\<lparr>w_rx := w_rx w @ [(i, x)]\<rparr>)))"

fun world_run :: "('q \<Rightarrow> (packet option \<times> 'q) res) \<Rightarrow> nat \<Rightarrow> 'q p2p_world \<Rightarrow> 'q p2p_world res" where
  "world_run deq 0 w = Inr w"
| "world_run deq (Suc n) w = bind_res (world_fire deq w) (world_run deq n)"

definition link_setup :: "'q p2p_device \<Rightarrow> 'q p2p_device \<Rightarrow> int \<Rightarrow> 'q p2p_world res" where
  "link_setup a b delay =
     bind_res (device_Attach 0 (PointToPointChannel delay) a) (\<lambda>(a, ch).
     bind_res (device_Attach 1 ch b) (\<lambda>(b, ch).
       Inr \<lparr>w_dev = (\<lambda>i. if i = 0 then a else b), w_chan = ch, w_now = 0, w_events = [], w_rx = []\<rparr>))"

section \<open>What a link in order looks like\<close>

text \<open>Projections of the pending events: completion times of a transmitter, arrival times and packets for a receiver.\<close>

definition tx_times :: "nat \<Rightarrow> (int \<times> p2p_event) list \<Rightarrow> int list" where
  "tx_times i es = map fst (filter (\<lambda>(_, e). e = Ev_TransmitComplete i) es)"

definition arrivals :: "nat \<Rightarrow> (int \<times> p2p_event) list \<Rightarrow> (int \<times> packet) list" where
  "arrivals i es = concat (map (\<lambda>(t, e). case e of Ev_Receive j p \<Rightarrow> if j = i then [(t, p)] else [] | _ \<Rightarrow> []) es)"

definition entries :: "nat \<Rightarrow> (nat \<times> packet \<times> u16) list \<Rightarrow> (packet \<times> u16) list" where
  "entries i xs = map snd (filter (\<lambda>x. fst x = i) xs)"

definition ppp_number :: "u16 \<Rightarrow> u16" where
  "ppp_number proto = (if proto = 0x0800 then 0x0021 else 0x0057)"

definition framed :: "packet \<times> u16 \<Rightarrow> packet" where
  "framed x = (fst x)\<lparr>p_bytes := [byte 8 (ppp_number (snd x)), byte 0 (ppp_number (snd x))] @ p_bytes (fst x)\<rparr>"

definition sendable :: "(packet \<Rightarrow> bool) \<Rightarrow> packet \<times> u16 \<Rightarrow> bool" where
  "sendable pkt_ok x \<longleftrightarrow> snd x \<in> {0x0800, 0x86DD} \<and> pkt_ok (framed x)"

text \<open>One direction: the state of the transmitter, its completion event, what is on the wire, what has been
  received and what was accepted.\<close>

definition dir_ok :: "('q \<Rightarrow> bool) \<Rightarrow> ('q \<Rightarrow> packet list) \<Rightarrow> (packet \<Rightarrow> bool) \<Rightarrow> (packet \<Rightarrow> bool) \<Rightarrow> int \<Rightarrow> int \<Rightarrow> 'q p2p_device \<Rightarrow>
    int list \<Rightarrow> (int \<times> packet) list \<Rightarrow> (packet \<times> u16) list \<Rightarrow> (packet \<times> u16) list \<Rightarrow> bool" where
  "dir_ok invar items pkt_ok bad delay now d tc ar rx acc \<longleftrightarrow>
     pd_hasChannel d \<and> pd_linkUp d \<and> 0 < uint (pd_bps d) \<and> uint (pd_bps d) < 2 ^ 63 \<and> 0 \<le> pd_tInterframeGap d \<and>
     invar (pd_queue d) \<and> list_all (sendable pkt_ok) acc \<and>
     (if pd_txMachineState d = READY
      then pd_currentPkt d = None \<and> items (pd_queue d) = [] \<and> tc = [] \<and> (\<forall>t\<in>fst ` set ar. t \<le> now + delay)
      else pd_currentPkt d \<noteq> None \<and> (\<exists>t0. tc = [t0] \<and> (\<forall>t\<in>fst ` set ar. t \<le> t0 + delay))) \<and>
     (\<exists>pre post. acc = pre @ post \<and> rx = filter (\<lambda>x. \<not> bad (framed x)) pre \<and>
        map framed post = map snd ar @ items (pd_queue d))"

definition chan_ok :: "p2p_channel \<Rightarrow> bool" where
  "chan_ok ch \<longleftrightarrow> pc_nDevices ch = 2 \<and> 0 \<le> pc_delay ch \<and>
     pc_link ch = [\<lparr>l_state = IDLE, l_src = Some 0, l_dst = Some 1\<rparr>, \<lparr>l_state = IDLE, l_src = Some 1, l_dst = Some 0\<rparr>]"

definition events_ok :: "int \<Rightarrow> (int \<times> p2p_event) list \<Rightarrow> bool" where
  "events_ok now es \<longleftrightarrow> sorted (map fst es) \<and> (\<forall>t\<in>set (map fst es). now \<le> t) \<and>
     list_all (\<lambda>(_, e). case e of Ev_TransmitComplete i \<Rightarrow> i < 2 | Ev_Receive i _ \<Rightarrow> i < 2) es"

definition world_ok :: "('q \<Rightarrow> bool) \<Rightarrow> ('q \<Rightarrow> packet list) \<Rightarrow> (packet \<Rightarrow> bool) \<Rightarrow> 'q p2p_world \<Rightarrow> (nat \<times> packet \<times> u16) list \<Rightarrow> bool" where
  "world_ok invar items pkt_ok w acc \<longleftrightarrow>
     chan_ok (w_chan w) \<and> events_ok (w_now w) (w_events w) \<and>
     (\<forall>i<2. dir_ok invar items pkt_ok (is_corrupt (w_dev w (1 - i))) (pc_delay (w_chan w)) (w_now w) (w_dev w i)
        (tx_times i (w_events w)) (arrivals (1 - i) (w_events w)) (entries (1 - i) (w_rx w)) (entries i acc))"

text \<open>The steps of the link; the second argument records the packets that \<^verbatim>\<open>Send\<close> accepted, with their sender.\<close>

inductive p2p_reach :: "(packet \<Rightarrow> 'q \<Rightarrow> (bool \<times> 'q) res) \<Rightarrow> ('q \<Rightarrow> (packet option \<times> 'q) res) \<Rightarrow> (packet \<Rightarrow> bool) \<Rightarrow>
    'q p2p_world \<Rightarrow> 'q p2p_world \<Rightarrow> (nat \<times> packet \<times> u16) list \<Rightarrow> bool"
  for enq deq pkt_ok w0 where
  start: "p2p_reach enq deq pkt_ok w0 w0 []"
| send: "p2p_reach enq deq pkt_ok w0 w acc \<Longrightarrow> i < 2 \<Longrightarrow> sendable pkt_ok (p, proto) \<Longrightarrow>
    world_Send enq deq i p proto w = Inr (ok, w') \<Longrightarrow>
    p2p_reach enq deq pkt_ok w0 w' (if ok then acc @ [(i, p, proto)] else acc)"
| fire: "p2p_reach enq deq pkt_ok w0 w acc \<Longrightarrow> world_fire deq w = Inr w' \<Longrightarrow> p2p_reach enq deq pkt_ok w0 w' acc"

section \<open>Scheduling\<close>

lemma tx_times_simps [simp]:
  "tx_times i [] = []"
  "tx_times i ((t, e) # es) = (if e = Ev_TransmitComplete i then t # tx_times i es else tx_times i es)"
  by (simp_all add: tx_times_def)

lemma arrivals_simps [simp]:
  "arrivals i [] = []"
  "arrivals i ((t, Ev_TransmitComplete j) # es) = arrivals i es"
  "arrivals i ((t, Ev_Receive j p) # es) = (if j = i then (t, p) # arrivals i es else arrivals i es)"
  by (simp_all add: arrivals_def)

lemma set_add_event [simp]: "set (add_event x es) = insert x (set es)"
  by (induction x es rule: add_event.induct) auto

lemma length_add_event [simp]: "length (add_event x es) = Suc (length es)"
  by (induction x es rule: add_event.induct) auto

lemma sorted_add_event: "sorted (map fst es) \<Longrightarrow> sorted (map fst (add_event x es))"
  by (induction x es rule: add_event.induct) auto

lemma arrivals_set: "fst ` set (arrivals i es) \<subseteq> fst ` set es"
proof (induction es)
  case (Cons x es)
  obtain t e where "x = (t, e)" by fastforce
  then show ?case using Cons by (cases e) auto
qed simp

lemma tx_times_add:
  "tx_times i (add_event (t, Ev_Receive j p) es) = tx_times i es"
  "j \<noteq> i \<Longrightarrow> tx_times i (add_event (t, Ev_TransmitComplete j) es) = tx_times i es"
  "tx_times i es = [] \<Longrightarrow> tx_times i (add_event (t, Ev_TransmitComplete i) es) = [t]"
  by (induction es) (auto split: if_splits)

lemma arrivals_add_other:
  "arrivals i (add_event (t, Ev_TransmitComplete j) es) = arrivals i es"
  "j \<noteq> i \<Longrightarrow> arrivals i (add_event (t, Ev_Receive j p) es) = arrivals i es"
proof -
  show "arrivals i (add_event (t, Ev_TransmitComplete j) es) = arrivals i es"
  proof (induction es)
    case (Cons x es)
    obtain t' e where "x = (t', e)" by fastforce
    then show ?case using Cons by (cases e) auto
  qed simp
  show "j \<noteq> i \<Longrightarrow> arrivals i (add_event (t, Ev_Receive j p) es) = arrivals i es"
  proof (induction es)
    case (Cons x es)
    obtain t' e where "x = (t', e)" by fastforce
    then show ?case using Cons by (cases e) auto
  qed simp
qed

text \<open>A packet that arrives no earlier than those already on the way is behind them.\<close>

lemma arrivals_add:
  assumes "sorted (map fst es)" "\<forall>t'\<in>fst ` set (arrivals i es). t' \<le> t"
  shows "arrivals i (add_event (t, Ev_Receive i p) es) = arrivals i es @ [(t, p)]"
  using assms
proof (induction es)
  case (Cons x es)
  obtain t' e where x: "x = (t', e)" by fastforce
  show ?case
  proof (cases "t < t'")
    case True
    have "\<forall>s\<in>fst ` set (x # es). t' \<le> s" using Cons.prems(1) x by auto
    then have "\<forall>s\<in>fst ` set (arrivals i (x # es)). t' \<le> s" using arrivals_set [of i "x # es"] by blast
    then have "arrivals i (x # es) = []"
      using Cons.prems(2) True by (cases "arrivals i (x # es)") auto
    then show ?thesis using True x by simp
  next
    case False
    then show ?thesis using Cons x by (cases e) auto
  qed
qed simp

lemma events_ok_add:
  assumes "events_ok now es" "now \<le> t" "case e of Ev_TransmitComplete i \<Rightarrow> i < 2 | Ev_Receive i _ \<Rightarrow> i < 2"
  shows "events_ok now (add_event (t, e) es)"
  using assms sorted_add_event [of es "(t, e)"] by (auto simp: events_ok_def list_all_iff)

section \<open>Headers and transmission\<close>

lemma p2p_AddHeader_ok: "proto \<in> {0x0800, 0x86DD} \<Longrightarrow> p2p_AddHeader p proto = Inr (framed (p, proto))"
  by (auto simp: p2p_AddHeader_def EtherToPpp_def ppp_AddHeader framed_def ppp_number_def)

lemma p2p_ProcessHeader_ok: "proto \<in> {0x0800, 0x86DD} \<Longrightarrow> p2p_ProcessHeader (framed (p, proto)) = Inr (p, proto)"
  using ppp_RemoveHeader [of "framed (p, proto)" "ppp_number proto" "p_bytes p"]
  by (auto simp: p2p_ProcessHeader_def PppToEther_def framed_def ppp_number_def)

lemma tx_time_ok:
  assumes "0 < uint bps" "uint bps < 2 ^ 63" "length (p_bytes p) < 2 ^ 29"
  shows "\<exists>t. CalculateBytesTxTime (GetSize p) bps = Inr t \<and> 0 \<le> t"
  using CalculateBitsTxTime_eq [OF assms(1,2), of "GetSize p * 8"] assms(1)
  by (auto simp: CalculateBytesTxTime_def pos_imp_zdiv_nonneg_iff)

lemma channel_TransmitStart_ok:
  assumes "chan_ok ch" "i < 2"
  shows "channel_TransmitStart p i t ch = Inr (True, [(t + pc_delay ch, Ev_Receive (1 - i) p)])"
  using assms by (auto simp: channel_TransmitStart_def chan_ok_def less_2_cases_iff)

text \<open>The start of a transmission: the transmitter becomes busy, the packet is behind those on the wire,
  and the other direction does not notice.\<close>

lemma transmit_start:
  assumes ch: "chan_ok ch" and i: "i < 2" and es: "events_ok now es"
    and d: "pd_txMachineState d = READY" "pd_hasChannel d" "0 < uint (pd_bps d)" "uint (pd_bps d) < 2 ^ 63" "0 \<le> pd_tInterframeGap d"
    and p: "length (p_bytes p) < 2 ^ 29" and tc: "tx_times i es = []"
    and ar: "\<forall>t\<in>fst ` set (arrivals (1 - i) es). t \<le> now + pc_delay ch"
  obtains d' out es' t where "device_TransmitStart ch i p d = Inr (True, d', out)" "schedule now out es = Inr es'"
    "d' = d\<lparr>pd_txMachineState := BUSY, pd_currentPkt := Some p\<rparr>" "events_ok now es'"
    "tx_times i es' = [now + t + pd_tInterframeGap d]" "0 \<le> t"
    "arrivals (1 - i) es' = arrivals (1 - i) es @ [(now + t + pc_delay ch, p)]"
    "tx_times (1 - i) es' = tx_times (1 - i) es" "arrivals i es' = arrivals i es" "length es' = length es + 2"
proof -
  obtain t where t: "CalculateBytesTxTime (GetSize p) (pd_bps d) = Inr t" "0 \<le> t" using tx_time_ok [OF d(3,4) p] by blast
  have i1: "1 - i \<noteq> i" "1 - i < 2" using i by (auto simp: less_2_cases_iff)
  have del: "0 \<le> pc_delay ch" using ch by (simp add: chan_ok_def)
  define es1 where "es1 = add_event (now + (t + pd_tInterframeGap d), Ev_TransmitComplete i) es"
  define es2 where "es2 = add_event (now + (t + pc_delay ch), Ev_Receive (1 - i) p) es1"
  let ?d = "d\<lparr>pd_txMachineState := BUSY, pd_currentPkt := Some p\<rparr>"
  let ?out = "[(t + pd_tInterframeGap d, Ev_TransmitComplete i), (t + pc_delay ch, Ev_Receive (1 - i) p)]"
  have e1: "events_ok now es1" unfolding es1_def using es t d i by (intro events_ok_add) auto
  have e2: "events_ok now es2" unfolding es2_def using e1 t del i1 by (intro events_ok_add) auto
  have a1: "arrivals (1 - i) es1 = arrivals (1 - i) es" by (simp add: es1_def arrivals_add_other)
  have "arrivals (1 - i) es2 = arrivals (1 - i) es1 @ [(now + (t + pc_delay ch), p)]"
    unfolding es2_def
  proof (rule arrivals_add)
    show "sorted (map fst es1)" using e1 by (simp add: events_ok_def)
    show "\<forall>t'\<in>fst ` set (arrivals (1 - i) es1). t' \<le> now + (t + pc_delay ch)" unfolding a1 using ar t(2) by fastforce
  qed
  then show ?thesis
    using that [of ?d ?out es2 t] ch i d t del tc i1 e2 channel_TransmitStart_ok [OF ch i, of p t]
    by (simp add: device_TransmitStart_def es1_def es2_def tx_times_add arrivals_add_other a1 add.assoc)
qed

lemma dir_ok_later:
  assumes "dir_ok invar items pkt_ok bad delay now d tc ar rx acc" "now \<le> now'"
  shows "dir_ok invar items pkt_ok bad delay now' d tc ar rx acc"
  using assms unfolding dir_ok_def by (auto split: if_splits)

lemma dir_ok_queue:
  assumes "dir_ok invar items pkt_ok bad delay now d tc ar rx acc" "invar q" "items q = items (pd_queue d)"
  shows "dir_ok invar items pkt_ok bad delay now (d\<lparr>pd_queue := q\<rparr>) tc ar rx acc"
  using assms unfolding dir_ok_def by auto

section \<open>The link over any queue\<close>

locale p2p_link = packet_fifo Enqueue Dequeue invar items fits pkt_ok
  for Enqueue :: "packet \<Rightarrow> 'q \<Rightarrow> (bool \<times> 'q) res" and Dequeue :: "'q \<Rightarrow> (packet option \<times> 'q) res"
    and invar :: "'q \<Rightarrow> bool" and items :: "'q \<Rightarrow> packet list" and fits :: "packet \<Rightarrow> 'q \<Rightarrow> bool" and pkt_ok :: "packet \<Rightarrow> bool" +
  assumes pkt_size: "pkt_ok p \<Longrightarrow> length (p_bytes p) < 2 ^ 29"
begin

lemma world_okE:
  assumes "world_ok invar items pkt_ok w acc" "i < 2"
  shows "chan_ok (w_chan w)" "events_ok (w_now w) (w_events w)"
    "dir_ok invar items pkt_ok (is_corrupt (w_dev w (1 - i))) (pc_delay (w_chan w)) (w_now w) (w_dev w i)
        (tx_times i (w_events w)) (arrivals (1 - i) (w_events w)) (entries (1 - i) (w_rx w)) (entries i acc)"
    "dir_ok invar items pkt_ok (is_corrupt (w_dev w i)) (pc_delay (w_chan w)) (w_now w) (w_dev w (1 - i))
        (tx_times (1 - i) (w_events w)) (arrivals i (w_events w)) (entries i (w_rx w)) (entries (1 - i) acc)"
  using assms unfolding world_ok_def by (auto simp: less_2_cases_iff)

lemma world_okI:
  assumes "i < 2" "chan_ok (w_chan w)" "events_ok (w_now w) (w_events w)"
    "dir_ok invar items pkt_ok (is_corrupt (w_dev w (1 - i))) (pc_delay (w_chan w)) (w_now w) (w_dev w i)
        (tx_times i (w_events w)) (arrivals (1 - i) (w_events w)) (entries (1 - i) (w_rx w)) (entries i acc)"
    "dir_ok invar items pkt_ok (is_corrupt (w_dev w i)) (pc_delay (w_chan w)) (w_now w) (w_dev w (1 - i))
        (tx_times (1 - i) (w_events w)) (arrivals i (w_events w)) (entries i (w_rx w)) (entries (1 - i) acc)"
  shows "world_ok invar items pkt_ok w acc"
  using assms unfolding world_ok_def by (auto simp: less_2_cases_iff)

text \<open>The device \<open>i\<close> starts to transmit the packet that is next in line.\<close>

lemma start_keeps_ok:
  assumes W: "chan_ok (w_chan w)" "events_ok (w_now w) (w_events w)"
      "dir_ok invar items pkt_ok (is_corrupt (w_dev w i)) (pc_delay (w_chan w)) (w_now w) (w_dev w (1 - i))
        (tx_times (1 - i) (w_events w)) (arrivals i (w_events w)) (entries i (w_rx w)) (entries (1 - i) acc)"
    and i: "i < 2"
    and d: "pd_txMachineState d = READY" "pd_hasChannel d" "pd_linkUp d"
      "pd_receiveErrorModel d = pd_receiveErrorModel (w_dev w i)" "invar (pd_queue d)"
    and cfg: "0 < uint (pd_bps d)" "uint (pd_bps d) < 2 ^ 63" "0 \<le> pd_tInterframeGap d"
    and tc: "tx_times i (w_events w) = []" and ar: "\<forall>t\<in>fst ` set (arrivals (1 - i) (w_events w)). t \<le> w_now w + pc_delay (w_chan w)"
    and acc: "list_all (sendable pkt_ok) (entries i acc)"
      "entries i acc = pre @ post" "entries (1 - i) (w_rx w) = filter (\<lambda>x. \<not> is_corrupt (w_dev w (1 - i)) (framed x)) pre"
      "map framed post = map snd (arrivals (1 - i) (w_events w)) @ p # items (pd_queue d)"
  shows "\<exists>d' out w'. device_TransmitStart (w_chan w) i p d = Inr (True, d', out) \<and> world_set i d' out w = Inr w' \<and>
    world_ok invar items pkt_ok w' acc \<and> length (w_events w') = length (w_events w) + 2 \<and>
    pd_queue (w_dev w' i) = pd_queue d \<and> w_dev w' (1 - i) = w_dev w (1 - i)"
proof -
  have "p \<in> framed ` set post" by (metis acc(4) in_set_conv_decomp list.set_map)
  then have "p \<in> framed ` set (entries i acc)" using acc(2) by auto
  then have "pkt_ok p" using acc(1) by (auto simp: list_all_iff sendable_def)
  then have len: "length (p_bytes p) < 2 ^ 29" by (rule pkt_size)
  obtain d' out es' t where T: "device_TransmitStart (w_chan w) i p d = Inr (True, d', out)"
    "schedule (w_now w) out (w_events w) = Inr es'" "d' = d\<lparr>pd_txMachineState := BUSY, pd_currentPkt := Some p\<rparr>"
    "events_ok (w_now w) es'" "tx_times i es' = [w_now w + t + pd_tInterframeGap d]" "0 \<le> t"
    "arrivals (1 - i) es' = arrivals (1 - i) (w_events w) @ [(w_now w + t + pc_delay (w_chan w), p)]"
    "tx_times (1 - i) es' = tx_times (1 - i) (w_events w)" "arrivals i es' = arrivals i (w_events w)"
    "length es' = length (w_events w) + 2"
    by (rule transmit_start [OF W(1) i W(2) d(1,2) cfg len tc ar])
  let ?w = "w\<lparr>w_dev := (w_dev w)(i := d'), w_events := es'\<rparr>"
  have i1: "1 - i \<noteq> i" using i by (auto simp: less_2_cases_iff)
  have em: "is_corrupt d' = is_corrupt (w_dev w i)" using T(3) d(4) by (simp add: is_corrupt_def fun_eq_iff)
  have "dir_ok invar items pkt_ok (is_corrupt (w_dev w (1 - i))) (pc_delay (w_chan w)) (w_now w) d'
      (tx_times i es') (arrivals (1 - i) es') (entries (1 - i) (w_rx w)) (entries i acc)"
    unfolding dir_ok_def
  proof (intro conjI)
    show "\<exists>pre post. entries i acc = pre @ post \<and>
        entries (1 - i) (w_rx w) = filter (\<lambda>x. \<not> is_corrupt (w_dev w (1 - i)) (framed x)) pre \<and>
        map framed post = map snd (arrivals (1 - i) es') @ items (pd_queue d')"
      using acc(2-4) T(3,7) by (intro exI [of _ pre] exI [of _ post]) simp
    show "if pd_txMachineState d' = READY
      then pd_currentPkt d' = None \<and> items (pd_queue d') = [] \<and> tx_times i es' = [] \<and>
        (\<forall>t\<in>fst ` set (arrivals (1 - i) es'). t \<le> w_now w + pc_delay (w_chan w))
      else pd_currentPkt d' \<noteq> None \<and>
        (\<exists>t0. tx_times i es' = [t0] \<and> (\<forall>t\<in>fst ` set (arrivals (1 - i) es'). t \<le> t0 + pc_delay (w_chan w)))"
      using T(3,5,6,7) ar cfg(3) by fastforce
  qed (use T(3) d cfg acc(1) in auto)
  then have "world_ok invar items pkt_ok ?w acc"
    using W T(4,8,9) i1 em by (intro world_okI [OF i]) simp_all
  moreover have "world_set i d' out w = Inr ?w" using T(2) by (simp add: world_set_def)
  ultimately show ?thesis using T(1,3,10) i1 by auto
qed

definition backlog :: "'q p2p_world \<Rightarrow> nat" where
  "backlog w = length (w_events w) + 2 * (length (items (pd_queue (w_dev w 0))) + length (items (pd_queue (w_dev w 1))))"

lemma backlog_eq:
  "i < 2 \<Longrightarrow> backlog w = length (w_events w) + 2 * (length (items (pd_queue (w_dev w i))) + length (items (pd_queue (w_dev w (1 - i)))))"
  by (auto simp: backlog_def less_2_cases_iff)

lemma Send_keeps_ok:
  assumes w: "world_ok invar items pkt_ok w acc" and i: "i < 2" and p: "sendable pkt_ok (p, proto)"
  shows "\<exists>w'. world_Send Enqueue Dequeue i p proto w = Inr (fits (framed (p, proto)) (pd_queue (w_dev w i)), w') \<and>
    world_ok invar items pkt_ok w' (if fits (framed (p, proto)) (pd_queue (w_dev w i)) then acc @ [(i, p, proto)] else acc)"
proof -
  note W = world_okE [OF w i]
  let ?d = "w_dev w i" and ?f = "framed (p, proto)"
  have pr: "proto \<in> {0x0800, 0x86DD}" "pkt_ok ?f" using p by (auto simp: sendable_def)
  have D: "pd_hasChannel ?d" "pd_linkUp ?d" "invar (pd_queue ?d)" "list_all (sendable pkt_ok) (entries i acc)"
    and C: "0 < uint (pd_bps ?d)" "uint (pd_bps ?d) < 2 ^ 63" "0 \<le> pd_tInterframeGap ?d"
    using W(3) by (auto simp: dir_ok_def)
  have i1: "1 - i \<noteq> i" using i by (auto simp: less_2_cases_iff)
  obtain q1 where q1: "Enqueue ?f (pd_queue ?d) = Inr (fits ?f (pd_queue ?d), q1)" "invar q1"
    "items q1 = (if fits ?f (pd_queue ?d) then items (pd_queue ?d) @ [?f] else items (pd_queue ?d))"
    using Enqueue_law [OF D(3) pr(2)] by blast
  obtain pre post where pp: "entries i acc = pre @ post"
    "entries (1 - i) (w_rx w) = filter (\<lambda>x. \<not> is_corrupt (w_dev w (1 - i)) (framed x)) pre"
    "map framed post = map snd (arrivals (1 - i) (w_events w)) @ items (pd_queue ?d)"
    using W(3) by (auto simp: dir_ok_def)
  let ?acc = "acc @ [(i, p, proto)]"
  have E: "entries i ?acc = entries i acc @ [(p, proto)]" "entries (1 - i) ?acc = entries (1 - i) acc"
    using i1 by (auto simp: entries_def)
  have em: "is_corrupt (?d\<lparr>pd_queue := q1\<rparr>) = is_corrupt ?d" by (simp add: is_corrupt_def fun_eq_iff)
  let ?w = "w\<lparr>w_dev := (w_dev w)(i := ?d\<lparr>pd_queue := q1\<rparr>)\<rparr>"
  have set: "world_set i (?d\<lparr>pd_queue := q1\<rparr>) [] w = Inr ?w" by (simp add: world_set_def)
  show ?thesis
  proof (cases "fits ?f (pd_queue ?d)")
    case False
    have "dir_ok invar items pkt_ok (is_corrupt (w_dev w (1 - i))) (pc_delay (w_chan w)) (w_now w) (?d\<lparr>pd_queue := q1\<rparr>)
        (tx_times i (w_events w)) (arrivals (1 - i) (w_events w)) (entries (1 - i) (w_rx w)) (entries i acc)"
      using dir_ok_queue [OF W(3) q1(2)] q1(3) False by simp
    then have "world_ok invar items pkt_ok ?w acc"
      using W i1 em by (intro world_okI [OF i]) simp_all
    then show ?thesis
      using p2p_AddHeader_ok [OF pr(1), of p] D q1(1) False set by (auto simp: world_Send_def device_Send_def)
  next
    case fit: True
    show ?thesis
    proof (cases "pd_txMachineState ?d")
      case BUSY
      have "dir_ok invar items pkt_ok (is_corrupt (w_dev w (1 - i))) (pc_delay (w_chan w)) (w_now w) (?d\<lparr>pd_queue := q1\<rparr>)
          (tx_times i (w_events w)) (arrivals (1 - i) (w_events w)) (entries (1 - i) (w_rx w)) (entries i ?acc)"
        unfolding dir_ok_def
      proof (intro conjI)
        show "\<exists>pre post. entries i ?acc = pre @ post \<and>
            entries (1 - i) (w_rx w) = filter (\<lambda>x. \<not> is_corrupt (w_dev w (1 - i)) (framed x)) pre \<and>
            map framed post = map snd (arrivals (1 - i) (w_events w)) @ items (pd_queue (?d\<lparr>pd_queue := q1\<rparr>))"
          using pp q1(3) fit E by (intro exI [of _ pre] exI [of _ "post @ [(p, proto)]"]) simp
      qed (use W(3) q1 fit E p D BUSY in \<open>auto simp: dir_ok_def\<close>)
      then have "world_ok invar items pkt_ok ?w ?acc"
        using W i1 em E(2) by (intro world_okI [OF i]) simp_all
      then show ?thesis
        using p2p_AddHeader_ok [OF pr(1), of p] D q1(1) fit BUSY set by (auto simp: world_Send_def device_Send_def)
    next
      case READY
      then have R: "items (pd_queue ?d) = []" "tx_times i (w_events w) = []"
        "\<forall>t\<in>fst ` set (arrivals (1 - i) (w_events w)). t \<le> w_now w + pc_delay (w_chan w)"
        using W(3) by (auto simp: dir_ok_def)
      then obtain q2 where q2: "Dequeue q1 = Inr (Some ?f, q2)" "invar q2" "items q2 = []"
        using pass_through [OF D(3) R(1) pr(2) fit] q1(1) fit by auto
      have "\<exists>d' out w'. device_TransmitStart (w_chan w) i ?f (?d\<lparr>pd_queue := q2\<rparr>) = Inr (True, d', out) \<and>
          world_set i d' out w = Inr w' \<and> world_ok invar items pkt_ok w' ?acc \<and> length (w_events w') = length (w_events w) + 2 \<and>
          pd_queue (w_dev w' i) = pd_queue (?d\<lparr>pd_queue := q2\<rparr>) \<and> w_dev w' (1 - i) = w_dev w (1 - i)"
        using R READY D C E p pp q2 W
        by (intro start_keeps_ok [OF _ _ _ i, where pre = pre and post = "post @ [(p, proto)]"]) simp_all
      then show ?thesis
        using p2p_AddHeader_ok [OF pr(1), of p] D q1(1) fit READY q2(1) by (auto simp: world_Send_def device_Send_def)
    qed
  qed
qed

lemma TransmitComplete_keeps_ok:
  assumes w: "world_ok invar items pkt_ok w acc" and e: "w_events w = (t, Ev_TransmitComplete i) # es"
  shows "\<exists>w'. world_fire Dequeue w = Inr w' \<and> world_ok invar items pkt_ok w' acc \<and> backlog w' + 1 = backlog w"
proof -
  have i: "i < 2" using w e by (auto simp: world_ok_def events_ok_def)
  note W = world_okE [OF w i]
  let ?d = "w_dev w i" and ?w = "w\<lparr>w_now := t, w_events := es\<rparr>"
  have i1: "1 - i \<noteq> i" using i by (auto simp: less_2_cases_iff)
  have B: "pd_txMachineState ?d = BUSY" "pd_currentPkt ?d \<noteq> None" "tx_times i es = []"
    "\<forall>s\<in>fst ` set (arrivals (1 - i) es). s \<le> t + pc_delay (w_chan w)"
    using W(3) e by (auto simp: dir_ok_def split: if_splits; cases "pd_txMachineState ?d"; simp)+
  have D: "pd_hasChannel ?d" "pd_linkUp ?d" "invar (pd_queue ?d)" "list_all (sendable pkt_ok) (entries i acc)"
    and C: "0 < uint (pd_bps ?d)" "uint (pd_bps ?d) < 2 ^ 63" "0 \<le> pd_tInterframeGap ?d"
    using W(3) by (auto simp: dir_ok_def)
  have ev: "events_ok t es" "w_now w \<le> t" using W(2) e by (auto simp: events_ok_def)
  obtain pre post where pp: "entries i acc = pre @ post"
    "entries (1 - i) (w_rx w) = filter (\<lambda>x. \<not> is_corrupt (w_dev w (1 - i)) (framed x)) pre"
    "map framed post = map snd (arrivals (1 - i) es) @ items (pd_queue ?d)"
    using W(3) e by (auto simp: dir_ok_def)
  obtain q where q: "Dequeue (pd_queue ?d) = Inr (case items (pd_queue ?d) of [] \<Rightarrow> None | p # _ \<Rightarrow> Some p, q)" "invar q"
    "items q = tl (items (pd_queue ?d))"
    using Dequeue_law [OF D(3)] by blast
  let ?d1 = "?d\<lparr>pd_txMachineState := READY, pd_currentPkt := None, pd_queue := q\<rparr>"
  have em: "is_corrupt ?d1 = is_corrupt ?d" by (simp add: is_corrupt_def fun_eq_iff)
  have other: "dir_ok invar items pkt_ok (is_corrupt ?d) (pc_delay (w_chan w)) t (w_dev w (1 - i))
        (tx_times (1 - i) es) (arrivals i es) (entries i (w_rx w)) (entries (1 - i) acc)"
    using dir_ok_later [OF W(4) ev(2)] e i1 by simp
  show ?thesis
  proof (cases "items (pd_queue ?d)")
    case Nil
    let ?w1 = "?w\<lparr>w_dev := (w_dev w)(i := ?d1)\<rparr>"
    have "dir_ok invar items pkt_ok (is_corrupt (w_dev w (1 - i))) (pc_delay (w_chan w)) t ?d1
        (tx_times i es) (arrivals (1 - i) es) (entries (1 - i) (w_rx w)) (entries i acc)"
      using W(3) B D pp q Nil unfolding dir_ok_def by auto
    then have "world_ok invar items pkt_ok ?w1 acc"
      using W(1) ev other i1 em by (intro world_okI [OF i]) simp_all
    moreover have "world_fire Dequeue w = Inr ?w1"
      using e q(1) Nil B by (simp add: world_fire_def device_TransmitComplete_def world_set_def Let_def)
    moreover have "backlog ?w1 + 1 = backlog w"
      using e q(3) Nil i1 by (simp add: backlog_eq [OF i])
    ultimately show ?thesis by blast
  next
    case (Cons p ps)
    have "\<exists>d' out w'. device_TransmitStart (w_chan ?w) i p ?d1 = Inr (True, d', out) \<and>
        world_set i d' out ?w = Inr w' \<and> world_ok invar items pkt_ok w' acc \<and> length (w_events w') = length (w_events ?w) + 2 \<and>
        pd_queue (w_dev w' i) = pd_queue ?d1 \<and> w_dev w' (1 - i) = w_dev ?w (1 - i)"
      using W(1) ev other B D C pp q Cons
      by (intro start_keeps_ok [OF _ _ _ i, where pre = pre and post = post]) simp_all
    then obtain d' out w' where T: "device_TransmitStart (w_chan w) i p ?d1 = Inr (True, d', out)"
      "world_set i d' out ?w = Inr w'" "world_ok invar items pkt_ok w' acc" "length (w_events w') = length es + 2"
      "pd_queue (w_dev w' i) = q" "w_dev w' (1 - i) = w_dev w (1 - i)"
      by auto
    have "world_fire Dequeue w = Inr w'"
      using e q(1) Cons B T(1,2) by (simp add: world_fire_def device_TransmitComplete_def Let_def)
    moreover have "backlog w' + 1 = backlog w"
      using e q(3) Cons T(4-6) by (simp add: backlog_eq [OF i])
    ultimately show ?thesis using T(3) by blast
  qed
qed

lemma Receive_keeps_ok:
  assumes w: "world_ok invar items pkt_ok w acc" and e: "w_events w = (t, Ev_Receive j p) # es"
  shows "\<exists>w'. world_fire Dequeue w = Inr w' \<and> world_ok invar items pkt_ok w' acc \<and> backlog w' + 1 = backlog w"
proof -
  have j: "j < 2" using w e by (auto simp: world_ok_def events_ok_def)
  then have i: "1 - j < 2" "1 - (1 - j) = j" by auto
  note W = world_okE [OF w i(1), unfolded i(2)]
  let ?i = "1 - j" and ?d = "w_dev w j"
  let ?d' = "w_dev w ?i"
  have ij: "?i \<noteq> j" using j by (auto simp: less_2_cases_iff)
  have ev: "events_ok t es" "w_now w \<le> t" using W(2) e by (auto simp: events_ok_def)
  obtain pre post where pp: "entries ?i acc = pre @ post" "entries j (w_rx w) = filter (\<lambda>x. \<not> is_corrupt ?d (framed x)) pre"
    "map framed post = p # map snd (arrivals j es) @ items (pd_queue ?d')"
    using W(3) e by (auto simp: dir_ok_def)
  then obtain x post' where x: "post = x # post'" "p = framed x" by (cases post) auto
  have "sendable pkt_ok x" using W(3) pp(1) x by (auto simp: dir_ok_def)
  then have ph: "p2p_ProcessHeader p = Inr x"
    using p2p_ProcessHeader_ok [of "snd x" "fst x"] x(2) by (simp add: sendable_def)
  have gr: "\<exists>r. device_GetRemote (w_chan w) j = Inr r"
    using W(1) j by (auto simp: device_GetRemote_def chan_ok_def less_2_cases_iff)
  let ?rx = "if is_corrupt ?d p then w_rx w else w_rx w @ [(j, x)]"
  let ?w = "w\<lparr>w_now := t, w_events := es, w_rx := ?rx\<rparr>"
  have fire: "world_fire Dequeue w = Inr ?w"
    using e ph gr by (auto simp: world_fire_def device_Receive_def)
  have rx: "entries j ?rx = filter (\<lambda>x. \<not> is_corrupt ?d (framed x)) (pre @ [x])" "entries ?i ?rx = entries ?i (w_rx w)"
    using pp(2) x(2) ij by (auto simp: entries_def)
  have "dir_ok invar items pkt_ok (is_corrupt ?d) (pc_delay (w_chan w)) t ?d'
        (tx_times ?i es) (arrivals j es) (entries j ?rx) (entries ?i acc)"
    unfolding dir_ok_def
  proof (intro conjI)
    show "\<exists>pre post. entries ?i acc = pre @ post \<and> entries j ?rx = filter (\<lambda>x. \<not> is_corrupt ?d (framed x)) pre \<and>
        map framed post = map snd (arrivals j es) @ items (pd_queue ?d')"
      using pp(1,3) x rx(1) by (intro exI [of _ "pre @ [x]"] exI [of _ post']) simp
    show "if pd_txMachineState ?d' = READY
      then pd_currentPkt ?d' = None \<and> items (pd_queue ?d') = [] \<and> tx_times ?i es = [] \<and>
        (\<forall>s\<in>fst ` set (arrivals j es). s \<le> t + pc_delay (w_chan w))
      else pd_currentPkt ?d' \<noteq> None \<and>
        (\<exists>t0. tx_times ?i es = [t0] \<and> (\<forall>s\<in>fst ` set (arrivals j es). s \<le> t0 + pc_delay (w_chan w)))"
      using dir_ok_later [OF W(3) ev(2)] e unfolding dir_ok_def by (auto split: if_splits)
  qed (use W(3) in \<open>auto simp: dir_ok_def\<close>)
  moreover have "dir_ok invar items pkt_ok (is_corrupt ?d') (pc_delay (w_chan w)) t ?d
        (tx_times j es) (arrivals ?i es) (entries ?i ?rx) (entries j acc)"
    using dir_ok_later [OF W(4) ev(2)] e rx(2) ij by simp
  ultimately have "world_ok invar items pkt_ok ?w acc"
    using W(1) ev by (intro world_okI [OF i(1), unfolded i(2)]) simp_all
  moreover have "backlog ?w + 1 = backlog w" using e by (simp add: backlog_def)
  ultimately show ?thesis using fire by blast
qed

lemma fire_keeps_ok:
  assumes "world_ok invar items pkt_ok w acc"
  shows "\<exists>w'. world_fire Dequeue w = Inr w' \<and> world_ok invar items pkt_ok w' acc \<and> backlog w' = backlog w - (if w_events w = [] then 0 else 1)"
proof (cases "w_events w")
  case Nil
  then show ?thesis using assms by (simp add: world_fire_def)
next
  case (Cons x es)
  obtain t e where "x = (t, e)" by fastforce
  then show ?thesis
    using TransmitComplete_keeps_ok [OF assms] Receive_keeps_ok [OF assms] Cons by (cases e) fastforce+
qed

lemma reach_ok:
  assumes "p2p_reach Enqueue Dequeue pkt_ok w0 w acc" "world_ok invar items pkt_ok w0 []"
  shows "world_ok invar items pkt_ok w acc"
  using assms
proof (induction rule: p2p_reach.induct)
  case (send w acc i p proto ok w')
  then show ?case using Send_keeps_ok [of w acc i p proto] by auto
next
  case (fire w acc w')
  then show ?case using fire_keeps_ok [of w acc] by auto
qed simp

lemma quiet_delivered:
  assumes "world_ok invar items pkt_ok w acc" "w_events w = []" "i < 2"
  shows "pd_txMachineState (w_dev w i) = READY" "items (pd_queue (w_dev w i)) = []"
    "entries (1 - i) (w_rx w) = filter (\<lambda>x. \<not> is_corrupt (w_dev w (1 - i)) (framed x)) (entries i acc)"
  using world_okE(3) [OF assms(1,3)] assms(2) by (auto simp: dir_ok_def split: if_splits)

lemma run_delivers:
  assumes "world_ok invar items pkt_ok w acc" "backlog w \<le> n"
  shows "\<exists>w'. world_run Dequeue n w = Inr w' \<and> world_ok invar items pkt_ok w' acc \<and> w_events w' = []"
  using assms
proof (induction n arbitrary: w)
  case 0
  then show ?case by (simp add: backlog_def)
next
  case (Suc n)
  obtain w' where "world_fire Dequeue w = Inr w'" "world_ok invar items pkt_ok w' acc"
    "backlog w' = backlog w - (if w_events w = [] then 0 else 1)"
    using fire_keeps_ok [OF Suc.prems(1)] by blast
  moreover have "backlog w' \<le> n"
  proof (cases "w_events w = []")
    case True
    then show ?thesis
      using quiet_delivered(2) [OF Suc.prems(1) True] calculation(3) by (simp add: backlog_def)
  next
    case False
    then show ?thesis using calculation(3) Suc.prems(2) by simp
  qed
  ultimately show ?case using Suc.IH [of w'] by auto
qed

end

section \<open>Error models stay\<close>

lemma TransmitStart_model:
  "device_TransmitStart ch i p d = Inr (ok, d', out) \<Longrightarrow> pd_receiveErrorModel d' = pd_receiveErrorModel d"
  by (auto simp: device_TransmitStart_def Let_def split: if_splits elim!: bind_res_eq_InrE)

lemma TransmitComplete_model:
  "device_TransmitComplete deq ch i d = Inr (d', out) \<Longrightarrow> pd_receiveErrorModel d' = pd_receiveErrorModel d"
  by (auto simp: device_TransmitComplete_def Let_def split: if_splits option.splits elim!: bind_res_eq_InrE
      dest!: TransmitStart_model)

lemma Send_model:
  "device_Send enq deq ch i p proto d = Inr (ok, d', out) \<Longrightarrow> pd_receiveErrorModel d' = pd_receiveErrorModel d"
  by (auto simp: device_Send_def Let_def split: if_splits option.splits elim!: bind_res_eq_InrE dest!: TransmitStart_model)

lemma world_set_model:
  "world_set i d out w = Inr w' \<Longrightarrow> pd_receiveErrorModel d = pd_receiveErrorModel (w_dev w i) \<Longrightarrow>
   pd_receiveErrorModel (w_dev w' j) = pd_receiveErrorModel (w_dev w j)"
  by (auto simp: world_set_def elim!: bind_res_eq_InrE)

lemma world_fire_model:
  "world_fire deq w = Inr w' \<Longrightarrow> pd_receiveErrorModel (w_dev w' j) = pd_receiveErrorModel (w_dev w j)"
  by (auto simp: world_fire_def Let_def split: list.splits p2p_event.splits option.splits elim!: bind_res_eq_InrE
      dest!: TransmitComplete_model world_set_model [of _ _ _ _ _ j])

lemma world_run_model:
  "world_run deq n w = Inr w' \<Longrightarrow> pd_receiveErrorModel (w_dev w' j) = pd_receiveErrorModel (w_dev w j)"
  by (induction n arbitrary: w) (auto elim!: bind_res_eq_InrE dest!: world_fire_model [of _ _ _ j])

lemma reach_model:
  "p2p_reach enq deq pkt_ok w0 w acc \<Longrightarrow> pd_receiveErrorModel (w_dev w j) = pd_receiveErrorModel (w_dev w0 j)"
proof (induction rule: p2p_reach.induct)
  case (send w acc i p proto ok w')
  then show ?case
    by (auto simp: world_Send_def elim!: bind_res_eq_InrE dest!: Send_model world_set_model [of _ _ _ _ _ j])
qed (auto dest!: world_fire_model [of _ _ _ j])

lemma is_corrupt_cong: "pd_receiveErrorModel d = pd_receiveErrorModel d' \<Longrightarrow> is_corrupt d = is_corrupt d'"
  by (simp add: is_corrupt_def fun_eq_iff)

section \<open>The link over tail-drop queues\<close>

interpretation drop_tail_link: p2p_link dt_Enqueue dt_Dequeue dt_invar q_packets dt_fits small_packet
  by unfold_locales (auto simp: small_packet_def)

definition device_config :: "pqueue p2p_device \<Rightarrow> bool" where
  "device_config d \<longleftrightarrow> pd_txMachineState d = READY \<and> pd_currentPkt d = None \<and> 0 < uint (pd_bps d) \<and> uint (pd_bps d) < 2 ^ 63 \<and>
     0 \<le> pd_tInterframeGap d \<and> dt_invar (pd_queue d) \<and> q_packets (pd_queue d) = []"

lemma link_setup_ok:
  assumes "device_config a" "device_config b" "0 \<le> delay"
  shows "\<exists>w. link_setup a b delay = Inr w \<and> world_ok dt_invar q_packets small_packet w []"
  using assms
  by (auto simp: link_setup_def device_Attach_def channel_Attach_def PointToPointChannel_def Let_def world_ok_def
      chan_ok_def events_ok_def dir_ok_def device_config_def entries_def less_2_cases_iff numeral_2_eq_2)


definition demo_device :: "pqueue p2p_device" where
  "demo_device = PointToPointNetDevice 1000000000 0 demo_queue None"

lemma demo_device_config: "device_config demo_device"
  using demo_queue_invar by (simp add: device_config_def demo_device_def PointToPointNetDevice_def demo_queue_def QueueBase_def)

lemma demo_sendable: "sendable small_packet (demo_packet n, 0x0800)"
  by (simp add: sendable_def small_packet_def framed_def demo_packet_def)

lemma demo_fits: "dt_fits p demo_queue"
  by (simp add: dt_fits_def spec_fits_def demo_queue_def QueueBase_def QueueSize_def)

text \<open>A run of two sends over the demonstration link.\<close>

lemma demo_link_run:
  "\<exists>w0 w. link_setup demo_device demo_device 300 = Inr w0 \<and>
    p2p_reach dt_Enqueue dt_Dequeue small_packet w0 w [(0, demo_packet 1, 0x0800)] \<and> (\<forall>i<2. pd_receiveErrorModel (w_dev w0 i) = None)"
proof -
  obtain w0 where w0: "link_setup demo_device demo_device 300 = Inr w0" "world_ok dt_invar q_packets small_packet w0 []"
    using link_setup_ok [OF demo_device_config demo_device_config, of 300] by auto
  have d: "pd_queue (w_dev w0 i) = demo_queue" "pd_receiveErrorModel (w_dev w0 i) = None" for i
    using w0(1) by (auto simp: link_setup_def device_Attach_def channel_Attach_def PointToPointChannel_def Let_def
        demo_device_def PointToPointNetDevice_def)
  obtain w where "world_Send dt_Enqueue dt_Dequeue 0 (demo_packet 1) 0x0800 w0 = Inr (True, w)"
    using drop_tail_link.Send_keeps_ok [OF w0(2) _ demo_sendable, of 0 1] demo_fits d(1) by auto
  from p2p_reach.send [OF p2p_reach.start _ demo_sendable this]
  have "p2p_reach dt_Enqueue dt_Dequeue small_packet w0 w [(0, demo_packet 1, 0x0800)]" by simp
  then show ?thesis using w0(1) d(2) by auto
qed


text \<open>
  C4: the link delivers everything it accepts, in order and exactly once. From any state that sends and events can lead
  to, executing as many events as are pending, and two for each packet still queued, ends with no event pending and both
  transmitters idle, and each device has then received exactly the packets its peer's \<^verbatim>\<open>Send\<close> accepted, in that order,
  with their contents and protocol numbers, less those its receive error model marks as corrupt.
\<close>

theorem link_delivers_in_order:
  assumes "device_config a" "device_config b" "0 \<le> delay" "link_setup a b delay = Inr w0"
    "p2p_reach dt_Enqueue dt_Dequeue small_packet w0 w acc"
    "n = length (w_events w) + 2 * (length (q_packets (pd_queue (w_dev w 0))) + length (q_packets (pd_queue (w_dev w 1))))"
  shows "\<exists>w'. world_run dt_Dequeue n w = Inr w' \<and> w_events w' = [] \<and>
    (\<forall>i<2. pd_txMachineState (w_dev w' i) = READY \<and> q_packets (pd_queue (w_dev w' i)) = [] \<and>
      entries (1 - i) (w_rx w') = filter (\<lambda>x. \<not> is_corrupt (w_dev w0 (1 - i)) (framed x)) (entries i acc))"
proof -
  have ok: "world_ok dt_invar q_packets small_packet w acc"
    using link_setup_ok [OF assms(1-3)] drop_tail_link.reach_ok [OF assms(5)] assms(4) by auto
  have "drop_tail_link.backlog w \<le> n" using assms(6) by (simp add: drop_tail_link.backlog_def)
  then obtain w' where w': "world_run dt_Dequeue n w = Inr w'" "world_ok dt_invar q_packets small_packet w' acc" "w_events w' = []"
    using drop_tail_link.run_delivers [OF ok] by blast
  have "is_corrupt (w_dev w' j) = is_corrupt (w_dev w0 j)" for j
    using world_run_model [OF w'(1)] reach_model [OF assms(5)] by (intro is_corrupt_cong) simp
  then show ?thesis
    using w'(1,3) drop_tail_link.quiet_delivered [OF w'(2,3)] by auto
qed

theorem link_delivers_in_order_witness:
  "\<exists>w n w'. p2p_reach dt_Enqueue dt_Dequeue small_packet (projr (link_setup demo_device demo_device 300)) w [(0, demo_packet 1, 0x0800)] \<and>
    world_run dt_Dequeue n w = Inr w' \<and> w_events w' = [] \<and> entries 1 (w_rx w') = [(demo_packet 1, 0x0800)]"
proof -
  obtain w0 w where w: "link_setup demo_device demo_device 300 = Inr w0"
    "p2p_reach dt_Enqueue dt_Dequeue small_packet w0 w [(0, demo_packet 1, 0x0800)]"
    "\<forall>i<2. pd_receiveErrorModel (w_dev w0 i) = None"
    using demo_link_run by blast
  obtain n where n: "n = length (w_events w) + 2 * (length (q_packets (pd_queue (w_dev w 0))) + length (q_packets (pd_queue (w_dev w 1))))"
    by blast
  obtain w' where w': "world_run dt_Dequeue n w = Inr w'" "w_events w' = []"
    and d: "\<And>i. i < 2 \<Longrightarrow> entries (1 - i) (w_rx w') =
      filter (\<lambda>x. \<not> is_corrupt (w_dev w0 (1 - i)) (framed x)) (entries i [(0, demo_packet 1, 0x0800)])"
    using link_delivers_in_order [OF demo_device_config demo_device_config _ w(1,2) n] by auto
  have "is_corrupt (w_dev w0 1) x = False" for x using w(3) by (simp add: is_corrupt_def)
  then have "entries 1 (w_rx w') = [(demo_packet 1, 0x0800)]" using d [of 0] by (simp add: entries_def)
  then show ?thesis using w(1,2) w' by auto
qed

end
