(* ===== verification/Ipv4_Header.thy ===== *)
theory Ipv4_Header
  imports Buffer_Iterator
begin

text \<open>
  \<^verbatim>\<open>src/src/internet/model/ipv4-header.cc\<close>: the IPv4 header, its setters and its wire format, written and read
  through \<open>Buffer_Iterator\<close>. \<^verbatim>\<open>m_flags\<close> is a bit field of three bits.
\<close>

section \<open>The header\<close>

record ipv4_header =
  ih_calcChecksum :: bool
  ih_payloadSize :: u16
  ih_identification :: u16
  ih_tos :: u8
  ih_ttl :: u8
  ih_protocol :: u8
  ih_flags :: "3 word"
  ih_fragmentOffset :: u16
  ih_source :: u32
  ih_destination :: u32
  ih_checksum :: u16
  ih_goodChecksum :: bool
  ih_headerSize :: u16

definition DONT_FRAGMENT :: "3 word" where
  "DONT_FRAGMENT = 1"

definition MORE_FRAGMENTS :: "3 word" where
  "MORE_FRAGMENTS = 2"

text \<open>A default \<^verbatim>\<open>Ipv4Address\<close> is \<^verbatim>\<open>102.102.102.102\<close>, the value \<^verbatim>\<open>0x66666666\<close>.\<close>

definition Ipv4Header :: ipv4_header where
  "Ipv4Header = \<lparr>ih_calcChecksum = False, ih_payloadSize = 0, ih_identification = 0, ih_tos = 0, ih_ttl = 0,
     ih_protocol = 0, ih_flags = 0, ih_fragmentOffset = 0, ih_source = 0x66666666, ih_destination = 0x66666666,
     ih_checksum = 0, ih_goodChecksum = True, ih_headerSize = 5 * 4\<rparr>"

definition EnableChecksum :: "ipv4_header \<Rightarrow> ipv4_header" where
  "EnableChecksum h = h\<lparr>ih_calcChecksum := True\<rparr>"

definition SetDscp :: "u8 \<Rightarrow> ipv4_header \<Rightarrow> ipv4_header" where
  "SetDscp dscp h = h\<lparr>ih_tos := (ih_tos h AND 0x3) OR push_bit 2 dscp\<rparr>"

definition SetEcn :: "u8 \<Rightarrow> ipv4_header \<Rightarrow> ipv4_header" where
  "SetEcn ecn h = h\<lparr>ih_tos := (ih_tos h AND 0xFC) OR ecn\<rparr>"

definition GetDscp :: "ipv4_header \<Rightarrow> u8" where
  "GetDscp h = drop_bit 2 (ih_tos h AND 0xFC)"

definition GetEcn :: "ipv4_header \<Rightarrow> u8" where
  "GetEcn h = ih_tos h AND 0x3"

definition SetMoreFragments :: "ipv4_header \<Rightarrow> ipv4_header" where
  "SetMoreFragments h = h\<lparr>ih_flags := ih_flags h OR MORE_FRAGMENTS\<rparr>"

definition SetLastFragment :: "ipv4_header \<Rightarrow> ipv4_header" where
  "SetLastFragment h = h\<lparr>ih_flags := ih_flags h AND NOT MORE_FRAGMENTS\<rparr>"

definition IsLastFragment :: "ipv4_header \<Rightarrow> bool" where
  "IsLastFragment h \<longleftrightarrow> ih_flags h AND MORE_FRAGMENTS = 0"

definition SetDontFragment :: "ipv4_header \<Rightarrow> ipv4_header" where
  "SetDontFragment h = h\<lparr>ih_flags := ih_flags h OR DONT_FRAGMENT\<rparr>"

definition SetMayFragment :: "ipv4_header \<Rightarrow> ipv4_header" where
  "SetMayFragment h = h\<lparr>ih_flags := ih_flags h AND NOT DONT_FRAGMENT\<rparr>"

definition IsDontFragment :: "ipv4_header \<Rightarrow> bool" where
  "IsDontFragment h \<longleftrightarrow> ih_flags h AND DONT_FRAGMENT \<noteq> 0"

definition SetFragmentOffset :: "u16 \<Rightarrow> ipv4_header \<Rightarrow> ipv4_header res" where
  "SetFragmentOffset offsetBytes h =
     (if offsetBytes AND 0x7 \<noteq> 0 then Inl Fatal_Error else Inr (h\<lparr>ih_fragmentOffset := offsetBytes\<rparr>))"

section \<open>The wire format\<close>

definition ipv4_flagsFrag :: "ipv4_header \<Rightarrow> u8" where
  "ipv4_flagsFrag h =
     (let fragmentOffset = ucast (ih_fragmentOffset h div 8) :: u32;
          flagsFrag = ucast (drop_bit 8 fragmentOffset AND 0x1f) :: u8;
          flagsFrag = (if ih_flags h AND DONT_FRAGMENT \<noteq> 0 then flagsFrag OR push_bit 6 1 else flagsFrag)
      in if ih_flags h AND MORE_FRAGMENTS \<noteq> 0 then flagsFrag OR push_bit 5 1 else flagsFrag)"

definition ipv4_Serialize :: "ipv4_header \<Rightarrow> write_op" where
  "ipv4_Serialize h start =
     bind_res (do_all
       [WriteU8 (push_bit 4 4 OR 5), WriteU8 (ih_tos h), WriteHtonU16 (ih_payloadSize h + 5 * 4),
        WriteHtonU16 (ih_identification h), WriteU8 (ipv4_flagsFrag h),
        WriteU8 (ucast ((ucast (ih_fragmentOffset h div 8) :: u32) AND 0xff)),
        WriteU8 (ih_ttl h), WriteU8 (ih_protocol h), WriteHtonU16 0,
        WriteHtonU32 (ih_source h), WriteHtonU32 (ih_destination h)] start) (\<lambda>i.
     if ih_calcChecksum h
     then bind_res (CalculateIpChecksum 20 0 (rewind start i)) (\<lambda>(checksum, i).
            do_all [it_Next 10, WriteU16 checksum] (rewind start i))
     else Inr i)"

definition ipv4_Deserialize :: "ipv4_header \<Rightarrow> iterator \<Rightarrow> (nat \<times> ipv4_header) res" where
  "ipv4_Deserialize h start =
     bind_res (ReadU8 start) (\<lambda>(verIhl, i).
     let ihl = verIhl AND 0x0f;
         headerSize = (ucast ihl :: u16) * 4
     in if drop_bit 4 verIhl \<noteq> 4 then Inr (0, h)
        else
          bind_res (ReadU8 i) (\<lambda>(tos, i).
          bind_res (ReadNtohU16 i) (\<lambda>(sz, i).
          bind_res (ReadNtohU16 i) (\<lambda>(identification, i).
          bind_res (ReadU8 i) (\<lambda>(flags, i).
          let fl = (if flags AND push_bit 6 1 \<noteq> 0 then 0 OR DONT_FRAGMENT else 0);
              fl = (if flags AND push_bit 5 1 \<noteq> 0 then fl OR MORE_FRAGMENTS else fl)
          in
          bind_res (it_Prev 1 i) (\<lambda>i.
          bind_res (ReadU8 i) (\<lambda>(b0, i).
          bind_res (ReadU8 i) (\<lambda>(b1, i).
          let fo = push_bit 3 (push_bit 8 (ucast (b0 AND 0x1f)) OR ucast b1) :: u16
          in
          bind_res (ReadU8 i) (\<lambda>(ttl, i).
          bind_res (ReadU8 i) (\<lambda>(protocol, i).
          bind_res (ReadU16 i) (\<lambda>(checksum, i).
          bind_res (ReadNtohU32 i) (\<lambda>(source, i).
          bind_res (ReadNtohU32 i) (\<lambda>(destination, i).
          let h = h\<lparr>ih_tos := tos, ih_payloadSize := sz - headerSize, ih_identification := identification,
                    ih_flags := fl, ih_fragmentOffset := fo, ih_ttl := ttl, ih_protocol := protocol,
                    ih_checksum := checksum, ih_source := source, ih_destination := destination,
                    ih_headerSize := headerSize\<rparr>
          in if ih_calcChecksum h
             then bind_res (CalculateIpChecksum (unat headerSize) 0 start) (\<lambda>(checksum, _).
                    Inr (unat (ih_headerSize h), h\<lparr>ih_goodChecksum := (checksum = 0)\<rparr>))
             else Inr (unat (ih_headerSize h), h))))))))))))))"

section \<open>Bytes on the wire\<close>

definition ipv4_bytes :: "ipv4_header \<Rightarrow> u16 \<Rightarrow> u8 list" where
  "ipv4_bytes h c =
     [0x45, ih_tos h, byte 8 (ih_payloadSize h + 20), byte 0 (ih_payloadSize h + 20),
      byte 8 (ih_identification h), byte 0 (ih_identification h), ipv4_flagsFrag h,
      ucast ((ucast (ih_fragmentOffset h div 8) :: u32) AND 0xff), ih_ttl h, ih_protocol h, byte 0 c, byte 8 c,
      byte 24 (ih_source h), byte 16 (ih_source h), byte 8 (ih_source h), byte 0 (ih_source h),
      byte 24 (ih_destination h), byte 16 (ih_destination h), byte 8 (ih_destination h), byte 0 (ih_destination h)]"

lemma length_ipv4_bytes: "length (ipv4_bytes h c) = 20"
  by (simp add: ipv4_bytes_def)

lemma writes_ipv4:
  "writes (do_all
       [WriteU8 (push_bit 4 4 OR 5), WriteU8 (ih_tos h), WriteHtonU16 (ih_payloadSize h + 5 * 4),
        WriteHtonU16 (ih_identification h), WriteU8 (ipv4_flagsFrag h),
        WriteU8 (ucast ((ucast (ih_fragmentOffset h div 8) :: u32) AND 0xff)),
        WriteU8 (ih_ttl h), WriteU8 (ih_protocol h), WriteHtonU16 0,
        WriteHtonU32 (ih_source h), WriteHtonU32 (ih_destination h)]) (ipv4_bytes h 0)"
  unfolding ipv4_bytes_def
  by (rule writes_seq [of _ "[[0x45], [ih_tos h], [byte 8 (ih_payloadSize h + 20), byte 0 (ih_payloadSize h + 20)],
      [byte 8 (ih_identification h), byte 0 (ih_identification h)], [ipv4_flagsFrag h],
      [ucast ((ucast (ih_fragmentOffset h div 8) :: u32) AND 0xff)], [ih_ttl h], [ih_protocol h], [0, 0],
      [byte 24 (ih_source h), byte 16 (ih_source h), byte 8 (ih_source h), byte 0 (ih_source h)],
      [byte 24 (ih_destination h), byte 16 (ih_destination h), byte 8 (ih_destination h), byte 0 (ih_destination h)]]"])
    (use writes_U8 [of "0x45"] writes_HtonU16 [of 0] writes_HtonU16 [of "ih_payloadSize h + 20"] in \<open>simp_all add: write_intros\<close>)

lemma unat_bytes16: "unat (byte 0 c) + 256 * unat (byte 8 c) = unat (c :: u16)"
  using unat_join_le [of "byte 8 c" "byte 0 c"] by simp

lemma le_sum_ipv4: "le_sum (ipv4_bytes h c) = le_sum (ipv4_bytes h 0) + unat c"
  using unat_bytes16 [of c] by (simp add: ipv4_bytes_def)

lemma ipv4_Serialize_ok:
  assumes "room 20 start"
  shows "\<exists>i c. ipv4_Serialize h start = Inr i \<and> holds (rewind start i) (ipv4_bytes h c) \<and>
    (ih_calcChecksum h \<longrightarrow> fold16 (le_sum (ipv4_bytes h c)) = 65535)"
proof -
  let ?b = "ipv4_bytes h 0"
  let ?i = "put_bytes ?b start"
  let ?r = "rewind start ?i"
  note r = assms [folded length_ipv4_bytes [of h 0]]
  note w = writesD [OF writes_ipv4 r]
  have h: "holds ?r ?b" by (rule holds_put [OF r])
  show ?thesis
  proof (cases "ih_calcChecksum h")
    case False
    then show ?thesis using w h by (auto simp: ipv4_Serialize_def)
  next
    case True
    have "it_ok ?r" "m_current ?r + 2 * 10 \<le> m_dataEnd ?r" "get_bytes (2 * 10) ?r = ?b"
      using h by (auto simp: holds_def length_ipv4_bytes)
    then obtain c where c: "CalculateIpChecksum 20 0 ?r = Inr (c, advance 20 ?r)" "unat c = 65535 - fold16 (le_sum ?b)"
      using CalculateIpChecksum_ok [of ?r 10 0] by auto
    have rm: "room (length ?b) ?r" using room_rewind [OF assms] by (simp add: length_ipv4_bytes)
    have rr: "rewind start (advance 20 ?r) = ?r" by (simp add: rewind_def advance_def)
    have "room (length [byte 0 c, byte 8 c]) (advance 10 ?r)"
      using room_within [OF rm, of 10 2] by (simp add: length_ipv4_bytes numeral_2_eq_2)
    then have wc: "WriteU16 c (advance 10 ?r) = Inr (put_bytes [byte 0 c, byte 8 c] (advance 10 ?r))"
      by (rule writesD [OF writes_U16])
    have nx: "it_Next 10 ?r = Inr (advance 10 ?r)"
      using h by (auto simp: it_Next_def holds_def length_ipv4_bytes)
    have "holds (rewind ?r (put_bytes [byte 0 c, byte 8 c] (advance 10 ?r))) (ipv4_bytes h c)"
      using holds_overwrite [OF h rm, of 10 "[byte 0 c, byte 8 c]"]
      by (simp add: ipv4_bytes_def del: put_bytes.simps)
    then have "holds (rewind start (put_bytes [byte 0 c, byte 8 c] (advance 10 ?r))) (ipv4_bytes h c)"
      by (simp add: rewind_def del: put_bytes.simps)
    moreover have "fold16 (le_sum (ipv4_bytes h c)) = 65535"
      using checksum_completes [OF c(2)] by (simp add: le_sum_ipv4 [of h c])
    moreover have "ipv4_Serialize h start = Inr (put_bytes [byte 0 c, byte 8 c] (advance 10 ?r))"
      using w True c(1) rr nx wc by (simp add: ipv4_Serialize_def del: put_bytes.simps)
    ultimately show ?thesis by blast
  qed
qed

text \<open>What the reader makes of any twenty bytes that start with version 4 and length 5.\<close>

definition ipv4_decode :: "u8 list \<Rightarrow> ipv4_header \<Rightarrow> ipv4_header" where
  "ipv4_decode xs h =
     (let h = h\<lparr>ih_tos := xs ! 1, ih_payloadSize := join_be [xs ! 2, xs ! 3] - 20,
                ih_identification := join_be [xs ! 4, xs ! 5],
                ih_flags := (if xs ! 6 AND push_bit 6 1 \<noteq> 0 then 1 else 0) OR (if xs ! 6 AND push_bit 5 1 \<noteq> 0 then 2 else 0),
                ih_fragmentOffset := push_bit 3 (push_bit 8 (ucast (xs ! 6 AND 0x1f)) OR ucast (xs ! 7)),
                ih_ttl := xs ! 8, ih_protocol := xs ! 9, ih_checksum := join_be [xs ! 11, xs ! 10],
                ih_source := join_be [xs ! 12, xs ! 13, xs ! 14, xs ! 15],
                ih_destination := join_be [xs ! 16, xs ! 17, xs ! 18, xs ! 19], ih_headerSize := 20\<rparr>
      in if ih_calcChecksum h then h\<lparr>ih_goodChecksum := (fold16 (le_sum xs) = 65535)\<rparr> else h)"

lemma ipv4_Deserialize_ok:
  assumes "holds it xs" "length xs = 20" "xs ! 0 = 0x45"
  shows "ipv4_Deserialize h it = Inr (20, ipv4_decode xs h)"
proof -
  note u8 = read_at(1) [OF assms(1)] and u16 = read_at(2) [OF assms(1)]
    and n16 = read_at(3) [OF assms(1)] and n32 = read_at(4) [OF assms(1)]
  have r: "ReadU8 it = Inr (0x45, advance 1 it)" "ReadU8 (advance 1 it) = Inr (xs ! 1, advance 2 it)"
    "ReadNtohU16 (advance 2 it) = Inr (join_be [xs ! 2, xs ! 3], advance 4 it)"
    "ReadNtohU16 (advance 4 it) = Inr (join_be [xs ! 4, xs ! 5], advance 6 it)"
    "ReadU8 (advance 6 it) = Inr (xs ! 6, advance 7 it)" "ReadU8 (advance 7 it) = Inr (xs ! 7, advance 8 it)"
    "ReadU8 (advance 8 it) = Inr (xs ! 8, advance 9 it)" "ReadU8 (advance 9 it) = Inr (xs ! 9, advance 10 it)"
    "ReadU16 (advance 10 it) = Inr (join_be [xs ! 11, xs ! 10], advance 12 it)"
    "ReadNtohU32 (advance 12 it) = Inr (join_be [xs ! 12, xs ! 13, xs ! 14, xs ! 15], advance 16 it)"
    "ReadNtohU32 (advance 16 it) = Inr (join_be [xs ! 16, xs ! 17, xs ! 18, xs ! 19], advance 20 it)"
    using u8 [of 0] u8 [of 1] n16 [of 2] n16 [of 4] u8 [of 6] u8 [of 7] u8 [of 8] u8 [of 9] u16 [of 10] n32 [of 12] n32 [of 16]
      assms(2,3) by simp_all
  have p: "it_Prev 1 (advance 7 it) = Inr (advance 6 it)" by (simp add: it_Prev_def advance_def)
  have "it_ok it" "m_current it + 2 * 10 \<le> m_dataEnd it" "get_bytes (2 * 10) it = xs"
    using assms(1,2) by (auto simp: holds_def)
  then obtain c where c: "CalculateIpChecksum 20 0 it = Inr (c, advance 20 it)" "unat c = 65535 - fold16 (le_sum xs)"
    using CalculateIpChecksum_ok [of it 10 0] by auto
  have c0: "c = 0 \<longleftrightarrow> fold16 (le_sum xs) = 65535"
    using c(2) fold16_le [of "le_sum xs"] by (auto simp: unat_eq_zero [symmetric])
  have v: "(word_of_int (drop_bit 1 8) :: u8) = 4" by (simp add: drop_bit_eq_div)
  show ?thesis
    by (simp add: ipv4_Deserialize_def v r p c(1) c0 ipv4_decode_def Let_def DONT_FRAGMENT_def MORE_FRAGMENTS_def
        del: One_nat_def)
qed

section \<open>Results\<close>

text \<open>A header the setters can produce: offsets are multiples of eight and only the two flags are used.\<close>

definition ipv4_valid :: "ipv4_header \<Rightarrow> bool" where
  "ipv4_valid h \<longleftrightarrow> ih_fragmentOffset h AND 0x7 = 0 \<and> ih_flags h AND 4 = 0 \<and> ih_headerSize h = 20"

lemma and_7: "(x :: u16) AND 7 = take_bit 3 x"
  by (simp add: take_bit_eq_mask mask_eq_exp_minus_1)

lemma and_1f: "(x :: u8) AND 0x1f = take_bit 5 x"
  by (simp add: take_bit_eq_mask mask_eq_exp_minus_1)

lemma and_1f_32: "(x :: u32) AND 0x1f = take_bit 5 x"
  by (simp add: take_bit_eq_mask mask_eq_exp_minus_1)

lemma div_8: "(x :: u16) div 8 = drop_bit 3 x"
  by (simp add: drop_bit_eq_div)

lemma flag_bits:
  "(f :: 3 word) AND 1 \<noteq> 0 \<longleftrightarrow> bit f 0" "(f :: 3 word) AND 2 \<noteq> 0 \<longleftrightarrow> bit f 1" "(f :: 3 word) AND 4 \<noteq> 0 \<longleftrightarrow> bit f 2"
  "(b :: u8) AND push_bit 6 1 \<noteq> 0 \<longleftrightarrow> bit b 6" "(b :: u8) AND push_bit 5 1 \<noteq> 0 \<longleftrightarrow> bit b 5"
  using bit_iff_and_push_bit_not_eq_0 [of f 0] bit_iff_and_push_bit_not_eq_0 [of f 1] bit_iff_and_push_bit_not_eq_0 [of f 2]
    bit_iff_and_push_bit_not_eq_0 [of b 6] bit_iff_and_push_bit_not_eq_0 [of b 5]
  by simp_all

lemma bit_flag_bytes: "bit (64 :: u8) n \<longleftrightarrow> n = 6" "bit (32 :: u8) n \<longleftrightarrow> n = 5"
  "bit (64 :: int) n \<longleftrightarrow> n = 6" "bit (32 :: int) n \<longleftrightarrow> n = 5"
  using bit_exp_iff [of 6 n, where ?'a = int] bit_exp_iff [of 5 n, where ?'a = int] bit_exp_iff [of 6 n, where ?'a = u8] bit_exp_iff [of 5 n, where ?'a = u8] by auto

lemma flagsFrag_bits:
  "bit (ipv4_flagsFrag h) n \<longleftrightarrow> (n < 5 \<and> bit (ih_fragmentOffset h) (n + 11)) \<or>
     (n = 6 \<and> bit (ih_flags h) 0) \<or> (n = 5 \<and> bit (ih_flags h) 1)"
  unfolding ipv4_flagsFrag_def DONT_FRAGMENT_def MORE_FRAGMENTS_def Let_def flag_bits
  by (auto simp: bit_simps bit_flag_bytes and_1f_32 div_8 add.commute)

lemma frag_byte_bits:
  "bit (ucast ((ucast (ih_fragmentOffset h div 8) :: u32) AND 0xff) :: u8) n \<longleftrightarrow> n < 8 \<and> bit (ih_fragmentOffset h) (n + 3)"
  by (auto simp: bit_simps and_ffff div_8 add.commute)

lemma join_offset:
  fixes fo :: u16
  assumes "\<And>n. n < 5 \<Longrightarrow> bit fb n \<longleftrightarrow> bit fo (n + 11)" "\<And>n. n < 8 \<Longrightarrow> bit lb n \<longleftrightarrow> bit fo (n + 3)" "fo AND 7 = 0"
  shows "push_bit 3 (push_bit 8 (ucast ((fb :: u8) AND 0x1f)) OR ucast (lb :: u8)) = fo"
proof (rule bit_word_eqI)
  fix n
  assume n: "n < LENGTH(16)"
  have lo: "\<not> bit fo n" if "n < 3"
    using assms(3) that by (auto simp: and_7 bit_eq_iff bit_take_bit_iff)
  consider "n < 3" | "3 \<le> n" "n < 11" | "11 \<le> n" "n < 16" using n by fastforce
  then show "bit (push_bit 3 (push_bit 8 (ucast (fb AND 0x1f)) OR ucast lb) :: u16) n = bit fo n"
  proof cases
    case 1
    then show ?thesis using lo by (simp add: bit_simps)
  next
    case 2
    then show ?thesis using assms(2) [of "n - 3"] by (auto simp: bit_simps and_1f)
  next
    case 3
    then show ?thesis using assms(1) [of "n - 11"] bit_imp_le_length [of lb "n - 3"] by (auto simp: bit_simps and_1f)
  qed
qed

lemma fragment_offset_back:
  assumes "ih_fragmentOffset h AND 7 = 0"
  shows "push_bit 3 (push_bit 8 (ucast (ipv4_flagsFrag h AND 0x1f)) OR
    ucast (ucast ((ucast (ih_fragmentOffset h div 8) :: u32) AND 0xff) :: u8)) = ih_fragmentOffset h"
  by (rule join_offset) (use assms in \<open>simp_all only: flagsFrag_bits frag_byte_bits, auto\<close>)

lemma flags_back:
  assumes "ih_flags h AND 4 = 0"
  shows "(if bit (ipv4_flagsFrag h) 6 then 1 else 0) OR (if bit (ipv4_flagsFrag h) 5 then 2 else 0) = (ih_flags h :: 3 word)"
proof (rule bit_word_eqI)
  fix n
  assume "n < LENGTH(3)"
  then have "n = 0 \<or> n = 1 \<or> n = 2" by auto
  moreover have "\<not> bit (ih_flags h) 2" using assms flag_bits(3) [of "ih_flags h"] by blast
  ultimately show "bit ((if bit (ipv4_flagsFrag h) 6 then 1 else 0) OR (if bit (ipv4_flagsFrag h) 5 then 2 else 0) :: 3 word) n =
      bit (ih_flags h) n"
    by (auto simp: flagsFrag_bits bit_simps)
qed

lemma ipv4_decode_bytes:
  assumes "ipv4_valid h"
  shows "ipv4_decode (ipv4_bytes h c) h0 =
    h\<lparr>ih_calcChecksum := ih_calcChecksum h0, ih_checksum := c,
      ih_goodChecksum := (if ih_calcChecksum h0 then fold16 (le_sum (ipv4_bytes h c)) = 65535 else ih_goodChecksum h0)\<rparr>"
proof -
  let ?b = "ipv4_bytes h c"
  have n: "?b ! 1 = ih_tos h" "?b ! 2 = byte 8 (ih_payloadSize h + 20)" "?b ! 3 = byte 0 (ih_payloadSize h + 20)"
    "?b ! 4 = byte 8 (ih_identification h)" "?b ! 5 = byte 0 (ih_identification h)" "?b ! 6 = ipv4_flagsFrag h"
    "?b ! 7 = ucast ((ucast (ih_fragmentOffset h div 8) :: u32) AND 0xff)" "?b ! 8 = ih_ttl h" "?b ! 9 = ih_protocol h"
    "?b ! 10 = byte 0 c" "?b ! 11 = byte 8 c" "?b ! 12 = byte 24 (ih_source h)" "?b ! 13 = byte 16 (ih_source h)"
    "?b ! 14 = byte 8 (ih_source h)" "?b ! 15 = byte 0 (ih_source h)" "?b ! 16 = byte 24 (ih_destination h)"
    "?b ! 17 = byte 16 (ih_destination h)" "?b ! 18 = byte 8 (ih_destination h)" "?b ! 19 = byte 0 (ih_destination h)"
    by (simp_all add: ipv4_bytes_def)
  have v: "ih_headerSize h = 20" "ih_fragmentOffset h AND 7 = 0" "ih_flags h AND 4 = 0"
    using assms by (simp_all add: ipv4_valid_def)
  show ?thesis
    unfolding ipv4_decode_def n flag_bits fragment_offset_back [OF v(2)] flags_back [OF v(3)] join_be_words Let_def
    by (rule ipv4_header.equality) (simp_all add: v(1))
qed

lemma le_sum_update:
  "k < length xs \<Longrightarrow>
   le_sum (xs[k := b]) + (if even k then 1 else 256) * unat (xs ! k) = le_sum xs + (if even k then 1 else 256) * unat b"
proof (induction xs arbitrary: k rule: le_sum.induct)
  case (3 x y xs)
  show ?case
  proof (cases "k < 2")
    case True
    then show ?thesis by (auto simp: less_2_cases_iff)
  next
    case False
    then obtain j where j: "k = Suc (Suc j)" by (metis add_2_eq_Suc le_add_diff_inverse not_less)
    then show ?thesis using "3.IH" [of j] "3.prems" by auto
  qed
qed auto

lemma fold16_dvd:
  assumes "fold16 n = 65535"
  shows "65535 dvd n"
proof (cases "n = 0")
  case False
  then have "(n - 1) mod 65535 = 65534" using assms by (simp add: fold16_def)
  then have "n = 65535 * ((n - 1) div 65535) + 65535"
    using False div_mult_mod_eq [of "n - 1" 65535] by linarith
  then show ?thesis by (metis dvd_add dvd_refl dvd_triv_left)
qed simp

lemma byte_change_detected:
  assumes "fold16 (le_sum xs) = 65535" "k < length xs" "b \<noteq> xs ! k"
  shows "fold16 (le_sum (xs[k := b])) \<noteq> 65535"
proof
  assume "fold16 (le_sum (xs[k := b])) = 65535"
  then have d: "65535 dvd int (le_sum (xs[k := b]))" "65535 dvd int (le_sum xs)"
    using fold16_dvd assms(1) by (metis of_nat_dvd_iff of_nat_numeral)+
  define w :: int where "w = (if even k then 1 else 256)"
  define x y where "x = int (unat b)" and "y = int (unat (xs ! k))"
  have xy: "0 \<le> x" "x < 256" "0 \<le> y" "y < 256" "x \<noteq> y"
    unfolding x_def y_def using unat_u8 [of b] unat_u8 [of "xs ! k"] assms(3) by (simp_all only: of_nat_0_le_iff of_nat_less_numeral_iff of_nat_eq_iff word_unat_eq_iff not_False_eq_True)
  have "int (le_sum (xs[k := b]) + (if even k then 1 else 256) * unat (xs ! k)) =
      int (le_sum xs + (if even k then 1 else 256) * unat b)"
    using le_sum_update [OF assms(2), of b] by (rule arg_cong)
  then have "int (le_sum (xs[k := b])) - int (le_sum xs) = w * (x - y)"
    by (auto simp: w_def x_def y_def algebra_simps split: if_splits)
  then have "65535 dvd w * (x - y)" using d by (metis dvd_diff)
  moreover have "\<bar>w * (x - y)\<bar> < 65535" using xy by (auto simp: w_def abs_if)
  moreover have "w * (x - y) \<noteq> 0" using xy by (simp add: w_def)
  ultimately show False using dvd_imp_le_int [of "w * (x - y)" 65535] by simp
qed

text \<open>
  C37: a valid IPv4 header serialised into a buffer with room for twenty bytes is read back field by
  field, and its checksum is good when checksums are enabled. No assertion fails on the way.
\<close>

theorem ipv4_roundtrip:
  assumes "room 20 start" "ipv4_valid h" "ih_calcChecksum h0 = ih_calcChecksum h"
  shows "\<exists>i c. ipv4_Serialize h start = Inr i \<and>
    ipv4_Deserialize h0 (rewind start i) =
      Inr (20, h\<lparr>ih_checksum := c, ih_goodChecksum := ih_calcChecksum h \<or> ih_goodChecksum h0\<rparr>)"
proof -
  obtain i c where i: "ipv4_Serialize h start = Inr i" "holds (rewind start i) (ipv4_bytes h c)"
    "ih_calcChecksum h \<longrightarrow> fold16 (le_sum (ipv4_bytes h c)) = 65535"
    using ipv4_Serialize_ok [OF assms(1)] by blast
  have "ipv4_bytes h c ! 0 = 0x45" by (simp add: ipv4_bytes_def)
  from ipv4_Deserialize_ok [OF i(2) length_ipv4_bytes this, of h0]
  have "ipv4_Deserialize h0 (rewind start i) =
      Inr (20, h\<lparr>ih_checksum := c, ih_goodChecksum := ih_calcChecksum h \<or> ih_goodChecksum h0\<rparr>)"
    unfolding ipv4_decode_bytes [OF assms(2)] using i(3) assms(3) by (auto intro!: ipv4_header.equality)
  then show ?thesis using i(1) by blast
qed

definition demo_header :: ipv4_header where
  "demo_header = Ipv4Header\<lparr>ih_calcChecksum := True, ih_payloadSize := 1480, ih_identification := 7, ih_ttl := 64,
     ih_protocol := 6, ih_flags := 2, ih_fragmentOffset := 2960, ih_source := 0x0a010101, ih_destination := 0x0a010202\<rparr>"

lemma demo_header_ok: "ipv4_valid demo_header" "ih_calcChecksum demo_header" "room 20 demo_iterator"
  by (simp_all add: ipv4_valid_def demo_header_def Ipv4Header_def room_def it_ok_def CheckNoZero_def demo_iterator_def
      Construct_def)

theorem ipv4_roundtrip_witness:
  "\<exists>i h'. ipv4_Serialize demo_header demo_iterator = Inr i \<and>
    ipv4_Deserialize (EnableChecksum Ipv4Header) (rewind demo_iterator i) = Inr (20, h') \<and>
    ih_fragmentOffset h' = 2960 \<and> ih_goodChecksum h'"
proof -
  have "ih_fragmentOffset demo_header = 2960" by (simp add: demo_header_def)
  then show ?thesis
    using ipv4_roundtrip [OF demo_header_ok(3,1), of "EnableChecksum Ipv4Header"] demo_header_ok(2)
    by (fastforce simp: EnableChecksum_def)
qed

text \<open>
  C38: the header checksum detects the change of any single byte of a serialised header other than the
  version and length byte: whatever the new byte is, the header read from the changed bytes is marked bad.
\<close>

theorem ipv4_corruption_detected:
  assumes "room 20 start" "ih_calcChecksum h" "ih_calcChecksum h0"
  shows "\<exists>i bs. ipv4_Serialize h start = Inr i \<and> holds (rewind start i) bs \<and> length bs = 20 \<and>
    (\<forall>k b it. 0 < k \<and> k < 20 \<and> b \<noteq> bs ! k \<and> holds it (bs[k := b]) \<longrightarrow>
      (\<exists>h'. ipv4_Deserialize h0 it = Inr (20, h') \<and> \<not> ih_goodChecksum h'))"
proof -
  obtain i c where i: "ipv4_Serialize h start = Inr i" "holds (rewind start i) (ipv4_bytes h c)"
    "fold16 (le_sum (ipv4_bytes h c)) = 65535"
    using ipv4_Serialize_ok [OF assms(1)] assms(2) by blast
  let ?b = "ipv4_bytes h c"
  have "\<exists>h'. ipv4_Deserialize h0 it = Inr (20, h') \<and> \<not> ih_goodChecksum h'"
    if k: "0 < k" "k < 20" "b \<noteq> ?b ! k" "holds it (?b[k := b])" for k b it
  proof -
    have "?b[k := b] ! 0 = 0x45" using k(1) by (simp add: ipv4_bytes_def nth_list_update split: nat.split)
    then show ?thesis
      using ipv4_Deserialize_ok [OF k(4), of h0] byte_change_detected [OF i(3), of k b] k(2,3) assms(3)
      by (simp add: length_ipv4_bytes ipv4_decode_def)
  qed
  then show ?thesis using i(1,2) length_ipv4_bytes by blast
qed

theorem ipv4_corruption_detected_witness:
  "\<exists>i bs. ipv4_Serialize demo_header demo_iterator = Inr i \<and> holds (rewind demo_iterator i) bs \<and>
    (\<forall>it. bs ! 8 \<noteq> 1 \<and> holds it (bs[8 := 1]) \<longrightarrow>
      (\<exists>h'. ipv4_Deserialize demo_header it = Inr (20, h') \<and> \<not> ih_goodChecksum h'))"
proof -
  obtain i bs where "ipv4_Serialize demo_header demo_iterator = Inr i" "holds (rewind demo_iterator i) bs"
    and d: "\<And>k b it. 0 < k \<and> k < 20 \<and> b \<noteq> bs ! k \<and> holds it (bs[k := b]) \<Longrightarrow>
      \<exists>h'. ipv4_Deserialize demo_header it = Inr (20, h') \<and> \<not> ih_goodChecksum h'"
    using ipv4_corruption_detected [OF demo_header_ok(3,2,2)] by blast
  moreover have "\<exists>h'. ipv4_Deserialize demo_header it = Inr (20, h') \<and> \<not> ih_goodChecksum h'"
    if "bs ! 8 \<noteq> 1" "holds it (bs[8 := 1])" for it
    using d [of 8 1 it] that by simp
  ultimately show ?thesis by blast
qed

end
