(* ===== verification/Tcp_Rx_Buffer.thy ===== *)
theory Tcp_Rx_Buffer
  imports Sequence_Number
begin

text \<open>
  \<^verbatim>\<open>src/src/internet/model/tcp-rx-buffer.cc\<close>: the receive buffer of a TCP socket, which trims and stores segments,
  tracks the next expected sequence number, keeps the list of selective acknowledgement blocks and hands out
  in-order data. \<^verbatim>\<open>m_data\<close>, a \<^verbatim>\<open>std::map\<close> from sequence numbers to packets, is its list of entries in iteration order;
  a packet is its bytes.

  The operators of \<^verbatim>\<open>SequenceNumber32\<close> are an argument of the operations. \<open>seq32_ops\<close> are those of the code, and
  \<open>nat_ops\<close> those of unbounded stream positions, the reference the code is compared with.
\<close>

section \<open>Sequence operators\<close>

record 's seq_ops =
  op_lt :: "'s \<Rightarrow> 's \<Rightarrow> bool"
  op_le :: "'s \<Rightarrow> 's \<Rightarrow> bool"
  op_gt :: "'s \<Rightarrow> 's \<Rightarrow> bool"
  op_ge :: "'s \<Rightarrow> 's \<Rightarrow> bool"
  op_plus :: "'s \<Rightarrow> nat \<Rightarrow> 's"
  op_minus :: "'s \<Rightarrow> 's \<Rightarrow> int res"

definition seq32_ops :: "seq seq_ops" where
  "seq32_ops = \<lparr>op_lt = seq_lt, op_le = seq_le, op_gt = seq_gt, op_ge = seq_ge,
     op_plus = (\<lambda>s n. s + of_nat n), op_minus = seq_diff\<rparr>"

definition nat_ops :: "nat seq_ops" where
  "nat_ops = \<lparr>op_lt = (<), op_le = (\<le>), op_gt = (>), op_ge = (\<ge>), op_plus = (+), op_minus = (\<lambda>a b. Inr (int a - int b))\<rparr>"

section \<open>State\<close>

type_synonym bytes = "u8 list"

record 's rx_buffer =
  rx_nextRxSeq :: 's
  rx_finSeq :: 's
  rx_gotFin :: bool
  rx_size :: u32
  rx_maxBuffer :: u32
  rx_availBytes :: u32
  rx_data :: "('s \<times> bytes) list"
  rx_sackList :: "('s \<times> 's) list"

definition TcpRxBuffer :: "'s::zero \<Rightarrow> 's rx_buffer" where
  "TcpRxBuffer n = \<lparr>rx_nextRxSeq = n, rx_finSeq = 0, rx_gotFin = False, rx_size = 0, rx_maxBuffer = 32768,
     rx_availBytes = 0, rx_data = [], rx_sackList = []\<rparr>"

definition SetMaxBufferSize :: "u32 \<Rightarrow> 's rx_buffer \<Rightarrow> 's rx_buffer" where
  "SetMaxBufferSize s b = b\<lparr>rx_maxBuffer := s\<rparr>"

definition SetNextRxSequence :: "'s \<Rightarrow> 's rx_buffer \<Rightarrow> 's rx_buffer" where
  "SetNextRxSequence s b = b\<lparr>rx_nextRxSeq := s\<rparr>"

definition IncNextRxSequence :: "'s seq_ops \<Rightarrow> 's rx_buffer \<Rightarrow> 's rx_buffer res" where
  "IncNextRxSequence ops b =
     (if rx_size b \<noteq> 0 then Inl Assert_Failed else Inr (b\<lparr>rx_nextRxSeq := op_plus ops (rx_nextRxSeq b) 1\<rparr>))"

definition MaxRxSequence :: "'s seq_ops \<Rightarrow> 's rx_buffer \<Rightarrow> 's" where
  "MaxRxSequence ops b =
     (if rx_gotFin b then rx_finSeq b
      else if rx_data b \<noteq> [] \<and> op_gt ops (rx_nextRxSeq b) (fst (hd (rx_data b)))
      then op_plus ops (fst (hd (rx_data b))) (unat (rx_maxBuffer b))
      else op_plus ops (rx_nextRxSeq b) (unat (rx_maxBuffer b)))"

definition SetFinSequence :: "'s seq_ops \<Rightarrow> 's \<Rightarrow> 's rx_buffer \<Rightarrow> 's rx_buffer" where
  "SetFinSequence ops s b =
     (let b = b\<lparr>rx_gotFin := True, rx_finSeq := s\<rparr>
      in if rx_nextRxSeq b = rx_finSeq b then b\<lparr>rx_nextRxSeq := op_plus ops (rx_nextRxSeq b) 1\<rparr> else b)"

definition Finished :: "'s seq_ops \<Rightarrow> 's rx_buffer \<Rightarrow> bool" where
  "Finished ops b \<longleftrightarrow> rx_gotFin b \<and> op_lt ops (rx_finSeq b) (rx_nextRxSeq b)"

section \<open>Selective acknowledgement blocks\<close>

function sack_scan :: "'s seq_ops \<Rightarrow> 's \<times> 's \<Rightarrow> ('s \<times> 's) list \<Rightarrow> ('s \<times> 's) list \<Rightarrow> ('s \<times> 's) list res" where
  "sack_scan ops begin pre [] = Inr (begin # pre)"
| "sack_scan ops begin pre (current # rest) =
     (if fst begin = snd current
      then if \<not> op_lt ops (fst current) (snd begin) then Inl Assert_Failed
           else sack_scan ops (fst current, snd begin) [] (pre @ rest)
      else if snd begin = fst current
      then if \<not> op_lt ops (fst begin) (snd current) then Inl Assert_Failed
           else sack_scan ops (fst begin, snd current) [] (pre @ rest)
      else sack_scan ops begin (pre @ [current]) rest)"
  by pat_completeness auto
termination
  by (relation "inv_image (less_than <*lex*> less_than) (\<lambda>(_, _, pre, rest). (length pre + length rest, length rest))") auto

definition UpdateSackList :: "'s seq_ops \<Rightarrow> 's \<Rightarrow> 's \<Rightarrow> 's \<Rightarrow> ('s \<times> 's) list \<Rightarrow> ('s \<times> 's) list res" where
  "UpdateSackList ops nextRxSeq head tail sackList =
     (if \<not> op_gt ops head nextRxSeq then Inl Assert_Failed
      else bind_res (sack_scan ops (head, tail) [] sackList) (\<lambda>l. Inr (if length l > 4 then butlast l else l)))"

fun ClearSackList :: "'s seq_ops \<Rightarrow> 's \<Rightarrow> ('s \<times> 's) list \<Rightarrow> ('s \<times> 's) list res" where
  "ClearSackList ops s [] = Inr []"
| "ClearSackList ops s (block # rest) =
     (if \<not> op_lt ops (fst block) (snd block) then Inl Assert_Failed
      else bind_res (ClearSackList ops s rest) (\<lambda>l. Inr (if op_le ops (snd block) s then l else block # l)))"

section \<open>Adding a segment\<close>

fun map_put :: "'s seq_ops \<Rightarrow> 's \<Rightarrow> 'v \<Rightarrow> ('s \<times> 'v) list \<Rightarrow> ('s \<times> 'v) list" where
  "map_put ops k v [] = [(k, v)]"
| "map_put ops k v ((k', v') # xs) =
     (if op_lt ops k k' then (k, v) # (k', v') # xs
      else if op_lt ops k' k then (k', v') # map_put ops k v xs
      else (k', v) # xs)"

text \<open>The loop that removes the bytes already present; it yields the map, \<^verbatim>\<open>m_size\<close>, \<^verbatim>\<open>headSeq\<close> and \<^verbatim>\<open>tailSeq\<close>.\<close>

fun rx_trim :: "'s seq_ops \<Rightarrow> u32 \<Rightarrow> 's \<Rightarrow> 's \<Rightarrow> ('s \<times> bytes) list \<Rightarrow> ('s \<times> bytes) list \<times> u32 \<times> 's \<times> 's" where
  "rx_trim ops sz headSeq tailSeq [] = ([], sz, headSeq, tailSeq)"
| "rx_trim ops sz headSeq tailSeq ((s, p) # xs) =
     (if \<not> op_le ops s tailSeq then ((s, p) # xs, sz, headSeq, tailSeq)
      else let lastByteSeq = op_plus ops s (length p)
           in if op_gt ops lastByteSeq headSeq
              then if op_gt ops s headSeq \<and> op_lt ops lastByteSeq tailSeq
                   then rx_trim ops (sz - of_nat (length p)) headSeq tailSeq xs
                   else let headSeq' = (if op_le ops s headSeq then lastByteSeq else headSeq);
                            tailSeq' = (if op_ge ops lastByteSeq tailSeq then s else tailSeq);
                            (ys, r) = rx_trim ops sz headSeq' tailSeq' xs
                        in ((s, p) # ys, r)
              else let (ys, r) = rx_trim ops sz headSeq tailSeq xs in ((s, p) # ys, r))"

text \<open>The loop that moves \<^verbatim>\<open>m_nextRxSeq\<close> over the data that has become contiguous.\<close>

fun rx_advance :: "'s seq_ops \<Rightarrow> 's \<Rightarrow> u32 \<Rightarrow> ('s \<times> 's) list \<Rightarrow> ('s \<times> bytes) list \<Rightarrow> ('s \<times> u32 \<times> ('s \<times> 's) list) res" where
  "rx_advance ops nextRxSeq avail sack [] = Inr (nextRxSeq, avail, sack)"
| "rx_advance ops nextRxSeq avail sack ((s, p) # xs) =
     (if op_lt ops s nextRxSeq then rx_advance ops nextRxSeq avail sack xs
      else if op_gt ops s nextRxSeq then Inr (nextRxSeq, avail, sack)
      else let nextRxSeq = op_plus ops s (length p)
           in bind_res (ClearSackList ops nextRxSeq sack) (\<lambda>sack.
                rx_advance ops nextRxSeq (avail + of_nat (length p)) sack xs))"

text \<open>\<^verbatim>\<open>Packet::CreateFragment\<close>.\<close>

definition CreateFragment :: "nat \<Rightarrow> nat \<Rightarrow> bytes \<Rightarrow> bytes res" where
  "CreateFragment start len p = (if start + len \<le> length p then Inr (take len (drop start p)) else Inl Assert_Failed)"

definition rx_clip :: "'s seq_ops \<Rightarrow> 's \<Rightarrow> 's \<Rightarrow> 's rx_buffer \<Rightarrow> 's \<times> 's" where
  "rx_clip ops headSeq tailSeq b =
     (let headSeq = (if op_lt ops headSeq (rx_nextRxSeq b) then rx_nextRxSeq b else headSeq)
      in if rx_data b \<noteq> []
         then let maxSeq = op_plus ops (fst (hd (rx_data b))) (unat (rx_maxBuffer b));
                  tailSeq = (if op_lt ops maxSeq tailSeq then maxSeq else tailSeq);
                  headSeq = (if op_lt ops tailSeq headSeq then tailSeq else headSeq)
              in (headSeq, tailSeq)
         else (headSeq, tailSeq))"

text \<open>Storing the trimmed packet \<^verbatim>\<open>[headSeq, tailSeq)\<close> and updating the variables.\<close>

definition rx_insert :: "'s seq_ops \<Rightarrow> 's \<Rightarrow> 's \<Rightarrow> bytes \<Rightarrow> 's rx_buffer \<Rightarrow> (bool \<times> 's rx_buffer) res" where
  "rx_insert ops headSeq tailSeq p b =
     (if headSeq \<in> fst ` set (rx_data b) then Inl Assert_Failed
      else let b = b\<lparr>rx_data := map_put ops headSeq p (rx_data b)\<rparr>
           in bind_res (if op_gt ops headSeq (rx_nextRxSeq b)
                        then UpdateSackList ops (rx_nextRxSeq b) headSeq tailSeq (rx_sackList b)
                        else Inr (rx_sackList b)) (\<lambda>sack.
              let b = b\<lparr>rx_sackList := sack, rx_size := rx_size b + of_nat (length p)\<rparr>
              in bind_res (rx_advance ops (rx_nextRxSeq b) (rx_availBytes b) (rx_sackList b) (rx_data b))
                   (\<lambda>(nextRxSeq, avail, sack).
                     let b = b\<lparr>rx_nextRxSeq := nextRxSeq, rx_availBytes := avail, rx_sackList := sack\<rparr>
                     in Inr (True, if rx_gotFin b \<and> rx_nextRxSeq b = rx_finSeq b
                                   then b\<lparr>rx_nextRxSeq := op_plus ops (rx_nextRxSeq b) 1\<rparr> else b))))"

text \<open>\<^verbatim>\<open>static_cast<uint32_t>\<close> of a difference.\<close>

definition to_uint32 :: "int \<Rightarrow> nat" where
  "to_uint32 x = nat (x mod 2 ^ 32)"

definition rx_Add :: "'s seq_ops \<Rightarrow> bytes \<Rightarrow> 's \<Rightarrow> 's rx_buffer \<Rightarrow> (bool \<times> 's rx_buffer) res" where
  "rx_Add ops p seqNo b =
     (case rx_clip ops seqNo (op_plus ops seqNo (length p)) b of (headSeq, tailSeq) \<Rightarrow>
      case rx_trim ops (rx_size b) headSeq tailSeq (rx_data b) of (data, sz, headSeq, tailSeq) \<Rightarrow>
        let b = b\<lparr>rx_data := data, rx_size := sz\<rparr>
        in if op_ge ops headSeq tailSeq then Inr (False, b)
           else bind_res (op_minus ops headSeq seqNo) (\<lambda>start.
                bind_res (op_minus ops tailSeq headSeq) (\<lambda>len.
                bind_res (CreateFragment (to_uint32 start) (to_uint32 len) p) (\<lambda>p.
                if to_uint32 len \<noteq> length p then Inl Assert_Failed else rx_insert ops headSeq tailSeq p b))))"

section \<open>Extracting data\<close>

fun rx_extract :: "'s seq_ops \<Rightarrow> 's \<Rightarrow> u32 \<Rightarrow> u32 \<Rightarrow> u32 \<Rightarrow> bytes \<Rightarrow> ('s \<times> bytes) list \<Rightarrow>
    (bytes \<times> ('s \<times> bytes) list \<times> u32 \<times> u32) res" where
  "rx_extract ops nextRxSeq n sz avail out [] =
     (if n = 0 then Inr (out, [], sz, avail) else Inl Undefined_Behaviour)"
| "rx_extract ops nextRxSeq n sz avail out ((s, p) # xs) =
     (if n = 0 then Inr (out, (s, p) # xs, sz, avail)
      else if \<not> op_le ops s nextRxSeq then Inl Assert_Failed
      else let pktSize = of_nat (length p) :: u32
           in if pktSize \<le> n
              then rx_extract ops nextRxSeq (n - pktSize) (sz - pktSize) (avail - pktSize) (out @ p) xs
              else Inr (out @ take (unat n) p,
                        filter (\<lambda>(k, _). k \<noteq> s) (map_put ops (op_plus ops s (unat n)) (drop (unat n) p) ((s, p) # xs)),
                        sz - n, avail - n))"

definition rx_Extract :: "'s seq_ops \<Rightarrow> u32 \<Rightarrow> 's rx_buffer \<Rightarrow> (bytes option \<times> 's rx_buffer) res" where
  "rx_Extract ops maxSize b =
     (let extractSize = min maxSize (rx_availBytes b)
      in if extractSize = 0 then Inr (None, b)
         else if rx_data b = [] then Inl Assert_Failed
         else bind_res (rx_extract ops (rx_nextRxSeq b) extractSize (rx_size b) (rx_availBytes b) [] (rx_data b))
                (\<lambda>(out, data, sz, avail).
                  Inr (if out = [] then None else Some out,
                       b\<lparr>rx_data := data, rx_size := sz, rx_availBytes := avail\<rparr>)))"

end
