(* ===== verification/Tcp_Rx_Stream.thy ===== *)
theory Tcp_Rx_Stream
  imports Tcp_Rx_Buffer
begin

text \<open>
  The receive buffer on unbounded stream positions: which positions it holds after each operation, its invariant while a
  stream is received, and that adding a segment and extracting data keep the invariant and never fail.
\<close>

section \<open>Stream positions\<close>

lemma nat_ops_simps [simp]:
  "op_lt nat_ops = (<)" "op_le nat_ops = (\<le>)" "op_gt nat_ops = (>)" "op_ge nat_ops = (\<ge>)"
  "op_plus nat_ops = (+)" "op_minus nat_ops a b = Inr (int a - int b)"
  by (simp_all add: nat_ops_def)

text \<open>Stored packets are not empty, are sorted and do not overlap; \<open>held\<close> is the set of stream positions they hold.\<close>

fun blocks :: "nat \<Rightarrow> (nat \<times> bytes) list \<Rightarrow> bool" where
  "blocks a [] \<longleftrightarrow> True"
| "blocks a ((s, p) # xs) \<longleftrightarrow> a \<le> s \<and> p \<noteq> [] \<and> blocks (s + length p) xs"

fun held :: "(nat \<times> bytes) list \<Rightarrow> nat set" where
  "held [] = {}"
| "held ((s, p) # xs) = {s..<s + length p} \<union> held xs"

definition total_bytes :: "('s \<times> bytes) list \<Rightarrow> nat" where
  "total_bytes xs = sum_list (map (length \<circ> snd) xs)"

lemma total_bytes_simps [simp]:
  "total_bytes [] = 0" "total_bytes ((s, p) # xs) = length p + total_bytes xs"
  by (simp_all add: total_bytes_def)

lemma blocks_weaken: "blocks a xs \<Longrightarrow> b \<le> a \<Longrightarrow> blocks b xs"
  by (cases xs) auto

lemma blocks_ge: "blocks a xs \<Longrightarrow> x \<in> held xs \<Longrightarrow> a \<le> x"
  by (induction a xs rule: blocks.induct) fastforce+

lemma blocks_key_ge: "blocks a xs \<Longrightarrow> (s, p) \<in> set xs \<Longrightarrow> a \<le> s"
  by (induction a xs rule: blocks.induct) fastforce+

lemma held_eq: "held xs = (\<Union>(s, p)\<in>set xs. {s..<s + length p})"
  by (induction xs rule: held.induct) auto

lemma blocks_key_held: "blocks a xs \<Longrightarrow> (s, p) \<in> set xs \<Longrightarrow> s \<in> held xs"
  by (induction a xs rule: blocks.induct) fastforce+

subsection \<open>Removing what is present\<close>

lemma rx_trim_keeps_head:
  assumes "blocks a xs" "h < a" "a \<le> t" "rx_trim nat_ops sz h t xs = (ys, sz', h', t')"
  shows "h' = h \<and> a \<le> t'"
  using assms
proof (induction xs arbitrary: a sz t ys sz' h' t')
  case (Cons x xs)
  obtain s p where x [simp]: "x = (s, p)" by (cases x)
  have IH: "rx_trim nat_ops sz1 h t1 xs = (ys1, sz1', h1', t1') \<Longrightarrow> a \<le> t1 \<Longrightarrow> h1' = h \<and> a \<le> t1'" for sz1 t1 ys1 sz1' h1' t1'
    using Cons.IH [of a t1 sz1 ys1 sz1' h1' t1'] Cons.prems(1,2) blocks_weaken [of "s + length p" xs a] by auto
  show ?case using Cons.prems IH by (auto simp: Let_def split: if_splits prod.splits)
qed auto

lemma rx_trim_blocks:
  assumes "blocks a xs" "rx_trim nat_ops sz h t xs = (ys, sz', h', t')"
  shows "blocks a ys \<and> set ys \<subseteq> set xs \<and> h \<le> h' \<and> t' \<le> t"
  using assms
proof (induction xs arbitrary: a sz h t ys sz' h' t')
  case (Cons x xs)
  obtain s p where x [simp]: "x = (s, p)" by (cases x)
  have IH: "rx_trim nat_ops sz1 h1 t1 xs = (ys1, sz1', h1', t1') \<Longrightarrow>
      blocks (s + length p) ys1 \<and> set ys1 \<subseteq> set xs \<and> h1 \<le> h1' \<and> t1' \<le> t1" for sz1 h1 t1 ys1 sz1' h1' t1'
    using Cons.IH [of "s + length p" sz1 h1 t1 ys1 sz1' h1' t1'] Cons.prems(1) by auto
  show ?case
    using Cons.prems IH blocks_weaken [of "s + length p" _ a] by (fastforce simp: Let_def split: if_splits prod.splits)
qed auto

lemma rx_trim_size:
  assumes "rx_trim nat_ops sz h t xs = (ys, sz', h', t')"
  shows "sz' + of_nat (total_bytes xs) = sz + of_nat (total_bytes ys)"
  using assms
proof (induction xs arbitrary: sz h t ys sz' h' t')
  case (Cons x xs)
  obtain s p where x [simp]: "x = (s, p)" by (cases x)
  show ?case using Cons.prems Cons.IH by (fastforce simp: Let_def algebra_simps split: if_splits prod.splits)
qed auto

lemma rx_trim_held:
  assumes "blocks a xs" "rx_trim nat_ops sz h t xs = (ys, sz', h', t')"
  shows "held ys \<union> {h'..<t'} = held xs \<union> {h..<t}"
  using assms
proof (induction xs arbitrary: a sz h t ys sz' h' t')
  case (Cons x xs)
  obtain s p where x [simp]: "x = (s, p)" by (cases x)
  have IH: "rx_trim nat_ops sz1 h1 t1 xs = (ys1, sz1', h1', t1') \<Longrightarrow>
      held ys1 \<union> {h1'..<t1'} = held xs \<union> {h1..<t1}" for sz1 h1 t1 ys1 sz1' h1' t1'
    using Cons.IH [of "s + length p" sz1 h1 t1 ys1 sz1' h1' t1'] Cons.prems(1) by auto
  have step: ?case if "rx_trim nat_ops sz h1 t1 xs = (ys1, sz', h', t')" "ys = (s, p) # ys1"
      "{s..<s + length p} \<union> {h1..<t1} = {s..<s + length p} \<union> {h..<t}" for h1 t1 ys1
    using IH [OF that(1)] that(2,3) by auto
  consider "t < s" | "s \<le> t" "s + length p \<le> h" | "h < s" "s + length p < t" 
    | "s \<le> t" "h < s + length p" "\<not> (h < s \<and> s + length p < t)" by linarith
  then show ?case
  proof cases
    case 3 then show ?thesis using Cons.prems IH [of _ h t ys sz' h' t'] by (auto simp: Let_def)
  next
    case 4
    let ?h = "if s \<le> h then s + length p else h" and ?t = "if t \<le> s + length p then s else t"
    have "{s..<s + length p} \<union> {?h..<?t} = {s..<s + length p} \<union> {h..<t}" using 4 by auto
    moreover obtain ys1 where "rx_trim nat_ops sz ?h ?t xs = (ys1, sz', h', t')" "ys = (s, p) # ys1"
      using 4 Cons.prems(2) by (auto simp: Let_def simp del: if_split split: prod.splits if_splits)
    ultimately show ?thesis using step by blast
  next
    case 2
    then obtain ys1 where "rx_trim nat_ops sz h t xs = (ys1, sz', h', t')" "ys = (s, p) # ys1"
      using Cons.prems(2) by (auto simp: Let_def split: prod.splits)
    then show ?thesis using step by blast
  qed (use Cons.prems in auto)
qed auto

lemma rx_trim_disjoint:
  assumes "blocks a xs" "rx_trim nat_ops sz h t xs = (ys, sz', h', t')"
  shows "held ys \<inter> {h'..<t'} = {}"
  using assms
proof (induction xs arbitrary: a sz h t ys sz' h' t')
  case (Cons x xs)
  obtain s p where x [simp]: "x = (s, p)" by (cases x)
  have bl: "blocks (s + length p) xs" using Cons.prems(1) by simp
  have IH: "rx_trim nat_ops sz1 h1 t1 xs = (ys1, sz1', h1', t1') \<Longrightarrow>
      held ys1 \<inter> {h1'..<t1'} = {} \<and> h1 \<le> h1' \<and> t1' \<le> t1" for sz1 h1 t1 ys1 sz1' h1' t1'
    using Cons.IH [OF bl] rx_trim_blocks [OF bl] by blast
  show ?case
  proof (cases "t < s")
    case True
    then show ?thesis using Cons.prems blocks_ge [OF bl] by fastforce
  next
    case False
    then show ?thesis using Cons.prems IH by (fastforce simp: Let_def split: if_splits prod.splits)
  qed
qed auto

lemma rx_trim_nothing:
  assumes "blocks a xs" "rx_trim nat_ops sz h t xs = (ys, sz', h', t')" "t' \<le> h'"
  shows "ys = xs \<and> sz' = sz"
  using assms
proof (induction xs arbitrary: a sz h t ys sz' h' t')
  case (Cons x xs)
  obtain s p where x [simp]: "x = (s, p)" by (cases x)
  have bl: "blocks (s + length p) xs" using Cons.prems(1) by simp
  show ?case
  proof (cases "h < s \<and> s + length p < t")
    case True
    then have "rx_trim nat_ops (sz - of_nat (length p)) h t xs = (ys, sz', h', t')"
      using Cons.prems(2) by (auto simp: Let_def split: if_splits)
    from rx_trim_keeps_head [OF bl _ _ this] have "h' = h \<and> s + length p \<le> t'" using True by simp
    then show ?thesis using True Cons.prems(3) by simp
  qed (use Cons.prems Cons.IH [OF bl] in \<open>auto simp: Let_def split: if_splits prod.splits\<close>)
qed auto


lemma rx_trim_new:
  assumes "blocks a xs" "rx_trim nat_ops sz h t xs = (ys, sz', h', t')" "h' < t'"
  shows "h' \<notin> held xs"
  using assms
proof (induction xs arbitrary: a sz h t ys sz' h' t')
  case (Cons x xs)
  obtain s p where x [simp]: "x = (s, p)" by (cases x)
  have bl: "blocks (s + length p) xs" using Cons.prems(1) by simp
  show ?case
  proof (cases "h < s \<and> s + length p < t")
    case True
    then have tr: "rx_trim nat_ops (sz - of_nat (length p)) h t xs = (ys, sz', h', t')"
      using Cons.prems(2) by (auto simp: Let_def split: if_splits)
    have "h' = h" using rx_trim_keeps_head [OF bl _ _ tr] True by simp
    then show ?thesis using Cons.IH [OF bl tr Cons.prems(3)] True by auto
  next
    case False
    have "h' \<notin> held ys" using rx_trim_disjoint [OF Cons.prems(1,2)] Cons.prems(3) by auto
    then show ?thesis
      using Cons.prems False Cons.IH [OF bl] blocks_ge [OF bl] by (auto simp: Let_def split: if_splits prod.splits)
  qed
qed auto

subsection \<open>Storing a packet\<close>

lemma set_map_put: "h \<notin> fst ` set xs \<Longrightarrow> set (map_put nat_ops h q xs) = insert (h, q) (set xs)"
  by (induction nat_ops h q xs rule: map_put.induct) auto

lemma held_map_put: "h \<notin> fst ` set xs \<Longrightarrow> held (map_put nat_ops h q xs) = held xs \<union> {h..<h + length q}"
  by (auto simp: held_eq set_map_put)

lemma total_map_put: "h \<notin> fst ` set xs \<Longrightarrow> total_bytes (map_put nat_ops h q xs) = total_bytes xs + length q"
  by (induction nat_ops h q xs rule: map_put.induct) auto

lemma blocks_map_put:
  assumes "blocks a xs" "a \<le> h" "q \<noteq> []" "held xs \<inter> {h..<h + length q} = {}"
  shows "blocks a (map_put nat_ops h q xs)"
  using assms
proof (induction xs arbitrary: a)
  case (Cons x xs)
  obtain s p where x [simp]: "x = (s, p)" by (cases x)
  have "s \<noteq> h"
  proof
    assume "s = h" then have "h \<in> held (x # xs)" "h \<in> {h..<h + length q}" using Cons.prems by auto
    then show False using Cons.prems(4) by blast
  qed
  moreover have "s + length p \<le> h" if "s < h"
  proof (rule ccontr)
    assume "\<not> ?thesis" then have "h \<in> {s..<s + length p}" using that by simp
    then show False using Cons.prems by auto
  qed
  moreover have "h + length q \<le> s" if "h < s"
  proof (rule ccontr)
    assume "\<not> ?thesis" then have "s \<in> {h..<h + length q}" "s \<in> held (x # xs)" using that Cons.prems by auto
    then show False using Cons.prems(4) by blast
  qed
  moreover have "held xs \<inter> {h..<h + length q} = {}" using Cons.prems(4) by auto
  ultimately show ?case using Cons.prems Cons.IH [of "s + length p"] by auto
qed auto

lemma fresh_key:
  assumes "blocks a xs" "held xs \<inter> {h..<t} = {}" "h < t"
  shows "h \<notin> fst ` set xs"
  using assms blocks_key_held [of a xs h] by fastforce

subsection \<open>Selective acknowledgements\<close>

text \<open>A list of blocks over a set of positions: each block is a non-empty part of it above \<open>n\<close>.\<close>

definition sack_ok :: "nat set \<Rightarrow> nat \<Rightarrow> (nat \<times> nat) \<Rightarrow> bool" where
  "sack_ok H n blk \<longleftrightarrow> fst blk < snd blk \<and> {fst blk..<snd blk} \<subseteq> H \<and> n < fst blk"

lemma sack_ok_merge:
  "sack_ok H n (a, b) \<Longrightarrow> sack_ok H n (b, c) \<Longrightarrow> sack_ok H n (a, c)"
  using ivl_disj_un_two(3) [of a b c] by (auto simp: sack_ok_def)

lemma sack_scan_ok:
  assumes "sack_ok H n blk0" "\<forall>blk\<in>set (pre @ rest). sack_ok H n blk"
  shows "\<exists>f l bs. sack_scan nat_ops blk0 pre rest = Inr ((f, l) # bs) \<and> f \<le> fst blk0 \<and> snd blk0 \<le> l \<and>
    length bs \<le> length (pre @ rest) \<and> (\<forall>blk\<in>set ((f, l) # bs). sack_ok H n blk)"
  using assms
proof (induction nat_ops blk0 pre rest rule: sack_scan.induct)
  case (1 blk0 pre)
  then show ?case by (cases blk0) auto
next
  case (2 blk0 pre current rest)
  have ok: "sack_ok H n blk0" "sack_ok H n current" "\<forall>blk\<in>set (pre @ rest). sack_ok H n blk"
    using 2 by auto
  consider (left) "fst blk0 = snd current" | (right) "fst blk0 \<noteq> snd current" "snd blk0 = fst current"
    | (none) "fst blk0 \<noteq> snd current" "snd blk0 \<noteq> fst current" by blast
  then show ?case
  proof cases
    case left
    have "fst current < snd blk0" "fst current < fst blk0" using ok left by (auto simp: sack_ok_def)
    moreover have "sack_ok H n (fst current, snd blk0)"
      using sack_ok_merge [of H n "fst current" "snd current" "snd blk0"] ok left by (metis prod.collapse)
    ultimately show ?thesis using 2(1) ok left by fastforce
  next
    case right
    have "fst blk0 < snd current" "snd blk0 < snd current" using ok right by (auto simp: sack_ok_def)
    moreover have "sack_ok H n (fst blk0, snd current)"
      using sack_ok_merge [of H n "fst blk0" "snd blk0" "snd current"] ok right by (metis prod.collapse)
    ultimately show ?thesis using 2(2) ok right by fastforce
  next
    case none
    then show ?thesis using 2(3) 2(4,5) by auto
  qed
qed

lemma UpdateSackList_ok:
  assumes "sack_ok H n (h, t)" "\<forall>blk\<in>set sack. sack_ok H n blk" "length sack \<le> 4"
  shows "\<exists>f l bs. UpdateSackList nat_ops n h t sack = Inr ((f, l) # bs) \<and> f \<le> h \<and> t \<le> l \<and> length bs < 4 \<and>
    (\<forall>blk\<in>set ((f, l) # bs). sack_ok H n blk)"
proof -
  obtain f l bs where scan: "sack_scan nat_ops (h, t) [] sack = Inr ((f, l) # bs)" "f \<le> h" "t \<le> l"
      "length bs \<le> length sack" "\<forall>blk\<in>set ((f, l) # bs). sack_ok H n blk"
    using sack_scan_ok [OF assms(1), of "[]" sack] assms(2) by auto
  have "n < h" using assms(1) by (simp add: sack_ok_def)
  then show ?thesis
    using scan assms(3) in_set_butlastD [of _ bs] by (cases "length bs = 4") (auto simp: UpdateSackList_def)
qed

lemma ClearSackList_eq:
  assumes "\<forall>blk\<in>set sack. fst blk < snd blk"
  shows "ClearSackList nat_ops n sack = Inr (filter (\<lambda>blk. n < snd blk) sack)"
  using assms by (induction sack) auto

lemma rx_advance_eq:
  assumes "blocks a xs" "\<forall>(s, p)\<in>set xs. s < n \<longrightarrow> s + length p \<le> n" "\<forall>blk\<in>set sack. fst blk < snd blk \<and> n < snd blk"
  shows "\<exists>n'. rx_advance nat_ops n avail sack xs = Inr (n', avail + of_nat (n' - n), filter (\<lambda>blk. n' < snd blk) sack) \<and>
    n \<le> n' \<and> {n..<n'} \<subseteq> held xs \<and> n' \<notin> held xs"
  using assms
proof (induction xs arbitrary: a n avail sack)
  case Nil
  then show ?case by (auto intro!: exI [of _ n] simp: filter_id_conv)
next
  case (Cons x xs)
  obtain s p where x [simp]: "x = (s, p)" by (cases x)
  have bl: "blocks (s + length p) xs" and p: "p \<noteq> []" using Cons.prems(1) by auto
  consider "s < n" | "n < s" | "s = n" by linarith
  then show ?case
  proof cases
    case 1
    then obtain n' where "rx_advance nat_ops n avail sack xs = Inr (n', avail + of_nat (n' - n), filter (\<lambda>blk. n' < snd blk) sack)"
        "n \<le> n'" "{n..<n'} \<subseteq> held xs" "n' \<notin> held xs"
      using Cons.IH [OF bl, of n sack avail] Cons.prems by auto
    then show ?thesis using 1 Cons.prems(2) by (intro exI [of _ n']) auto
  next
    case 2
    have "n \<notin> held xs" using blocks_ge [OF bl, of n] 2 p by auto
    then show ?thesis using 2 Cons.prems(3) by (intro exI [of _ n]) (auto simp: filter_id_conv)
  next
    case 3
    let ?n = "n + length p" and ?sack = "filter (\<lambda>blk. n + length p < snd blk) sack"
    have clear: "ClearSackList nat_ops ?n sack = Inr ?sack" using ClearSackList_eq Cons.prems(3) by blast
    have "\<forall>(s, p)\<in>set xs. s < ?n \<longrightarrow> s + length p \<le> ?n" using blocks_key_ge [OF bl] 3 by fastforce
    then obtain n' where n': "rx_advance nat_ops ?n (avail + of_nat (length p)) ?sack xs =
          Inr (n', avail + of_nat (length p) + of_nat (n' - ?n), filter (\<lambda>blk. n' < snd blk) ?sack)"
        "?n \<le> n'" "{?n..<n'} \<subseteq> held xs" "n' \<notin> held xs"
      using Cons.IH [OF bl, of ?n ?sack "avail + of_nat (length p)"] Cons.prems(3) by auto
    have "filter (\<lambda>blk. n' < snd blk) ?sack = filter (\<lambda>blk. n' < snd blk) sack" using n'(2) by (auto intro: filter_cong)
    moreover have "of_nat (n' - n) = (of_nat (length p) + of_nat (n' - ?n) :: u32)" using n'(2) by simp
    moreover have "{n..<n'} \<subseteq> {n..<?n} \<union> {?n..<n'}" by auto
    ultimately show ?thesis
      using 3 n' clear p by (intro exI [of _ n']) (auto simp: add.assoc simp del: of_nat_diff)
  qed
qed


subsection \<open>Taking data out\<close>

definition segment :: "bytes \<Rightarrow> nat \<Rightarrow> bytes \<Rightarrow> bool" where
  "segment S s p \<longleftrightarrow> s + length p \<le> length S \<and> p = take (length p) (drop s S)"

lemma segment_drop: "segment S s p \<Longrightarrow> k \<le> length p \<Longrightarrow> segment S (s + k) (drop k p)"
  unfolding segment_def by (auto simp: drop_take add.commute) (metis drop_drop drop_take add.commute)

lemma segment_take: "segment S s p \<Longrightarrow> k \<le> length p \<Longrightarrow> segment S s (take k p)"
  unfolding segment_def by (auto simp: min_def) (metis take_take min.absorb1)

lemma segment_part:
  "segment S s p \<Longrightarrow> i + k \<le> length p \<Longrightarrow> segment S (s + i) (take k (drop i p))"
  by (intro segment_take segment_drop) auto

lemma segment_append:
  assumes "segment S e p" "length p \<le> k"
  shows "p @ take (k - length p) (drop (e + length p) S) = take k (drop e S)"
proof -
  have "take k (drop e S) = take (length p) (drop e S) @ take (k - length p) (drop (length p) (drop e S))"
    using assms(2) by (metis take_add le_add_diff_inverse)
  then show ?thesis using assms(1) by (simp add: segment_def add.commute)
qed

lemma held_drop: "held xs - {..<b} = (held xs - {..<a}) - {..<b}" if "a \<le> b"
  using that by auto

lemma rx_extract_eq:
  assumes "blocks e xs" "{e..<e + unat k} \<subseteq> held xs" "e + unat k \<le> nx" "\<forall>(s, p)\<in>set xs. segment S s p"
    "\<forall>(s, p)\<in>set xs. length p < 2 ^ 32"
  shows "\<exists>ys. rx_extract nat_ops nx k sz avail out xs = Inr (out @ take (unat k) (drop e S), ys, sz - k, avail - k) \<and>
    blocks (e + unat k) ys \<and> held ys = held xs - {..<e + unat k} \<and> (\<forall>(s, p)\<in>set ys. segment S s p) \<and>
    total_bytes ys + unat k = total_bytes xs"
  using assms
proof (induction xs arbitrary: e k sz avail out)
  case Nil
  then have "unat k = 0" by auto
  then show ?case by (simp add: unat_eq_zero)
next
  case (Cons x xs)
  obtain s p where x [simp]: "x = (s, p)" by (cases x)
  have bl: "blocks (s + length p) xs" and p: "p \<noteq> []" and "e \<le> s" and len: "length p < 2 ^ 32" and seg: "segment S s p"
    using Cons.prems by auto
  show ?case
  proof (cases "k = 0")
    case True
    then show ?thesis using Cons.prems blocks_ge [OF Cons.prems(1)] by (intro exI [of _ "x # xs"]) fastforce
  next
    case False
    then have "0 < unat k" using unat_eq_zero by auto
    then have "e \<in> {e..<e + unat k}" by simp
    then have "e \<in> held (x # xs)" using Cons.prems(2) by blast
    then have s [simp]: "s = e" using blocks_ge [OF bl, of e] \<open>e \<le> s\<close> p by auto
    have plen: "unat (of_nat (length p) :: u32) = length p" using len by (simp add: unat_of_nat take_bit_nat_eq_self)
    show ?thesis
    proof (cases "length p \<le> unat k")
      case True
      let ?k = "k - of_nat (length p)"
      have k: "unat ?k = unat k - length p" using True plen by (simp add: unat_sub word_le_nat_alt)
      have "{e + length p..<e + length p + unat ?k} \<subseteq> held xs"
      proof
        fix y assume "y \<in> {e + length p..<e + length p + unat ?k}"
        then have "y \<in> {e..<e + unat k}" "\<not> y < e + length p" using True k by auto
        then show "y \<in> held xs" using subsetD [OF Cons.prems(2), of y] by auto
      qed
      then obtain ys where ys: "rx_extract nat_ops nx ?k (sz - of_nat (length p)) (avail - of_nat (length p)) (out @ p) xs =
            Inr ((out @ p) @ take (unat ?k) (drop (e + length p) S), ys, sz - of_nat (length p) - ?k, avail - of_nat (length p) - ?k)"
          "blocks (e + length p + unat ?k) ys" "held ys = held xs - {..<e + length p + unat ?k}"
          "\<forall>(s, p)\<in>set ys. segment S s p" "total_bytes ys + unat ?k = total_bytes xs"
        using Cons.IH [of "e + length p" ?k "sz - of_nat (length p)" "avail - of_nat (length p)" "out @ p"] bl Cons.prems k True
        by auto
      moreover have "of_nat (length p) \<le> k" using True plen by (simp add: word_le_nat_alt)
      moreover have "e \<le> nx" using Cons.prems(3) by simp
      ultimately show ?thesis
        using False True k segment_append [OF seg, of "unat k"] by (intro exI [of _ ys]) (auto simp: Let_def)
    next
      case short: False
      let ?ys = "(e + unat k, drop (unat k) p) # xs"
      have "map_put nat_ops (e + unat k) (drop (unat k) p) xs = ?ys"
        using bl short by (cases xs) auto
      then have "filter (\<lambda>(j, _). j \<noteq> e) (map_put nat_ops (e + unat k) (drop (unat k) p) ((e, p) # xs)) = ?ys"
        using \<open>0 < unat k\<close> blocks_key_ge [OF bl] p by (fastforce simp: filter_id_conv)
      moreover have "\<not> of_nat (length p) \<le> k" using short plen by (simp add: word_le_nat_alt)
      moreover have "take (unat k) p = take (unat k) (drop e S)"
        using seg short unfolding segment_def by (metis min.absorb1 nat_le_linear s take_take)
      moreover have "segment S (e + unat k) (drop (unat k) p)" using segment_drop [OF seg, of "unat k"] short by simp
      moreover have "held ?ys = held (x # xs) - {..<e + unat k}" using short blocks_ge [OF bl] by fastforce
      moreover have "blocks (e + unat k) ?ys" using bl short by auto
      ultimately show ?thesis
        using False Cons.prems short by (intro exI [of _ ?ys]) (auto simp: Let_def)
    qed
  qed
qed


subsection \<open>The buffer of a stream\<close>

text \<open>
  The buffer while the stream \<open>S\<close> is received: \<open>e\<close> bytes have been read and the first \<open>n\<close> have arrived. Stored packets are
  parts of the stream from \<open>e\<close> on, the counters are exact, and the blocks reported are held and lie beyond \<open>n\<close>.
\<close>

definition rx_inv :: "bytes \<Rightarrow> nat \<Rightarrow> nat \<Rightarrow> nat rx_buffer \<Rightarrow> bool" where
  "rx_inv S e n b \<longleftrightarrow> blocks e (rx_data b) \<and> e \<le> n \<and> e \<le> length S \<and> {e..<n} \<subseteq> held (rx_data b) \<and> n \<notin> held (rx_data b) \<and>
     (\<forall>(s, p)\<in>set (rx_data b). segment S s p) \<and> held (rx_data b) \<subseteq> {..<e + 2 ^ 29} \<and>
     rx_availBytes b = of_nat (n - e) \<and> rx_size b = of_nat (total_bytes (rx_data b)) \<and>
     rx_nextRxSeq b = (if rx_gotFin b \<and> n = length S then Suc n else n) \<and>
     (rx_gotFin b \<longrightarrow> rx_finSeq b = length S \<and> length S < e + 2 ^ 29) \<and>
     length (rx_sackList b) \<le> 4 \<and> (\<forall>blk\<in>set (rx_sackList b). sack_ok (held (rx_data b)) n blk) \<and>
     unat (rx_maxBuffer b) \<le> 2 ^ 29"

lemma sack_ok_mono: "sack_ok H n blk \<Longrightarrow> H \<subseteq> H' \<Longrightarrow> sack_ok H' n blk"
  by (auto simp: sack_ok_def)

lemma sack_ok_advance: "sack_ok H n blk \<Longrightarrow> n' \<notin> H \<Longrightarrow> n' < snd blk \<Longrightarrow> sack_ok H n' blk"
  unfolding sack_ok_def by (meson atLeastLessThan_iff not_le subsetD)

lemma sack_ok_drop: "sack_ok H n blk \<Longrightarrow> a \<le> n \<Longrightarrow> sack_ok (H - {..<a}) n blk"
  by (auto simp: sack_ok_def)

lemma held_segment: "\<forall>(s, p)\<in>set xs. segment S s p \<Longrightarrow> held xs \<subseteq> {..<length S}"
  by (fastforce simp: held_eq segment_def)

lemma rx_inv_le_length: "rx_inv S e n b \<Longrightarrow> n \<le> length S"
proof -
  assume inv: "rx_inv S e n b"
  then have "{e..<n} \<subseteq> {..<length S}" "e \<le> length S" using held_segment unfolding rx_inv_def by blast+
  then show ?thesis by (cases "e < n") (auto simp: subset_iff dest: spec [of _ "n - 1"])
qed

lemma rx_clip_nat:
  assumes "rx_clip nat_ops q u b = (h, t)"
  shows "t \<le> u" "h < t \<Longrightarrow> q \<le> h \<and> rx_nextRxSeq b \<le> h"
  using assms by (auto simp: rx_clip_def Let_def split: if_splits)

lemma to_uint32_diff: "b \<le> a \<Longrightarrow> a < b + 2 ^ 32 \<Longrightarrow> to_uint32 (int a - int b) = a - b"
  by (simp add: to_uint32_def)

text \<open>What is stored when something of the segment is new.\<close>

lemma rx_Add_stores:
  assumes inv: "rx_inv S e n b" and seg: "segment S q p" and win: "e \<le> q + 2 ^ 29" "q + length p < e + 2 ^ 29"
    and clip: "rx_clip nat_ops q (q + length p) b = (h, t)"
    and trim: "rx_trim nat_ops (rx_size b) h t (rx_data b) = (ys, sz, h', t')" and new: "h' < t'"
  obtains data where "rx_nextRxSeq b = n" "n \<le> h'" "t' \<le> t" "blocks e data" "held data = held (rx_data b) \<union> {h..<t}"
    "held data - held (rx_data b) \<subseteq> {h'..<t'}" "{h'..<t'} \<subseteq> held data" "held data \<noteq> held (rx_data b)"
    "\<forall>(s, p)\<in>set data. segment S s p" "\<forall>(s, p)\<in>set data. s < n \<longrightarrow> s + length p \<le> n"
    "rx_Add nat_ops p q b =
       bind_res (if n < h' then UpdateSackList nat_ops n h' t' (rx_sackList b) else Inr (rx_sackList b)) (\<lambda>sack.
       bind_res (rx_advance nat_ops n (rx_availBytes b) sack data) (\<lambda>(n', avail, sack).
         Inr (True, b\<lparr>rx_data := data, rx_size := of_nat (total_bytes data),
           rx_nextRxSeq := (if rx_gotFin b \<and> n' = length S then Suc n' else n'), rx_availBytes := avail, rx_sackList := sack\<rparr>)))"
proof -
  have bl: "blocks e (rx_data b)" using inv by (simp add: rx_inv_def)
  note trimmed = rx_trim_blocks [OF bl trim] rx_trim_held [OF bl trim] rx_trim_disjoint [OF bl trim]
  have ht: "h \<le> h'" "t' \<le> t" "t \<le> q + length p" "q \<le> h" "rx_nextRxSeq b \<le> h"
    using new trimmed(1) rx_clip_nat [OF clip] by auto
  have tS: "t' \<le> length S" using ht seg by (simp add: segment_def)
  have nx: "rx_nextRxSeq b = n" using inv ht new tS by (auto simp: rx_inv_def split: if_splits)
  define frag where "frag = take (t' - h') (drop (h' - q) p)"
  have frag: "length frag = t' - h'" "h' + length frag = t'" using ht new by (auto simp: frag_def)
  have fseg: "segment S h' frag" using segment_part [OF seg, of "h' - q" "t' - h'"] ht new by (simp add: frag_def)
  have fresh: "h' \<notin> fst ` set ys" using fresh_key trimmed new by blast
  define data where "data = map_put nat_ops h' frag ys"
  have data: "set data = insert (h', frag) (set ys)" unfolding data_def by (rule set_map_put [OF fresh])
  have hys: "held data = held ys \<union> {h'..<t'}" using held_map_put [OF fresh] frag by (simp add: data_def)
  have sub: "held ys \<subseteq> held (rx_data b)" using trimmed(1) by (auto simp: held_eq)
  show ?thesis
  proof
    show "rx_nextRxSeq b = n" "n \<le> h'" "t' \<le> t" using nx ht by auto
    show "blocks e data" unfolding data_def
      using trimmed frag new ht inv nx by (intro blocks_map_put) (auto simp: rx_inv_def)
    show "held data = held (rx_data b) \<union> {h..<t}" using trimmed(2) hys by simp
    show "held data - held (rx_data b) \<subseteq> {h'..<t'}" "{h'..<t'} \<subseteq> held data" using hys sub by auto
    show "held data \<noteq> held (rx_data b)" using hys rx_trim_new [OF bl trim new] new by auto
    show "\<forall>(s, p)\<in>set data. segment S s p" using data trimmed(1) fseg inv by (auto simp: rx_inv_def)
    show "\<forall>(s, p)\<in>set data. s < n \<longrightarrow> s + length p \<le> n"
    proof clarify
      fix s r assume "(s, r) \<in> set data" "s < n"
      then have "(s, r) \<in> set (rx_data b)" using data trimmed(1) nx ht by auto
      then have "{s..<s + length r} \<subseteq> held (rx_data b)" by (auto simp: held_eq)
      then show "s + length r \<le> n" using inv \<open>s < n\<close> unfolding rx_inv_def by (meson atLeastLessThan_iff less_imp_le not_le subsetD)
    qed
    have "to_uint32 (int h' - int q) = h' - q" "to_uint32 (int t' - int h') = t' - h'"
      using ht win new by (intro to_uint32_diff; simp)+
    moreover have "CreateFragment (h' - q) (t' - h') p = Inr frag"
      using ht new by (auto simp: CreateFragment_def frag_def)
    ultimately have "rx_Add nat_ops p q b = rx_insert nat_ops h' t' frag (b\<lparr>rx_data := ys, rx_size := sz\<rparr>)"
      using new frag by (simp add: rx_Add_def clip trim)
    moreover have "sz + of_nat (length frag) = of_nat (total_bytes data)"
      using rx_trim_size [OF trim] inv total_map_put [OF fresh] by (simp add: rx_inv_def data_def)
    moreover have "rx_gotFin b \<Longrightarrow> rx_finSeq b = length S" using inv by (simp add: rx_inv_def)
    ultimately show "rx_Add nat_ops p q b =
       bind_res (if n < h' then UpdateSackList nat_ops n h' t' (rx_sackList b) else Inr (rx_sackList b)) (\<lambda>sack.
       bind_res (rx_advance nat_ops n (rx_availBytes b) sack data) (\<lambda>(n', avail, sack).
         Inr (True, b\<lparr>rx_data := data, rx_size := of_nat (total_bytes data),
           rx_nextRxSeq := (if rx_gotFin b \<and> n' = length S then Suc n' else n'), rx_availBytes := avail, rx_sackList := sack\<rparr>)))"
      using nx fresh
      by (auto simp: rx_insert_def Let_def data_def [symmetric] intro!: bind_res_cong)
  qed
qed


lemma rx_Add_nat:
  assumes inv: "rx_inv S e n b" and seg: "segment S q p" and win: "e \<le> q + 2 ^ 29" "q + length p < e + 2 ^ 29"
    and clip: "rx_clip nat_ops q (q + length p) b = (h, t)"
  shows "\<exists>r n' b'. rx_Add nat_ops p q b = Inr (r, b') \<and> rx_inv S e n' b' \<and> n \<le> n' \<and>
     held (rx_data b') = held (rx_data b) \<union> {h..<t} \<and>
     rx_gotFin b' = rx_gotFin b \<and> rx_maxBuffer b' = rx_maxBuffer b \<and> (r \<longleftrightarrow> held (rx_data b') \<noteq> held (rx_data b)) \<and>
     (r \<and> n' = n \<longrightarrow> rx_sackList b' \<noteq> [] \<and>
        held (rx_data b') - held (rx_data b) \<subseteq> {fst (hd (rx_sackList b'))..<snd (hd (rx_sackList b'))})"
proof -
  have bl: "blocks e (rx_data b)" using inv by (simp add: rx_inv_def)
  obtain ys sz h' t' where trim: "rx_trim nat_ops (rx_size b) h t (rx_data b) = (ys, sz, h', t')" by (metis prod_cases4)
  show ?thesis
  proof (cases "h' < t'")
    case False
    then have "ys = rx_data b" "sz = rx_size b" using rx_trim_nothing [OF bl trim] by auto
    moreover have "held (rx_data b) = held (rx_data b) \<union> {h..<t}" using rx_trim_held [OF bl trim] False calculation by auto
    ultimately show ?thesis using inv False
      by (intro exI [of _ False] exI [of _ n] exI [of _ b]) (simp add: rx_Add_def clip trim)
  next
    case True
    from rx_Add_stores [OF inv seg win clip trim True] obtain data where d:
      "rx_nextRxSeq b = n" "n \<le> h'" "t' \<le> t" "blocks e data" "held data = held (rx_data b) \<union> {h..<t}"
      "held data - held (rx_data b) \<subseteq> {h'..<t'}" "{h'..<t'} \<subseteq> held data" "held data \<noteq> held (rx_data b)"
      "\<forall>(s, p)\<in>set data. segment S s p" "\<forall>(s, p)\<in>set data. s < n \<longrightarrow> s + length p \<le> n"
      and Add: "rx_Add nat_ops p q b =
       bind_res (if n < h' then UpdateSackList nat_ops n h' t' (rx_sackList b) else Inr (rx_sackList b)) (\<lambda>sack.
       bind_res (rx_advance nat_ops n (rx_availBytes b) sack data) (\<lambda>(n', avail, sack).
         Inr (True, b\<lparr>rx_data := data, rx_size := of_nat (total_bytes data),
           rx_nextRxSeq := (if rx_gotFin b \<and> n' = length S then Suc n' else n'), rx_availBytes := avail, rx_sackList := sack\<rparr>)))"
      by blast
    have old: "\<forall>blk\<in>set (rx_sackList b). sack_ok (held data) n blk" "length (rx_sackList b) \<le> 4"
      using inv d(5) sack_ok_mono by (auto simp: rx_inv_def)
    have "\<exists>sack. (if n < h' then UpdateSackList nat_ops n h' t' (rx_sackList b) else Inr (rx_sackList b)) = Inr sack \<and>
        (\<forall>blk\<in>set sack. sack_ok (held data) n blk) \<and> length sack \<le> 4 \<and>
        (n < h' \<longrightarrow> sack \<noteq> [] \<and> fst (hd sack) \<le> h' \<and> t' \<le> snd (hd sack))"
      using UpdateSackList_ok [OF _ old, of h' t'] old True d(7) by (fastforce simp: sack_ok_def)
    then obtain sack where sack: "(if n < h' then UpdateSackList nat_ops n h' t' (rx_sackList b) else Inr (rx_sackList b)) = Inr sack"
        "\<forall>blk\<in>set sack. sack_ok (held data) n blk" "length sack \<le> 4"
        "n < h' \<Longrightarrow> sack \<noteq> [] \<and> fst (hd sack) \<le> h' \<and> t' \<le> snd (hd sack)" by blast
    have "\<forall>blk\<in>set sack. fst blk < snd blk \<and> n < snd blk" using sack(2) by (auto simp: sack_ok_def)
    from rx_advance_eq [OF d(4,10) this, of "rx_availBytes b"] obtain n' where adv:
      "rx_advance nat_ops n (rx_availBytes b) sack data = Inr (n', rx_availBytes b + of_nat (n' - n), filter (\<lambda>blk. n' < snd blk) sack)"
      "n \<le> n'" "{n..<n'} \<subseteq> held data" "n' \<notin> held data" by blast
    let ?b = "b\<lparr>rx_data := data, rx_size := of_nat (total_bytes data),
        rx_nextRxSeq := (if rx_gotFin b \<and> n' = length S then Suc n' else n'),
        rx_availBytes := rx_availBytes b + of_nat (n' - n), rx_sackList := filter (\<lambda>blk. n' < snd blk) sack\<rparr>"
    have "{e..<n'} \<subseteq> held data"
    proof -
      have "{e..<n'} = {e..<n} \<union> {n..<n'}" using inv adv(2) by (auto simp: rx_inv_def)
      then show ?thesis using inv adv(3) d(5) by (auto simp: rx_inv_def)
    qed
    moreover have "held data \<subseteq> {..<e + 2 ^ 29}" using inv d(5) rx_clip_nat(1) [OF clip] win(2) by (auto simp: rx_inv_def)
    moreover have "rx_availBytes b + of_nat (n' - n) = of_nat (n' - e)" using inv adv(2) by (simp add: rx_inv_def)
    moreover have "\<forall>blk\<in>set (filter (\<lambda>blk. n' < snd blk) sack). sack_ok (held data) n' blk"
      using sack(2) sack_ok_advance adv(4) by auto
    moreover have "length (filter (\<lambda>blk. n' < snd blk) sack) \<le> 4" using sack(3) length_filter_le le_trans by blast
    ultimately have "rx_inv S e n' ?b" using inv d(4,9) adv(2,4) by (simp add: rx_inv_def)
    moreover have "filter (\<lambda>blk. n < snd blk) sack = sack" using sack(2) by (auto simp: filter_id_conv sack_ok_def)
    moreover have "n < h'" if "n' = n" using that adv(4) d(2,7) True by (cases "h' = n") auto
    ultimately show ?thesis using Add sack(1,4) adv d
      by (intro exI [of _ True] exI [of _ n'] exI [of _ ?b]) auto
  qed
qed

lemma rx_inv_avail:
  assumes "rx_inv S e n b"
  shows "n \<le> e + 2 ^ 29" "unat (rx_availBytes b) = n - e"
proof -
  have inv: "{e..<n} \<subseteq> held (rx_data b)" "held (rx_data b) \<subseteq> {..<e + 2 ^ 29}" "rx_availBytes b = of_nat (n - e)"
    using assms unfolding rx_inv_def by blast+
  have "n - 1 \<in> {..<e + 2 ^ 29}" if "e < n" using subsetD [OF subset_trans [OF inv(1,2)], of "n - 1"] that by simp
  then show n: "n \<le> e + 2 ^ 29" by (cases "e < n") auto
  then show "unat (rx_availBytes b) = n - e" unfolding inv(3) by (subst unat_of_nat) (simp add: take_bit_nat_eq_self)
qed

lemma rx_Extract_nat:
  assumes inv: "rx_inv S e n b"
  shows "\<exists>b'. rx_Extract nat_ops m b = Inr (if min (unat m) (n - e) = 0 then None else Some (take (min (unat m) (n - e)) (drop e S)), b') \<and>
    rx_inv S (e + min (unat m) (n - e)) n b' \<and> held (rx_data b') = held (rx_data b) - {..<e + min (unat m) (n - e)} \<and>
    rx_gotFin b' = rx_gotFin b \<and> rx_maxBuffer b' = rx_maxBuffer b"
proof -
  have ub: "x < e + 2 ^ 29" if "x \<in> held (rx_data b)" for x using inv that unfolding rx_inv_def by blast
  have len: "length p < 2 ^ 32" if "(s, p) \<in> set (rx_data b)" for s p
  proof (cases p rule: rev_cases)
    case (snoc p' x)
    have "{s..<s + length p} \<subseteq> held (rx_data b)" using that by (auto simp: held_eq)
    then have "s + length p' \<in> held (rx_data b)" using snoc by auto
    moreover have "e \<le> s" using blocks_key_ge that inv by (auto simp: rx_inv_def)
    ultimately show ?thesis using ub [of "s + length p'"] snoc by simp
  qed simp
  define k where "k = min m (rx_availBytes b)"
  have k: "unat k = min (unat m) (n - e)"
    using rx_inv_avail [OF inv] by (simp add: k_def min_def word_le_nat_alt)
  show ?thesis
  proof (cases "k = 0")
    case True
    then have "min (unat m) (n - e) = 0" using k by simp
    then show ?thesis using inv True blocks_ge [of e "rx_data b"]
      by (intro exI [of _ b]) (fastforce simp: rx_Extract_def k_def Let_def rx_inv_def)
  next
    case False
    have "{e..<e + unat k} \<subseteq> {e..<n}" using inv k by (auto simp: rx_inv_def)
    then have en: "{e..<e + unat k} \<subseteq> held (rx_data b)" "e + unat k \<le> rx_nextRxSeq b" "e + unat k \<le> n"
      using inv k by (auto simp: rx_inv_def)
    obtain ys where ys: "rx_extract nat_ops (rx_nextRxSeq b) k (rx_size b) (rx_availBytes b) [] (rx_data b) =
          Inr (take (unat k) (drop e S), ys, rx_size b - k, rx_availBytes b - k)"
        "blocks (e + unat k) ys" "held ys = held (rx_data b) - {..<e + unat k}" "\<forall>(s, p)\<in>set ys. segment S s p"
        "total_bytes ys + unat k = total_bytes (rx_data b)"
      using rx_extract_eq [OF _ en(1,2), of S "rx_size b" "rx_availBytes b" "[]"] inv len by (auto simp: rx_inv_def)
    let ?b = "b\<lparr>rx_data := ys, rx_size := rx_size b - k, rx_availBytes := rx_availBytes b - k\<rparr>"
    have ne2: "unat k \<noteq> 0" using False by (simp add: unat_eq_zero)
    then have "e \<in> {e..<e + unat k}" by simp
    then have ne: "rx_data b \<noteq> []" "unat k \<noteq> 0" using en(1) ne2 by auto
    moreover have "take (unat k) (drop e S) \<noteq> []" using ne rx_inv_le_length [OF inv] en(3) by simp
    ultimately have "rx_Extract nat_ops m b = Inr (Some (take (unat k) (drop e S)), ?b)"
      using False ys(1) by (simp add: rx_Extract_def k_def [symmetric])
    moreover have "rx_inv S (e + unat k) n ?b"
    proof -
      have "{e + unat k..<n} \<subseteq> held ys" "n \<notin> held ys" "held ys \<subseteq> {..<e + unat k + 2 ^ 29}"
        using inv ys(3) by (auto simp: rx_inv_def subset_iff)
      moreover have "rx_size b - k = of_nat (total_bytes ys)"
        using inv arg_cong [OF ys(5), of "of_nat :: nat \<Rightarrow> u32"] by (simp add: rx_inv_def algebra_simps)
      moreover have "rx_availBytes b - k = of_nat (n - (e + unat k))"
        using inv en(3) by (simp add: rx_inv_def)
      moreover have "\<forall>blk\<in>set (rx_sackList b). sack_ok (held ys) n blk"
        using inv sack_ok_drop [OF _ en(3)] unfolding rx_inv_def ys(3) by blast
      ultimately show ?thesis using inv ys(2,4) en(3) rx_inv_le_length [OF inv] by (auto simp: rx_inv_def)
    qed
    ultimately show ?thesis using ys(3) ne(2) unfolding k by (intro exI [of _ ?b]) simp
  qed
qed

end
