(* ===== verification/Tcp_Rx_Window.thy ===== *)
theory Tcp_Rx_Window
  imports Tcp_Rx_Stream
begin

text \<open>
  The receive buffer on numbers that represent stream positions: the locale \<open>seq_window\<close> states what the operators have to keep of the
  positions within a window, the lemmas in it that every operation of the buffer then commutes with the representation, and
  its interpretation that 32-bit sequence numbers qualify.
\<close>

section \<open>Positions on the circle\<close>

text \<open>
  Operators \<open>ops\<close> on numbers that represent stream positions through \<open>w\<close>, faithfully for positions within \<open>2 ^ 31\<close> of each other.
  Everything the buffer does with such numbers it does with the positions.
\<close>

definition in_win :: "nat \<Rightarrow> nat \<Rightarrow> bool" where
  "in_win L x \<longleftrightarrow> L \<le> x \<and> x < L + 2 ^ 31"

definition data_win :: "nat \<Rightarrow> (nat \<times> bytes) list \<Rightarrow> bool" where
  "data_win L xs \<longleftrightarrow> (\<forall>(s, p)\<in>set xs. in_win L s \<and> in_win L (s + length p))"

definition sack_win :: "nat \<Rightarrow> (nat \<times> nat) list \<Rightarrow> bool" where
  "sack_win L bs \<longleftrightarrow> (\<forall>(f, l)\<in>set bs. in_win L f \<and> in_win L l)"

definition map_buffer :: "(nat \<Rightarrow> 's) \<Rightarrow> nat rx_buffer \<Rightarrow> 's rx_buffer" where
  "map_buffer w b = \<lparr>rx_nextRxSeq = w (rx_nextRxSeq b), rx_finSeq = w (rx_finSeq b), rx_gotFin = rx_gotFin b,
     rx_size = rx_size b, rx_maxBuffer = rx_maxBuffer b, rx_availBytes = rx_availBytes b,
     rx_data = map (map_prod w id) (rx_data b), rx_sackList = map (map_prod w w) (rx_sackList b)\<rparr>"

lemma win_simps [simp]:
  "data_win L []" "data_win L ((s, p) # xs) \<longleftrightarrow> in_win L s \<and> in_win L (s + length p) \<and> data_win L xs"
  "sack_win L []" "sack_win L ((f, l) # bs) \<longleftrightarrow> in_win L f \<and> in_win L l \<and> sack_win L bs"
  "sack_win L (as @ bs) \<longleftrightarrow> sack_win L as \<and> sack_win L bs"
  by (auto simp: data_win_def sack_win_def)

lemma rx_trim_win:
  assumes "data_win L xs" "in_win L h" "in_win L t" "rx_trim nat_ops sz h t xs = (ys, sz', h', t')"
  shows "data_win L ys \<and> in_win L h' \<and> in_win L t'"
  using assms
proof (induction xs arbitrary: sz h t ys sz' h' t')
  case (Cons x xs)
  obtain s p where x [simp]: "x = (s, p)" by (cases x)
  have IH: "rx_trim nat_ops sz1 h1 t1 xs = (ys1, sz1', h1', t1') \<Longrightarrow> in_win L h1 \<Longrightarrow> in_win L t1 \<Longrightarrow>
      data_win L ys1 \<and> in_win L h1' \<and> in_win L t1'" for sz1 h1 t1 ys1 sz1' h1' t1'
    using Cons.IH [of h1 t1 sz1 ys1 sz1' h1' t1'] Cons.prems(1) by simp
  show ?case using Cons.prems IH by (fastforce simp: Let_def split: if_splits prod.splits)
qed auto

lemma rx_trim_subset: "rx_trim ops sz h t xs = (ys, sz', h', t') \<Longrightarrow> set ys \<subseteq> set xs"
proof (induction xs arbitrary: sz h t ys sz' h' t')
  case (Cons x xs)
  obtain s p where x [simp]: "x = (s, p)" by (cases x)
  show ?case using Cons.prems Cons.IH by (fastforce simp: Let_def split: if_splits prod.splits)
qed simp

lemma map_put_win: "data_win L xs \<Longrightarrow> in_win L h \<Longrightarrow> in_win L (h + length q) \<Longrightarrow> data_win L (map_put nat_ops h q xs)"
  by (induction nat_ops h q xs rule: map_put.induct) auto

lemma sack_scan_win:
  "sack_win L [b0] \<Longrightarrow> sack_win L pre \<Longrightarrow> sack_win L rest \<Longrightarrow> sack_scan nat_ops b0 pre rest = Inr bs \<Longrightarrow> sack_win L bs"
  by (induction nat_ops b0 pre rest rule: sack_scan.induct) (auto split: if_splits)

lemma UpdateSackList_win:
  assumes "UpdateSackList nat_ops n h t sack = Inr bs" "in_win L h" "in_win L t" "sack_win L sack"
  shows "sack_win L bs"
  using assms sack_scan_win [of L "(h, t)" "[]" sack]
  by (auto simp: UpdateSackList_def sack_win_def elim!: bind_res_eq_InrE split: if_splits dest!: in_set_butlastD)

lemma ClearSackList_win: "sack_win L sack \<Longrightarrow> ClearSackList nat_ops n sack = Inr bs \<Longrightarrow> sack_win L bs"
  by (induction sack arbitrary: bs) (auto elim!: bind_res_eq_InrE split: if_splits)

definition buffer_win :: "nat \<Rightarrow> nat rx_buffer \<Rightarrow> bool" where
  "buffer_win L b \<longleftrightarrow> in_win L (rx_nextRxSeq b) \<and> (rx_gotFin b \<longrightarrow> in_win L (rx_finSeq b)) \<and> data_win L (rx_data b) \<and>
     sack_win L (rx_sackList b) \<and> (\<forall>(s, p)\<in>set (rx_data b). in_win L (s + unat (rx_maxBuffer b)))"

lemma rx_advance_win:
  assumes "data_win L xs" "in_win L n" "rx_advance nat_ops n avail sack xs = Inr (n', r)"
  shows "in_win L n'"
  using assms
  by (induction xs arbitrary: n avail sack) (auto simp: Let_def elim!: bind_res_eq_InrE split: if_splits prod.splits)

lemma rx_clip_win:
  assumes "rx_clip nat_ops h t b = (h', t')" "buffer_win L b" "in_win L h" "in_win L t"
  shows "in_win L h' \<and> in_win L t'"
  using assms by (cases "rx_data b") (auto simp: rx_clip_def buffer_win_def Let_def split: if_splits)

lemma map_buffer_sel [simp]:
  "rx_nextRxSeq (map_buffer w b) = w (rx_nextRxSeq b)" "rx_finSeq (map_buffer w b) = w (rx_finSeq b)"
  "rx_gotFin (map_buffer w b) = rx_gotFin b" "rx_size (map_buffer w b) = rx_size b"
  "rx_maxBuffer (map_buffer w b) = rx_maxBuffer b" "rx_availBytes (map_buffer w b) = rx_availBytes b"
  "rx_data (map_buffer w b) = map (map_prod w id) (rx_data b)"
  "rx_sackList (map_buffer w b) = map (map_prod w w) (rx_sackList b)"
  by (simp_all add: map_buffer_def)

lemma map_buffer_upd:
  "(map_buffer w b)\<lparr>rx_data := map (map_prod w id) d, rx_size := sz\<rparr> = map_buffer w (b\<lparr>rx_data := d, rx_size := sz\<rparr>)"
  by (simp add: map_buffer_def)

text \<open>The three outcomes of \<open>rx_insert\<close> on a packet that is not there yet.\<close>

lemma rx_insert_cases:
  assumes "h \<notin> fst ` set (rx_data b)"
    and "upd = (if op_gt ops h (rx_nextRxSeq b) then UpdateSackList ops (rx_nextRxSeq b) h t (rx_sackList b) else Inr (rx_sackList b))"
    and "data = map_put ops h p (rx_data b)"
  shows "upd = Inl e \<Longrightarrow> rx_insert ops h t p b = Inl e"
    and "upd = Inr sack \<Longrightarrow> rx_advance ops (rx_nextRxSeq b) (rx_availBytes b) sack data = Inl e \<Longrightarrow> rx_insert ops h t p b = Inl e"
    and "upd = Inr sack \<Longrightarrow> rx_advance ops (rx_nextRxSeq b) (rx_availBytes b) sack data = Inr (n', avail', sack') \<Longrightarrow>
      rx_insert ops h t p b = Inr (True, b\<lparr>rx_data := data, rx_size := rx_size b + of_nat (length p), rx_availBytes := avail',
        rx_sackList := sack', rx_nextRxSeq := (if rx_gotFin b \<and> n' = rx_finSeq b then op_plus ops n' 1 else n')\<rparr>)"
  using assms(1) by (auto simp: rx_insert_def Let_def assms(2,3) split: if_splits)

locale seq_window =
  fixes ops :: "'s seq_ops" and w :: "nat \<Rightarrow> 's"
  assumes plus [simp]: "op_plus ops (w a) k = w (a + k)"
    and lt: "in_win L a \<Longrightarrow> in_win L b \<Longrightarrow> op_lt ops (w a) (w b) \<longleftrightarrow> a < b"
    and le: "in_win L a \<Longrightarrow> in_win L b \<Longrightarrow> op_le ops (w a) (w b) \<longleftrightarrow> a \<le> b"
    and gt: "in_win L a \<Longrightarrow> in_win L b \<Longrightarrow> op_gt ops (w a) (w b) \<longleftrightarrow> b < a"
    and ge: "in_win L a \<Longrightarrow> in_win L b \<Longrightarrow> op_ge ops (w a) (w b) \<longleftrightarrow> b \<le> a"
    and minus: "in_win L a \<Longrightarrow> in_win L b \<Longrightarrow> op_minus ops (w a) (w b) = Inr (int a - int b)"
    and eq: "in_win L a \<Longrightarrow> in_win L b \<Longrightarrow> w a = w b \<longleftrightarrow> a = b"
begin

lemmas compare = lt le gt ge eq

lemma w_trim:
  assumes "data_win L xs" "in_win L h" "in_win L t"
  shows "rx_trim ops sz (w h) (w t) (map (map_prod w id) xs) =
    (case rx_trim nat_ops sz h t xs of (ys, sz', h', t') \<Rightarrow> (map (map_prod w id) ys, sz', w h', w t'))"
  using assms
proof (induction xs arbitrary: sz h t)
  case (Cons x xs)
  obtain s p where x [simp]: "x = (s, p)" by (cases x)
  have win: "in_win L s" "in_win L (s + length p)" "data_win L xs" using Cons.prems by auto
  let ?h = "if s \<le> h then s + length p else h" and ?t = "if t \<le> s + length p then s else t"
  have "in_win L ?h" "in_win L ?t" using win Cons.prems by auto
  then show ?case
    using Cons.IH [OF win(3), of ?h ?t sz] Cons.IH [OF win(3), of h t] win Cons.prems(2,3)
    by (simp add: Let_def compare [where L = L] if_distrib [of w, symmetric] split: prod.split)
qed simp

lemma w_map_put:
  assumes "data_win L xs" "in_win L h"
  shows "map_put ops (w h) q (map (map_prod w id) xs) = map (map_prod w id) (map_put nat_ops h q xs)"
  using assms by (induction nat_ops h q xs rule: map_put.induct) (auto simp: compare [where L = L])

lemma w_sack_scan:
  assumes "sack_win L [b0]" "sack_win L pre" "sack_win L rest"
  shows "sack_scan ops (map_prod w w b0) (map (map_prod w w) pre) (map (map_prod w w) rest) =
    map_sum id (map (map_prod w w)) (sack_scan nat_ops b0 pre rest)"
  using assms
proof (induction nat_ops b0 pre rest rule: sack_scan.induct)
  case (2 b0 pre current rest)
  obtain f l f' l' where [simp]: "b0 = (f, l)" "current = (f', l')" by (cases b0, cases current) auto
  have win: "in_win L f" "in_win L l" "in_win L f'" "in_win L l'" "sack_win L pre" "sack_win L rest" using 2(4-) by auto
  show ?case using 2(1-3) win by (auto simp: compare [where L = L])
qed simp

lemma w_UpdateSackList:
  assumes "in_win L n" "in_win L h" "in_win L t" "sack_win L sack"
  shows "UpdateSackList ops (w n) (w h) (w t) (map (map_prod w w) sack) =
    map_sum id (map (map_prod w w)) (UpdateSackList nat_ops n h t sack)"
  using assms w_sack_scan [of L "(h, t)" "[]" sack]
  by (cases "sack_scan nat_ops (h, t) [] sack") (auto simp: UpdateSackList_def compare [where L = L] map_butlast)

lemma w_ClearSackList:
  assumes "in_win L n" "sack_win L sack"
  shows "ClearSackList ops (w n) (map (map_prod w w) sack) = map_sum id (map (map_prod w w)) (ClearSackList nat_ops n sack)"
  using assms
proof (induction sack)
  case (Cons blk sack)
  obtain f l where [simp]: "blk = (f, l)" by (cases blk)
  show ?case using Cons by (cases "ClearSackList nat_ops n sack") (auto simp: compare [where L = L])
qed simp

lemma w_advance:
  assumes "data_win L xs" "in_win L n" "sack_win L sack"
  shows "rx_advance ops (w n) avail (map (map_prod w w) sack) (map (map_prod w id) xs) =
    map_sum id (map_prod w (map_prod id (map (map_prod w w)))) (rx_advance nat_ops n avail sack xs)"
  using assms
proof (induction xs arbitrary: n avail sack)
  case (Cons x xs)
  obtain s p where x [simp]: "x = (s, p)" by (cases x)
  have win: "in_win L s" "in_win L (s + length p)" "data_win L xs" using Cons.prems by auto
  show ?case
    using Cons.prems(2,3) win Cons.IH w_ClearSackList [of L "s + length p" sack] ClearSackList_win [of L sack "s + length p"]
    by (cases "ClearSackList nat_ops (s + length p) sack") (auto simp: Let_def compare [where L = L])
qed simp

lemma w_extract:
  assumes "data_win L xs" "in_win L n"
  shows "rx_extract ops (w n) k sz avail out (map (map_prod w id) xs) =
    map_sum id (map_prod id (map_prod (map (map_prod w id)) id)) (rx_extract nat_ops n k sz avail out xs)"
  using assms
proof (induction xs arbitrary: k sz avail out)
  case (Cons x xs)
  obtain s p where x [simp]: "x = (s, p)" by (cases x)
  have win: "in_win L s" "data_win L xs" "in_win L (s + length p)" using Cons.prems by auto
  show ?case
  proof (cases "k = 0 \<or> n < s \<or> of_nat (length p) \<le> k")
    case True
    then show ?thesis using Cons.IH Cons.prems win by (auto simp: Let_def compare [where L = L])
  next
    case False
    have "unat k < unat (of_nat (length p) :: u32)" using False by (simp add: word_le_nat_alt)
    also have "\<dots> \<le> length p" by (simp add: unat_of_nat)
    finally have kp: "unat k < length p" .
    then have k: "in_win L (s + unat k)" using win by (simp add: in_win_def)
    have "filter (\<lambda>(k, _). k \<noteq> w s) (map (map_prod w id) ys) = map (map_prod w id) (filter (\<lambda>(k, _). k \<noteq> s) ys)"
      if "data_win L ys" for ys
      using that win(1) by (induction ys) (auto simp: compare [where L = L])
    moreover have "data_win L (map_put nat_ops (s + unat k) (drop (unat k) p) ((s, p) # xs))"
      using map_put_win [of L "(s, p) # xs" "s + unat k" "drop (unat k) p"] k kp win by simp
    ultimately show ?thesis
      using False win Cons.prems(2) w_map_put [OF Cons.prems(1) k, of "drop (unat k) p"]
      by (simp add: Let_def id_def compare [where L = L] del: map_put.simps)
  qed
qed simp

lemma w_clip:
  assumes "buffer_win L b" "in_win L h" "in_win L t"
  shows "rx_clip ops (w h) (w t) (map_buffer w b) = map_prod w w (rx_clip nat_ops h t b)"
proof (cases "rx_data b")
  case Nil
  then show ?thesis using assms by (simp add: rx_clip_def map_buffer_def buffer_win_def compare [where L = L])
next
  case (Cons x xs)
  obtain s p where x: "x = (s, p)" by (cases x)
  show ?thesis
    using assms Cons x by (auto simp: rx_clip_def map_buffer_def buffer_win_def Let_def compare [where L = L])
qed

lemma w_key: "data_win L xs \<Longrightarrow> in_win L h \<Longrightarrow> w h \<in> fst ` set (map (map_prod w id) xs) \<longleftrightarrow> h \<in> fst ` set xs"
proof (induction xs)
  case (Cons x xs)
  obtain s p where [simp]: "x = (s, p)" by (cases x)
  have "w h = w s \<longleftrightarrow> h = s" using Cons.prems eq by auto
  then show ?case using Cons by (simp add: image_iff)
qed simp

lemma w_insert:
  assumes "buffer_win L b" "in_win L h" "in_win L t" "in_win L (h + length p)"
  shows "rx_insert ops (w h) (w t) p (map_buffer w b) = map_sum id (map_prod id (map_buffer w)) (rx_insert nat_ops h t p b)"
proof (cases "h \<in> fst ` set (rx_data b)")
  case True
  then show ?thesis using w_key [of L "rx_data b" h] assms by (simp add: rx_insert_def buffer_win_def map_buffer_def)
next
  case False
  let ?n = "rx_nextRxSeq b" and ?data = "map_put nat_ops h p (rx_data b)"
  define upd where "upd = (if ?n < h then UpdateSackList nat_ops ?n h t (rx_sackList b) else Inr (rx_sackList b))"
  have win: "in_win L ?n" "data_win L (rx_data b)" "sack_win L (rx_sackList b)" "rx_gotFin b \<Longrightarrow> in_win L (rx_finSeq b)"
    using assms(1) by (auto simp: buffer_win_def)
  have key: "w h \<notin> fst ` set (rx_data (map_buffer w b))"
    using False w_key [OF win(2) assms(2)] by simp
  have put: "map (map_prod w id) ?data = map_put ops (w h) p (rx_data (map_buffer w b))"
    using w_map_put [OF win(2) assms(2)] by simp
  have dwin: "data_win L ?data" by (rule map_put_win [OF win(2) assms(2,4)])
  have updw: "map_sum id (map (map_prod w w)) upd =
      (if op_gt ops (w h) (rx_nextRxSeq (map_buffer w b))
       then UpdateSackList ops (rx_nextRxSeq (map_buffer w b)) (w h) (w t) (rx_sackList (map_buffer w b))
       else Inr (rx_sackList (map_buffer w b)))"
    using win assms w_UpdateSackList [of L ?n h t "rx_sackList b"] by (simp add: upd_def gt [where L = L])
  have updn: "upd = (if op_gt nat_ops h ?n then UpdateSackList nat_ops ?n h t (rx_sackList b) else Inr (rx_sackList b))"
    by (simp add: upd_def)
  note conc = rx_insert_cases [OF key updw put] and abst = rx_insert_cases [OF False updn refl]
  show ?thesis
  proof (cases upd)
    case (Inl e)
    then show ?thesis using conc(1) abst(1) by simp
  next
    case (Inr sack)
    have "sack_win L sack"
      using Inr win assms UpdateSackList_win [of ?n h t "rx_sackList b" sack L] by (auto simp: upd_def split: if_splits)
    note adv = w_advance [OF dwin win(1) this, of "rx_availBytes b"]
    show ?thesis
    proof (cases "rx_advance nat_ops ?n (rx_availBytes b) sack ?data")
      case (Inl e)
      then show ?thesis using conc(2) abst(2) adv \<open>upd = Inr sack\<close> by simp
    next
      case (Inr r)
      obtain n' avail' sack' where r: "r = (n', avail', sack')" by (cases r)
      then have "in_win L n'" using rx_advance_win [OF dwin win(1)] Inr by blast
      then have "rx_gotFin b \<Longrightarrow> w n' = w (rx_finSeq b) \<longleftrightarrow> n' = rx_finSeq b" using eq win(4) by blast
      then show ?thesis using conc(3) abst(3) adv Inr r \<open>upd = Inr sack\<close> by (auto simp: map_buffer_def)
    qed
  qed
qed

lemma w_Add:
  assumes "buffer_win L b" "in_win L q" "in_win L (q + length p)"
  shows "rx_Add ops p (w q) (map_buffer w b) = map_sum id (map_prod id (map_buffer w)) (rx_Add nat_ops p q b)"
proof -
  obtain h t where clip: "rx_clip nat_ops q (q + length p) b = (h, t)" by fastforce
  obtain ys sz h' t' where trim: "rx_trim nat_ops (rx_size b) h t (rx_data b) = (ys, sz, h', t')" by (metis prod_cases4)
  have bl: "data_win L (rx_data b)" using assms(1) by (simp add: buffer_win_def)
  have ht: "in_win L h" "in_win L t" using rx_clip_win [OF clip assms] by auto
  have win: "data_win L ys" "in_win L h'" "in_win L t'" using rx_trim_win [OF bl ht trim] by auto
  have clipw: "rx_clip ops (w q) (w (q + length p)) (map_buffer w b) = (w h, w t)" using w_clip [OF assms] clip by simp
  have trimw: "rx_trim ops (rx_size b) (w h) (w t) (map (map_prod w id) (rx_data b)) = (map (map_prod w id) ys, sz, w h', w t')"
    using w_trim [OF bl ht] trim by simp
  show ?thesis
  proof (cases "t' \<le> h'")
    case True
    then show ?thesis using clip trim clipw trimw win
      by (simp add: rx_Add_def ge [where L = L] map_buffer_upd)
  next
    case False
    have "to_uint32 (int t' - int h') = t' - h'" using False win by (intro to_uint32_diff) (auto simp: in_win_def)
    moreover have "buffer_win L (b\<lparr>rx_data := ys, rx_size := sz\<rparr>)"
      using assms(1) win(1) rx_trim_subset [OF trim] by (auto simp: buffer_win_def)
    moreover have "h' + length r = t'" if "t' - h' = length r" for r :: bytes using that False by simp
    moreover have "CreateFragment i (t' - h') p = Inr r \<Longrightarrow> length r = t' - h'" for i r
      by (auto simp: CreateFragment_def split: if_splits)
    ultimately show ?thesis using False clip trim clipw trimw win w_insert minus [OF win(2) assms(2)] minus [OF win(3,2)]
      by (cases "CreateFragment (to_uint32 (int h' - int q)) (t' - h') p")
        (auto simp: rx_Add_def ge [where L = L] map_buffer_upd)
  qed
qed

lemma w_Extract:
  assumes "buffer_win L b"
  shows "rx_Extract ops m (map_buffer w b) = map_sum id (map_prod id (map_buffer w)) (rx_Extract nat_ops m b)"
proof -
  have "rx_extract ops (w (rx_nextRxSeq b)) k sz avail out (map (map_prod w id) (rx_data b)) =
    map_sum id (map_prod id (map_prod (map (map_prod w id)) id)) (rx_extract nat_ops (rx_nextRxSeq b) k sz avail out (rx_data b))"
    for k sz avail out
    using assms w_extract by (auto simp: buffer_win_def)
  then show ?thesis
    by (cases "rx_extract nat_ops (rx_nextRxSeq b) (min m (rx_availBytes b)) (rx_size b) (rx_availBytes b) [] (rx_data b)")
      (auto simp: rx_Extract_def Let_def map_buffer_def)
qed

end

definition seq_pos :: "seq \<Rightarrow> nat \<Rightarrow> seq" where
  "seq_pos isn x = isn + of_nat x"

lemma seq_off_pos:
  assumes "in_win L x"
  shows "seq_off (seq_pos isn L) (seq_pos isn x) = x - L"
proof -
  have off: "seq_pos isn x - seq_pos isn L = of_nat (x - L)" using assms by (simp add: seq_pos_def in_win_def)
  show ?thesis unfolding seq_off_def off using assms by (subst unat_of_nat) (auto simp: in_win_def intro!: mod_less)
qed

interpretation seq32: seq_window seq32_ops "seq_pos isn" for isn
proof
  fix L a b assume win: "in_win L a" "in_win L b"
  note off = seq_off_pos [OF win(1), of isn] seq_off_pos [OF win(2), of isn]
  have lim: "seq_off (seq_pos isn L) (seq_pos isn a) < 2 ^ 31" "seq_off (seq_pos isn L) (seq_pos isn b) < 2 ^ 31"
    using off win by (auto simp: in_win_def)
  have "a - L < b - L \<longleftrightarrow> a < b" "a - L \<le> b - L \<longleftrightarrow> a \<le> b" "b - L < a - L \<longleftrightarrow> b < a" "b - L \<le> a - L \<longleftrightarrow> b \<le> a" "a - L = b - L \<longleftrightarrow> a = b"
    using win by (auto simp: in_win_def)
  then show "op_lt seq32_ops (seq_pos isn a) (seq_pos isn b) \<longleftrightarrow> a < b" "op_le seq32_ops (seq_pos isn a) (seq_pos isn b) \<longleftrightarrow> a \<le> b"
    "op_gt seq32_ops (seq_pos isn a) (seq_pos isn b) \<longleftrightarrow> b < a" "op_ge seq32_ops (seq_pos isn a) (seq_pos isn b) \<longleftrightarrow> b \<le> a"
    "seq_pos isn a = seq_pos isn b \<longleftrightarrow> a = b"
    using seq_compare_off [OF lim] seq_gt_off [OF lim] seq_off_inj [of "seq_pos isn L" "seq_pos isn a" "seq_pos isn b"] off
    by (simp_all add: seq32_ops_def)
  show "op_minus seq32_ops (seq_pos isn a) (seq_pos isn b) = Inr (int a - int b)"
    using seq_diff_off [OF lim] off win by (simp add: seq32_ops_def in_win_def)
qed (simp add: seq32_ops_def seq_pos_def)

end
