(* ===== verification/Tcp_Rx_Receive.thy ===== *)
theory Tcp_Rx_Receive
  imports Tcp_Rx_Window
begin

text \<open>
  The receive buffer in use: the calls of a socket that receives a stream over 32-bit sequence numbers, as an inductive relation,
  and what holds in every state they reach. The facts on positions of \<open>Tcp_Rx_Stream\<close> are carried over by the interpretation of
  \<open>seq_window\<close> in \<open>Tcp_Rx_Window\<close>.
\<close>

section \<open>Receiving a stream\<close>

text \<open>
  The calls of a socket that receives the stream \<open>S\<close> from the initial sequence number \<open>isn\<close> on: any segments of the stream, in any
  order and with any repetition and overlap, that lie within half a GiB of the reader's position, the announcement of the end
  of the stream, and reads. \<open>out\<close> is what has been read.
\<close>

inductive rx_reach :: "seq \<Rightarrow> u32 \<Rightarrow> bytes \<Rightarrow> bytes \<Rightarrow> seq rx_buffer \<Rightarrow> bool" for isn mb S where
  start: "rx_reach isn mb S [] (SetNextRxSequence isn (SetMaxBufferSize mb (TcpRxBuffer 0)))"
| add: "rx_reach isn mb S out b \<Longrightarrow> segment S q p \<Longrightarrow> length out \<le> q + 2 ^ 29 \<Longrightarrow> q + length p < length out + 2 ^ 29 \<Longrightarrow>
    rx_Add seq32_ops p (seq_pos isn q) b = Inr (r, b') \<Longrightarrow> rx_reach isn mb S out b'"
| fin: "rx_reach isn mb S out b \<Longrightarrow> length S < length out + 2 ^ 29 \<Longrightarrow>
    rx_reach isn mb S out (SetFinSequence seq32_ops (seq_pos isn (length S)) b)"
| read_out: "rx_reach isn mb S out b \<Longrightarrow> rx_Extract seq32_ops m b = Inr (r, b') \<Longrightarrow>
    rx_reach isn mb S (out @ case_option [] id r) b'"

lemma rx_inv_win:
  assumes "rx_inv S e n b"
  shows "buffer_win (e - 2 ^ 29) b"
proof -
  have ub: "x < e + 2 ^ 29" if "x \<in> held (rx_data b)" for x using assms that unfolding rx_inv_def by blast
  have n: "e \<le> n" "n \<le> e + 2 ^ 29" "rx_nextRxSeq b \<le> Suc n" "e \<le> rx_nextRxSeq b"
    using assms rx_inv_avail [OF assms] by (auto simp: rx_inv_def)
  have mb: "unat (rx_maxBuffer b) \<le> 2 ^ 29" using assms by (simp add: rx_inv_def)
  have d: "e \<le> s \<and> s + length p \<le> e + 2 ^ 29" if "(s, p) \<in> set (rx_data b)" for s p
  proof -
    have bl: "blocks e (rx_data b)" using assms by (simp add: rx_inv_def)
    have "{s..<s + length p} \<subseteq> held (rx_data b)" using that by (auto simp: held_eq)
    then have "s + length p - 1 < e + 2 ^ 29 \<or> p = []"
      using ub [of "s + length p - 1"] subsetD [of _ "held (rx_data b)" "s + length p - 1"] by (cases p) auto
    then show ?thesis using blocks_key_ge [OF bl that] ub [OF blocks_key_held [OF bl that]] by auto
  qed
  have k: "e \<le> f \<and> f \<le> l \<and> l \<le> e + 2 ^ 29" if "(f, l) \<in> set (rx_sackList b)" for f l
  proof -
    have "sack_ok (held (rx_data b)) n (f, l)" using assms that by (auto simp: rx_inv_def)
    then have "f < l" "n < f" "l - 1 \<in> held (rx_data b)" by (auto simp: sack_ok_def subset_iff)
    then show ?thesis using ub [of "l - 1"] n by simp
  qed
  have fin: "rx_gotFin b \<Longrightarrow> e \<le> rx_finSeq b \<and> rx_finSeq b < e + 2 ^ 29" using assms by (auto simp: rx_inv_def)
  have "data_win (e - 2 ^ 29) (rx_data b)" unfolding data_win_def
  proof clarify
    fix s p assume "(s, p) \<in> set (rx_data b)"
    then show "in_win (e - 2 ^ 29) s \<and> in_win (e - 2 ^ 29) (s + length p)" using d [of s p] by (auto simp: in_win_def)
  qed
  moreover have "sack_win (e - 2 ^ 29) (rx_sackList b)" unfolding sack_win_def
  proof clarify
    fix f l assume "(f, l) \<in> set (rx_sackList b)"
    then show "in_win (e - 2 ^ 29) f \<and> in_win (e - 2 ^ 29) l" using k [of f l] by (auto simp: in_win_def)
  qed
  moreover have "in_win (e - 2 ^ 29) (s + unat (rx_maxBuffer b))" if "(s, p) \<in> set (rx_data b)" for s p
    using d [OF that] mb by (auto simp: in_win_def)
  moreover have "in_win (e - 2 ^ 29) (rx_nextRxSeq b)" using n by (auto simp: in_win_def)
  moreover have "rx_gotFin b \<Longrightarrow> in_win (e - 2 ^ 29) (rx_finSeq b)" using fin by (auto simp: in_win_def)
  ultimately show ?thesis unfolding buffer_win_def by blast
qed

lemma rx_inv_fin:
  assumes "rx_inv S e n b" "length S < e + 2 ^ 29"
  shows "rx_inv S e n (SetFinSequence nat_ops (length S) b)"
  using assms rx_inv_le_length [OF assms(1)] by (auto simp: rx_inv_def SetFinSequence_def Let_def)

lemma w_SetFin:
  assumes "rx_inv S e n b" "length S < e + 2 ^ 29"
  shows "SetFinSequence seq32_ops (seq_pos isn (length S)) (map_buffer (seq_pos isn) b) =
    map_buffer (seq_pos isn) (SetFinSequence nat_ops (length S) b)"
proof -
  have "e \<le> rx_nextRxSeq b" "rx_nextRxSeq b \<le> Suc (e + 2 ^ 29)" "e \<le> length S"
    using assms(1) rx_inv_avail [OF assms(1)] by (auto simp: rx_inv_def)
  then have "seq_pos isn (rx_nextRxSeq b) = seq_pos isn (length S) \<longleftrightarrow> rx_nextRxSeq b = length S"
    using assms(2) by (intro seq32.eq [of e]) (auto simp: in_win_def)
  then show ?thesis by (auto simp: SetFinSequence_def Let_def map_buffer_def)
qed

lemma segment_nth: "segment S s p \<Longrightarrow> i < length p \<Longrightarrow> p ! i = S ! (s + i)"
proof -
  assume seg: "segment S s p" and i: "i < length p"
  have "s + length p \<le> length S" and p: "take (length p) (drop s S) = p" using seg unfolding segment_def by metis+
  then have "take (length p) (drop s S) ! i = S ! (s + i)" using i by (metis add_leD1 nth_drop nth_take)
  then show ?thesis unfolding p .
qed

lemma rx_segment_win:
  assumes "e \<le> q + 2 ^ 29" "q + length p < e + 2 ^ 29"
  shows "in_win (e - 2 ^ 29) q" "in_win (e - 2 ^ 29) (q + length p)"
  using assms by (auto simp: in_win_def)

lemma rx_Add_seq32:
  assumes "rx_inv S e n b" "e \<le> q + 2 ^ 29" "q + length p < e + 2 ^ 29"
  shows "rx_Add seq32_ops p (seq_pos isn q) (map_buffer (seq_pos isn) b) =
    map_sum id (map_prod id (map_buffer (seq_pos isn))) (rx_Add nat_ops p q b)"
  using seq32.w_Add [OF rx_inv_win [OF assms(1)] rx_segment_win [OF assms(2,3)]] .

lemma rx_Extract_seq32:
  assumes "rx_inv S e n b"
  shows "rx_Extract seq32_ops m (map_buffer (seq_pos isn) b) =
    map_sum id (map_prod id (map_buffer (seq_pos isn))) (rx_Extract nat_ops m b)"
  using seq32.w_Extract [OF rx_inv_win [OF assms]] .

lemma rx_reach_inv:
  assumes "rx_reach isn mb S out b" "unat mb \<le> 2 ^ 29"
  shows "\<exists>n nb. b = map_buffer (seq_pos isn) nb \<and> rx_inv S (length out) n nb \<and> out = take (length out) S \<and> rx_maxBuffer nb = mb"
  using assms
proof (induction rule: rx_reach.induct)
  case start
  let ?b = "\<lparr>rx_nextRxSeq = 0, rx_finSeq = unat (- isn), rx_gotFin = False, rx_size = 0, rx_maxBuffer = mb,
     rx_availBytes = 0, rx_data = [], rx_sackList = []\<rparr>"
  have "SetNextRxSequence isn (SetMaxBufferSize mb (TcpRxBuffer 0)) = map_buffer (seq_pos isn) ?b"
    by (simp add: SetNextRxSequence_def SetMaxBufferSize_def TcpRxBuffer_def map_buffer_def seq_pos_def)
  moreover have "rx_inv S 0 0 ?b" using start by (simp add: rx_inv_def)
  ultimately show ?case by (intro exI [of _ 0] exI [of _ ?b]) simp
next
  case (add out b q p r b')
  then obtain n nb where b: "b = map_buffer (seq_pos isn) nb" "rx_inv S (length out) n nb" "out = take (length out) S" "rx_maxBuffer nb = mb" by blast
  obtain h t where clip: "rx_clip nat_ops q (q + length p) nb = (h, t)" by fastforce
  from rx_Add_nat [OF b(2) add(2-4) clip] obtain r' n' nb' where "rx_Add nat_ops p q nb = Inr (r', nb')" "rx_inv S (length out) n' nb'"
      "rx_maxBuffer nb' = rx_maxBuffer nb" by blast
  then show ?case using add(5) b rx_Add_seq32 [OF b(2) add(3,4), of isn] by auto
next
  case (fin out b)
  then obtain n nb where b: "b = map_buffer (seq_pos isn) nb" "rx_inv S (length out) n nb" "out = take (length out) S" "rx_maxBuffer nb = mb" by blast
  moreover have "rx_maxBuffer (SetFinSequence nat_ops (length S) nb) = mb" using b(4) by (simp add: SetFinSequence_def Let_def)
  ultimately show ?case using w_SetFin [OF b(2) fin(2)] rx_inv_fin [OF b(2) fin(2)] by auto
next
  case (read_out out b m r b')
  then obtain n nb where b: "b = map_buffer (seq_pos isn) nb" "rx_inv S (length out) n nb" "out = take (length out) S" "rx_maxBuffer nb = mb" by blast
  let ?k = "min (unat m) (n - length out)"
  from rx_Extract_nat [OF b(2), of m] obtain nb' where nb': "rx_inv S (length out + ?k) n nb'" "rx_maxBuffer nb' = mb" and
    ex: "rx_Extract nat_ops m nb = Inr (if ?k = 0 then None else Some (take ?k (drop (length out) S)), nb')" using b(4) by auto
  have len: "length out + ?k \<le> length S" using rx_inv_le_length [OF b(2)] b(2) by (auto simp: rx_inv_def)
  have out: "out @ take ?k (drop (length out) S) = take (length out + ?k) S" using b(3) by (metis take_add)
  have r: "r = (if ?k = 0 then None else Some (take ?k (drop (length out) S)))" "b' = map_buffer (seq_pos isn) nb'"
    using read_out(2) ex b(1) rx_Extract_seq32 [OF b(2), of m isn] by auto
  then have "out @ case_option [] id r = take (length out + ?k) S" using out by auto
  moreover from this have "length (out @ case_option [] id r) = length out + ?k" using len by simp
  ultimately show ?case using r(2) nb' by metis
qed


section \<open>Results\<close>

text \<open>
  C18: the receive buffer delivers the stream. In every state reached by segments in any order, with repetition, overlap and
  wrap-around of the sequence numbers, what has been read is a prefix of the stream; some \<open>n\<close> bytes have arrived without
  a gap, the number of available bytes and the next expected sequence number are those of \<open>n\<close> (one more when the end of the
  stream has been announced and reached, which is when \<^verbatim>\<open>Finished\<close> holds); and \<^verbatim>\<open>Extract\<close> returns exactly the next bytes, as
  many as it is asked for and are available, without a failed assertion.
\<close>

theorem rx_delivers_stream:
  assumes "rx_reach isn mb S out b" "unat mb \<le> 2 ^ 29"
  shows "out = take (length out) S \<and> (\<exists>n\<le>length S. length out \<le> n \<and> unat (rx_availBytes b) = n - length out \<and>
    rx_nextRxSeq b = seq_pos isn (if rx_gotFin b \<and> n = length S then Suc n else n) \<and>
    (Finished seq32_ops b \<longleftrightarrow> rx_gotFin b \<and> n = length S) \<and>
    (\<forall>m. \<exists>b'. rx_Extract seq32_ops m b =
       Inr (if min (unat m) (n - length out) = 0 then None else Some (take (min (unat m) (n - length out)) (drop (length out) S)), b')))"
proof -
  obtain n nb where b: "b = map_buffer (seq_pos isn) nb" "rx_inv S (length out) n nb" "out = take (length out) S"
    using rx_reach_inv [OF assms] by blast
  have nx: "rx_nextRxSeq nb = (if rx_gotFin nb \<and> n = length S then Suc n else n)" "length out \<le> n"
    "rx_gotFin nb \<Longrightarrow> rx_finSeq nb = length S" using b(2) by (auto simp: rx_inv_def)
  have n: "n \<le> length S" by (rule rx_inv_le_length [OF b(2)])
  have win: "buffer_win (length out - 2 ^ 29) nb" by (rule rx_inv_win [OF b(2)])
  have "Finished seq32_ops b \<longleftrightarrow> rx_gotFin b \<and> n = length S"
    using seq32.lt [of "length out - 2 ^ 29" "rx_finSeq nb" "rx_nextRxSeq nb" isn] win nx n b(1)
    by (auto simp: Finished_def buffer_win_def)
  moreover have "\<exists>b'. rx_Extract seq32_ops m b =
       Inr (if min (unat m) (n - length out) = 0 then None else Some (take (min (unat m) (n - length out)) (drop (length out) S)), b')" for m
  proof -
    from rx_Extract_nat [OF b(2), of m] obtain nb' where "rx_Extract nat_ops m nb =
       Inr (if min (unat m) (n - length out) = 0 then None else Some (take (min (unat m) (n - length out)) (drop (length out) S)), nb')" by blast
    then show ?thesis using rx_Extract_seq32 [OF b(2), of m isn] b(1) by simp
  qed
  moreover have "unat (rx_availBytes b) = n - length out" using rx_inv_avail(2) [OF b(2)] b(1) by simp
  ultimately show ?thesis using b(1,3) nx n by (intro conjI exI [of _ n]) auto
qed

text \<open>
  C19: adding a segment of the stream never fails an assertion and never takes back available data. A segment that holds the next
  expected byte and ends within the buffer's space makes every byte up to its end available.
\<close>

theorem rx_add_progress:
  assumes "rx_reach isn mb S out b" "unat mb \<le> 2 ^ 29" "segment S q p" "length out \<le> q + 2 ^ 29" "q + length p < length out + 2 ^ 29"
  shows "\<exists>r b'. rx_Add seq32_ops p (seq_pos isn q) b = Inr (r, b') \<and> unat (rx_availBytes b) \<le> unat (rx_availBytes b') \<and>
    (q \<le> length out + unat (rx_availBytes b) \<and> length out + unat (rx_availBytes b) < q + length p \<and>
     (rx_data b = [] \<or> q + length p \<le> length out + unat mb) \<longrightarrow>
     r \<and> q + length p \<le> length out + unat (rx_availBytes b'))"
proof -
  let ?e = "length out" and ?u = "q + length p"
  obtain n nb where b: "b = map_buffer (seq_pos isn) nb" "rx_inv S ?e n nb" "rx_maxBuffer nb = mb"
    using rx_reach_inv [OF assms(1,2)] by blast
  obtain h t where clip: "rx_clip nat_ops q ?u nb = (h, t)" by fastforce
  from rx_Add_nat [OF b(2) assms(3-5) clip] obtain r n' nb' where Add: "rx_Add nat_ops p q nb = Inr (r, nb')"
      "rx_inv S ?e n' nb'" "n \<le> n'" "held (rx_data nb') = held (rx_data nb) \<union> {h..<t}"
      "r \<longleftrightarrow> held (rx_data nb') \<noteq> held (rx_data nb)" by blast
  have en: "?e \<le> n" "?e \<le> n'" "n \<notin> held (rx_data nb)" "n' \<notin> held (rx_data nb')" "blocks ?e (rx_data nb)"
    using b(2) Add(2) by (auto simp: rx_inv_def)
  have avail: "?e + unat (rx_availBytes nb) = n" "?e + unat (rx_availBytes nb') = n'"
    using rx_inv_avail(2) [OF b(2)] rx_inv_avail(2) [OF Add(2)] en by simp_all
  have "r \<and> ?u \<le> n'" if new: "q \<le> n" "n < ?u" "rx_data b = [] \<or> ?u \<le> ?e + unat mb"
  proof -
    have "n < length S" using new(2) assms(3) by (simp add: segment_def)
    then have nx: "rx_nextRxSeq nb = n" using b(2) by (simp add: rx_inv_def)
    have "?u \<le> fst (hd (rx_data nb)) + unat mb" if "rx_data nb \<noteq> []"
      using new(3) that b(1) en(5) by (cases "rx_data nb") auto
    then have ht: "h = n" "t = ?u" using clip nx new b(3) by (auto simp: rx_clip_def Let_def split: if_splits)
    then have "n \<in> held (rx_data nb')" using Add(4) new(2) by simp
    moreover have "?u \<le> n'" using en(4) Add(3,4) ht by (simp add: not_less)
    ultimately show ?thesis using Add(5) en(3) by metis
  qed
  then show ?thesis
    using Add(1,3) avail b(1) rx_Add_seq32 [OF b(2) assms(4,5), of isn] by auto
qed

text \<open>
  C20: selective acknowledgements are truthful. At most four blocks are reported; each is a non-empty range of stream positions
  beyond the next expected byte, and every byte in it is held by the buffer.
\<close>

theorem rx_sack_truthful:
  assumes "rx_reach isn mb S out b" "unat mb \<le> 2 ^ 29" 
  shows "length (rx_sackList b) \<le> 4 \<and> (\<forall>blk\<in>set (rx_sackList b). \<exists>f l. blk = (seq_pos isn f, seq_pos isn l) \<and>
    length out + unat (rx_availBytes b) < f \<and> f < l \<and>
    (\<forall>x\<in>{f..<l}. \<exists>s p. (seq_pos isn s, p) \<in> set (rx_data b) \<and> s \<le> x \<and> x < s + length p \<and> p ! (x - s) = S ! x))"
proof -
  obtain n nb where b: "b = map_buffer (seq_pos isn) nb" "rx_inv S (length out) n nb"
    using rx_reach_inv [OF assms] by blast
  have inv: "length (rx_sackList nb) \<le> 4" "\<And>blk. blk \<in> set (rx_sackList nb) \<Longrightarrow> sack_ok (held (rx_data nb)) n blk"
    "\<And>s p. (s, p) \<in> set (rx_data nb) \<Longrightarrow> segment S s p" "length out \<le> n" using b(2) by (auto simp: rx_inv_def)
  have avail: "length out + unat (rx_availBytes b) = n" using rx_inv_avail(2) [OF b(2)] b(1) inv(4) by simp
  have held: "\<exists>s p. (seq_pos isn s, p) \<in> set (rx_data b) \<and> s \<le> x \<and> x < s + length p \<and> p ! (x - s) = S ! x"
    if "x \<in> held (rx_data nb)" for x
  proof -
    obtain s p where sp: "(s, p) \<in> set (rx_data nb)" "s \<le> x" "x < s + length p" using \<open>x \<in> held (rx_data nb)\<close> by (auto simp: held_eq)
    have "p ! (x - s) = S ! x" using segment_nth [OF inv(3) [OF sp(1)], of "x - s"] sp by simp
    then show ?thesis using sp b(1) by force
  qed
  have "\<exists>f l. blk = (seq_pos isn f, seq_pos isn l) \<and> n < f \<and> f < l \<and>
      (\<forall>x\<in>{f..<l}. \<exists>s p. (seq_pos isn s, p) \<in> set (rx_data b) \<and> s \<le> x \<and> x < s + length p \<and> p ! (x - s) = S ! x)"
    if blk: "blk \<in> set (rx_sackList b)" for blk
  proof -
    obtain y where "blk = map_prod (seq_pos isn) (seq_pos isn) y" "y \<in> set (rx_sackList nb)" using blk b(1) by auto
    then obtain f l where "blk = (seq_pos isn f, seq_pos isn l)" "(f, l) \<in> set (rx_sackList nb)" by (cases y) auto
    then show ?thesis using inv(2) [of "(f, l)"] held by (intro exI [of _ f] exI [of _ l]) (auto simp: sack_ok_def)
  qed
  then show ?thesis using inv(1) b(1) avail by simp
qed

text \<open>
  C21: the buffer behaves on 32-bit sequence numbers that wrap around exactly as it does on unbounded stream positions: adding
  and extracting commute with the mapping of positions to sequence numbers, errors included.
\<close>

theorem rx_wraps_around:
  assumes "rx_inv S e n b" "e \<le> q + 2 ^ 29" "q + length p < e + 2 ^ 29"
  shows "rx_Add seq32_ops p (seq_pos isn q) (map_buffer (seq_pos isn) b) =
      map_sum id (map_prod id (map_buffer (seq_pos isn))) (rx_Add nat_ops p q b) \<and>
    rx_Extract seq32_ops m (map_buffer (seq_pos isn) b) =
      map_sum id (map_prod id (map_buffer (seq_pos isn))) (rx_Extract nat_ops m b)"
  using rx_Add_seq32 [OF assms] rx_Extract_seq32 [OF assms(1)] by blast


section \<open>Examples\<close>

text \<open>A stream of six bytes whose sequence numbers wrap around after two, the fourth and fifth byte received first.\<close>

definition ex_stream :: bytes where
  "ex_stream = [1, 2, 3, 4, 5, 6]"

definition ex_gap :: "seq rx_buffer" where
  "ex_gap = \<lparr>rx_nextRxSeq = 0xfffffffe, rx_finSeq = 0, rx_gotFin = False, rx_size = 2, rx_maxBuffer = 16, rx_availBytes = 0,
     rx_data = [(1, [4, 5])], rx_sackList = [(1, 3)]\<rparr>"

definition ex_full :: "seq rx_buffer" where
  "ex_full = \<lparr>rx_nextRxSeq = 3, rx_finSeq = 0, rx_gotFin = False, rx_size = 5, rx_maxBuffer = 16, rx_availBytes = 5,
     rx_data = [(0xfffffffe, [1, 2, 3]), (1, [4, 5])], rx_sackList = []\<rparr>"

lemma ex_gap_reach: "rx_reach 0xfffffffe 16 ex_stream [] ex_gap"
proof (rule rx_reach.add [OF rx_reach.start, of _ 3 "[4, 5]"])
  show "rx_Add seq32_ops [4, 5] (seq_pos 0xfffffffe 3) (SetNextRxSequence 0xfffffffe (SetMaxBufferSize 16 (TcpRxBuffer 0))) =
      Inr (True, ex_gap)"
    unfolding ex_gap_def by code_simp
qed (simp_all add: segment_def ex_stream_def)

lemma ex_full_reach: "rx_reach 0xfffffffe 16 ex_stream [] ex_full"
proof (rule rx_reach.add [OF ex_gap_reach, of 0 "[1, 2, 3, 4]"])
  show "rx_Add seq32_ops [1, 2, 3, 4] (seq_pos 0xfffffffe 0) ex_gap = Inr (True, ex_full)"
    unfolding ex_gap_def ex_full_def by code_simp
qed (simp_all add: segment_def ex_stream_def)

theorem rx_delivers_stream_witness:
  "unat (rx_availBytes ex_full) = 5 \<and> (\<exists>b'. rx_Extract seq32_ops 4 ex_full = Inr (Some [1, 2, 3, 4], b'))"
proof -
  have av: "unat (rx_availBytes ex_full) = 5" by (simp add: ex_full_def)
  have "unat (16 :: u32) \<le> 2 ^ 29" by simp
  from rx_delivers_stream [OF ex_full_reach this] obtain n where "unat (rx_availBytes ex_full) = n - length ([] :: bytes)"
     "\<exists>b'. rx_Extract seq32_ops 4 ex_full = Inr (if min (unat (4 :: u32)) (n - length ([] :: bytes)) = 0 then None
        else Some (take (min (unat (4 :: u32)) (n - length ([] :: bytes))) (drop (length ([] :: bytes)) ex_stream)), b')"
    by blast
  then show ?thesis using av by (simp add: ex_stream_def)
qed

theorem rx_add_progress_witness:
  "\<exists>r b'. rx_Add seq32_ops [1, 2, 3, 4] (seq_pos 0xfffffffe 0) ex_gap = Inr (r, b') \<and> r \<and> 4 \<le> unat (rx_availBytes b')"
  using rx_add_progress [OF ex_gap_reach, of 0 "[1, 2, 3, 4]"] by (auto simp: segment_def ex_stream_def ex_gap_def)

theorem rx_sack_truthful_witness:
  "\<exists>f l. (1 :: seq, 3 :: seq) = (seq_pos 0xfffffffe f, seq_pos 0xfffffffe l) \<and> 0 < f \<and> f < l"
proof -
  have "(1, 3) \<in> set (rx_sackList ex_gap)" by (simp add: ex_gap_def)
  moreover have "unat (16 :: u32) \<le> 2 ^ 29" by simp
  ultimately show ?thesis using rx_sack_truthful [OF ex_gap_reach] by fastforce
qed

theorem rx_wraps_around_witness:
  "\<exists>b. rx_Add seq32_ops [1, 2] (seq_pos 0xffffffff 0) (map_buffer (seq_pos 0xffffffff) b) =
      map_sum id (map_prod id (map_buffer (seq_pos 0xffffffff))) (rx_Add nat_ops [1, 2] 0 b)"
proof -
  let ?b = "SetNextRxSequence 0 (SetMaxBufferSize 16 (TcpRxBuffer 0)) :: nat rx_buffer"
  have "rx_inv [1, 2, 3] 0 0 ?b" by (simp add: rx_inv_def SetNextRxSequence_def SetMaxBufferSize_def TcpRxBuffer_def)
  from rx_wraps_around [OF this, of 0 "[1, 2]"] show ?thesis by (intro exI [of _ ?b]) simp
qed

text \<open>
  The blocks may overlap, although a comment in \<^verbatim>\<open>UpdateSackList\<close> says that no overlapping blocks are reported: a segment that
  encloses a stored packet removes the packet but not its block.
\<close>

theorem sack_blocks_overlap:
  "bind_res (rx_Add seq32_ops (replicate 10 0) 10 (SetNextRxSequence 0 (SetMaxBufferSize 100 (TcpRxBuffer 0)))) (\<lambda>(_, b).
   bind_res (rx_Add seq32_ops (replicate 25 0) 5 b) (\<lambda>(_, b). Inr (rx_sackList b))) = Inr [(5, 30), (10, 20)]"
  by code_simp

end
