(* ===== verification/Tcp_Tx_Buffer.thy ===== *)
theory Tcp_Tx_Buffer
  imports Tcp_Rx_Window
begin

text \<open>
  \<^verbatim>\<open>src/src/internet/model/tcp-tx-buffer.cc\<close>: the send buffer of a TCP socket and its scoreboard. Data the application wrote waits in
  \<^verbatim>\<open>m_appList\<close>; what has been sent and is not acknowledged is in \<^verbatim>\<open>m_sentList\<close>, as items that are split and merged when they
  are retransmitted and carry the flags lost, retransmitted and selectively acknowledged. The counters \<^verbatim>\<open>m_lostOut\<close>,
  \<^verbatim>\<open>m_retrans\<close> and \<^verbatim>\<open>m_sackedOut\<close> count the bytes of flagged items.

  An item is a heap object; \<open>ti_id\<close> is its address, so that the iterator in \<^verbatim>\<open>m_highestSack\<close> is the address of an item, or
  \<open>None\<close> for \<^verbatim>\<open>m_sentList.end()\<close>. A packet is its bytes. The callbacks on items become outputs:
  the items removed, or the addresses of the items acknowledged, in the order of the calls.
\<close>

section \<open>State\<close>

text \<open>\<^verbatim>\<open>TcpTxItem::RateInformation\<close> and its default; the time \<^verbatim>\<open>Time::Max ()\<close> says that the item has not been sent or has been taken into account.\<close>

record rate_info =
  ri_delivered :: u64
  ri_deliveredTime :: int
  ri_firstSent :: int
  ri_isAppLimited :: bool

definition time_max :: int where
  "time_max = 2 ^ 63 - 1"

definition RateInformation :: rate_info where
  "RateInformation = \<lparr>ri_delivered = 0, ri_deliveredTime = time_max, ri_firstSent = time_max, ri_isAppLimited = False\<rparr>"

record tx_item =
  ti_id :: nat
  ti_startSeq :: seq
  ti_packet :: bytes
  ti_lost :: bool
  ti_retrans :: bool
  ti_sacked :: bool
  ti_lastSent :: int
  ti_rate :: rate_info

record tx_buffer =
  tx_maxBuffer :: u32
  tx_size :: u32
  tx_sentSize :: u32
  tx_firstByteSeq :: seq
  tx_sentList :: "tx_item list"
  tx_appList :: "tx_item list"
  tx_highestSack :: "nat option \<times> seq"
  tx_lostOut :: u32
  tx_sackedOut :: u32
  tx_retrans :: u32
  tx_dupAckThresh :: u32
  tx_segmentSize :: u32
  tx_renoSack :: bool
  tx_sackEnabled :: bool
  tx_sackSeen :: bool
  tx_nextId :: nat

definition new_item :: "nat \<Rightarrow> bytes \<Rightarrow> tx_item" where
  "new_item i p = \<lparr>ti_id = i, ti_startSeq = 0, ti_packet = p, ti_lost = False, ti_retrans = False, ti_sacked = False,
     ti_lastSent = time_max, ti_rate = RateInformation\<rparr>"

abbreviation item_size :: "tx_item \<Rightarrow> u32" where
  "item_size t \<equiv> of_nat (length (ti_packet t))"

definition TcpTxBuffer :: "seq \<Rightarrow> tx_buffer" where
  "TcpTxBuffer n = \<lparr>tx_maxBuffer = 32768, tx_size = 0, tx_sentSize = 0, tx_firstByteSeq = n, tx_sentList = [], tx_appList = [],
     tx_highestSack = (None, 0), tx_lostOut = 0, tx_sackedOut = 0, tx_retrans = 0, tx_dupAckThresh = 0, tx_segmentSize = 0,
     tx_renoSack = False, tx_sackEnabled = True, tx_sackSeen = False, tx_nextId = 0\<rparr>"

definition tx_SetMaxBufferSize :: "u32 \<Rightarrow> tx_buffer \<Rightarrow> tx_buffer" where
  "tx_SetMaxBufferSize n b = b\<lparr>tx_maxBuffer := n\<rparr>"

definition tx_SetSackEnabled :: "bool \<Rightarrow> tx_buffer \<Rightarrow> tx_buffer" where
  "tx_SetSackEnabled enabled b = b\<lparr>tx_sackEnabled := enabled\<rparr>"

definition tx_SetDupAckThresh :: "u32 \<Rightarrow> tx_buffer \<Rightarrow> tx_buffer" where
  "tx_SetDupAckThresh n b = b\<lparr>tx_dupAckThresh := n\<rparr>"

definition tx_SetSegmentSize :: "u32 \<Rightarrow> tx_buffer \<Rightarrow> tx_buffer" where
  "tx_SetSegmentSize n b = b\<lparr>tx_segmentSize := n\<rparr>"

definition TailSequence :: "tx_buffer \<Rightarrow> seq" where
  "TailSequence b = tx_firstByteSeq b + tx_size b"

definition tx_Available :: "tx_buffer \<Rightarrow> u32" where
  "tx_Available b = tx_maxBuffer b - tx_size b"

definition SetHeadSequence :: "seq \<Rightarrow> tx_buffer \<Rightarrow> tx_buffer res" where
  "SetHeadSequence s b =
     (if tx_sentList b \<noteq> [] then Inl Assert_Failed
      else Inr (b\<lparr>tx_firstByteSeq := s, tx_sackSeen := False, tx_highestSack := (None, 0)\<rparr>))"

definition tx_Add :: "bytes \<Rightarrow> tx_buffer \<Rightarrow> bool \<times> tx_buffer" where
  "tx_Add p b =
     (if of_nat (length p) \<le> tx_Available b
      then (True, if (of_nat (length p) :: u32) > 0
                  then b\<lparr>tx_appList := tx_appList b @ [new_item (tx_nextId b) p], tx_nextId := tx_nextId b + 1,
                         tx_size := tx_size b + of_nat (length p)\<rparr>
                  else b)
      else (False, b))"

definition SizeFromSequence :: "seq \<Rightarrow> tx_buffer \<Rightarrow> u32 res" where
  "SizeFromSequence s b =
     (let lastSeq = TailSequence b
      in if seq_ge lastSeq s then bind_res (seq_diff lastSeq s) (\<lambda>d. Inr (word_of_int d)) else Inr 0)"

section \<open>Splitting and merging\<close>

text \<open>\<^verbatim>\<open>SplitItems\<close>: the first part goes to the new item \<open>t1\<close>, the rest stays in \<open>t2\<close>.\<close>

definition SplitItems :: "nat \<Rightarrow> tx_item \<Rightarrow> u32 \<Rightarrow> (tx_item \<times> tx_item) res" where
  "SplitItems i t2 sz =
     bind_res (CreateFragment 0 (unat sz) (ti_packet t2)) (\<lambda>p.
       Inr (t2\<lparr>ti_id := i, ti_packet := p, ti_rate := RateInformation\<rparr>, t2\<lparr>ti_packet := drop (unat sz) (ti_packet t2), ti_startSeq := ti_startSeq t2 + sz\<rparr>))"

text \<open>\<^verbatim>\<open>MergeItems\<close>, with the change it makes to \<^verbatim>\<open>m_retrans\<close>.\<close>

definition MergeItems :: "tx_item \<Rightarrow> tx_item \<Rightarrow> u32 \<Rightarrow> (tx_item \<times> u32) res" where
  "MergeItems t1 t2 retrans =
     (if ti_sacked t1 \<noteq> ti_sacked t2 \<or> ti_lost t1 \<noteq> ti_lost t2 then Inl Assert_Failed
      else let (t1', retrans') =
             (if ti_retrans t1 \<noteq> ti_retrans t2
              then if ti_retrans t1 then (t1\<lparr>ti_retrans := False\<rparr>, retrans - item_size t1) else (t1, retrans - item_size t2)
              else (t1, retrans))
           in Inr (t1'\<lparr>ti_lastSent := max (ti_lastSent t1) (ti_lastSent t2), ti_packet := ti_packet t1 @ ti_packet t2\<rparr>, retrans'))"

text \<open>
  \<^verbatim>\<open>GetPacketFromList\<close>. The walk to the item that contains \<open>s\<close> yields the items before it, the item, the items after it and the
  sequence number at which it begins. The assertion on \<^verbatim>\<open>m_startSeq\<close> is for the sent list (\<open>lim\<close> is then \<^verbatim>\<open>m_firstByteSeq\<close>).
\<close>

fun list_walk :: "seq option \<Rightarrow> seq \<Rightarrow> seq \<Rightarrow> tx_item list \<Rightarrow> tx_item list \<Rightarrow>
    (tx_item list \<times> tx_item \<times> tx_item list \<times> seq) res" where
  "list_walk lim s cur pre [] = Inl Fatal_Error"
| "list_walk lim s cur pre (t # ts) =
     (if \<not> (case lim of None \<Rightarrow> True | Some first \<Rightarrow> seq_ge (ti_startSeq t) first) then Inl Assert_Failed
      else if seq_lt s (cur + item_size t) then Inr (pre, t, ts, cur)
      else list_walk lim s (cur + item_size t) (pre @ [t]) ts)"

text \<open>
  The function calls itself after each change of the list; the first argument bounds the depth of the calls. It yields the
  item, the list, \<^verbatim>\<open>m_retrans\<close> and the next free address. At the point where the code tests whether the
  current item is the one found, it always is.
\<close>

fun GetPacketFromList :: "nat \<Rightarrow> seq option \<Rightarrow> tx_item list \<Rightarrow> seq \<Rightarrow> u32 \<Rightarrow> seq \<Rightarrow> u32 \<Rightarrow> nat \<Rightarrow>
    (tx_item \<times> tx_item list \<times> u32 \<times> nat) res" where
  "GetPacketFromList 0 lim l listStartFrom numBytes s retrans nid = Inl Undefined_Behaviour"
| "GetPacketFromList (Suc f) lim l listStartFrom numBytes s retrans nid =
     bind_res (list_walk lim s listStartFrom [] l) (\<lambda>(pre, t, post, cur).
       if s = cur
       then if seq_le (s + numBytes) (cur + item_size t)
            then if numBytes = item_size t then Inr (t, l, retrans, nid)
                 else if numBytes < item_size t
                 then bind_res (SplitItems nid t numBytes) (\<lambda>(t1, t2). Inr (t1, pre @ [t1, t2] @ post, retrans, nid + 1))
                 else Inl Undefined_Behaviour
            else (case post of
                    [] \<Rightarrow> Inr (t, l, retrans, nid)
                  | nx # post' \<Rightarrow>
                      bind_res (MergeItems t nx retrans) (\<lambda>(t', retrans').
                        GetPacketFromList f lim (pre @ [t'] @ post') listStartFrom numBytes s retrans' nid))
       else if seq_gt s cur
       then bind_res (seq_diff s cur) (\<lambda>d.
            bind_res (SplitItems nid t (word_of_int d)) (\<lambda>(t1, t2).
              GetPacketFromList f lim (pre @ [t1, t2] @ post) listStartFrom numBytes s retrans (nid + 1)))
       else Inl Fatal_Error)"

section \<open>Sending\<close>

fun replace_item :: "tx_item \<Rightarrow> tx_item list \<Rightarrow> tx_item list" where
  "replace_item t [] = []"
| "replace_item t (x # xs) = (if ti_id x = ti_id t then t # xs else x # replace_item t xs)"

definition GetNewSegment :: "u32 \<Rightarrow> tx_buffer \<Rightarrow> (tx_item \<times> tx_buffer) res" where
  "GetNewSegment numBytes b =
     (let startOfAppList = tx_firstByteSeq b + tx_sentSize b
      in bind_res (GetPacketFromList (length (tx_appList b) + 2) None (tx_appList b) startOfAppList numBytes startOfAppList
             (tx_retrans b) (tx_nextId b)) (\<lambda>(t, l, retrans, nid).
           let t' = t\<lparr>ti_startSeq := startOfAppList\<rparr>
           in if ti_id t \<notin> ti_id ` set l then Inl Assert_Failed
              else Inr (t', b\<lparr>tx_appList := filter (\<lambda>x. ti_id x \<noteq> ti_id t) l, tx_sentList := tx_sentList b @ [t'],
                     tx_sentSize := tx_sentSize b + item_size t, tx_retrans := retrans, tx_nextId := nid\<rparr>)))"

text \<open>How much of the sent list \<^verbatim>\<open>GetTransmittedSegment\<close> may take at once.\<close>

fun transmit_limit :: "seq \<Rightarrow> u32 \<Rightarrow> tx_item list \<Rightarrow> u32" where
  "transmit_limit s n [] = n"
| "transmit_limit s n (t # ts) =
     (if ti_startSeq t = s
      then (case ts of
              nx # _ \<Rightarrow> if \<not> ti_sacked nx \<and> ti_lost t = ti_lost nx then min n (item_size t + item_size nx) else min n (item_size t)
            | [] \<Rightarrow> min n (item_size t))
      else transmit_limit s n ts)"

definition GetTransmittedSegment :: "u32 \<Rightarrow> seq \<Rightarrow> tx_buffer \<Rightarrow> (tx_item \<times> tx_buffer) res" where
  "GetTransmittedSegment numBytes s b =
     (if \<not> seq_ge s (tx_firstByteSeq b) \<or> \<not> numBytes \<le> tx_sentSize b \<or> tx_sentList b = [] then Inl Assert_Failed
      else bind_res (GetPacketFromList (length (tx_sentList b) + 2) (Some (tx_firstByteSeq b)) (tx_sentList b) (tx_firstByteSeq b)
             (transmit_limit s numBytes (tx_sentList b)) s (tx_retrans b) (tx_nextId b)) (\<lambda>(t, l, retrans, nid).
           let t' = t\<lparr>ti_retrans := True\<rparr>
           in Inr (t', b\<lparr>tx_sentList := replace_item t' l,
                  tx_retrans := (if \<not> ti_retrans t then retrans + item_size t else retrans), tx_nextId := nid\<rparr>)))"

lemma partial_amount:
  fixes x s m :: u32
  assumes "s < x" "x < s + m"
  shows "unat (x - s) < unat m"
proof -
  have "unat (x - s) = unat x - unat s" using assms(1) by (simp add: unat_sub less_imp_le)
  moreover have "unat (s + m) \<le> unat s + unat m" by (simp add: unat_word_ariths)
  ultimately show ?thesis using assms by (simp add: word_less_nat_alt)
qed

function CopyFromSequence :: "int \<Rightarrow> u32 \<Rightarrow> seq \<Rightarrow> tx_buffer \<Rightarrow> (tx_item option \<times> tx_buffer) res" where
  "CopyFromSequence now numBytes s b =
     (if seq_gt (tx_firstByteSeq b) s then Inl Fatal_Error
      else bind_res (SizeFromSequence s b) (\<lambda>avail.
        let n = min numBytes avail; sent = tx_firstByteSeq b + tx_sentSize b;
            finish = (\<lambda>(t, b). if \<not> seq_ge (ti_startSeq t) (tx_firstByteSeq b) then Inl Assert_Failed
                        else let t' = t\<lparr>ti_lastSent := now\<rparr> in Inr (Some t', b\<lparr>tx_sentList := replace_item t' (tx_sentList b)\<rparr>))
        in if n = 0 then Inr (None, b)
           else if seq_ge sent (s + n)
           then bind_res (GetTransmittedSegment n s b) (\<lambda>(t, b). if ti_sacked t then Inl Assert_Failed else finish (t, b))
           else if seq_le sent s
           then if sent \<noteq> s then Inl Fatal_Error
                else bind_res (GetNewSegment n b) (\<lambda>(t, b). if ti_retrans t then Inl Assert_Failed else finish (t, b))
           else if sent > s \<and> sent < s + n
           then CopyFromSequence now (sent - s) s b
           else Inl Undefined_Behaviour))"
  by pat_completeness auto
termination
proof (relation "measure (\<lambda>(now, numBytes, s, b). unat numBytes)")
  fix now numBytes s b avail n sent finish
  assume "\<not> seq_gt (tx_firstByteSeq b) s" "n = min numBytes avail" "sent = tx_firstByteSeq b + tx_sentSize b" "sent > s \<and> sent < s + n"
  then have "unat (sent - s) < unat n" "n \<le> numBytes" using partial_amount by auto
  then show "((now, sent - s, s, b), now, numBytes, s, b) \<in> measure (\<lambda>(now, numBytes, s, b). unat numBytes)"
    by (simp add: word_le_nat_alt)
qed simp


declare CopyFromSequence.simps [simp del]

section \<open>Acknowledgements\<close>

definition RemoveFromCounts :: "tx_item \<Rightarrow> u32 \<Rightarrow> tx_buffer \<Rightarrow> tx_buffer res" where
  "RemoveFromCounts t sz b =
     (if ti_sacked t \<and> \<not> tx_sackedOut b \<ge> sz \<or> ti_retrans t \<and> \<not> tx_retrans b \<ge> sz \<or> ti_lost t \<and> \<not> tx_lostOut b \<ge> sz
      then Inl Assert_Failed
      else Inr (b\<lparr>tx_sackedOut := (if ti_sacked t then tx_sackedOut b - sz else tx_sackedOut b),
                  tx_retrans := (if ti_retrans t then tx_retrans b - sz else tx_retrans b),
                  tx_lostOut := (if ti_lost t then tx_lostOut b - sz else tx_lostOut b)\<rparr>))"

definition IsRetransmittedDataAcked :: "seq \<Rightarrow> tx_buffer \<Rightarrow> bool" where
  "IsRetransmittedDataAcked ack b \<longleftrightarrow>
     (\<exists>t\<in>set (tx_sentList b). ti_startSeq t + item_size t = ack \<and> \<not> ti_sacked t \<and> ti_retrans t)"

fun mark_first_unsacked :: "tx_item list \<Rightarrow> (tx_item list \<times> tx_item) option" where
  "mark_first_unsacked [] = None"
| "mark_first_unsacked (t # ts) =
     (if ti_sacked t then (case mark_first_unsacked ts of None \<Rightarrow> None | Some (ts', x) \<Rightarrow> Some (t # ts', x))
      else Some (t\<lparr>ti_sacked := True\<rparr> # ts, t\<lparr>ti_sacked := True\<rparr>))"

definition AddRenoSack :: "tx_buffer \<Rightarrow> tx_buffer res" where
  "AddRenoSack b =
     (if (if tx_sackEnabled b then \<not> length (tx_sentList b) > 1 else tx_sentList b = []) then Inl Assert_Failed
      else let b = b\<lparr>tx_renoSack := True\<rparr>
           in Inr (case mark_first_unsacked (tl (tx_sentList b)) of
                     None \<Rightarrow> b
                   | Some (ts, t) \<Rightarrow> b\<lparr>tx_sentList := hd (tx_sentList b) # ts, tx_sackedOut := tx_sackedOut b + item_size t,
                       tx_sackSeen := True, tx_highestSack := (Some (ti_id t), ti_startSeq t)\<rparr>))"

definition MarkHeadAsLost :: "tx_buffer \<Rightarrow> tx_buffer" where
  "MarkHeadAsLost b =
     (case tx_sentList b of
        [] \<Rightarrow> b
      | t # ts \<Rightarrow> b\<lparr>tx_sentList := t\<lparr>ti_sacked := False, ti_retrans := False, ti_lost := True\<rparr> # ts,
          tx_sackedOut := (if ti_sacked t then tx_sackedOut b - item_size t else tx_sackedOut b),
          tx_retrans := (if ti_retrans t then tx_retrans b - item_size t else tx_retrans b),
          tx_lostOut := (if \<not> ti_lost t then tx_lostOut b + item_size t else tx_lostOut b)\<rparr>)"

text \<open>
  The loop of \<^verbatim>\<open>DiscardUpTo\<close>. Its iterator is always at the beginning of the sent list. It yields the items given to the
  callback. Each round takes at least a byte of \<open>offset\<close> unless a packet is empty, and \<open>offset\<close> bounds the rounds.
\<close>

definition discard_head :: "u32 \<Rightarrow> tx_buffer \<Rightarrow> (tx_item option \<times> u32 \<times> tx_buffer) res" where
  "discard_head offset b =
     (case tx_sentList b of
        [] \<Rightarrow> Inl Assert_Failed
      | t # ts \<Rightarrow>
          if ti_startSeq t \<noteq> tx_firstByteSeq b then Inl Assert_Failed
          else if offset \<ge> item_size t
          then bind_res (RemoveFromCounts t (item_size t) (b\<lparr>tx_size := tx_size b - item_size t, tx_sentSize := tx_sentSize b - item_size t,
                   tx_firstByteSeq := tx_firstByteSeq b + item_size t\<rparr>)) (\<lambda>b.
                 Inr (Some t, offset - item_size t, b\<lparr>tx_sentList := ts\<rparr>))
          else bind_res (CreateFragment (unat offset) (unat (item_size t - offset)) (ti_packet t)) (\<lambda>p.
               let t' = t\<lparr>ti_packet := p, ti_startSeq := ti_startSeq t + offset\<rparr>
               in bind_res (RemoveFromCounts t' offset (b\<lparr>tx_sentList := t' # ts, tx_size := tx_size b - offset,
                       tx_sentSize := tx_sentSize b - offset, tx_firstByteSeq := tx_firstByteSeq b + offset\<rparr>)) (\<lambda>b.
                    Inr (None, 0, b))))"

fun discard_loop :: "nat \<Rightarrow> int \<Rightarrow> u32 \<Rightarrow> tx_buffer \<Rightarrow> (tx_item list \<times> tx_buffer) res" where
  "discard_loop n now offset b =
     (if \<not> (tx_size b > 0 \<and> offset > 0) then Inr ([], b)
      else case n of
        0 \<Rightarrow> Inl Undefined_Behaviour
      | Suc n' \<Rightarrow>
          bind_res (if tx_sentList b = []
                    then bind_res (CopyFromSequence now offset (tx_firstByteSeq b) b) (\<lambda>(t, b).
                           if t = None then Inl Undefined_Behaviour else Inr b)
                    else Inr b) (\<lambda>b.
          bind_res (discard_head offset b) (\<lambda>(t, offset', b).
            case t of None \<Rightarrow> Inr ([], b)
            | Some t \<Rightarrow> bind_res (discard_loop n' now offset' b) (\<lambda>(ts, b). Inr (t # ts, b)))))"

declare discard_loop.simps [simp del]

definition discard_finish :: "seq \<Rightarrow> tx_buffer \<Rightarrow> tx_buffer res" where
  "discard_finish s b =
     (let b = (if tx_size b = 0 then b\<lparr>tx_firstByteSeq := s\<rparr> else b)
      in bind_res (case tx_sentList b of
             [] \<Rightarrow> Inr b
           | t # ts \<Rightarrow>
               bind_res (if ti_sacked t
                         then if ti_lost t then Inl Assert_Failed
                              else bind_res (AddRenoSack (b\<lparr>tx_sentList := t\<lparr>ti_sacked := False\<rparr> # ts,
                                       tx_sackedOut := tx_sackedOut b - item_size t\<rparr>)) (\<lambda>b. Inr (MarkHeadAsLost b))
                         else Inr b) (\<lambda>b.
                 if ti_startSeq t \<noteq> s then Inl Assert_Failed else Inr b)) (\<lambda>b.
         let b = (if seq_le (snd (tx_highestSack b)) (tx_firstByteSeq b) then b\<lparr>tx_sackSeen := False, tx_highestSack := (None, 0)\<rparr> else b)
         in if \<not> seq_ge (tx_firstByteSeq b) s \<or> \<not> tx_sentSize b \<ge> tx_sackedOut b + tx_lostOut b then Inl Assert_Failed else Inr b))"

definition DiscardUpTo :: "int \<Rightarrow> seq \<Rightarrow> tx_buffer \<Rightarrow> (tx_item list \<times> tx_buffer) res" where
  "DiscardUpTo now s b =
     (if seq_ge (tx_firstByteSeq b) s then Inr ([], b)
      else bind_res (seq_diff s (tx_firstByteSeq b)) (\<lambda>d.
           bind_res (discard_loop (nat d) now (word_of_int d) b) (\<lambda>(ts, b).
           bind_res (discard_finish s b) (\<lambda>b. Inr (ts, b)))))"

section \<open>Selective acknowledgements\<close>

text \<open>The loop over the sent list for one block; it yields the items, the bytes newly acknowledged, the addresses of their items and the counters.\<close>

fun sack_items :: "seq \<times> seq \<Rightarrow> seq \<Rightarrow> tx_item list \<Rightarrow> tx_buffer \<Rightarrow>
    (tx_item list \<times> u32 \<times> nat list \<times> tx_buffer) res" where
  "sack_items blk cur [] b = Inr ([], 0, [], b)"
| "sack_items blk cur (t # ts) b =
     (if seq_ge cur (fst blk) \<and> seq_le (cur + item_size t) (snd blk)
      then if ti_sacked t
           then if ti_lost t then Inl Assert_Failed
                else bind_res (sack_items blk (cur + item_size t) ts b) (\<lambda>(ts', n, cb, b). Inr (t # ts', n, cb, b))
           else let b = b\<lparr>tx_lostOut := (if ti_lost t then tx_lostOut b - item_size t else tx_lostOut b),
                        tx_sackedOut := tx_sackedOut b + item_size t\<rparr>;
                    b = (if fst (tx_highestSack b) = None \<or> seq_le (snd (tx_highestSack b)) (cur + item_size t)
                         then b\<lparr>tx_sackSeen := True, tx_highestSack := (Some (ti_id t), cur)\<rparr> else b)
                in bind_res (sack_items blk (cur + item_size t) ts b) (\<lambda>(ts', n, cb, b).
                     Inr (t\<lparr>ti_lost := False, ti_sacked := True\<rparr> # ts', item_size t + n, ti_id t # cb, b))
      else if seq_gt (cur + item_size t) (snd blk) then Inr (t # ts, 0, [], b)
      else bind_res (sack_items blk (cur + item_size t) ts b) (\<lambda>(ts', n, cb, b). Inr (t # ts', n, cb, b)))"

fun update_blocks :: "(seq \<times> seq) list \<Rightarrow> u32 \<Rightarrow> nat list \<Rightarrow> tx_buffer \<Rightarrow> (bool \<times> u32 \<times> nat list \<times> tx_buffer) res" where
  "update_blocks [] n cb b = Inr (False, n, cb, b)"
| "update_blocks (blk # blks) n cb b =
     (if seq_lt (tx_firstByteSeq b + tx_sentSize b) (fst blk) then Inr (True, n, cb, b)
      else bind_res (sack_items blk (tx_firstByteSeq b) (tx_sentList b) b) (\<lambda>(ts, k, cb', b).
             update_blocks blks (n + k) (cb @ cb') (b\<lparr>tx_sentList := ts\<rparr>)))"

text \<open>The loop of \<^verbatim>\<open>UpdateLostCount\<close> from the highest item acknowledged down to the second item, and its bytes marked lost.\<close>

fun lost_scan :: "u32 \<Rightarrow> u32 \<Rightarrow> tx_item list \<Rightarrow> tx_item list \<times> u32 \<times> u32" where
  "lost_scan thresh sacked [] = ([], sacked, 0)"
| "lost_scan thresh sacked (t # ts) =
     (let sacked = (if ti_sacked t then sacked + 1 else sacked);
          mark = (sacked \<ge> thresh \<and> \<not> ti_sacked t \<and> \<not> ti_lost t);
          (ts', sacked', n) = lost_scan thresh sacked ts
      in ((if mark then t\<lparr>ti_lost := True\<rparr> else t) # ts', sacked', (if mark then item_size t else 0) + n))"

definition UpdateLostCount :: "tx_buffer \<Rightarrow> tx_buffer res" where
  "UpdateLostCount b =
     (case (fst (tx_highestSack b), tx_sentList b) of
        (Some i, h # l) \<Rightarrow>
          if i \<notin> ti_id ` set (h # l) then Inl Undefined_Behaviour
          else let below = (if ti_id h = i then [] else takeWhile (\<lambda>t. ti_id t \<noteq> i) l @ [hd (dropWhile (\<lambda>t. ti_id t \<noteq> i) l)]);
                   above = (if ti_id h = i then l else tl (dropWhile (\<lambda>t. ti_id t \<noteq> i) l));
                   (ts, sacked, n) = lost_scan (tx_dupAckThresh b) 0 (rev below);
                   mark = (sacked \<ge> tx_dupAckThresh b \<and> \<not> ti_lost h)
               in Inr (b\<lparr>tx_sentList := (if mark then h\<lparr>ti_lost := True\<rparr> else h) # rev ts @ above,
                         tx_lostOut := tx_lostOut b + n + (if mark then item_size h else 0)\<rparr>)
      | (_, _) \<Rightarrow> Inl Undefined_Behaviour)"

definition tx_Update :: "(seq \<times> seq) list \<Rightarrow> tx_buffer \<Rightarrow> (u32 \<times> nat list \<times> tx_buffer) res" where
  "tx_Update blks b =
     bind_res (update_blocks blks 0 [] b) (\<lambda>(early, n, cb, b).
       if early then Inr (n, cb, b)
       else bind_res (if n > 0 then if fst (tx_highestSack b) = None then Inl Assert_Failed else UpdateLostCount b else Inr b) (\<lambda>b.
            case tx_sentList b of
              [] \<Rightarrow> Inl Undefined_Behaviour
            | t # _ \<Rightarrow> if ti_sacked t \<or> \<not> tx_sentSize b \<ge> tx_sackedOut b + tx_lostOut b then Inl Assert_Failed else Inr (n, cb, b)))"

fun IsLost_scan :: "seq \<Rightarrow> tx_item list \<Rightarrow> bool" where
  "IsLost_scan s [] = False"
| "IsLost_scan s (t # ts) =
     (if seq_le (ti_startSeq t) s \<and> seq_lt s (ti_startSeq t + item_size t) \<and> ti_lost t then True
      else if seq_le (ti_startSeq t) s \<and> seq_lt s (ti_startSeq t + item_size t) \<and> ti_sacked t then False
      else IsLost_scan s ts)"

definition IsLost :: "seq \<Rightarrow> tx_buffer \<Rightarrow> bool" where
  "IsLost s b \<longleftrightarrow> (if seq_ge s (snd (tx_highestSack b)) then False else IsLost_scan s (tx_sentList b))"

section \<open>Choosing the next segment\<close>

text \<open>The first loop of \<^verbatim>\<open>NextSeg\<close>: a lost item to send again, or the candidate of the third rule.\<close>

fun next_scan :: "tx_buffer \<Rightarrow> bool \<Rightarrow> seq \<Rightarrow> seq \<Rightarrow> bool \<Rightarrow> tx_item list \<Rightarrow> seq + seq option" where
  "next_scan b isRecovery cur rule3 valid [] = Inr (if valid then Some rule3 else None)"
| "next_scan b isRecovery cur rule3 valid (t # ts) =
     (if \<not> ti_retrans t \<and> \<not> ti_sacked t \<and> (tx_sackSeen b \<and> seq_lt (ti_startSeq t) (snd (tx_highestSack b)) \<or> \<not> tx_sackSeen b)
      then if ti_lost t then Inl cur
           else if rule3 = 0 \<and> isRecovery then next_scan b isRecovery (cur + item_size t) cur True ts
           else next_scan b isRecovery (cur + item_size t) rule3 valid ts
      else next_scan b isRecovery (cur + item_size t) rule3 valid ts)"

definition NextSeg :: "u32 \<Rightarrow> bool \<Rightarrow> tx_buffer \<Rightarrow> (seq \<times> seq) option res" where
  "NextSeg rWnd isRecovery b =
     (case next_scan b isRecovery (tx_firstByteSeq b) 0 False (tx_sentList b) of
        Inl s \<Rightarrow> Inr (Some (s, s + tx_segmentSize b))
      | Inr rule3 \<Rightarrow>
          let sent = tx_firstByteSeq b + tx_sentSize b
          in bind_res (SizeFromSequence sent b) (\<lambda>unsent.
               Inr (if unsent > 0
                    then if tx_sentSize b < rWnd
                         then Some (sent, sent + min (tx_segmentSize b) (rWnd - tx_sentSize b))
                         else None
                    else case rule3 of None \<Rightarrow> None | Some s \<Rightarrow> Some (s, s + tx_segmentSize b))))"

definition BytesInFlight :: "tx_buffer \<Rightarrow> u32 res" where
  "BytesInFlight b =
     (if \<not> tx_sackedOut b + tx_lostOut b \<le> tx_sentSize b then Inl Assert_Failed
      else Inr (tx_sentSize b - (tx_sackedOut b + tx_lostOut b) + tx_retrans b))"

fun find_sacked :: "seq \<Rightarrow> tx_item list \<Rightarrow> nat option \<times> seq \<Rightarrow> nat option \<times> seq" where
  "find_sacked cur [] ret = ret"
| "find_sacked cur (t # ts) ret = find_sacked (cur + item_size t) ts (if ti_sacked t then (Some (ti_id t), cur) else ret)"

definition FindHighestSacked :: "tx_buffer \<Rightarrow> nat option \<times> seq" where
  "FindHighestSacked b = find_sacked (tx_firstByteSeq b) (tx_sentList b) (None, 0)"

text \<open>The variant that follows the RFC word by word; \<open>ts\<close> is the sent list from the segment on.\<close>

fun rfc_scan :: "tx_buffer \<Rightarrow> seq \<Rightarrow> u32 \<Rightarrow> u32 \<Rightarrow> tx_item list \<Rightarrow> bool" where
  "rfc_scan b cur count bytes [] = False"
| "rfc_scan b cur count bytes (t # ts) =
     (let count' = (if ti_sacked t then count + 1 else count); bytes' = (if ti_sacked t then bytes + item_size t else bytes)
      in if ti_sacked t \<and> (count' \<ge> tx_dupAckThresh b \<or> bytes' > (tx_dupAckThresh b - 1) * tx_segmentSize b) then True
         else if seq_ge cur (snd (tx_highestSack b)) then ti_lost t \<and> \<not> ti_retrans t
         else rfc_scan b (cur + item_size t) count' bytes' ts)"

definition IsLostRFC :: "seq \<Rightarrow> tx_item list \<Rightarrow> tx_buffer \<Rightarrow> bool" where
  "IsLostRFC s ts b \<longleftrightarrow> (case ts of [] \<Rightarrow> False | t # _ \<Rightarrow> \<not> ti_sacked t \<and> rfc_scan b s 0 0 ts)"

text \<open>The loop of \<^verbatim>\<open>BytesInFlightRFC\<close>: \<^verbatim>\<open>size\<close>, \<^verbatim>\<open>lostOut\<close>, \<^verbatim>\<open>sackedOut\<close>, \<^verbatim>\<open>retrans\<close> and \<^verbatim>\<open>totalSize\<close>.\<close>

fun rfc_flight :: "tx_buffer \<Rightarrow> seq \<Rightarrow> tx_item list \<Rightarrow> u32 \<times> u32 \<times> u32 \<times> u32 \<times> u32" where
  "rfc_flight b cur [] = (0, 0, 0, 0, 0)"
| "rfc_flight b cur (t # ts) =
     (let (sz, lost, sacked, retrans, all) = rfc_flight b (cur + item_size t) ts;
          isLost = IsLostRFC cur (t # ts) b
      in ((if \<not> ti_sacked t \<and> (\<not> isLost \<or> ti_retrans t) then item_size t else 0) + sz,
          (if \<not> ti_sacked t \<and> isLost then item_size t else 0) + lost,
          (if ti_sacked t then item_size t else 0) + sacked,
          (if ti_retrans t then item_size t else 0) + retrans, item_size t + all))"

definition BytesInFlightRFC :: "tx_buffer \<Rightarrow> u32 res" where
  "BytesInFlightRFC b =
     (case rfc_flight b (tx_firstByteSeq b) (tx_sentList b) of (sz, lost, sacked, retrans, all) \<Rightarrow>
        if lost \<noteq> tx_lostOut b \<or> retrans \<noteq> tx_retrans b \<or> sacked \<noteq> tx_sackedOut b \<or> all \<noteq> tx_sentSize b then Inl Assert_Failed
        else Inr sz)"

section \<open>Resetting\<close>

definition ResetRenoSack :: "tx_buffer \<Rightarrow> tx_buffer" where
  "ResetRenoSack b = b\<lparr>tx_sackedOut := 0, tx_sentList := map (\<lambda>t. t\<lparr>ti_sacked := False\<rparr>) (tx_sentList b),
     tx_highestSack := (None, 0), tx_sackSeen := False\<rparr>"

definition ResetSentList :: "tx_buffer \<Rightarrow> tx_buffer" where
  "ResetSentList b = b\<lparr>tx_appList := map (\<lambda>t. t\<lparr>ti_retrans := False, ti_sacked := False, ti_lost := False\<rparr>) (tx_sentList b) @ tx_appList b,
     tx_sentList := [], tx_sentSize := 0, tx_lostOut := 0, tx_retrans := 0, tx_sackedOut := 0, tx_sackSeen := False,
     tx_highestSack := (None, 0)\<rparr>"

definition ResetLastSegmentSent :: "tx_buffer \<Rightarrow> tx_buffer" where
  "ResetLastSegmentSent b =
     (if tx_sentList b = [] then b
      else let t = last (tx_sentList b)
           in b\<lparr>tx_sentList := butlast (tx_sentList b), tx_sentSize := tx_sentSize b - item_size t,
                tx_retrans := (if ti_retrans t then tx_retrans b - item_size t else tx_retrans b), tx_appList := t # tx_appList b\<rparr>)"

fun lost_bytes :: "tx_item list \<Rightarrow> u32" where
  "lost_bytes [] = 0"
| "lost_bytes (t # ts) = (if ti_lost t \<or> \<not> ti_sacked t then item_size t else 0) + lost_bytes ts"

definition SetSentListLost :: "bool \<Rightarrow> tx_buffer \<Rightarrow> tx_buffer res" where
  "SetSentListLost resetSack b =
     (let b = (if resetSack
               then b\<lparr>tx_retrans := 0, tx_sackedOut := 0, tx_lostOut := tx_sentSize b, tx_sackSeen := False, tx_highestSack := (None, 0),
                      tx_sentList := map (\<lambda>t. t\<lparr>ti_sacked := False, ti_lost := True, ti_retrans := False\<rparr>) (tx_sentList b)\<rparr>
               else b\<lparr>tx_retrans := 0, tx_lostOut := lost_bytes (tx_sentList b),
                      tx_sentList := map (\<lambda>t. t\<lparr>ti_lost := ti_lost t \<or> \<not> ti_sacked t, ti_retrans := False\<rparr>) (tx_sentList b)\<rparr>)
      in if \<not> tx_sentSize b \<ge> tx_sackedOut b + tx_lostOut b then Inl Assert_Failed else Inr b)"

definition IsHeadRetransmitted :: "tx_buffer \<Rightarrow> bool res" where
  "IsHeadRetransmitted b =
     (if tx_sentSize b = 0 then Inr False
      else case tx_sentList b of [] \<Rightarrow> Inl Undefined_Behaviour | t # _ \<Rightarrow> Inr (ti_retrans t))"

definition DeleteRetransmittedFlagFromHead :: "tx_buffer \<Rightarrow> tx_buffer res" where
  "DeleteRetransmittedFlagFromHead b =
     (if tx_sentSize b = 0 then Inr b
      else case tx_sentList b of
        [] \<Rightarrow> Inl Undefined_Behaviour
      | t # ts \<Rightarrow> Inr (if ti_retrans t then b\<lparr>tx_sentList := t\<lparr>ti_retrans := False\<rparr> # ts, tx_retrans := tx_retrans b - item_size t\<rparr> else b))"

text \<open>What \<^verbatim>\<open>ConsistencyCheck\<close> asserts when it is enabled.\<close>

definition ConsistencyCheck :: "tx_buffer \<Rightarrow> bool" where
  "ConsistencyCheck b \<longleftrightarrow>
     tx_sackedOut b = sum_list (map item_size (filter ti_sacked (tx_sentList b))) \<and>
     tx_lostOut b = sum_list (map item_size (filter ti_lost (tx_sentList b))) \<and>
     tx_retrans b = sum_list (map item_size (filter ti_retrans (tx_sentList b)))"

end
