(* ===== verification/Tcp_Tx_Items.thy ===== *)
theory Tcp_Tx_Items
  imports Tcp_Tx_Buffer
begin

text \<open>
  Lists of items of the send buffer: the bytes they hold, the sums the counters stand for, and that finding a segment of a list, with
  the splits and merges it takes, keeps all of them.
\<close>

section \<open>Sequence numbers from the start of a list\<close>

lemma pos_cmp:
  assumes "x < 2 ^ 31" "y < 2 ^ 31"
  shows "seq_lt (s + of_nat x) (s + of_nat y) \<longleftrightarrow> x < y" "seq_le (s + of_nat x) (s + of_nat y) \<longleftrightarrow> x \<le> y"
    "seq_gt (s + of_nat x) (s + of_nat y) \<longleftrightarrow> y < x" "seq_ge (s + of_nat x) (s + of_nat y) \<longleftrightarrow> y \<le> x"
    "s + of_nat x = s + of_nat y \<longleftrightarrow> x = y" "seq_diff (s + of_nat x) (s + of_nat y) = Inr (int x - int y)"
proof -
  have win: "in_win 0 x" "in_win 0 y" using assms by (auto simp: in_win_def)
  show "seq_lt (s + of_nat x) (s + of_nat y) \<longleftrightarrow> x < y" "seq_le (s + of_nat x) (s + of_nat y) \<longleftrightarrow> x \<le> y"
    "seq_gt (s + of_nat x) (s + of_nat y) \<longleftrightarrow> y < x" "seq_ge (s + of_nat x) (s + of_nat y) \<longleftrightarrow> y \<le> x"
    "s + of_nat x = s + of_nat y \<longleftrightarrow> x = y" "seq_diff (s + of_nat x) (s + of_nat y) = Inr (int x - int y)"
    using seq32.lt [OF win, of s] seq32.le [OF win, of s] seq32.gt [OF win, of s] seq32.ge [OF win, of s]
      seq32.eq [OF win, of s] seq32.minus [OF win, of s]
    by (simp_all add: seq32_ops_def seq_pos_def)
qed

section \<open>Bytes and sums\<close>

definition item_bytes :: "tx_item list \<Rightarrow> bytes" where
  "item_bytes l = concat (map ti_packet l)"

abbreviation tbytes :: "tx_item list \<Rightarrow> nat" where
  "tbytes l \<equiv> length (item_bytes l)"

definition flagged :: "(tx_item \<Rightarrow> bool) \<Rightarrow> tx_item list \<Rightarrow> nat" where
  "flagged P l = tbytes (filter P l)"

definition nonempty :: "tx_item list \<Rightarrow> bool" where
  "nonempty l \<longleftrightarrow> (\<forall>t\<in>set l. ti_packet t \<noteq> [])"

fun starts :: "seq \<Rightarrow> tx_item list \<Rightarrow> bool" where
  "starts s [] \<longleftrightarrow> True"
| "starts s (t # ts) \<longleftrightarrow> ti_startSeq t = s \<and> starts (s + item_size t) ts"

lemma item_bytes_simps [simp]:
  "item_bytes [] = []" "item_bytes (t # l) = ti_packet t @ item_bytes l" "item_bytes (l @ l') = item_bytes l @ item_bytes l'"
  by (simp_all add: item_bytes_def)

lemma flagged_simps [simp]:
  "flagged P [] = 0" "flagged P (t # l) = (if P t then length (ti_packet t) else 0) + flagged P l"
  "flagged P (l @ l') = flagged P l + flagged P l'"
  by (simp_all add: flagged_def)

lemma nonempty_simps [simp]:
  "nonempty []" "nonempty (t # l) \<longleftrightarrow> ti_packet t \<noteq> [] \<and> nonempty l" "nonempty (l @ l') \<longleftrightarrow> nonempty l \<and> nonempty l'"
  by (auto simp: nonempty_def)

lemma starts_append [simp]: "starts s (l @ l') \<longleftrightarrow> starts s l \<and> starts (s + of_nat (tbytes l)) l'"
  by (induction l arbitrary: s) (auto simp: add.assoc)

lemma flagged_le: "flagged P l \<le> tbytes l"
  by (induction l) auto

lemma flagged_two: "\<forall>t\<in>set l. \<not> (P t \<and> Q t) \<Longrightarrow> flagged P l + flagged Q l \<le> tbytes l"
  by (induction l) auto

text \<open>
  \<open>same_items l r n l' r' n'\<close>: a list with the same bytes, bytes lost and bytes selectively acknowledged, whose change in bytes
  retransmitted is that of the counter, with new addresses from the free ones, and with the same selectively acknowledged items.
\<close>

definition same_items :: "tx_item list \<Rightarrow> u32 \<Rightarrow> nat \<Rightarrow> tx_item list \<Rightarrow> u32 \<Rightarrow> nat \<Rightarrow> bool" where
  "same_items l r n l' r' n' \<longleftrightarrow> item_bytes l' = item_bytes l \<and> (nonempty l \<longrightarrow> nonempty l') \<and>
     flagged ti_lost l' = flagged ti_lost l \<and> flagged ti_sacked l' = flagged ti_sacked l \<and>
     r' + of_nat (flagged ti_retrans l) = r + of_nat (flagged ti_retrans l') \<and> n \<le> n' \<and>
     (distinct (map ti_id l) \<and> (\<forall>t\<in>set l. ti_id t < n) \<longrightarrow> distinct (map ti_id l')) \<and>
     ti_id ` set l' \<subseteq> ti_id ` set l \<union> {n..<n'} \<and>
     ((\<forall>t\<in>set l. \<not> (ti_lost t \<and> ti_sacked t)) \<longrightarrow> (\<forall>t\<in>set l'. \<not> (ti_lost t \<and> ti_sacked t))) \<and>
     (\<forall>s. starts s l \<longrightarrow> starts s l') \<and> (\<forall>t\<in>set l. ti_sacked t \<longrightarrow> t \<in> set l') \<and>
     (l \<noteq> [] \<longrightarrow> l' \<noteq> [] \<and> (ti_sacked (hd l') \<longrightarrow> ti_sacked (hd l)))"

lemma same_items_refl: "same_items l r n l r n"
  by (simp add: same_items_def)

lemma same_itemsD:
  assumes "same_items l r n l' r' n'"
  shows "item_bytes l' = item_bytes l" "nonempty l \<Longrightarrow> nonempty l'" "flagged ti_lost l' = flagged ti_lost l"
    "flagged ti_sacked l' = flagged ti_sacked l" "r' + of_nat (flagged ti_retrans l) = r + of_nat (flagged ti_retrans l')" "n \<le> n'"
    "distinct (map ti_id l) \<Longrightarrow> \<forall>t\<in>set l. ti_id t < n \<Longrightarrow> distinct (map ti_id l')"
    "ti_id ` set l' \<subseteq> ti_id ` set l \<union> {n..<n'}"
    "\<forall>t\<in>set l. \<not> (ti_lost t \<and> ti_sacked t) \<Longrightarrow> \<forall>t\<in>set l'. \<not> (ti_lost t \<and> ti_sacked t)"
    "starts s l \<Longrightarrow> starts s l'" "t \<in> set l \<Longrightarrow> ti_sacked t \<Longrightarrow> t \<in> set l'"
    "l \<noteq> [] \<Longrightarrow> l' \<noteq> []" "l \<noteq> [] \<Longrightarrow> ti_sacked (hd l') \<Longrightarrow> ti_sacked (hd l)"
  using assms unfolding same_items_def by blast+

lemma same_items_ids:
  assumes "same_items l r n l' r' n'" "\<forall>t\<in>set l. ti_id t < n"
  shows "\<forall>t\<in>set l'. ti_id t < n'"
  using same_itemsD(6,8) [OF assms(1)] assms(2) by fastforce

lemma counter_trans:
  fixes r :: u32
  assumes "r' + x = r + y" "r'' + y = r' + z"
  shows "r'' + x = r + z"
proof -
  have "r' = r + y - x" "r'' = r' + z - y" using assms by (metis add_diff_cancel_right')+
  then show ?thesis by simp
qed

lemma same_items_trans:
  assumes "same_items l r n l' r' n'" "same_items l' r' n' l'' r'' n''"
  shows "same_items l r n l'' r'' n''"
proof -
  note a = same_itemsD [OF assms(1)] and b = same_itemsD [OF assms(2)]
  have "r'' + of_nat (flagged ti_retrans l) = r + of_nat (flagged ti_retrans l'')" using counter_trans [OF a(5) b(5)] .
  moreover have "distinct (map ti_id l) \<and> (\<forall>t\<in>set l. ti_id t < n) \<longrightarrow> distinct (map ti_id l'')"
    using a(7) b(7) same_items_ids [OF assms(1)] by blast
  moreover have "ti_id ` set l'' \<subseteq> ti_id ` set l \<union> {n..<n''}"
  proof -
    have "{n..<n'} \<subseteq> {n..<n''}" "{n'..<n''} \<subseteq> {n..<n''}" using a(6) b(6) by auto
    then have "ti_id ` set l' \<union> {n'..<n''} \<subseteq> ti_id ` set l \<union> {n..<n''}" using a(8) by (meson Un_mono Un_upper2 le_sup_iff subset_trans sup.mono order_refl)
    then show ?thesis using b(8) by (rule subset_trans [rotated])
  qed
  moreover have "l \<noteq> [] \<longrightarrow> l'' \<noteq> [] \<and> (ti_sacked (hd l'') \<longrightarrow> ti_sacked (hd l))" using a(12,13) b(12,13) by blast
  moreover have "\<forall>t\<in>set l. ti_sacked t \<longrightarrow> t \<in> set l''" using a(11) b(11) by blast
  moreover have "\<forall>s. starts s l \<longrightarrow> starts s l''" using a(10) b(10) by blast
  moreover have "(\<forall>t\<in>set l. \<not> (ti_lost t \<and> ti_sacked t)) \<longrightarrow> (\<forall>t\<in>set l''. \<not> (ti_lost t \<and> ti_sacked t))" using a(9) b(9) by blast
  moreover have "nonempty l \<longrightarrow> nonempty l''" using a(2) b(2) by blast
  ultimately show ?thesis
    unfolding same_items_def using a(1,3,4,6) b(1,3,4,6) by (simp del: split_paired_All)
qed

section \<open>Splitting and merging\<close>

definition split1 :: "nat \<Rightarrow> tx_item \<Rightarrow> nat \<Rightarrow> tx_item" where
  "split1 i t k = t\<lparr>ti_id := i, ti_packet := take k (ti_packet t), ti_rate := RateInformation\<rparr>"

definition split2 :: "tx_item \<Rightarrow> nat \<Rightarrow> tx_item" where
  "split2 t k = t\<lparr>ti_packet := drop k (ti_packet t), ti_startSeq := ti_startSeq t + of_nat k\<rparr>"

lemma SplitItems_eq: "unat sz \<le> length (ti_packet t) \<Longrightarrow> SplitItems i t sz = Inr (split1 i t (unat sz), split2 t (unat sz))"
  by (simp add: SplitItems_def CreateFragment_def split1_def split2_def)

lemma split_same:
  assumes "\<not> ti_sacked t" "0 < k" "k < length (ti_packet t)"
  shows "same_items (pre @ t # post) r n (pre @ [split1 n t k, split2 t k] @ post) r (n + 1)"
proof -
  have "take k (ti_packet t) @ drop k (ti_packet t) @ item_bytes post = ti_packet t @ item_bytes post" by (metis append.assoc append_take_drop_id)
  then show ?thesis
    using assms by (auto simp: same_items_def split1_def split2_def image_iff hd_append add.assoc)
qed

definition merged :: "tx_item \<Rightarrow> tx_item \<Rightarrow> tx_item" where
  "merged t1 t2 = t1\<lparr>ti_retrans := ti_retrans t1 \<and> ti_retrans t2, ti_lastSent := max (ti_lastSent t1) (ti_lastSent t2),
     ti_packet := ti_packet t1 @ ti_packet t2\<rparr>"

definition merged_retrans :: "tx_item \<Rightarrow> tx_item \<Rightarrow> u32 \<Rightarrow> u32" where
  "merged_retrans t1 t2 r = (if ti_retrans t1 \<noteq> ti_retrans t2 then r - (if ti_retrans t1 then item_size t1 else item_size t2) else r)"

lemma MergeItems_eq:
  "ti_sacked t1 = ti_sacked t2 \<Longrightarrow> ti_lost t1 = ti_lost t2 \<Longrightarrow> MergeItems t1 t2 r = Inr (merged t1 t2, merged_retrans t1 t2 r)"
  by (auto simp: MergeItems_def merged_def merged_retrans_def)

lemma merge_same:
  assumes "\<not> ti_sacked t" "\<not> ti_sacked nx" "ti_lost t = ti_lost nx"
  shows "same_items (pre @ t # nx # post) r n (pre @ [merged t nx] @ post) (merged_retrans t nx r) n"
  using assms by (auto simp: same_items_def merged_def merged_retrans_def hd_append add.assoc split: if_splits)

text \<open>Changing the retransmission flag and the time of one item.\<close>

lemma resent_same:
  assumes "ti_id t' = ti_id t" "ti_startSeq t' = ti_startSeq t" "ti_packet t' = ti_packet t" "ti_lost t' = ti_lost t"
    "ti_sacked t' = ti_sacked t" "\<not> ti_sacked t" "ti_retrans t'"
  shows "same_items (pre @ t # post) r n (pre @ t' # post) (if ti_retrans t then r else r + item_size t) n"
  using assms by (auto simp: same_items_def hd_append)


section \<open>Finding a segment\<close>

definition lim_ok :: "seq option \<Rightarrow> tx_item list \<Rightarrow> bool" where
  "lim_ok lim l \<longleftrightarrow> (\<forall>t\<in>set l. case lim of None \<Rightarrow> True | Some first \<Rightarrow> seq_ge (ti_startSeq t) first)"

lemma lim_ok_None [simp]: "lim_ok None l"
  by (simp add: lim_ok_def)

lemma starts_lim:
  assumes "starts (first + of_nat k) l" "k + tbytes l < 2 ^ 31"
  shows "lim_ok (Some first) l"
  using assms
proof (induction l arbitrary: k)
  case (Cons t l)
  have "seq_ge (first + of_nat k) (first + of_nat 0)" using Cons.prems pos_cmp(4) [of k 0 first] by simp
  moreover have "lim_ok (Some first) l" using Cons.prems Cons.IH [of "k + length (ti_packet t)"] by (simp add: add.assoc)
  ultimately show ?case using Cons.prems by (simp add: lim_ok_def)
qed (simp add: lim_ok_def)

lemma walk_boundary:
  assumes "nonempty (pre @ t # post)" "k + tbytes (pre @ t # post) < 2 ^ 31" "lim_ok lim (pre @ t # post)"
  shows "list_walk lim (s + of_nat (k + tbytes pre)) (s + of_nat k) acc (pre @ t # post) = Inr (acc @ pre, t, post, s + of_nat (k + tbytes pre))"
  using assms
proof (induction pre arbitrary: k acc)
  case Nil
  have "seq_lt (s + of_nat k) (s + of_nat (k + length (ti_packet t)))" using Nil.prems pos_cmp(1) [of k "k + length (ti_packet t)" s] by simp
  then show ?case using Nil.prems by (simp add: lim_ok_def add.assoc)
next
  case (Cons x pre)
  have eq: "s + of_nat k + item_size x = s + of_nat (k + length (ti_packet x))" by (simp add: add.assoc)
  have "\<not> seq_lt (s + of_nat (k + tbytes (x # pre))) (s + of_nat (k + length (ti_packet x)))"
    using Cons.prems pos_cmp(1) [of "k + tbytes (x # pre)" "k + length (ti_packet x)" s] by simp
  then have "list_walk lim (s + of_nat (k + tbytes (x # pre))) (s + of_nat k) acc ((x # pre) @ t # post) =
      list_walk lim (s + of_nat (k + tbytes (x # pre))) (s + of_nat (k + length (ti_packet x))) (acc @ [x]) (pre @ t # post)"
    using Cons.prems(3) by (simp only: append_Cons list_walk.simps eq) (simp add: lim_ok_def del: of_nat_add)
  also have "k + tbytes (x # pre) = (k + length (ti_packet x)) + tbytes pre" by simp
  finally show ?case using Cons.IH [of "k + length (ti_packet x)" "acc @ [x]"] Cons.prems by (simp add: lim_ok_def add.assoc del: of_nat_add)
qed

lemma size_cmp:
  assumes "n < 2 ^ 31" "m < 2 ^ 31"
  shows "(of_nat n :: u32) = of_nat m \<longleftrightarrow> n = m" "(of_nat n :: u32) < of_nat m \<longleftrightarrow> n < m" "unat (of_nat n :: u32) = n"
  using assms by (simp_all add: word_unat_eq_iff word_less_nat_alt unat_of_nat take_bit_nat_eq_self)

text \<open>A segment at an item boundary that ends within the item is the item or its first part.\<close>

lemma get_exact:
  assumes "nonempty (pre @ t # post)" "tbytes (pre @ t # post) < 2 ^ 31" "lim_ok lim (pre @ t # post)" "m \<le> length (ti_packet t)"
  shows "GetPacketFromList (Suc f) lim (pre @ t # post) s (of_nat m) (s + of_nat (tbytes pre)) r nid =
    (if m = length (ti_packet t) then Inr (t, pre @ t # post, r, nid)
     else Inr (split1 nid t m, pre @ [split1 nid t m, split2 t m] @ post, r, nid + 1))"
proof -
  have m: "m < 2 ^ 31" "length (ti_packet t) < 2 ^ 31" using assms by auto
  have "seq_le (s + of_nat (tbytes pre + m)) (s + of_nat (tbytes pre + length (ti_packet t)))"
    using assms pos_cmp(2) [of "tbytes pre + m" "tbytes pre + length (ti_packet t)" s] by simp
  then have le: "seq_le (s + of_nat (tbytes pre) + of_nat m) (s + of_nat (tbytes pre) + item_size t)" by (simp add: add.assoc)
  have "list_walk lim (s + of_nat (tbytes pre)) s [] (pre @ t # post) = Inr (pre, t, post, s + of_nat (tbytes pre))"
    using walk_boundary [OF assms(1) _ assms(3), of 0 s "[]"] assms(2) by simp
  then show ?thesis
    using le size_cmp [OF m] assms(4) SplitItems_eq [of "of_nat m" t nid] by simp
qed

text \<open>A segment that ends beyond the item takes the next item in first.\<close>

lemma get_merge:
  assumes "nonempty (pre @ t # nx # post)" "tbytes (pre @ t # nx # post) < 2 ^ 31" "lim_ok lim (pre @ t # nx # post)"
    "length (ti_packet t) < m" "tbytes pre + m < 2 ^ 31" "ti_sacked t = ti_sacked nx" "ti_lost t = ti_lost nx"
  shows "GetPacketFromList (Suc f) lim (pre @ t # nx # post) s (of_nat m) (s + of_nat (tbytes pre)) r nid =
    GetPacketFromList f lim (pre @ [merged t nx] @ post) s (of_nat m) (s + of_nat (tbytes pre)) (merged_retrans t nx r) nid"
proof -
  have "\<not> seq_le (s + of_nat (tbytes pre + m)) (s + of_nat (tbytes pre + length (ti_packet t)))"
    using assms pos_cmp(2) [of "tbytes pre + m" "tbytes pre + length (ti_packet t)" s] by simp
  then have le: "\<not> seq_le (s + of_nat (tbytes pre) + of_nat m) (s + of_nat (tbytes pre) + item_size t)" by (simp add: add.assoc)
  have "list_walk lim (s + of_nat (tbytes pre)) s [] (pre @ t # nx # post) = Inr (pre, t, nx # post, s + of_nat (tbytes pre))"
    using walk_boundary [OF assms(1) _ assms(3), of 0 s "[]"] assms(2) by simp
  then show ?thesis using le MergeItems_eq [OF assms(6,7), of r] by simp
qed

end
