(* ===== verification/Tcp_Tx_Inv.thy ===== *)
theory Tcp_Tx_Inv
  imports Tcp_Tx_Items
begin

text \<open>
  The invariant of the send buffer, and that every operation keeps it. The items sent follow each other from the head of the buffer, the
  sizes and the three counters are the exact sums over the lists, no item is both lost and selectively acknowledged, the items not
  sent carry no flag, the first item sent is not selectively acknowledged, and the highest item selectively acknowledged is in the list.
\<close>

section \<open>The invariant\<close>

definition clean :: "tx_item \<Rightarrow> bool" where
  "clean t \<longleftrightarrow> \<not> ti_lost t \<and> \<not> ti_retrans t \<and> \<not> ti_sacked t"

definition exclusive :: "tx_item list \<Rightarrow> bool" where
  "exclusive l \<longleftrightarrow> (\<forall>t\<in>set l. \<not> (ti_lost t \<and> ti_sacked t))"

lemma exclusive_simps [simp]:
  "exclusive []" "exclusive (t # l) \<longleftrightarrow> \<not> (ti_lost t \<and> ti_sacked t) \<and> exclusive l" "exclusive (l @ l') \<longleftrightarrow> exclusive l \<and> exclusive l'"
  by (auto simp: exclusive_def)

definition ids_ok :: "nat \<Rightarrow> tx_item list \<Rightarrow> bool" where
  "ids_ok n l \<longleftrightarrow> distinct (map ti_id l) \<and> (\<forall>t\<in>set l. ti_id t < n)"

lemma ids_ok_append [simp]:
  "ids_ok n (l @ l') \<longleftrightarrow> ids_ok n l \<and> ids_ok n l' \<and> ti_id ` set l \<inter> ti_id ` set l' = {}"
  by (auto simp: ids_ok_def)

lemma ids_ok_Cons [simp]: "ids_ok n (t # l) \<longleftrightarrow> ti_id t < n \<and> ti_id t \<notin> ti_id ` set l \<and> ids_ok n l"
  by (auto simp: ids_ok_def)

lemma ids_ok_Nil [simp]: "ids_ok n []"
  by (simp add: ids_ok_def)

lemma ids_ok_mono: "ids_ok n l \<Longrightarrow> n \<le> n' \<Longrightarrow> ids_ok n' l"
  by (fastforce simp: ids_ok_def)

lemma ids_ok_fresh: "ids_ok n l \<Longrightarrow> n \<le> m \<Longrightarrow> m \<notin> ti_id ` set l"
  by (fastforce simp: ids_ok_def)

lemma small_unat: "n < 2 ^ 31 \<Longrightarrow> unat (of_nat n :: u32) = n"
  by (simp add: unat_of_nat take_bit_nat_eq_self)

abbreviation tx_items :: "tx_buffer \<Rightarrow> tx_item list" where
  "tx_items b \<equiv> tx_sentList b @ tx_appList b"

abbreviation tx_content :: "tx_buffer \<Rightarrow> bytes" where
  "tx_content b \<equiv> item_bytes (tx_items b)"

definition tx_core :: "tx_buffer \<Rightarrow> bool" where
  "tx_core b \<longleftrightarrow> starts (tx_firstByteSeq b) (tx_sentList b) \<and> nonempty (tx_items b) \<and> ids_ok (tx_nextId b) (tx_items b) \<and>
     tx_sentSize b = of_nat (tbytes (tx_sentList b)) \<and> tx_size b = of_nat (length (tx_content b)) \<and>
     length (tx_content b) \<le> unat (tx_maxBuffer b) \<and> unat (tx_maxBuffer b) < 2 ^ 31 \<and>
     tx_lostOut b = of_nat (flagged ti_lost (tx_sentList b)) \<and> tx_sackedOut b = of_nat (flagged ti_sacked (tx_sentList b)) \<and>
     tx_retrans b = of_nat (flagged ti_retrans (tx_sentList b)) \<and> exclusive (tx_sentList b) \<and> (\<forall>t\<in>set (tx_appList b). clean t)"

definition head_ok :: "tx_buffer \<Rightarrow> bool" where
  "head_ok b \<longleftrightarrow> (tx_sentList b \<noteq> [] \<longrightarrow> \<not> ti_sacked (hd (tx_sentList b)))"

definition highest_ok :: "tx_buffer \<Rightarrow> bool" where
  "highest_ok b \<longleftrightarrow> (\<forall>i. fst (tx_highestSack b) = Some i \<longrightarrow>
     (\<exists>t\<in>set (tx_sentList b). ti_id t = i \<and> ti_sacked t \<and> ti_startSeq t = snd (tx_highestSack b)))"

definition tx_inv :: "tx_buffer \<Rightarrow> bool" where
  "tx_inv b \<longleftrightarrow> tx_core b \<and> head_ok b \<and> highest_ok b"

lemmas tx_defs = tx_inv_def tx_core_def head_ok_def highest_ok_def

lemma flagged_bound:
  assumes "tx_core b"
  shows "length (tx_content b) < 2 ^ 31" "flagged P (tx_sentList b) < 2 ^ 31"
  using assms flagged_le [of P "tx_sentList b"] by (auto simp: tx_core_def)

lemma sizes_exact:
  assumes "tx_core b"
  shows "unat (tx_size b) = length (tx_content b)" "unat (tx_sentSize b) = tbytes (tx_sentList b)"
    "unat (tx_lostOut b) = flagged ti_lost (tx_sentList b)" "unat (tx_sackedOut b) = flagged ti_sacked (tx_sentList b)"
    "unat (tx_retrans b) = flagged ti_retrans (tx_sentList b)"
proof -
  have "tbytes (tx_sentList b) < 2 ^ 31" using flagged_bound(1) [OF assms] by simp
  from small_unat [OF this] show "unat (tx_sentSize b) = tbytes (tx_sentList b)" using assms by (simp add: tx_core_def)
  show "unat (tx_size b) = length (tx_content b)"
    using assms small_unat [OF flagged_bound(1) [OF assms]] by (simp only: tx_core_def)
qed (use assms small_unat [OF flagged_bound(2) [OF assms]] in \<open>simp_all only: tx_core_def\<close>)

lemma flags_fit: "tx_core b \<Longrightarrow> flagged ti_sacked (tx_sentList b) + flagged ti_lost (tx_sentList b) \<le> tbytes (tx_sentList b)"
  by (rule flagged_two) (auto simp: tx_core_def exclusive_def)

lemma unat_plus_le:
  fixes x y :: u32
  shows "unat (x + y) \<le> unat x + unat y"
  by (simp add: unat_word_ariths)

text \<open>The assertion that the bytes lost and selectively acknowledged have been sent.\<close>

lemma counts_fit:
  assumes "tx_core b"
  shows "tx_sackedOut b + tx_lostOut b \<le> tx_sentSize b"
proof -
  have "unat (tx_sackedOut b) + unat (tx_lostOut b) \<le> unat (tx_sentSize b)" using sizes_exact [OF assms] flags_fit [OF assms] by simp
  then show ?thesis by (metis (no_types, lifting) le_trans unat_plus_le word_le_nat_alt)
qed

lemma content_room: "tx_core b \<Longrightarrow> unat (tx_maxBuffer b - tx_size b) = unat (tx_maxBuffer b) - length (tx_content b)"
  using sizes_exact(1) [of b] by (simp add: tx_core_def unat_sub word_le_nat_alt)

section \<open>Writing\<close>

lemma TcpTxBuffer_inv: "unat mb < 2 ^ 31 \<Longrightarrow> tx_inv (tx_SetMaxBufferSize mb (TcpTxBuffer isn))"
  by (simp add: tx_defs TcpTxBuffer_def tx_SetMaxBufferSize_def ids_ok_def)

lemma Add_inv:
  assumes "tx_inv b" "length p < 2 ^ 32"
  shows "fst (tx_Add p b) \<longleftrightarrow> length (tx_content b) + length p \<le> unat (tx_maxBuffer b)" "tx_inv (snd (tx_Add p b))"
    "tx_content (snd (tx_Add p b)) = tx_content b @ (if fst (tx_Add p b) then p else [])"
    "tx_firstByteSeq (snd (tx_Add p b)) = tx_firstByteSeq b"
proof -
  have core: "tx_core b" using assms by (simp add: tx_inv_def)
  have p: "unat (of_nat (length p) :: u32) = length p" using assms(2) by (simp add: unat_of_nat take_bit_nat_eq_self)
  have le: "length (tx_content b) \<le> unat (tx_maxBuffer b)" using core by (simp only: tx_core_def)
  show fits: "fst (tx_Add p b) \<longleftrightarrow> length (tx_content b) + length p \<le> unat (tx_maxBuffer b)"
    using content_room [OF core] p le by (simp add: tx_Add_def tx_Available_def word_le_nat_alt) linarith
  have pos: "(of_nat (length p) :: u32) > 0 \<longleftrightarrow> p \<noteq> []" using p by (simp add: word_less_nat_alt)
  show "tx_content (snd (tx_Add p b)) = tx_content b @ (if fst (tx_Add p b) then p else [])"
    "tx_firstByteSeq (snd (tx_Add p b)) = tx_firstByteSeq b"
    using pos by (auto simp: tx_Add_def new_item_def)
  show "tx_inv (snd (tx_Add p b))"
  proof (cases "fst (tx_Add p b) \<and> p \<noteq> []")
    case True
    then have eq: "snd (tx_Add p b) = b\<lparr>tx_appList := tx_appList b @ [new_item (tx_nextId b) p], tx_nextId := tx_nextId b + 1,
        tx_size := tx_size b + of_nat (length p)\<rparr>"
      using pos by (simp add: tx_Add_def split: if_splits)
    have "ids_ok (tx_nextId b + 1) (tx_items b @ [new_item (tx_nextId b) p])"
      using core ids_ok_mono [of "tx_nextId b" _ "tx_nextId b + 1"] ids_ok_fresh [of "tx_nextId b" _ "tx_nextId b"]
      by (simp add: tx_core_def new_item_def)
    then show ?thesis
      unfolding eq using assms(1) True fits by (simp add: tx_defs new_item_def clean_def)
  next
    case False
    then have "snd (tx_Add p b) = b" using pos by (auto simp: tx_Add_def split: if_splits)
    then show ?thesis using assms(1) by simp
  qed
qed

section \<open>Replacing the items sent\<close>

lemma core_sent:
  assumes "tx_core b" "same_items (tx_sentList b) (tx_retrans b) (tx_nextId b) l r n"
  shows "tx_core (b\<lparr>tx_sentList := l, tx_retrans := r, tx_nextId := n\<rparr>)"
proof -
  note s = same_itemsD [OF assms(2)]
  have ids: "ids_ok (tx_nextId b) (tx_items b)" using assms(1) by (simp only: tx_core_def)
  have "ids_ok n l" using ids s(7) same_items_ids [OF assms(2)] by (auto simp: ids_ok_def)
  moreover have "ids_ok n (tx_appList b)" using ids s(6) ids_ok_mono by auto
  moreover have "ti_id ` set l \<inter> ti_id ` set (tx_appList b) = {}"
  proof -
    have "ti_id ` set (tx_appList b) \<inter> {tx_nextId b..<n} = {}" using ids ids_ok_fresh [of "tx_nextId b" "tx_appList b"] by fastforce
    moreover have "ti_id ` set (tx_sentList b) \<inter> ti_id ` set (tx_appList b) = {}" using ids by simp
    ultimately show ?thesis using s(8) by blast
  qed
  ultimately have "ids_ok n (l @ tx_appList b)" by simp
  moreover have "r = of_nat (flagged ti_retrans l)" using s(5) assms(1) by (simp add: tx_core_def)
  moreover have "exclusive l" using s(9) assms(1) by (simp add: tx_core_def exclusive_def)
  ultimately show ?thesis using assms(1) s(1-4) s(10) by (simp add: tx_core_def)
qed

lemma core_ids: "tx_core b \<Longrightarrow> ids_ok (tx_nextId b) (tx_sentList b)"
  by (simp add: tx_core_def)

lemma inv_sent:
  assumes "tx_inv b" "same_items (tx_sentList b) (tx_retrans b) (tx_nextId b) l r n"
  shows "tx_inv (b\<lparr>tx_sentList := l, tx_retrans := r, tx_nextId := n\<rparr>)"
proof -
  note s = same_itemsD [OF assms(2)]
  have "highest_ok (b\<lparr>tx_sentList := l, tx_retrans := r, tx_nextId := n\<rparr>)"
    using assms(1) s(11) unfolding tx_inv_def highest_ok_def by simp blast
  moreover have "head_ok (b\<lparr>tx_sentList := l, tx_retrans := r, tx_nextId := n\<rparr>)"
  proof (cases "tx_sentList b = []")
    case True
    then have "l = []" using s(1,2) by (cases l) auto
    then show ?thesis by (simp add: head_ok_def)
  qed (use assms(1) s(13) in \<open>auto simp: tx_inv_def head_ok_def\<close>)
  ultimately show ?thesis using core_sent [OF _ assms(2)] assms(1) by (simp add: tx_inv_def)
qed

section \<open>Sending again\<close>

declare GetPacketFromList.simps [simp del]

lemma replace_item_at:
  assumes "ids_ok n (pre @ t # post)" "ti_id t' = ti_id t"
  shows "replace_item t' (pre @ t # post) = pre @ t' # post"
  using assms by (induction pre) auto

lemma transmit_limit_eq:
  assumes "starts (f + of_nat k) (pre @ t # post)" "nonempty (pre @ t # post)" "k + tbytes (pre @ t # post) < 2 ^ 31"
  shows "transmit_limit (f + of_nat (k + tbytes pre)) n (pre @ t # post) = min n (item_size t + (case post of [] \<Rightarrow> 0
    | nx # _ \<Rightarrow> if \<not> ti_sacked nx \<and> ti_lost t = ti_lost nx then item_size nx else 0))"
  using assms
proof (induction pre arbitrary: k)
  case Nil
  then show ?case by (cases post) simp_all
next
  case (Cons x pre)
  have "f + of_nat k \<noteq> f + of_nat (k + tbytes (x # pre))" using Cons.prems pos_cmp(5) [of k "k + tbytes (x # pre)" f] by simp
  then have "transmit_limit (f + of_nat (k + tbytes (x # pre))) n ((x # pre) @ t # post) =
      transmit_limit (f + of_nat ((k + length (ti_packet x)) + tbytes pre)) n (pre @ t # post)"
    using Cons.prems(1) by (simp add: add.assoc)
  then show ?case using Cons.IH [of "k + length (ti_packet x)"] Cons.prems by (simp add: add.assoc)
qed

lemma min_word: "a < 2 ^ 31 \<Longrightarrow> c < 2 ^ 31 \<Longrightarrow> min (of_nat a) (of_nat c :: u32) = of_nat (min a c)"
  using size_cmp(2) [of c a] by (auto simp: min_def not_le [symmetric] simp del: not_le)

text \<open>How many bytes of the item \<open>t\<close>, and of the item after it, a retransmission takes.\<close>

definition room :: "tx_item \<Rightarrow> tx_item list \<Rightarrow> nat" where
  "room t post = length (ti_packet t) + (case post of [] \<Rightarrow> 0
     | nx # _ \<Rightarrow> if \<not> ti_sacked nx \<and> ti_lost t = ti_lost nx then length (ti_packet nx) else 0)"

lemma room_le: "room t post \<le> tbytes (t # post)"
  by (auto simp: room_def split: list.splits)

lemma transmit_limit_room:
  assumes "starts f (pre @ t # post)" "nonempty (pre @ t # post)" "tbytes (pre @ t # post) < 2 ^ 31" "m < 2 ^ 31"
  shows "transmit_limit (f + of_nat (tbytes pre)) (of_nat m) (pre @ t # post) = of_nat (min m (room t post))"
proof -
  have "room t post < 2 ^ 31" using room_le [of t post] assms(3) by simp
  moreover have "item_size t + (case post of [] \<Rightarrow> 0 | nx # _ \<Rightarrow> if \<not> ti_sacked nx \<and> ti_lost t = ti_lost nx then item_size nx else 0) =
      of_nat (room t post)" by (simp add: room_def split: list.split)
  ultimately show ?thesis using transmit_limit_eq [of f 0 pre t post "of_nat m"] min_word assms by simp
qed

text \<open>What taking \<open>x\<close> makes of the item \<open>t\<close> and of those after it, when \<open>k\<close> more bytes become retransmitted ones.\<close>

definition taken_from :: "nat \<Rightarrow> tx_item \<Rightarrow> tx_item list \<Rightarrow> tx_item \<Rightarrow> tx_item list \<Rightarrow> bool" where
  "taken_from k t post x post' \<longleftrightarrow> flagged ti_retrans (x # post') \<le> flagged ti_retrans (t # post) + k \<and> ti_lost x = ti_lost t \<and>
     (\<forall>u\<in>set post'. u \<in> set post \<or> ti_lost u = ti_lost t)"

lemma get_sent:
  assumes ok: "starts f (pre @ t # post)" "nonempty (pre @ t # post)" "tbytes (pre @ t # post) < 2 ^ 31"
    and t: "\<not> ti_sacked t" and m: "0 < m" "m \<le> room t post"
  shows "\<exists>x post' r' nid'. GetPacketFromList (length (pre @ t # post) + 2) (Some f) (pre @ t # post) f (of_nat m) (f + of_nat (tbytes pre)) r nid =
      Inr (x, pre @ x # post', r', nid') \<and> same_items (pre @ t # post) r nid (pre @ x # post') r' nid' \<and>
      length (ti_packet x) = m \<and> \<not> ti_sacked x \<and> ti_startSeq x = ti_startSeq t \<and> taken_from 0 t post x post'"
proof -
  obtain u where fuel: "length (pre @ t # post) + 2 = Suc (Suc u)" by simp
  have lim: "lim_ok (Some f) (pre @ t # post)" using starts_lim [of f 0] ok by simp
  show ?thesis
  proof (cases "m \<le> length (ti_packet t)")
    case True
    then show ?thesis unfolding fuel
      using get_exact [OF ok(2,3) lim True, of "Suc u" f r nid] same_items_refl split_same [OF t m(1), of pre post r nid]
      by (cases "m = length (ti_packet t)") (auto simp: split1_def split2_def t taken_from_def)
  next
    case False
    then obtain nx post' where nx: "post = nx # post'" "\<not> ti_sacked nx" "ti_lost t = ti_lost nx"
      using m(2) by (auto simp: room_def split: list.splits if_splits)
    let ?t = "merged t nx"
    have le: "m \<le> length (ti_packet ?t)" using m(2) nx by (simp add: room_def merged_def)
    have mt: "\<not> ti_sacked ?t" "ti_startSeq ?t = ti_startSeq t" using t by (simp_all add: merged_def)
    have same: "same_items (pre @ t # nx # post') r nid (pre @ ?t # post') (merged_retrans t nx r) nid" using merge_same [OF t nx(2,3)] by simp
    note s = same_itemsD [OF same]
    have ok': "starts f (pre @ ?t # post')" "nonempty (pre @ ?t # post')" "tbytes (pre @ ?t # post') < 2 ^ 31"
      using s(10) s(2) s(1) ok by (simp_all add: nx(1))
    have lim': "lim_ok (Some f) (pre @ ?t # post')" using starts_lim [of f 0] ok' by simp
    have pm: "tbytes pre + m < 2 ^ 31" using le ok'(3) by simp
    have eq: "GetPacketFromList (Suc (Suc u)) (Some f) (pre @ t # post) f (of_nat m) (f + of_nat (tbytes pre)) r nid =
        GetPacketFromList (Suc u) (Some f) (pre @ ?t # post') f (of_nat m) (f + of_nat (tbytes pre)) (merged_retrans t nx r) nid"
      using get_merge [of pre t nx post' "Some f" m "Suc u" f r nid] ok lim False pm t nx by simp
    have tk: "taken_from 0 t (nx # post') ?t post'" "m \<le> length (ti_packet ?t) \<Longrightarrow> taken_from 0 t (nx # post') (split1 nid ?t m) (split2 ?t m # post')"
      using nx(3) by (auto simp: taken_from_def merged_def split1_def split2_def)
    show ?thesis unfolding fuel eq unfolding nx(1)
      using get_exact [OF ok'(2,3) lim' le, of u f "merged_retrans t nx r" nid] same
        same_items_trans [OF same split_same [OF mt(1) m(1), of pre post' "merged_retrans t nx r" nid]]
      by (cases "m = length (ti_packet ?t)") (use le tk in \<open>auto simp: split1_def split2_def mt\<close>)
  qed
qed

lemma stamp_same:
  assumes "\<not> ti_sacked t"
  shows "same_items (pre @ t # post) r n (pre @ t\<lparr>ti_lastSent := now\<rparr> # post) r n"
  using assms by (auto simp: same_items_def hd_append)

lemma starts_at: "starts f (pre @ t # post) \<Longrightarrow> ti_startSeq t = f + of_nat (tbytes pre)"
  by simp

lemma resend_segment:
  assumes inv: "tx_inv b" and b: "tx_sentList b = pre @ t # post" and t: "\<not> ti_sacked t"
    and m: "0 < m" "tbytes pre + m \<le> tbytes (tx_sentList b)"
  shows "\<exists>x post' r' nid'. GetTransmittedSegment (of_nat m) (tx_firstByteSeq b + of_nat (tbytes pre)) b =
      Inr (x, b\<lparr>tx_sentList := pre @ x # post', tx_retrans := r', tx_nextId := nid'\<rparr>) \<and>
      same_items (tx_sentList b) (tx_retrans b) (tx_nextId b) (pre @ x # post') r' nid' \<and>
      length (ti_packet x) = min m (room t post) \<and> \<not> ti_sacked x \<and> ti_startSeq x = tx_firstByteSeq b + of_nat (tbytes pre) \<and>
      ti_retrans x \<and> taken_from (length (ti_packet x)) t post x post'"
proof -
  have core: "tx_core b" using inv by (simp add: tx_inv_def)
  have ok: "starts (tx_firstByteSeq b) (pre @ t # post)" "nonempty (pre @ t # post)"
    using core by (simp_all add: tx_core_def b)
  have sz: "tbytes (pre @ t # post) < 2 ^ 31" using flagged_bound(1) [OF core] by (simp add: b)
  have small: "m < 2 ^ 31" "tbytes pre < 2 ^ 31" using sz m(2) by (simp_all add: b)
  let ?m = "min m (room t post)"
  have m': "0 < ?m" "?m \<le> room t post" using m(1) ok(2) by (simp_all add: room_def)
  obtain x post' r' nid' where g: "GetPacketFromList (length (pre @ t # post) + 2) (Some (tx_firstByteSeq b)) (pre @ t # post) (tx_firstByteSeq b)
        (of_nat ?m) (tx_firstByteSeq b + of_nat (tbytes pre)) (tx_retrans b) (tx_nextId b) = Inr (x, pre @ x # post', r', nid')"
      "same_items (pre @ t # post) (tx_retrans b) (tx_nextId b) (pre @ x # post') r' nid'"
      "length (ti_packet x) = ?m" "\<not> ti_sacked x" "ti_startSeq x = ti_startSeq t" "taken_from 0 t post x post'"
    using get_sent [OF ok sz t m', of "tx_retrans b" "tx_nextId b"] by blast
  have guards: "seq_ge (tx_firstByteSeq b + of_nat (tbytes pre)) (tx_firstByteSeq b)" "of_nat m \<le> tx_sentSize b"
    using pos_cmp(4) [of "tbytes pre" 0 "tx_firstByteSeq b"] small sizes_exact(2) [OF core] m(2) small_unat [of m]
    by (simp_all add: word_le_nat_alt)
  let ?x = "x\<lparr>ti_retrans := True\<rparr>" and ?r = "if ti_retrans x then r' else r' + item_size x"
  have same: "same_items (pre @ t # post) (tx_retrans b) (tx_nextId b) (pre @ ?x # post') ?r nid'"
    by (rule same_items_trans [OF g(2) resent_same]) (simp_all add: g(4))
  have ids: "ids_ok nid' (pre @ x # post')"
    using core_ids [OF core_sent [OF core, of "pre @ x # post'" r' nid']] g(2) by (simp add: b del: ids_ok_append ids_ok_Cons)
  have "GetTransmittedSegment (of_nat m) (tx_firstByteSeq b + of_nat (tbytes pre)) b =
      Inr (?x, b\<lparr>tx_sentList := pre @ ?x # post', tx_retrans := ?r, tx_nextId := nid'\<rparr>)"
    using guards transmit_limit_room [OF ok sz small(1)] g(1) replace_item_at [OF ids, of ?x]
    by (simp add: GetTransmittedSegment_def b Let_def)
  moreover have "taken_from (length (ti_packet x)) t post ?x post'" using g(6) by (auto simp: taken_from_def split: if_splits)
  ultimately show ?thesis using same g(3,4,5) starts_at [OF ok(1)] unfolding b by fastforce
qed

section \<open>Sending new data\<close>

lemma get_new:
  assumes "nonempty (t # post)" "tbytes (t # post) < 2 ^ 31" "\<forall>x\<in>set (t # post). clean x" "0 < m" "m \<le> tbytes (t # post)"
  shows "\<exists>x rest nid'. GetPacketFromList (length (t # post) + k) None (t # post) s (of_nat m) s r nid = Inr (x, x # rest, r, nid') \<and>
      same_items (t # post) r nid (x # rest) r nid' \<and> length (ti_packet x) = m \<and> (\<forall>x\<in>set (x # rest). clean x)"
  using assms
proof (induction post arbitrary: t k nid)
  case Nil
  have t: "\<not> ti_sacked t" using Nil.prems by (simp add: clean_def)
  show ?case
    using get_exact [of "[]" t "[]" None m k s r nid] Nil.prems same_items_refl split_same [OF t Nil.prems(4), of "[]" "[]" r nid]
    by (cases "m = length (ti_packet t)") (auto simp: split1_def split2_def clean_def)
next
  case (Cons nx post)
  have t: "\<not> ti_sacked t" using Cons.prems by (simp add: clean_def)
  show ?case
  proof (cases "m \<le> length (ti_packet t)")
    case True
    then show ?thesis
      using get_exact [of "[]" t "nx # post" None m "length (nx # post) + k" s r nid] Cons.prems same_items_refl
        split_same [OF t Cons.prems(4), of "[]" "nx # post" r nid]
      by (cases "m = length (ti_packet t)") (auto simp: split1_def split2_def clean_def)
  next
    case False
    let ?t = "merged t nx"
    have c: "clean t" "clean nx" using Cons.prems by simp_all
    then have ct: "clean ?t" "merged_retrans t nx r = r" "ti_lost t = ti_lost nx" "ti_sacked t = ti_sacked nx" "\<not> ti_sacked nx"
      by (simp_all add: clean_def merged_def merged_retrans_def)
    have p: "nonempty (?t # post)" "tbytes (?t # post) < 2 ^ 31" "\<forall>x\<in>set (?t # post). clean x" "0 < m" "m \<le> tbytes (?t # post)"
      using Cons.prems ct(1) by (auto simp: merged_def)
    obtain x rest nid' where x: "GetPacketFromList (length (?t # post) + k) None (?t # post) s (of_nat m) s r nid = Inr (x, x # rest, r, nid')"
        "same_items (?t # post) r nid (x # rest) r nid'" "length (ti_packet x) = m" "\<forall>x\<in>set (x # rest). clean x"
      using Cons.IH [OF p] by blast
    have same: "same_items (t # nx # post) r nid (?t # post) r nid" using merge_same [OF t ct(5,3), of "[]" post r nid] ct(2) by simp
    have eq: "GetPacketFromList (length (t # nx # post) + k) None (t # nx # post) s (of_nat m) s r nid =
        GetPacketFromList (length (?t # post) + k) None (?t # post) s (of_nat m) s r nid"
      using get_merge [of "[]" t nx post None m "length (?t # post) + k" s r nid] Cons.prems False ct by simp
    show ?thesis unfolding eq using x same_items_trans [OF same x(2)] by blast
  qed
qed

text \<open>What sending does not touch.\<close>

definition same_frame :: "tx_buffer \<Rightarrow> tx_buffer \<Rightarrow> bool" where
  "same_frame b b' \<longleftrightarrow> tx_highestSack b' = tx_highestSack b \<and> tx_sackEnabled b' = tx_sackEnabled b \<and> tx_sackSeen b' = tx_sackSeen b \<and>
     tx_segmentSize b' = tx_segmentSize b \<and> tx_maxBuffer b' = tx_maxBuffer b"

lemma new_segment:
  assumes core: "tx_core b" and m: "0 < m" "m \<le> tbytes (tx_appList b)"
  shows "\<exists>x b'. GetNewSegment (of_nat m) b = Inr (x, b') \<and> tx_core b' \<and> tx_sentList b' = tx_sentList b @ [x] \<and> tx_content b' = tx_content b \<and>
      tx_firstByteSeq b' = tx_firstByteSeq b \<and> length (ti_packet x) = m \<and> clean x \<and> same_frame b b'"
proof -
  obtain t post where app: "tx_appList b = t # post" using m by (cases "tx_appList b") auto
  have p: "nonempty (t # post)" "tbytes (t # post) < 2 ^ 31" "\<forall>x\<in>set (t # post). clean x" "0 < m" "m \<le> tbytes (t # post)"
    using core m flagged_bound(1) [OF core] by (simp_all add: tx_core_def app)
  obtain x rest nid' where g: "GetPacketFromList (length (t # post) + 2) None (t # post) (tx_firstByteSeq b + tx_sentSize b) (of_nat m)
        (tx_firstByteSeq b + tx_sentSize b) (tx_retrans b) (tx_nextId b) = Inr (x, x # rest, tx_retrans b, nid')"
      "same_items (t # post) (tx_retrans b) (tx_nextId b) (x # rest) (tx_retrans b) nid'" "length (ti_packet x) = m" "\<forall>x\<in>set (x # rest). clean x"
    using get_new [OF p] by blast
  note s = same_itemsD [OF g(2)]
  have idb: "ids_ok (tx_nextId b) (tx_sentList b)" "ids_ok (tx_nextId b) (t # post)" "ti_id ` set (tx_sentList b) \<inter> ti_id ` set (t # post) = {}"
    using core by (simp_all add: tx_core_def app)
  have idx: "ids_ok nid' (x # rest)" using s(7) same_items_ids [OF g(2)] idb(2) by (simp only: ids_ok_def) blast
  have disj: "ti_id ` set (tx_sentList b) \<inter> ti_id ` set (x # rest) = {}"
  proof -
    have "ti_id ` set (tx_sentList b) \<inter> {tx_nextId b..<nid'} = {}" using ids_ok_fresh [OF idb(1)] by fastforce
    then show ?thesis using s(8) idb(3) by blast
  qed
  have filter: "filter (\<lambda>y. ti_id y \<noteq> ti_id x) (x # rest) = rest" using idx by (auto simp: filter_id_conv image_iff)
  let ?x = "x\<lparr>ti_startSeq := tx_firstByteSeq b + tx_sentSize b\<rparr>"
  let ?b = "b\<lparr>tx_appList := rest, tx_sentList := tx_sentList b @ [?x], tx_sentSize := tx_sentSize b + item_size x, tx_retrans := tx_retrans b,
      tx_nextId := nid'\<rparr>"
  have eq: "GetNewSegment (of_nat m) b = Inr (?x, ?b)"
    using g(1) filter by (simp add: GetNewSegment_def app Let_def)
  have bytes: "ti_packet x @ item_bytes rest = item_bytes (tx_appList b)" using s(1) by (simp add: app)
  have "ids_ok nid' (tx_sentList b)" using ids_ok_mono [OF idb(1) s(6)] .
  then have ids: "ids_ok nid' ((tx_sentList b @ [?x]) @ rest)" using idx disj by (simp add: Int_commute)
  have c: "starts (tx_firstByteSeq b) (tx_sentList b)" "nonempty (tx_sentList b)" "tx_sentSize b = of_nat (tbytes (tx_sentList b))"
    "exclusive (tx_sentList b)"
    using core by (simp_all add: tx_core_def)
  have ne: "nonempty (x # rest)" using s(2) p(1) by blast
  have content: "item_bytes ((tx_sentList b @ [?x]) @ rest) = tx_content b" using bytes by simp
  have len: "tbytes (tx_appList b) = length (ti_packet x) + tbytes rest" using arg_cong [OF bytes, of length] by simp
  have "tx_core ?b"
    unfolding tx_core_def tx_buffer.simps content using core c ids g(4) ne len by (simp add: tx_core_def clean_def)
  then show ?thesis using eq bytes g(3,4) by (intro exI [of _ ?x] exI [of _ ?b]) (simp add: clean_def same_frame_def)
qed

section \<open>Copying\<close>

text \<open>Where a copy may begin: at an item that is not selectively acknowledged, or at the end of what has been sent.\<close>

fun sendable :: "nat \<Rightarrow> tx_item list \<Rightarrow> bool" where
  "sendable p [] \<longleftrightarrow> p = 0"
| "sendable p (t # ts) \<longleftrightarrow> (if p = 0 then \<not> ti_sacked t else length (ti_packet t) \<le> p \<and> sendable (p - length (ti_packet t)) ts)"

lemma sendable_split:
  assumes "sendable p l"
  shows "p = tbytes l \<or> (\<exists>pre t post. l = pre @ t # post \<and> p = tbytes pre \<and> \<not> ti_sacked t)"
  using assms
proof (induction p l rule: sendable.induct)
  case (2 p t ts)
  show ?case
  proof (cases "p = 0")
    case True
    then show ?thesis using 2 by (intro disjI2 exI [of _ "[]"]) auto
  next
    case False
    then have le: "length (ti_packet t) \<le> p" and "sendable (p - length (ti_packet t)) ts" using 2 by auto
    then consider "p - length (ti_packet t) = tbytes ts"
      | pre u post where "ts = pre @ u # post" "p - length (ti_packet t) = tbytes pre" "\<not> ti_sacked u"
      using 2 False by blast
    then show ?thesis
    proof cases
      case 2
      then show ?thesis using le by (intro disjI2 exI [of _ "t # pre"] exI [of _ u] exI [of _ post]) auto
    qed (use le in auto)
  qed
qed auto

lemma size_from:
  assumes "tx_core b" "p \<le> length (tx_content b)"
  shows "SizeFromSequence (tx_firstByteSeq b + of_nat p) b = Inr (of_nat (length (tx_content b) - p))"
proof -
  let ?L = "length (tx_content b)" and ?f = "tx_firstByteSeq b"
  have L: "?L < 2 ^ 31" "p < 2 ^ 31" using flagged_bound(1) [OF assms(1)] assms(2) by simp_all
  have tail: "TailSequence b = ?f + of_nat ?L" using assms(1) by (simp only: TailSequence_def tx_core_def)
  have "(word_of_int (int ?L - int p) :: u32) = of_nat (?L - p)" using assms(2) by (simp add: word_of_int_nat nat_diff_distrib')
  then show ?thesis
    unfolding SizeFromSequence_def Let_def tail using pos_cmp(4,6) [OF L, of ?f] assms(2) by simp
qed

text \<open>What a copy of at most \<open>m\<close> bytes from \<open>p\<close> bytes after the head yields.\<close>

definition resent_at :: "nat \<Rightarrow> tx_buffer \<Rightarrow> tx_item \<Rightarrow> tx_buffer \<Rightarrow> bool" where
  "resent_at p b t b' \<longleftrightarrow> (\<exists>pre u post post'. tx_sentList b = pre @ u # post \<and> p = tbytes pre \<and> tx_sentList b' = pre @ t # post' \<and>
     ti_retrans t \<and> taken_from (length (ti_packet t)) u post t post' \<and>
     flagged ti_lost (tx_sentList b') = flagged ti_lost (tx_sentList b) \<and> flagged ti_sacked (tx_sentList b') = flagged ti_sacked (tx_sentList b))"

definition copied :: "nat \<Rightarrow> nat \<Rightarrow> tx_buffer \<Rightarrow> (tx_item option \<times> tx_buffer) res \<Rightarrow> bool" where
  "copied p m b r \<longleftrightarrow> (\<exists>t b'. r = Inr (Some t, b') \<and> tx_inv b' \<and> tx_content b' = tx_content b \<and> tx_firstByteSeq b' = tx_firstByteSeq b \<and>
     ti_startSeq t = tx_firstByteSeq b + of_nat p \<and> 0 < length (ti_packet t) \<and> length (ti_packet t) \<le> m \<and> t \<in> set (tx_sentList b') \<and>
     ti_packet t = take (length (ti_packet t)) (drop p (tx_content b)) \<and>
     (tbytes (tx_sentList b) \<le> p \<longrightarrow> length (ti_packet t) = m \<and> tx_sentList b' = tx_sentList b @ [t]) \<and>
     same_frame b b' \<and> (if tbytes (tx_sentList b) \<le> p then clean t else resent_at p b t b'))"

lemma same_split:
  assumes "pre @ x # post = pre' @ y # post'" "tbytes pre = tbytes pre'" "nonempty (pre @ x # post)"
  shows "pre = pre'" "post = post'"
proof -
  have "pre = pre' \<and> post = post'" using assms
  proof (induction pre arbitrary: pre')
    case Nil
    then show ?case by (cases pre') auto
  next
    case (Cons z pre)
    then show ?case by (cases pre') auto
  qed
  then show "pre = pre'" "post = post'" by simp_all
qed

lemma copy_finish:
  assumes inv: "tx_inv b'" and b': "tx_sentList b' = pre @ x # post" and x: "\<not> ti_sacked x" "0 < length (ti_packet x)" "length (ti_packet x) \<le> m"
    and same: "tx_content b' = tx_content b" "tx_firstByteSeq b' = tx_firstByteSeq b"
    and new: "tbytes (tx_sentList b) \<le> tbytes pre \<Longrightarrow> length (ti_packet x) = m \<and> pre = tx_sentList b \<and> post = [] \<and> clean x"
    and old: "tbytes (tx_sentList b) > tbytes pre \<Longrightarrow> resent_at (tbytes pre) b x b'"
    and frame: "same_frame b b'"
  shows "copied (tbytes pre) m b (if \<not> seq_ge (ti_startSeq x) (tx_firstByteSeq b') then Inl Assert_Failed
    else let t' = x\<lparr>ti_lastSent := now\<rparr> in Inr (Some t', b'\<lparr>tx_sentList := replace_item t' (tx_sentList b')\<rparr>))"
proof -
  have core: "tx_core b'" using inv by (simp add: tx_inv_def)
  have start: "ti_startSeq x = tx_firstByteSeq b' + of_nat (tbytes pre)" using core by (simp add: tx_core_def b')
  have "tbytes pre < 2 ^ 31" using flagged_bound(1) [OF core] by (simp add: b')
  then have ge: "seq_ge (ti_startSeq x) (tx_firstByteSeq b')" using start pos_cmp(4) [of "tbytes pre" 0 "tx_firstByteSeq b'"] by simp
  let ?x = "x\<lparr>ti_lastSent := now\<rparr>"
  have rep: "replace_item ?x (tx_sentList b') = pre @ ?x # post" using replace_item_at [of "tx_nextId b'" pre x post ?x] core_ids [OF core] by (simp add: b')
  have "tx_inv (b'\<lparr>tx_sentList := pre @ ?x # post, tx_retrans := tx_retrans b', tx_nextId := tx_nextId b'\<rparr>)"
    using inv_sent [OF inv] stamp_same [OF x(1)] unfolding b' .
  moreover have "b'\<lparr>tx_sentList := pre @ ?x # post, tx_retrans := tx_retrans b', tx_nextId := tx_nextId b'\<rparr> = b'\<lparr>tx_sentList := pre @ ?x # post\<rparr>"
    by simp
  moreover have "ti_packet x = take (length (ti_packet x)) (drop (tbytes pre) (tx_content b))" unfolding same(1) [symmetric] by (simp add: b')
  moreover have "resent_at (tbytes pre) b ?x (b'\<lparr>tx_sentList := pre @ ?x # post\<rparr>)" if less: "tbytes (tx_sentList b) > tbytes pre"
  proof -
    obtain pre' u post0 post' where r: "tx_sentList b = pre' @ u # post0" "tbytes pre = tbytes pre'" "pre @ x # post = pre' @ x # post'" "ti_retrans x"
        "taken_from (length (ti_packet x)) u post0 x post'" "flagged ti_lost (tx_sentList b') = flagged ti_lost (tx_sentList b)"
        "flagged ti_sacked (tx_sentList b') = flagged ti_sacked (tx_sentList b)"
      using old [OF less] unfolding resent_at_def b' by blast
    have eq: "pre = pre'" "post = post'" using same_split [OF r(3) r(2)] core x(2) by (simp_all add: tx_core_def b')
    show ?thesis unfolding resent_at_def
      by (rule exI [of _ pre], rule exI [of _ u], rule exI [of _ post0], rule exI [of _ post]) (use r eq in \<open>auto simp: b' taken_from_def split: if_splits\<close>)
  qed
  moreover have "same_frame b (b'\<lparr>tx_sentList := pre @ ?x # post\<rparr>)" "clean x \<Longrightarrow> clean ?x" using frame by (simp_all add: same_frame_def clean_def)
  ultimately show ?thesis using ge start x same new rep by (auto simp: copied_def b' Let_def)
qed

text \<open>A copy that lies in what has been sent, and one that begins where it ends.\<close>

lemma copy_sent:
  assumes inv: "tx_inv b" and b: "tx_sentList b = pre @ t # post" "\<not> ti_sacked t"
    and m: "0 < m" "tbytes pre + m \<le> tbytes (tx_sentList b)" "min (unat n) (length (tx_content b) - tbytes pre) = m"
  shows "copied (tbytes pre) m b (CopyFromSequence now n (tx_firstByteSeq b + of_nat (tbytes pre)) b)"
proof -
  have core: "tx_core b" using inv by (simp add: tx_inv_def)
  let ?f = "tx_firstByteSeq b" and ?p = "tbytes pre" and ?L = "length (tx_content b)"
  have L: "?L < 2 ^ 31" "?p \<le> ?L" "?p < 2 ^ 31" "m < 2 ^ 31" "?p + m < 2 ^ 31" "tbytes (tx_sentList b) < 2 ^ 31"
    using flagged_bound(1) [OF core] m by (simp_all add: b)
  have n: "min n (of_nat (?L - ?p)) = of_nat m" "(of_nat m :: u32) \<noteq> 0"
    using m(1,3) small_unat [of "?L - ?p"] small_unat [OF L(4)] L(1) by (auto simp: min_def word_le_nat_alt unat_eq_0 [symmetric] split: if_splits)
  have cmp: "\<not> seq_gt ?f (?f + of_nat ?p)" "seq_ge (?f + tx_sentSize b) (?f + of_nat ?p + of_nat m)"
    using pos_cmp(3) [of 0 ?p ?f] L(3) pos_cmp(4) [OF L(6,5), of ?f] m(2) core by (simp_all add: tx_core_def add.assoc)
  obtain x post' r' nid' where g: "GetTransmittedSegment (of_nat m) (?f + of_nat ?p) b = Inr (x, b\<lparr>tx_sentList := pre @ x # post', tx_retrans := r', tx_nextId := nid'\<rparr>)"
      "same_items (tx_sentList b) (tx_retrans b) (tx_nextId b) (pre @ x # post') r' nid'"
      "length (ti_packet x) = min m (room t post)" "\<not> ti_sacked x" "ti_retrans x" "taken_from (length (ti_packet x)) t post x post'"
    using resend_segment [OF inv b m(1,2)] by blast
  let ?b = "b\<lparr>tx_sentList := pre @ x # post', tx_retrans := r', tx_nextId := nid'\<rparr>"
  have inv': "tx_inv ?b" by (rule inv_sent [OF inv g(2)])
  have x: "0 < length (ti_packet x)" using inv' by (simp add: tx_inv_def tx_core_def)
  have content: "tx_content ?b = tx_content b" using same_itemsD(1) [OF g(2)] by simp
  have not_new: "\<not> tbytes (tx_sentList b) \<le> ?p" using m(1,2) by simp
  have old: "resent_at ?p b x ?b" unfolding resent_at_def
    by (rule exI [of _ pre], rule exI [of _ t], rule exI [of _ post], rule exI [of _ post']) (use b(1) g(5,6) same_itemsD(3,4) [OF g(2)] in simp)
  have "CopyFromSequence now n (?f + of_nat ?p) b = (if \<not> seq_ge (ti_startSeq x) (tx_firstByteSeq ?b) then Inl Assert_Failed
      else let t' = x\<lparr>ti_lastSent := now\<rparr> in Inr (Some t', ?b\<lparr>tx_sentList := replace_item t' (tx_sentList ?b)\<rparr>))"
    using cmp n g(1,4) by (subst CopyFromSequence.simps) (simp add: size_from [OF core L(2)] Let_def)
  then show ?thesis using copy_finish [OF inv' _ g(4) x, of pre post' m b now] g(3) content not_new old by (simp add: same_frame_def)
qed

lemma copy_new_eq:
  assumes core: "tx_core b" and m: "0 < m" "min (unat n) (tbytes (tx_appList b)) = m"
  shows "\<exists>x b'. CopyFromSequence now n (tx_firstByteSeq b + of_nat (tbytes (tx_sentList b))) b =
      (if \<not> seq_ge (ti_startSeq x) (tx_firstByteSeq b') then Inl Assert_Failed
       else let t' = x\<lparr>ti_lastSent := now\<rparr> in Inr (Some t', b'\<lparr>tx_sentList := replace_item t' (tx_sentList b')\<rparr>)) \<and>
      tx_core b' \<and> tx_sentList b' = tx_sentList b @ [x] \<and> tx_content b' = tx_content b \<and>
      tx_firstByteSeq b' = tx_firstByteSeq b \<and> length (ti_packet x) = m \<and> clean x \<and> same_frame b b'"
proof -
  let ?f = "tx_firstByteSeq b" and ?p = "tbytes (tx_sentList b)" and ?L = "length (tx_content b)"
  have L: "?L < 2 ^ 31" "?p \<le> ?L" "?p < 2 ^ 31" "m < 2 ^ 31" "?p + m < 2 ^ 31" "tbytes (tx_appList b) < 2 ^ 31"
    using flagged_bound(1) [OF core] m by simp_all
  have n: "min n (of_nat (?L - ?p)) = of_nat m" "(of_nat m :: u32) \<noteq> 0"
    using m small_unat [of "?L - ?p"] small_unat [OF L(4)] L(1) by (auto simp: min_def word_le_nat_alt unat_eq_0 [symmetric] split: if_splits)
  have sent: "?f + tx_sentSize b = ?f + of_nat ?p" using core by (simp add: tx_core_def)
  have cmp: "\<not> seq_gt ?f (?f + of_nat ?p)" "\<not> seq_ge (?f + of_nat ?p) (?f + of_nat ?p + of_nat m)" "seq_le (?f + of_nat ?p) (?f + of_nat ?p)"
    using pos_cmp(3) [of 0 ?p ?f] pos_cmp(4) [OF L(3,5), of ?f] pos_cmp(2) [OF L(3,3), of ?f] L(3) m(1) by (simp_all add: add.assoc)
  have "m \<le> tbytes (tx_appList b)" using m by simp
  then obtain x b' where g: "GetNewSegment (of_nat m) b = Inr (x, b')" "tx_core b'" "tx_sentList b' = tx_sentList b @ [x]" "tx_content b' = tx_content b"
      "tx_firstByteSeq b' = tx_firstByteSeq b" "length (ti_packet x) = m" "clean x" "same_frame b b'"
    using new_segment [OF core m(1)] by blast
  have x: "\<not> ti_sacked x" "\<not> ti_retrans x" "0 < length (ti_packet x)" "length (ti_packet x) \<le> m" using g(6,7) m(1) by (simp_all add: clean_def)
  have "CopyFromSequence now n (?f + of_nat ?p) b = (if \<not> seq_ge (ti_startSeq x) (tx_firstByteSeq b') then Inl Assert_Failed
      else let t' = x\<lparr>ti_lastSent := now\<rparr> in Inr (Some t', b'\<lparr>tx_sentList := replace_item t' (tx_sentList b')\<rparr>))"
    using cmp n g(1) x by (subst CopyFromSequence.simps) (simp add: size_from [OF core L(2)] sent Let_def)
  then show ?thesis using g by blast
qed

lemma copy_new:
  assumes inv: "tx_inv b" and m: "0 < m" "min (unat n) (tbytes (tx_appList b)) = m"
  shows "copied (tbytes (tx_sentList b)) m b (CopyFromSequence now n (tx_firstByteSeq b + of_nat (tbytes (tx_sentList b))) b)"
proof -
  have core: "tx_core b" using inv by (simp add: tx_inv_def)
  obtain x b' where g: "CopyFromSequence now n (tx_firstByteSeq b + of_nat (tbytes (tx_sentList b))) b =
      (if \<not> seq_ge (ti_startSeq x) (tx_firstByteSeq b') then Inl Assert_Failed
       else let t' = x\<lparr>ti_lastSent := now\<rparr> in Inr (Some t', b'\<lparr>tx_sentList := replace_item t' (tx_sentList b')\<rparr>))"
      "tx_core b'" "tx_sentList b' = tx_sentList b @ [x]" "tx_content b' = tx_content b" "tx_firstByteSeq b' = tx_firstByteSeq b"
      "length (ti_packet x) = m" "clean x" "same_frame b b'"
    using copy_new_eq [OF core m] by blast
  have x: "\<not> ti_sacked x" "0 < length (ti_packet x)" "length (ti_packet x) \<le> m" using g(6,7) m(1) by (simp_all add: clean_def)
  have "head_ok b'" "highest_ok b'" using inv g(3,8) x(1) by (auto simp: tx_inv_def head_ok_def highest_ok_def hd_append same_frame_def)
  then have "tx_inv b'" using g(2) by (simp add: tx_inv_def)
  then show ?thesis unfolding g(1) using copy_finish [OF _ g(3) x g(4,5)] g(6,7,8) by simp
qed

text \<open>A copy when nothing is sent.\<close>

lemma copy_refill:
  assumes core: "tx_core b" and b: "tx_sentList b = []" and d: "0 < d" "d \<le> length (tx_content b)"
  shows "\<exists>t b'. CopyFromSequence now (of_nat d) (tx_firstByteSeq b) b = Inr (Some t, b') \<and> tx_core b' \<and> tx_sentList b' = [t] \<and>
      length (ti_packet t) = d \<and> tx_content b' = tx_content b \<and> tx_firstByteSeq b' = tx_firstByteSeq b \<and>
      tx_highestSack b' = tx_highestSack b \<and> tx_sackEnabled b' = tx_sackEnabled b"
proof -
  have small: "unat (of_nat d :: u32) = d" using flagged_bound(1) [OF core] d(2) by (intro small_unat) simp
  have m: "min (unat (of_nat d :: u32)) (tbytes (tx_appList b)) = d" using d(2) by (simp add: small b)
  obtain x b' where g: "CopyFromSequence now (of_nat d) (tx_firstByteSeq b + of_nat (tbytes (tx_sentList b))) b =
      (if \<not> seq_ge (ti_startSeq x) (tx_firstByteSeq b') then Inl Assert_Failed
       else let t' = x\<lparr>ti_lastSent := now\<rparr> in Inr (Some t', b'\<lparr>tx_sentList := replace_item t' (tx_sentList b')\<rparr>))"
      "tx_core b'" "tx_sentList b' = tx_sentList b @ [x]" "tx_content b' = tx_content b" "tx_firstByteSeq b' = tx_firstByteSeq b"
      "length (ti_packet x) = d" "clean x" "same_frame b b'"
    using copy_new_eq [OF core d(1) m, of now] by blast
  have sent: "tx_sentList b' = [] @ x # []" using g(3) b by simp
  have start: "ti_startSeq x = tx_firstByteSeq b'" using g(2) by (simp add: tx_core_def sent)
  have ge: "seq_ge (tx_firstByteSeq b') (tx_firstByteSeq b')" using pos_cmp(4) [of 0 0 "tx_firstByteSeq b'"] by simp
  let ?x = "x\<lparr>ti_lastSent := now\<rparr>"
  have "\<not> ti_sacked x" using g(7) by (simp add: clean_def)
  from core_sent [OF g(2), of "[] @ ?x # []", unfolded sent, OF stamp_same [OF this]]
  have "tx_core (b'\<lparr>tx_sentList := [?x]\<rparr>)" by simp
  then show ?thesis using g(1,4,5,6,8) ge start sent b by (auto simp: Let_def same_frame_def)
qed

text \<open>
  A copy that begins in what has been sent and ends beyond it is cut at the end of what has been sent, as long as the sequence numbers
  do not wrap around within it.
\<close>

lemma copy_partial:
  assumes inv: "tx_inv b" and b: "tx_sentList b = pre @ t # post" "\<not> ti_sacked t"
    and m: "tbytes (tx_sentList b) - tbytes pre < m" "min (unat n) (length (tx_content b) - tbytes pre) = m"
    and wrap: "unat (tx_firstByteSeq b) + tbytes pre + m < 2 ^ 32"
  shows "copied (tbytes pre) m b (CopyFromSequence now n (tx_firstByteSeq b + of_nat (tbytes pre)) b)"
proof -
  have core: "tx_core b" using inv by (simp add: tx_inv_def)
  let ?f = "tx_firstByteSeq b" and ?p = "tbytes pre" and ?S = "tbytes (tx_sentList b)" and ?L = "length (tx_content b)"
  have S: "?p < ?S" using core by (simp add: b tx_core_def)
  have L: "?L < 2 ^ 31" "?p \<le> ?L" "?p < 2 ^ 31" "m < 2 ^ 31" "?p + m < 2 ^ 31" "?S < 2 ^ 31" "?S \<le> ?L"
    using flagged_bound(1) [OF core] m S by simp_all
  have n: "min n (of_nat (?L - ?p)) = of_nat m" "(of_nat m :: u32) \<noteq> 0"
    using m small_unat [of "?L - ?p"] small_unat [OF L(4)] L(1) by (auto simp: min_def word_le_nat_alt unat_eq_0 [symmetric] split: if_splits)
  have sent: "?f + tx_sentSize b = ?f + of_nat ?S" using core by (simp add: tx_core_def)
  have cmp: "\<not> seq_gt ?f (?f + of_nat ?p)" "\<not> seq_ge (?f + of_nat ?S) (?f + of_nat ?p + of_nat m)" "\<not> seq_le (?f + of_nat ?S) (?f + of_nat ?p)"
    using pos_cmp(3) [of 0 ?p ?f] pos_cmp(4) [OF L(6,5), of ?f] pos_cmp(2) [OF L(6,3), of ?f] L(3) m(1) S by (simp_all add: add.assoc)
  have at: "unat (?f + of_nat k) = unat ?f + k" if "k \<le> ?p + m" for k
    using that wrap L(5) small_unat [of k] by (simp add: unat_word_ariths)
  have raw: "?f + of_nat ?p < ?f + of_nat ?S" "?f + of_nat ?S < ?f + of_nat ?p + of_nat m"
    using at [of ?p] at [of ?S] at [of "?p + m"] S m(1) by (simp_all add: word_less_nat_alt add.assoc)
  have amount: "?f + of_nat ?S - (?f + of_nat ?p) = of_nat (?S - ?p)" using S by simp
  have "CopyFromSequence now n (?f + of_nat ?p) b = CopyFromSequence now (of_nat (?S - ?p)) (?f + of_nat ?p) b"
    using cmp n raw amount by (subst CopyFromSequence.simps) (simp add: size_from [OF core L(2)] sent Let_def)
  moreover have "min (unat (of_nat (?S - ?p) :: u32)) (?L - ?p) = ?S - ?p" using small_unat [of "?S - ?p"] S L by simp
  moreover have "0 < ?S - ?p" "?p + (?S - ?p) \<le> ?S" using S by simp_all
  ultimately have "copied ?p (?S - ?p) b (CopyFromSequence now n (?f + of_nat ?p) b)" using copy_sent [OF inv b] by metis
  then show ?thesis using m(1) S unfolding copied_def by fastforce
qed

definition copy_ok :: "nat \<Rightarrow> u32 \<Rightarrow> tx_buffer \<Rightarrow> bool" where
  "copy_ok p n b \<longleftrightarrow> sendable p (tx_sentList b) \<and> p < length (tx_content b) \<and> n > 0 \<and>
     (uint (tx_firstByteSeq b) + int (length (tx_content b)) < 2 ^ 32 \<or> p + unat n \<le> tbytes (tx_sentList b) \<or> p = tbytes (tx_sentList b))"

lemma no_wrap_nat: "uint (x :: u32) + int n < 2 ^ 32 \<longleftrightarrow> unat x + n < 2 ^ 32"
proof -
  have "uint x = int (unat x)" by simp
  then have "uint x + int n < 4294967296 \<longleftrightarrow> unat x + n < 4294967296" by linarith
  then show ?thesis by simp
qed

lemma copy_total:
  assumes inv: "tx_inv b" and ok: "copy_ok p n b"
  shows "copied p (min (unat n) (length (tx_content b) - p)) b (CopyFromSequence now n (tx_firstByteSeq b + of_nat p) b)"
proof -
  let ?m = "min (unat n) (length (tx_content b) - p)"
  have m: "0 < ?m" using ok by (simp add: copy_ok_def word_less_nat_alt)
  consider "p = tbytes (tx_sentList b)"
    | pre t post where "tx_sentList b = pre @ t # post" "p = tbytes pre" "\<not> ti_sacked t"
    using sendable_split ok unfolding copy_ok_def by blast
  then show ?thesis
  proof cases
    case 1
    then show ?thesis using copy_new [OF inv m] by simp
  next
    case 2
    have ne: "tbytes pre < tbytes (tx_sentList b)" using inv 2(1) by (simp add: tx_inv_def tx_core_def)
    show ?thesis
    proof (cases "p + ?m \<le> tbytes (tx_sentList b)")
      case True
      then show ?thesis using copy_sent [OF inv 2(1,3) m, of n now] 2(2) by simp
    next
      case False
      then have "uint (tx_firstByteSeq b) + int (length (tx_content b)) < 2 ^ 32" using ok ne 2(2) by (auto simp: copy_ok_def)
      then have "unat (tx_firstByteSeq b) + length (tx_content b) < 2 ^ 32" by (simp only: no_wrap_nat)
      moreover have "tbytes pre + ?m \<le> length (tx_content b)" using ok 2(2) by (auto simp: copy_ok_def)
      ultimately have "unat (tx_firstByteSeq b) + tbytes pre + ?m < 2 ^ 32" by linarith
      moreover have "tbytes (tx_sentList b) - tbytes pre < ?m" using False 2(2) ne by linarith
      ultimately show ?thesis using copy_partial [OF inv 2(1,3) _ _ , of ?m n now] 2(2) by blast
    qed
  qed
qed

end
