(* ===== verification/Tcp_Tx_Scoreboard.thy ===== *)
theory Tcp_Tx_Scoreboard
  imports Tcp_Tx_Inv
begin

text \<open>
  The operations of the send buffer that only change flags: selective acknowledgements, the marks of lost items and the resets keep the
  invariant and the bytes held, and none of their assertions fails.
\<close>

section \<open>Changing flags\<close>

definition shape :: "tx_item list \<Rightarrow> (nat \<times> seq \<times> bytes) list" where
  "shape l = map (\<lambda>t. (ti_id t, ti_startSeq t, ti_packet t)) l"

lemma shape_simps [simp]:
  "shape [] = []" "shape (t # l) = (ti_id t, ti_startSeq t, ti_packet t) # shape l" "shape (l @ l') = shape l @ shape l'"
  "shape (rev l) = rev (shape l)"
  by (simp_all add: shape_def rev_map)

lemma shape_eq_Nil [simp]: "shape l = [] \<longleftrightarrow> l = []" "[] = shape l \<longleftrightarrow> l = []"
  by (auto simp: shape_def)

lemma shape_bytes: "shape l = shape l' \<Longrightarrow> item_bytes l = item_bytes l'"
proof -
  have "item_bytes l = concat (map (snd \<circ> snd) (shape l))" for l by (simp add: item_bytes_def shape_def comp_def)
  then show "shape l = shape l' \<Longrightarrow> item_bytes l = item_bytes l'" by simp
qed

lemma shape_ids: "shape l = shape l' \<Longrightarrow> map ti_id l = map ti_id l'"
proof -
  have "map ti_id l = map fst (shape l)" for l by (simp add: shape_def comp_def)
  then show "shape l = shape l' \<Longrightarrow> map ti_id l = map ti_id l'" by simp
qed

lemma ids_ok_map: "map ti_id l = map ti_id l' \<Longrightarrow> ids_ok n l = ids_ok n l'"
proof -
  have "ids_ok n l \<longleftrightarrow> distinct (map ti_id l) \<and> (\<forall>i\<in>set (map ti_id l). i < n)" for l by (simp add: ids_ok_def)
  then show "map ti_id l = map ti_id l' \<Longrightarrow> ids_ok n l = ids_ok n l'" by (simp only:)
qed

lemma shape_starts:
  assumes "shape l = shape l'"
  shows "starts s l = starts s l'"
  using assms
proof (induction l arbitrary: s l')
  case (Cons t l)
  then obtain u m where l': "l' = u # m" by (cases l') auto
  show ?case using Cons.IH [of m] Cons.prems unfolding l' by simp
qed simp

lemma shape_nonempty: "shape l = shape l' \<Longrightarrow> nonempty l = nonempty l'"
proof -
  have "nonempty l \<longleftrightarrow> (\<forall>x\<in>set (shape l). snd (snd x) \<noteq> [])" for l by (simp add: nonempty_def shape_def)
  then show "shape l = shape l' \<Longrightarrow> nonempty l = nonempty l'" by simp
qed

lemma core_flags:
  assumes core: "tx_core b" and l: "shape (tx_sentList b') = shape (tx_sentList b)" "exclusive (tx_sentList b')"
    and counts: "tx_lostOut b' = of_nat (flagged ti_lost (tx_sentList b'))" "tx_sackedOut b' = of_nat (flagged ti_sacked (tx_sentList b'))"
      "tx_retrans b' = of_nat (flagged ti_retrans (tx_sentList b'))"
    and same: "tx_firstByteSeq b' = tx_firstByteSeq b" "tx_appList b' = tx_appList b" "tx_size b' = tx_size b" "tx_sentSize b' = tx_sentSize b"
      "tx_maxBuffer b' = tx_maxBuffer b" "tx_nextId b' = tx_nextId b"
  shows "tx_core b'" "tx_content b' = tx_content b"
proof -
  have ids: "ids_ok (tx_nextId b) (tx_items b') = ids_ok (tx_nextId b) (tx_items b)"
    using shape_ids [OF l(1)] same(2) by (intro ids_ok_map) (simp only: map_append)
  show content: "tx_content b' = tx_content b" using shape_bytes [OF l(1)] same(2) by simp
  show "tx_core b'"
    unfolding tx_core_def content ids same
    using core shape_starts [OF l(1)] shape_nonempty [OF l(1)] shape_bytes [OF l(1)] l(2) counts ids
    unfolding tx_core_def by (simp only: same nonempty_simps) simp
qed

text \<open>The change of a counter when one item of a list changes.\<close>

lemma flagged_change: "of_nat (flagged P (pre @ t # post)) = (of_nat (flagged P (pre @ u # post)) :: u32)
    + (if P t then item_size t else 0) - (if P u then item_size u else 0)"
  by simp

lemma highest_kept:
  "highest_ok b \<Longrightarrow> tx_highestSack b' = tx_highestSack b \<Longrightarrow> \<forall>t\<in>set (tx_sentList b). ti_sacked t \<longrightarrow> t \<in> set (tx_sentList b') \<Longrightarrow> highest_ok b'"
  unfolding highest_ok_def by metis

section \<open>Lost items\<close>

lemma MarkHeadAsLost_core:
  assumes "tx_core b"
  shows "tx_core (MarkHeadAsLost b)" "tx_content (MarkHeadAsLost b) = tx_content b" "head_ok (MarkHeadAsLost b)"
    "tx_firstByteSeq (MarkHeadAsLost b) = tx_firstByteSeq b"
proof -
  have "tx_core (MarkHeadAsLost b) \<and> tx_content (MarkHeadAsLost b) = tx_content b"
  proof (cases "tx_sentList b")
    case (Cons t ts)
    then show ?thesis
      using assms by (intro conjI core_flags [OF assms]) (simp_all add: MarkHeadAsLost_def tx_core_def)
  qed (use assms in \<open>simp add: MarkHeadAsLost_def\<close>)
  then show "tx_core (MarkHeadAsLost b)" "tx_content (MarkHeadAsLost b) = tx_content b" by simp_all
  show "head_ok (MarkHeadAsLost b)" "tx_firstByteSeq (MarkHeadAsLost b) = tx_firstByteSeq b"
    by (simp_all add: MarkHeadAsLost_def head_ok_def split: list.split)
qed

lemma MarkHeadAsLost_inv:
  assumes "tx_inv b"
  shows "tx_inv (MarkHeadAsLost b)"
proof -
  have "highest_ok (MarkHeadAsLost b)"
    using assms unfolding tx_inv_def highest_ok_def head_ok_def MarkHeadAsLost_def by (cases "tx_sentList b") auto
  then show ?thesis using MarkHeadAsLost_core assms by (simp add: tx_inv_def)
qed

section \<open>Duplicate acknowledgements without SACK\<close>

lemma mark_first_unsacked_cases:
  "case mark_first_unsacked l of None \<Rightarrow> True
   | Some (l', x) \<Rightarrow> \<exists>pre t post. l = pre @ t # post \<and> \<not> ti_sacked t \<and> x = t\<lparr>ti_sacked := True\<rparr> \<and> l' = pre @ x # post"
proof (induction l)
  case (Cons t l)
  show ?case
  proof (cases "ti_sacked t \<and> mark_first_unsacked l \<noteq> None")
    case True
    then obtain l' x where m: "mark_first_unsacked l = Some (l', x)" by auto
    then obtain pre u post where "l = pre @ u # post" "\<not> ti_sacked u" "x = u\<lparr>ti_sacked := True\<rparr>" "l' = pre @ x # post" using Cons by auto
    then show ?thesis using True m by (auto intro!: exI [of _ "t # pre"])
  qed (auto intro: exI [of _ "[]"] split: option.split)
qed simp

text \<open>Whether a duplicate acknowledgement can be counted: the segment it is counted on has not been marked lost.\<close>

definition reno_ok :: "tx_buffer \<Rightarrow> bool" where
  "reno_ok b \<longleftrightarrow> (if tx_sackEnabled b then length (tx_sentList b) > 1 else tx_sentList b \<noteq> []) \<and>
     (case mark_first_unsacked (tl (tx_sentList b)) of None \<Rightarrow> True | Some (_, t) \<Rightarrow> \<not> ti_lost t)"

lemma AddRenoSack_core:
  assumes core: "tx_core b" and ok: "reno_ok b"
  shows "\<exists>b'. AddRenoSack b = Inr b' \<and> tx_core b' \<and> tx_content b' = tx_content b \<and> tx_firstByteSeq b' = tx_firstByteSeq b \<and>
      (\<exists>ts. tx_sentList b' = hd (tx_sentList b) # ts) \<and>
      (\<forall>t\<in>set (tx_sentList b). ti_sacked t \<longrightarrow> t \<in> set (tx_sentList b')) \<and>
      (tx_highestSack b' = tx_highestSack b \<or> (\<exists>t\<in>set (tl (tx_sentList b')). ti_sacked t \<and> tx_highestSack b' = (Some (ti_id t), ti_startSeq t)))"
proof -
  have guard: "\<not> (if tx_sackEnabled b then \<not> length (tx_sentList b) > 1 else tx_sentList b = [])" using ok by (simp add: reno_ok_def split: if_splits)
  then obtain h ts where sent: "tx_sentList b = h # ts" by (cases "tx_sentList b") (auto split: if_splits)
  show ?thesis
  proof (cases "mark_first_unsacked ts")
    case None
    have "AddRenoSack b = Inr (b\<lparr>tx_renoSack := True\<rparr>)" using None guard by (simp add: AddRenoSack_def Let_def sent)
    moreover have "tx_core (b\<lparr>tx_renoSack := True\<rparr>)" using core by (simp add: tx_core_def)
    ultimately show ?thesis by (simp add: sent)
  next
    case (Some a)
    obtain l' x where m: "mark_first_unsacked ts = Some (l', x)" using Some by (cases a) auto
    then obtain pre t post where t: "ts = pre @ t # post" "\<not> ti_sacked t" "x = t\<lparr>ti_sacked := True\<rparr>" "l' = pre @ x # post"
      using mark_first_unsacked_cases [of ts] by auto
    let ?b = "b\<lparr>tx_renoSack := True, tx_sentList := h # l', tx_sackedOut := tx_sackedOut b + item_size x, tx_sackSeen := True,
        tx_highestSack := (Some (ti_id x), ti_startSeq x)\<rparr>"
    have eq: "AddRenoSack b = Inr ?b" using m guard by (simp add: AddRenoSack_def Let_def sent)
    have lost: "\<not> ti_lost t" using ok m t(3) by (simp add: reno_ok_def sent)
    have counts: "tx_core ?b \<and> tx_content ?b = tx_content b"
      using core lost by (intro conjI core_flags [OF core]) (auto simp: tx_core_def sent t)
    show ?thesis unfolding eq using counts t by (intro exI [of _ ?b]) (auto simp: sent)
  qed
qed

lemma AddRenoSack_inv:
  assumes inv: "tx_inv b" and ok: "reno_ok b"
  shows "\<exists>b'. AddRenoSack b = Inr b' \<and> tx_inv b' \<and> tx_content b' = tx_content b \<and> tx_firstByteSeq b' = tx_firstByteSeq b"
proof -
  obtain b' ts where b': "AddRenoSack b = Inr b'" "tx_core b'" "tx_content b' = tx_content b" "tx_firstByteSeq b' = tx_firstByteSeq b"
      "tx_sentList b' = hd (tx_sentList b) # ts" "\<forall>t\<in>set (tx_sentList b). ti_sacked t \<longrightarrow> t \<in> set (tx_sentList b')"
      "tx_highestSack b' = tx_highestSack b \<or> (\<exists>t\<in>set (tl (tx_sentList b')). ti_sacked t \<and> tx_highestSack b' = (Some (ti_id t), ti_startSeq t))"
    using AddRenoSack_core [OF _ ok] inv unfolding tx_inv_def by blast
  have "tx_sentList b \<noteq> []" using ok by (auto simp: reno_ok_def split: if_splits)
  then have "head_ok b'" using inv b'(5) by (simp add: tx_inv_def head_ok_def)
  moreover have "highest_ok b'"
    using b'(7)
  proof
    assume "tx_highestSack b' = tx_highestSack b"
    then show ?thesis using inv b'(6) unfolding tx_inv_def highest_ok_def by metis
  next
    assume "\<exists>t\<in>set (tl (tx_sentList b')). ti_sacked t \<and> tx_highestSack b' = (Some (ti_id t), ti_startSeq t)"
    then show ?thesis using b'(5) unfolding highest_ok_def by fastforce
  qed
  ultimately show ?thesis using b'(1-4) by (simp add: tx_inv_def)
qed

section \<open>Resets\<close>

lemma flag_map: "\<forall>t. ti_packet (g t) = ti_packet t \<Longrightarrow> flagged P (map g l) = flagged (P \<circ> g) l"
  by (induction l) auto

lemma flagged_const: "flagged (\<lambda>t. True) l = tbytes l" "flagged (\<lambda>t. False) l = 0"
  by (induction l) auto

lemma map_shape: "\<forall>t. ti_packet (g t) = ti_packet t \<and> ti_id (g t) = ti_id t \<and> ti_startSeq (g t) = ti_startSeq t \<Longrightarrow> shape (map g l) = shape l"
  by (simp add: shape_def)

lemma ResetRenoSack_inv:
  assumes "tx_inv b"
  shows "tx_inv (ResetRenoSack b)" "tx_content (ResetRenoSack b) = tx_content b" "tx_firstByteSeq (ResetRenoSack b) = tx_firstByteSeq b"
proof -
  have core: "tx_core b" using assms by (simp add: tx_inv_def)
  have "tx_core (ResetRenoSack b) \<and> tx_content (ResetRenoSack b) = tx_content b"
    using core by (intro conjI core_flags [OF core])
      (simp_all add: ResetRenoSack_def map_shape exclusive_def flag_map comp_def flagged_const tx_core_def)
  moreover have "head_ok (ResetRenoSack b)" by (cases "tx_sentList b") (simp_all add: ResetRenoSack_def head_ok_def)
  ultimately show "tx_inv (ResetRenoSack b)" "tx_content (ResetRenoSack b) = tx_content b"
    by (simp_all add: tx_inv_def highest_ok_def ResetRenoSack_def)
qed (simp add: ResetRenoSack_def)

lemma lost_bytes_flagged: "lost_bytes l = of_nat (flagged (\<lambda>t. ti_lost t \<or> \<not> ti_sacked t) l)"
  by (induction l) auto

lemma SetSentListLost_inv:
  assumes "tx_inv b"
  shows "\<exists>b'. SetSentListLost r b = Inr b' \<and> tx_inv b' \<and> tx_content b' = tx_content b \<and> tx_firstByteSeq b' = tx_firstByteSeq b"
proof -
  have core: "tx_core b" using assms by (simp add: tx_inv_def)
  let ?b = "if r
               then b\<lparr>tx_retrans := 0, tx_sackedOut := 0, tx_lostOut := tx_sentSize b, tx_sackSeen := False, tx_highestSack := (None, 0),
                      tx_sentList := map (\<lambda>t. t\<lparr>ti_sacked := False, ti_lost := True, ti_retrans := False\<rparr>) (tx_sentList b)\<rparr>
               else b\<lparr>tx_retrans := 0, tx_lostOut := lost_bytes (tx_sentList b),
                      tx_sentList := map (\<lambda>t. t\<lparr>ti_lost := ti_lost t \<or> \<not> ti_sacked t, ti_retrans := False\<rparr>) (tx_sentList b)\<rparr>"
  have c: "tx_core ?b \<and> tx_content ?b = tx_content b"
    using core by (cases r; intro conjI core_flags [OF core])
      (auto simp: map_shape exclusive_def flag_map comp_def flagged_const tx_core_def lost_bytes_flagged)
  have "head_ok ?b" using assms by (cases "tx_sentList b") (auto simp: tx_inv_def head_ok_def)
  moreover have "highest_ok ?b" using assms by (cases r) (fastforce simp: tx_inv_def highest_ok_def)+
  ultimately have "tx_inv ?b" using c by (simp only: tx_inv_def)
  moreover have "SetSentListLost r b = Inr ?b"
    using counts_fit [of ?b] c by (simp only: SetSentListLost_def Let_def) simp
  moreover have "tx_firstByteSeq ?b = tx_firstByteSeq b" by simp
  ultimately show ?thesis using c by blast
qed

lemma ResetSentList_inv:
  assumes "tx_inv b"
  shows "tx_inv (ResetSentList b)" "tx_content (ResetSentList b) = tx_content b" "tx_firstByteSeq (ResetSentList b) = tx_firstByteSeq b"
proof -
  let ?g = "\<lambda>t. t\<lparr>ti_retrans := False, ti_sacked := False, ti_lost := False\<rparr>"
  have core: "tx_core b" using assms by (simp add: tx_inv_def)
  have "shape (map ?g (tx_sentList b)) = shape (tx_sentList b)" by (simp add: map_shape)
  then have sh: "shape (map ?g (tx_sentList b) @ tx_appList b) = shape (tx_items b)" by simp
  have ids: "ids_ok (tx_nextId b) (map ?g (tx_sentList b) @ tx_appList b)"
    using core ids_ok_map [OF shape_ids [OF sh]] by (simp only: tx_core_def)
  have bytes: "item_bytes (map ?g (tx_sentList b) @ tx_appList b) = tx_content b" by (rule shape_bytes [OF sh])
  have ne: "nonempty (map ?g (tx_sentList b) @ tx_appList b)" using core shape_nonempty [OF sh] by (simp only: tx_core_def)
  show content: "tx_content (ResetSentList b) = tx_content b" using bytes by (simp add: ResetSentList_def)
  have "tx_core (ResetSentList b)"
    unfolding tx_core_def content using core ids ne
    by (auto simp: ResetSentList_def tx_core_def clean_def)
  then show "tx_inv (ResetSentList b)" by (simp add: tx_inv_def head_ok_def highest_ok_def ResetSentList_def)
qed (simp add: ResetSentList_def)

lemma ResetLastSegmentSent_inv:
  assumes inv: "tx_inv b" and last: "tx_sentList b \<noteq> [] \<Longrightarrow> clean (last (tx_sentList b))"
  shows "tx_inv (ResetLastSegmentSent b)" "tx_content (ResetLastSegmentSent b) = tx_content b"
    "tx_firstByteSeq (ResetLastSegmentSent b) = tx_firstByteSeq b"
proof -
  have core: "tx_core b" using inv by (simp add: tx_inv_def)
  have "tx_inv (ResetLastSegmentSent b) \<and> tx_content (ResetLastSegmentSent b) = tx_content b"
  proof (cases "tx_sentList b" rule: rev_cases)
    case (snoc pre t)
    have t: "\<not> ti_lost t" "\<not> ti_retrans t" "\<not> ti_sacked t" using last by (simp_all add: snoc clean_def)
    let ?b = "b\<lparr>tx_sentList := pre, tx_sentSize := tx_sentSize b - item_size t, tx_retrans := tx_retrans b, tx_appList := t # tx_appList b\<rparr>"
    have eq: "ResetLastSegmentSent b = ?b" using t by (simp add: ResetLastSegmentSent_def Let_def snoc)
    have "tx_core ?b" using core t by (simp add: tx_core_def snoc clean_def)
    moreover have "head_ok ?b" using inv by (cases pre) (simp_all add: tx_inv_def head_ok_def snoc)
    moreover have "highest_ok ?b" using inv t by (fastforce simp: tx_inv_def highest_ok_def snoc)
    ultimately show ?thesis unfolding eq by (simp add: tx_inv_def snoc)
  qed (use inv in \<open>simp add: ResetLastSegmentSent_def\<close>)
  then show "tx_inv (ResetLastSegmentSent b)" "tx_content (ResetLastSegmentSent b) = tx_content b" by simp_all
qed (simp add: ResetLastSegmentSent_def Let_def)

lemma DeleteRetransmittedFlag_inv:
  assumes inv: "tx_inv b"
  shows "\<exists>b'. DeleteRetransmittedFlagFromHead b = Inr b' \<and> tx_inv b' \<and> tx_content b' = tx_content b \<and> tx_firstByteSeq b' = tx_firstByteSeq b"
proof -
  have core: "tx_core b" using inv by (simp add: tx_inv_def)
  show ?thesis
  proof (cases "tx_sentSize b = 0")
    case True
    then show ?thesis using inv by (simp add: DeleteRetransmittedFlagFromHead_def)
  next
    case False
    then have "tbytes (tx_sentList b) \<noteq> 0" using sizes_exact(2) [OF core] by (metis unat_eq_0)
    then obtain t ts where sent: "tx_sentList b = t # ts" by (cases "tx_sentList b") auto
    let ?b = "if ti_retrans t then b\<lparr>tx_sentList := t\<lparr>ti_retrans := False\<rparr> # ts, tx_retrans := tx_retrans b - item_size t\<rparr> else b"
    have "tx_core ?b \<and> tx_content ?b = tx_content b"
      using core by (intro conjI core_flags [OF core]) (auto simp: tx_core_def sent)
    moreover have "head_ok ?b" "highest_ok ?b" using inv by (auto simp: tx_inv_def head_ok_def highest_ok_def sent)
    moreover have "DeleteRetransmittedFlagFromHead b = Inr ?b" using False by (simp add: DeleteRetransmittedFlagFromHead_def sent)
    moreover have "tx_firstByteSeq ?b = tx_firstByteSeq b" by simp
    ultimately show ?thesis unfolding tx_inv_def by blast
  qed
qed

section \<open>Selective acknowledgements\<close>

text \<open>Two states that differ at most in the counters and in \<^verbatim>\<open>m_highestSack\<close>, and what the loop over a list of items does for one block.\<close>

definition framed :: "tx_buffer \<Rightarrow> tx_buffer \<Rightarrow> bool" where
  "framed b b' \<longleftrightarrow> tx_firstByteSeq b' = tx_firstByteSeq b \<and> tx_appList b' = tx_appList b \<and> tx_size b' = tx_size b \<and>
     tx_sentSize b' = tx_sentSize b \<and> tx_maxBuffer b' = tx_maxBuffer b \<and> tx_nextId b' = tx_nextId b \<and> tx_retrans b' = tx_retrans b"

lemma framed_trans: "framed b b' \<Longrightarrow> framed b' b'' \<Longrightarrow> framed b b''"
  by (simp add: framed_def)

definition sacked_to :: "tx_item list \<Rightarrow> tx_buffer \<Rightarrow> tx_item list \<Rightarrow> u32 \<Rightarrow> tx_buffer \<Rightarrow> bool" where
  "sacked_to l b l' n b' \<longleftrightarrow> framed b b' \<and> shape l' = shape l \<and> (exclusive l \<longrightarrow> exclusive l') \<and>
     tx_lostOut b' + of_nat (flagged ti_lost l) = tx_lostOut b + of_nat (flagged ti_lost l') \<and>
     tx_sackedOut b' + of_nat (flagged ti_sacked l) = tx_sackedOut b + of_nat (flagged ti_sacked l') \<and>
     flagged ti_retrans l' = flagged ti_retrans l \<and>
     (tx_highestSack b' = tx_highestSack b \<or> (\<exists>t\<in>set l'. ti_sacked t \<and> tx_highestSack b' = (Some (ti_id t), ti_startSeq t))) \<and>
     (\<forall>t\<in>set l. ti_sacked t \<longrightarrow> t \<in> set l') \<and> (n \<noteq> 0 \<longrightarrow> fst (tx_highestSack b') \<noteq> None)"

lemma sacked_toD:
  assumes "sacked_to l b l' n b'"
  shows "framed b b'" "shape l' = shape l" "exclusive l \<Longrightarrow> exclusive l'"
    "tx_lostOut b' + of_nat (flagged ti_lost l) = tx_lostOut b + of_nat (flagged ti_lost l')"
    "tx_sackedOut b' + of_nat (flagged ti_sacked l) = tx_sackedOut b + of_nat (flagged ti_sacked l')"
    "flagged ti_retrans l' = flagged ti_retrans l"
    "tx_highestSack b' = tx_highestSack b \<or> (\<exists>t\<in>set l'. ti_sacked t \<and> tx_highestSack b' = (Some (ti_id t), ti_startSeq t))"
    "\<And>t. t \<in> set l \<Longrightarrow> ti_sacked t \<Longrightarrow> t \<in> set l'" "n \<noteq> 0 \<Longrightarrow> fst (tx_highestSack b') \<noteq> None"
  using assms unfolding sacked_to_def by simp_all

lemma sacked_toI:
  assumes "framed b b'" "shape l' = shape l" "exclusive l \<Longrightarrow> exclusive l'"
    "tx_lostOut b' + of_nat (flagged ti_lost l) = tx_lostOut b + of_nat (flagged ti_lost l')"
    "tx_sackedOut b' + of_nat (flagged ti_sacked l) = tx_sackedOut b + of_nat (flagged ti_sacked l')"
    "flagged ti_retrans l' = flagged ti_retrans l"
    "tx_highestSack b' = tx_highestSack b \<or> (\<exists>t\<in>set l'. ti_sacked t \<and> tx_highestSack b' = (Some (ti_id t), ti_startSeq t))"
    "\<And>t. t \<in> set l \<Longrightarrow> ti_sacked t \<Longrightarrow> t \<in> set l'" "n \<noteq> 0 \<Longrightarrow> fst (tx_highestSack b') \<noteq> None"
  shows "sacked_to l b l' n b'"
  unfolding sacked_to_def using assms by simp

lemma sacked_to_same: "sacked_to l b l 0 b"
  by (simp add: sacked_to_def framed_def)

lemma counter_keep: "(x :: u32) + y = z + w \<Longrightarrow> x + (c + y) = z + (c + w)"
  by (simp add: add.left_commute)

lemma sacked_to_keep:
  assumes "sacked_to l b l' n b'"
  shows "sacked_to (t # l) b (t # l') n b'"
proof -
  note a = sacked_toD [OF assms]
  show ?thesis
  proof (rule sacked_toI)
    show "tx_lostOut b' + of_nat (flagged ti_lost (t # l)) = tx_lostOut b + of_nat (flagged ti_lost (t # l'))"
      unfolding flagged_simps of_nat_add by (rule counter_keep [OF a(4)])
    show "tx_sackedOut b' + of_nat (flagged ti_sacked (t # l)) = tx_sackedOut b + of_nat (flagged ti_sacked (t # l'))"
      unfolding flagged_simps of_nat_add by (rule counter_keep [OF a(5)])
  qed (use a(1,2,3,6,7,8,9) in auto)
qed

lemma sacked_to_new:
  assumes "sacked_to l c l' n b'" and t: "\<not> ti_sacked t"
    and c: "framed b c" "tx_lostOut c = (if ti_lost t then tx_lostOut b - item_size t else tx_lostOut b)"
      "tx_sackedOut c = tx_sackedOut b + item_size t"
      "tx_highestSack c = (Some (ti_id t), ti_startSeq t) \<or> tx_highestSack c = tx_highestSack b \<and> fst (tx_highestSack b) \<noteq> None"
  shows "sacked_to (t # l) b (t\<lparr>ti_lost := False, ti_sacked := True\<rparr> # l') m b'"
proof -
  note a = sacked_toD [OF assms(1)]
  have lost: "tx_lostOut b' + of_nat (flagged ti_lost (t # l)) = tx_lostOut b + of_nat (flagged ti_lost (t\<lparr>ti_lost := False, ti_sacked := True\<rparr> # l'))"
  proof -
    have "tx_lostOut b' + of_nat (flagged ti_lost l) = tx_lostOut c + of_nat (flagged ti_lost l')" by (rule a(4))
    then show ?thesis unfolding c(2) by (auto simp: algebra_simps)
  qed
  have sacked: "tx_sackedOut b' + of_nat (flagged ti_sacked (t # l)) =
      tx_sackedOut b + of_nat (flagged ti_sacked (t\<lparr>ti_lost := False, ti_sacked := True\<rparr> # l'))"
  proof -
    have "tx_sackedOut b' + of_nat (flagged ti_sacked l) = tx_sackedOut c + of_nat (flagged ti_sacked l')" by (rule a(5))
    then show ?thesis unfolding c(3) using t by (simp add: algebra_simps)
  qed
  have h: "tx_highestSack b' = tx_highestSack c \<or> (\<exists>u\<in>set l'. ti_sacked u \<and> tx_highestSack b' = (Some (ti_id u), ti_startSeq u))" by (rule a(7))
  have some: "fst (tx_highestSack b') \<noteq> None" using h c(4) by auto
  have high: "tx_highestSack b' = tx_highestSack b \<or>
      (\<exists>u\<in>set (t\<lparr>ti_lost := False, ti_sacked := True\<rparr> # l'). ti_sacked u \<and> tx_highestSack b' = (Some (ti_id u), ti_startSeq u))"
    using h c(4) by auto
  show ?thesis
    by (rule sacked_toI [OF framed_trans [OF c(1) a(1)] _ _ lost sacked _ high]) (use a(2,3,6,8) t some in auto)
qed

lemma sack_items_total:
  assumes "starts cur l" "exclusive l"
  shows "\<exists>l' n cb b'. sack_items blk cur l b = Inr (l', n, cb, b') \<and> sacked_to l b l' n b'"
  using assms
proof (induction l arbitrary: cur b)
  case Nil
  show ?case using sacked_to_same [of "[]" b] by simp
next
  case (Cons t l)
  have ih: "\<exists>l' n cb b'. sack_items blk (cur + item_size t) l b = Inr (l', n, cb, b') \<and> sacked_to l b l' n b'" for b
    using Cons.IH Cons.prems by simp
  let ?b = "b\<lparr>tx_lostOut := (if ti_lost t then tx_lostOut b - item_size t else tx_lostOut b), tx_sackedOut := tx_sackedOut b + item_size t\<rparr>"
  let ?c = "if fst (tx_highestSack ?b) = None \<or> seq_le (snd (tx_highestSack ?b)) (cur + item_size t)
            then ?b\<lparr>tx_sackSeen := True, tx_highestSack := (Some (ti_id t), cur)\<rparr> else ?b"
  obtain l1 n1 cb1 b1 where r1: "sack_items blk (cur + item_size t) l b = Inr (l1, n1, cb1, b1)" "sacked_to l b l1 n1 b1" using ih by blast
  obtain l2 n2 cb2 b2 where r2: "sack_items blk (cur + item_size t) l ?c = Inr (l2, n2, cb2, b2)" "sacked_to l ?c l2 n2 b2" using ih by blast
  have new: "\<not> ti_sacked t \<Longrightarrow> sacked_to (t # l) b (t\<lparr>ti_lost := False, ti_sacked := True\<rparr> # l2) (item_size t + n2) b2"
    by (rule sacked_to_new [OF r2(2)]) (use Cons.prems in \<open>auto simp: framed_def\<close>)
  show ?case
    using r1(1) r2(1) sacked_to_keep [OF r1(2), of t] new sacked_to_same [of "t # l" b] Cons.prems(2)
    by (cases "ti_sacked t") (simp_all add: Let_def)
qed

lemma sack_items_head:
  assumes "sack_items blk cur (t # l) b = Inr (l', n, cb, b')" "\<not> seq_ge cur (fst blk)"
  shows "\<exists>l2. l' = t # l2"
  using assms by (auto simp: bind_res_def split: if_splits sum.splits)

lemma block_inv:
  assumes inv: "tx_inv b" and head: "\<not> seq_ge (tx_firstByteSeq b) (fst blk)"
  shows "\<exists>ts k cb b'. sack_items blk (tx_firstByteSeq b) (tx_sentList b) b = Inr (ts, k, cb, b') \<and> tx_inv (b'\<lparr>tx_sentList := ts\<rparr>) \<and>
      item_bytes (ts @ tx_appList b') = tx_content b \<and> tx_firstByteSeq b' = tx_firstByteSeq b \<and> shape ts = shape (tx_sentList b) \<and>
      (k \<noteq> 0 \<longrightarrow> fst (tx_highestSack b') \<noteq> None) \<and> (fst (tx_highestSack b) \<noteq> None \<longrightarrow> fst (tx_highestSack b') \<noteq> None)"
proof -
  have core: "tx_core b" using inv by (simp add: tx_inv_def)
  obtain ts k cb b' where r: "sack_items blk (tx_firstByteSeq b) (tx_sentList b) b = Inr (ts, k, cb, b')" "sacked_to (tx_sentList b) b ts k b'"
    using sack_items_total core unfolding tx_core_def by blast
  note a = sacked_toD [OF r(2)]
  let ?b = "b'\<lparr>tx_sentList := ts\<rparr>"
  have fr: "tx_firstByteSeq ?b = tx_firstByteSeq b" "tx_appList ?b = tx_appList b" "tx_size ?b = tx_size b" "tx_sentSize ?b = tx_sentSize b"
    "tx_maxBuffer ?b = tx_maxBuffer b" "tx_nextId ?b = tx_nextId b" "tx_retrans ?b = tx_retrans b"
    using a(1) by (simp_all add: framed_def)
  have "exclusive (tx_sentList b)" "tx_lostOut b = of_nat (flagged ti_lost (tx_sentList b))" "tx_sackedOut b = of_nat (flagged ti_sacked (tx_sentList b))"
      "tx_retrans b = of_nat (flagged ti_retrans (tx_sentList b))"
    using core by (simp_all only: tx_core_def)
  then have "exclusive ts" "tx_lostOut b' = of_nat (flagged ti_lost ts)" "tx_sackedOut b' = of_nat (flagged ti_sacked ts)"
      "tx_retrans ?b = of_nat (flagged ti_retrans ts)"
    using a(3,4,5,6) fr(7) by (simp_all add: add.commute)
  note flags = this
  have "tx_core ?b" by (rule core_flags(1) [OF core]) (use flags fr a(2) in simp_all)
  moreover have "tx_content ?b = tx_content b" by (rule core_flags(2) [OF core]) (use flags fr a(2) in simp_all)
  ultimately have c: "tx_core ?b" "tx_content ?b = tx_content b" .
  have "head_ok ?b"
  proof (cases "tx_sentList b")
    case Nil
    then show ?thesis using a(2) by (simp add: head_ok_def)
  next
    case (Cons t l)
    then obtain l2 where "ts = t # l2" using sack_items_head r(1) head by metis
    then show ?thesis using inv Cons by (simp add: tx_inv_def head_ok_def)
  qed
  moreover have "highest_ok ?b"
    using a(7)
  proof
    assume "tx_highestSack b' = tx_highestSack b"
    then show ?thesis using inv a(8) unfolding tx_inv_def highest_ok_def by simp metis
  next
    assume "\<exists>t\<in>set ts. ti_sacked t \<and> tx_highestSack b' = (Some (ti_id t), ti_startSeq t)"
    then show ?thesis by (auto simp: highest_ok_def)
  qed
  ultimately have "tx_inv ?b" using c(1) by (simp add: tx_inv_def)
  moreover have "fst (tx_highestSack b) \<noteq> None \<longrightarrow> fst (tx_highestSack b') \<noteq> None" using a(7) by auto
  ultimately show ?thesis using r(1) c(2) fr(1) a(2,9) by (intro exI [of _ ts] exI [of _ k] exI [of _ cb] exI [of _ b']) simp
qed

text \<open>Blocks that do not begin at the head or before it.\<close>

definition above_head :: "tx_buffer \<Rightarrow> (seq \<times> seq) list \<Rightarrow> bool" where
  "above_head b blks \<longleftrightarrow> list_all (\<lambda>blk. \<not> seq_ge (tx_firstByteSeq b) (fst blk)) blks"

lemma update_blocks_inv:
  assumes "tx_inv b" "above_head b blks" "n \<noteq> 0 \<Longrightarrow> fst (tx_highestSack b) \<noteq> None"
  shows "\<exists>early n' cb' b'. update_blocks blks n cb b = Inr (early, n', cb', b') \<and> tx_inv b' \<and> tx_content b' = tx_content b \<and>
      tx_firstByteSeq b' = tx_firstByteSeq b \<and> shape (tx_sentList b') = shape (tx_sentList b) \<and> (n' \<noteq> 0 \<longrightarrow> fst (tx_highestSack b') \<noteq> None)"
  using assms
proof (induction blks arbitrary: n cb b)
  case (Cons blk blks)
  have head: "\<not> seq_ge (tx_firstByteSeq b) (fst blk)" and rest: "above_head b blks" using Cons.prems(2) by (simp_all add: above_head_def)
  show ?case
  proof (cases "seq_lt (tx_firstByteSeq b + tx_sentSize b) (fst blk)")
    case False
    obtain ts k cb1 c where r: "sack_items blk (tx_firstByteSeq b) (tx_sentList b) b = Inr (ts, k, cb1, c)" "tx_inv (c\<lparr>tx_sentList := ts\<rparr>)"
        "item_bytes (ts @ tx_appList c) = tx_content b" "tx_firstByteSeq c = tx_firstByteSeq b" "shape ts = shape (tx_sentList b)"
        "k \<noteq> 0 \<longrightarrow> fst (tx_highestSack c) \<noteq> None" "fst (tx_highestSack b) \<noteq> None \<longrightarrow> fst (tx_highestSack c) \<noteq> None"
      using block_inv [OF Cons.prems(1) head] by blast
    let ?c = "c\<lparr>tx_sentList := ts\<rparr>"
    have "above_head ?c blks" using rest r(4) by (simp add: above_head_def)
    moreover have "n + k \<noteq> 0 \<Longrightarrow> fst (tx_highestSack ?c) \<noteq> None" using Cons.prems(3) r(6,7) by (cases "n = 0") auto
    ultimately obtain early n' cb' b' where u: "update_blocks blks (n + k) (cb @ cb1) ?c = Inr (early, n', cb', b')" "tx_inv b'" "tx_content b' = tx_content ?c"
        "tx_firstByteSeq b' = tx_firstByteSeq ?c" "shape (tx_sentList b') = shape (tx_sentList ?c)" "n' \<noteq> 0 \<longrightarrow> fst (tx_highestSack b') \<noteq> None"
      using Cons.IH [OF r(2)] by blast
    have "tx_content ?c = tx_content b" using r(3) by simp
    then show ?thesis using u r(1,4,5) False by simp
  qed (use Cons.prems in auto)
qed auto

definition lost_more :: "tx_item list \<Rightarrow> tx_item list \<Rightarrow> u32 \<Rightarrow> bool" where
  "lost_more l l' n \<longleftrightarrow> shape l' = shape l \<and> (of_nat (flagged ti_lost l') :: u32) = of_nat (flagged ti_lost l) + n \<and>
     flagged ti_sacked l' = flagged ti_sacked l \<and> flagged ti_retrans l' = flagged ti_retrans l \<and> (exclusive l \<longrightarrow> exclusive l') \<and>
     (\<forall>t\<in>set l. ti_sacked t \<longrightarrow> t \<in> set l')"

lemma lost_more_append: "lost_more l l' n \<Longrightarrow> lost_more m m' k \<Longrightarrow> lost_more (l @ m) (l' @ m') (n + k)"
  by (auto simp: lost_more_def algebra_simps)

lemma lost_more_refl: "lost_more l l 0"
  by (simp add: lost_more_def)

lemma lost_more_mark: "\<not> ti_sacked t \<Longrightarrow> \<not> ti_lost t \<Longrightarrow> lost_more [t] [t\<lparr>ti_lost := True\<rparr>] (item_size t)"
  by (simp add: lost_more_def)

lemma lost_scan_more: "lost_scan th s l = (l', s', n) \<Longrightarrow> lost_more l l' n"
proof (induction l arbitrary: s l' s' n)
  case (Cons t l)
  let ?s = "if ti_sacked t then s + 1 else s"
  let ?mark = "?s \<ge> th \<and> \<not> ti_sacked t \<and> \<not> ti_lost t"
  obtain l2 s2 n2 where r: "lost_scan th ?s l = (l2, s2, n2)" by (cases "lost_scan th ?s l") auto
  have eq: "l' = [if ?mark then t\<lparr>ti_lost := True\<rparr> else t] @ l2" "n = (if ?mark then item_size t else 0) + n2"
    using Cons.prems r by (simp_all add: Let_def split: if_splits)
  have one: "lost_more [t] [if ?mark then t\<lparr>ti_lost := True\<rparr> else t] (if ?mark then item_size t else 0)"
    using lost_more_mark [of t] lost_more_refl [of "[t]"] by simp
  show ?case using lost_more_append [OF one Cons.IH [OF r]] unfolding eq by simp
qed (simp add: lost_more_refl)

lemma flagged_rev: "flagged P (rev l) = flagged P l"
  by (induction l) auto

lemma exclusive_rev: "exclusive (rev l) = exclusive l"
  by (simp add: exclusive_def)

lemma lost_more_rev: "lost_more (rev l) l' n \<Longrightarrow> lost_more l (rev l') n"
  unfolding lost_more_def by (simp add: flagged_rev exclusive_rev)

lemma UpdateLostCount_inv:
  assumes inv: "tx_inv b" and some: "fst (tx_highestSack b) = Some i"
  shows "\<exists>b'. UpdateLostCount b = Inr b' \<and> tx_inv b' \<and> tx_content b' = tx_content b \<and> tx_firstByteSeq b' = tx_firstByteSeq b \<and>
      shape (tx_sentList b') = shape (tx_sentList b)"
proof -
  have core: "tx_core b" using inv by (simp add: tx_inv_def)
  obtain u where u: "u \<in> set (tx_sentList b)" "ti_id u = i" "ti_sacked u" using inv some by (auto simp: tx_inv_def highest_ok_def)
  obtain h l where sent: "tx_sentList b = h # l" using u(1) by (cases "tx_sentList b") auto
  have h: "\<not> ti_sacked h" using inv by (simp add: tx_inv_def head_ok_def sent)
  then have ul: "u \<in> set l" using u sent by auto
  have hi: "ti_id h \<noteq> i" using core_ids [OF core] ul u(2) by (auto simp: sent image_iff)
  let ?P = "\<lambda>t. ti_id t \<noteq> i"
  let ?below = "takeWhile ?P l @ [hd (dropWhile ?P l)]" and ?above = "tl (dropWhile ?P l)"
  have ne: "dropWhile ?P l \<noteq> []" using ul u(2) by (auto simp: dropWhile_eq_Nil_conv)
  have l: "?below @ ?above = l" using ne by (metis append.assoc append_Cons append_Nil list.collapse takeWhile_dropWhile_id)
  obtain ts s n where r: "lost_scan (tx_dupAckThresh b) 0 (rev ?below) = (ts, s, n)" by (cases "lost_scan (tx_dupAckThresh b) 0 (rev ?below)") auto
  let ?mark = "s \<ge> tx_dupAckThresh b \<and> \<not> ti_lost h"
  let ?h = "if ?mark then h\<lparr>ti_lost := True\<rparr> else h" and ?k = "if ?mark then item_size h else 0"
  let ?b = "b\<lparr>tx_sentList := ?h # rev ts @ ?above, tx_lostOut := tx_lostOut b + n + ?k\<rparr>"
  have eq: "UpdateLostCount b = Inr ?b"
    using some u(1,2) hi r by (simp add: UpdateLostCount_def sent) (auto simp: image_iff)
  have "lost_more (?below @ ?above) (rev ts @ ?above) (n + 0)"
    by (rule lost_more_append [OF lost_more_rev [OF lost_scan_more [OF r]] lost_more_refl])
  moreover have "lost_more [h] [?h] ?k" using lost_more_mark [OF h] lost_more_refl [of "[h]"] by simp
  ultimately have "lost_more (h # l) (?h # rev ts @ ?above) (?k + n)" using lost_more_append [of "[h]" "[?h]" ?k l _ n] unfolding l by simp
  note m = this [unfolded lost_more_def]
  have c: "tx_lostOut b = of_nat (flagged ti_lost (h # l))" "tx_sackedOut b = of_nat (flagged ti_sacked (h # l))"
    "tx_retrans b = of_nat (flagged ti_retrans (h # l))" "exclusive (h # l)"
    using core unfolding sent [symmetric] by (simp_all only: tx_core_def)
  have n: "tx_sentList ?b = ?h # rev ts @ ?above" "tx_lostOut ?b = of_nat (flagged ti_lost (h # l)) + (?k + n)" "tx_sackedOut ?b = tx_sackedOut b"
    "tx_retrans ?b = tx_retrans b"
    using c(1) by (simp_all add: add.assoc add.commute)
  have counts: "tx_lostOut ?b = of_nat (flagged ti_lost (tx_sentList ?b))" "tx_sackedOut ?b = of_nat (flagged ti_sacked (tx_sentList ?b))"
      "tx_retrans ?b = of_nat (flagged ti_retrans (tx_sentList ?b))" "exclusive (tx_sentList ?b)" "shape (tx_sentList ?b) = shape (tx_sentList b)"
    unfolding n c(2,3) sent using m c(4) by metis+
  have "tx_core ?b" by (rule core_flags(1) [OF core counts(5,4,1,2,3)]) simp_all
  moreover have "tx_content ?b = tx_content b" by (rule core_flags(2) [OF core counts(5,4,1,2,3)]) simp_all
  moreover have "head_ok ?b" using h by (simp add: head_ok_def)
  moreover have "highest_ok ?b"
  proof -
    have "\<forall>t\<in>set (h # l). ti_sacked t \<longrightarrow> t \<in> set (?h # rev ts @ ?above)" using m by metis
    then show ?thesis using inv by (intro highest_kept [of b ?b]) (simp_all only: tx_inv_def sent n(1), simp)
  qed
  moreover have "tx_firstByteSeq ?b = tx_firstByteSeq b" by simp
  ultimately show ?thesis using eq counts(5) unfolding tx_inv_def by blast
qed

lemma Update_inv:
  assumes inv: "tx_inv b" and above: "above_head b blks" and sent: "tx_sentList b \<noteq> []"
  shows "\<exists>n cb b'. tx_Update blks b = Inr (n, cb, b') \<and> tx_inv b' \<and> tx_content b' = tx_content b \<and> tx_firstByteSeq b' = tx_firstByteSeq b"
proof -
  obtain early n cb b1 where u: "update_blocks blks 0 [] b = Inr (early, n, cb, b1)" "tx_inv b1" "tx_content b1 = tx_content b"
      "tx_firstByteSeq b1 = tx_firstByteSeq b" "shape (tx_sentList b1) = shape (tx_sentList b)" "n \<noteq> 0 \<longrightarrow> fst (tx_highestSack b1) \<noteq> None"
    using update_blocks_inv [OF inv above, of 0 "[]"] by auto
  show ?thesis
  proof (cases early)
    case True
    then show ?thesis using u by (simp add: tx_Update_def)
  next
    case False
    obtain b2 where b2: "(if n > 0 then if fst (tx_highestSack b1) = None then Inl Assert_Failed else UpdateLostCount b1 else Inr b1) = Inr b2"
        "tx_inv b2" "tx_content b2 = tx_content b1" "tx_firstByteSeq b2 = tx_firstByteSeq b1" "shape (tx_sentList b2) = shape (tx_sentList b1)"
    proof (cases "n = 0")
      case True
      then show ?thesis using that [of b1] u(2) by simp
    next
      case False
      then obtain i where i: "fst (tx_highestSack b1) = Some i" using u(6) by auto
      have "n > 0" using False by (simp add: word_gt_0)
      then show ?thesis using UpdateLostCount_inv [OF u(2) i] that i by auto
    qed
    have "shape (tx_sentList b2) = shape (tx_sentList b)" using b2(5) u(5) by simp
    then obtain t ts where sent2: "tx_sentList b2 = t # ts" using sent by (cases "tx_sentList b2"; cases "tx_sentList b") auto
    have "\<not> ti_sacked t" using b2(2) by (simp add: tx_inv_def head_ok_def sent2)
    then have "tx_Update blks b = Inr (n, cb, b2)"
      using u(1) False b2(1) counts_fit [of b2] b2(2) by (simp add: tx_Update_def sent2 tx_inv_def)
    then show ?thesis using b2(2,3,4) u(3,4) by simp
  qed
qed

end
