(* ===== verification/Tcp_Tx_Discard.thy ===== *)
theory Tcp_Tx_Discard
  imports Tcp_Tx_Scoreboard
begin

text \<open>
  \<^verbatim>\<open>TcpTxBuffer::DiscardUpTo\<close>: an acknowledgement removes exactly the bytes it acknowledges, whether they end at an item, within an
  item or beyond what has been sent, and keeps the invariant.
\<close>

section \<open>The items left\<close>

text \<open>What is left of a list of items when its first \<open>d\<close> bytes are acknowledged.\<close>

fun cut_items :: "nat \<Rightarrow> tx_item list \<Rightarrow> tx_item list" where
  "cut_items d [] = []"
| "cut_items d (t # ts) = (if length (ti_packet t) \<le> d then cut_items (d - length (ti_packet t)) ts else split2 t d # ts)"

lemma cut_0: "nonempty l \<Longrightarrow> cut_items 0 l = l"
  by (cases l) (auto simp: split2_def)

lemma split2_simps [simp]:
  "ti_packet (split2 t d) = drop d (ti_packet t)" "ti_startSeq (split2 t d) = ti_startSeq t + of_nat d" "ti_id (split2 t d) = ti_id t"
  "ti_lost (split2 t d) = ti_lost t" "ti_retrans (split2 t d) = ti_retrans t" "ti_sacked (split2 t d) = ti_sacked t"
  by (simp_all add: split2_def)

lemma cut_bytes: "item_bytes (cut_items d l) = drop d (item_bytes l)"
  by (induction d l rule: cut_items.induct) auto

lemma cut_all: "nonempty l \<Longrightarrow> tbytes l \<le> d \<Longrightarrow> cut_items d l = []"
  by (induction d l rule: cut_items.induct) auto

lemma cut_highest:
  assumes "starts s l" "t \<in> set l" "ti_startSeq t = s + of_nat q" "tbytes l < 2 ^ 31" "d < q" "q < 2 ^ 31" "nonempty l"
  shows "t \<in> set (cut_items d l)"
  using assms
proof (induction d l arbitrary: s q rule: cut_items.induct)
  case (2 d u ts)
  have "t \<noteq> u" using 2 pos_cmp(5) [of 0 q s] by auto
  then have t: "t \<in> set ts" using 2 by simp
  show ?case
  proof (cases "length (ti_packet u) \<le> d")
    case True
    have "ti_startSeq t = s + item_size u + of_nat (q - length (ti_packet u))" using 2 True by simp
    then show ?thesis using 2(1) [OF True, of "s + item_size u" "q - length (ti_packet u)"] 2 True t by auto
  qed (use t in simp)
qed simp

text \<open>The items left end beyond the byte acknowledged up to, and the first of them contains it.\<close>

lemma cut_from:
  assumes "t \<in> set (cut_items d l)" "starts (f + of_nat k) l" "nonempty l" "k + tbytes l < 2 ^ 31"
  shows "\<exists>u\<in>set l. ti_sacked u = ti_sacked t \<and> ti_lost u = ti_lost t \<and> seq_lt (f + of_nat (k + d)) (ti_startSeq u + item_size u) \<and>
    \<not> seq_le (ti_startSeq u + item_size u) (f + of_nat (k + d)) \<and>
    (t = hd (cut_items d l) \<longrightarrow> ti_startSeq t = f + of_nat (k + d) \<longrightarrow> seq_le (ti_startSeq u) (f + of_nat (k + d)))"
  using assms
proof (induction d l arbitrary: k rule: cut_items.induct)
  case (2 d u us)
  show ?case
  proof (cases "length (ti_packet u) \<le> d")
    case True
    then have "\<exists>v\<in>set us. ti_sacked v = ti_sacked t \<and> ti_lost v = ti_lost t \<and>
        seq_lt (f + of_nat ((k + length (ti_packet u)) + (d - length (ti_packet u)))) (ti_startSeq v + item_size v) \<and>
        \<not> seq_le (ti_startSeq v + item_size v) (f + of_nat ((k + length (ti_packet u)) + (d - length (ti_packet u)))) \<and>
        (t = hd (cut_items (d - length (ti_packet u)) us) \<longrightarrow> ti_startSeq t = f + of_nat ((k + length (ti_packet u)) + (d - length (ti_packet u))) \<longrightarrow>
          seq_le (ti_startSeq v) (f + of_nat ((k + length (ti_packet u)) + (d - length (ti_packet u)))))"
      using 2 by (intro 2(1)) (auto simp: add.assoc)
    then show ?thesis using True by auto
  next
    case False
    have end1: "seq_le (f + of_nat k) (f + of_nat (k + d))" "seq_lt (f + of_nat (k + d)) (f + of_nat (k + length (ti_packet u)))"
      "\<not> seq_le (f + of_nat (k + length (ti_packet u))) (f + of_nat (k + d))"
      using pos_cmp(2) [of k "k + d" f] pos_cmp(1) [of "k + d" "k + length (ti_packet u)" f]
        pos_cmp(2) [of "k + length (ti_packet u)" "k + d" f] 2 False by auto
    show ?thesis
    proof (cases "t = split2 u d")
      case True
      then show ?thesis using 2 end1 by (intro bexI [of _ u]) (auto simp: add.assoc)
    next
      case False2: False
      then have t: "t \<in> set us" using 2 False by simp
      then obtain pre post where us: "us = pre @ t # post" by (meson split_list)
      have "ti_startSeq t + item_size t = f + of_nat (k + length (ti_packet u) + tbytes pre + length (ti_packet t))"
        using 2(3) by (simp add: us add.assoc)
      moreover have "seq_lt (f + of_nat (k + d)) (f + of_nat (k + length (ti_packet u) + tbytes pre + length (ti_packet t)))"
        "\<not> seq_le (f + of_nat (k + length (ti_packet u) + tbytes pre + length (ti_packet t))) (f + of_nat (k + d))"
        using pos_cmp(1) [of "k + d" "k + length (ti_packet u) + tbytes pre + length (ti_packet t)" f]
          pos_cmp(2) [of "k + length (ti_packet u) + tbytes pre + length (ti_packet t)" "k + d" f] 2(5) False by (simp_all add: us)
      ultimately have "seq_lt (f + of_nat (k + d)) (ti_startSeq t + item_size t)" "\<not> seq_le (ti_startSeq t + item_size t) (f + of_nat (k + d))"
        by (simp_all only: not_False_eq_True)
      then show ?thesis using t False False2 by (intro bexI [of _ t]) simp_all
    qed
  qed
qed simp

section \<open>The loop\<close>

lemma item_size_le: "t \<in> set l \<Longrightarrow> length (ti_packet t) \<le> tbytes l"
  by (induction l) auto

text \<open>The counters hold the bytes an item has in them.\<close>

lemma remove_counts:
  assumes c: "tx_sackedOut b = of_nat (flagged ti_sacked l)" "tx_retrans b = of_nat (flagged ti_retrans l)" "tx_lostOut b = of_nat (flagged ti_lost l)"
    and l: "l = t # ts" "tbytes l < 2 ^ 31" and d: "d \<le> length (ti_packet t)"
    and t': "ti_sacked t' = ti_sacked t" "ti_retrans t' = ti_retrans t" "ti_lost t' = ti_lost t"
  shows "RemoveFromCounts t' (of_nat d) b = Inr (b\<lparr>tx_sackedOut := of_nat ((if ti_sacked t then length (ti_packet t) - d else 0) + flagged ti_sacked ts),
    tx_retrans := of_nat ((if ti_retrans t then length (ti_packet t) - d else 0) + flagged ti_retrans ts),
    tx_lostOut := of_nat ((if ti_lost t then length (ti_packet t) - d else 0) + flagged ti_lost ts)\<rparr>)"
proof -
  have ge: "(of_nat (length (ti_packet t) + k) :: u32) \<ge> of_nat d" if "length (ti_packet t) + k < 2 ^ 31" for k
    using size_cmp(2) [of "length (ti_packet t) + k" d] that d by (simp add: not_less [symmetric])
  have b: "length (ti_packet t) + flagged P ts < 2 ^ 31" for P using flagged_le [of P ts] l by simp
  have minus: "(of_nat (length (ti_packet t) + k) :: u32) - of_nat d = of_nat (length (ti_packet t) - d + k)" for k
    using d by (simp add: of_nat_diff)
  show ?thesis
    using ge [OF b] minus by (simp add: RemoveFromCounts_def c t' l(1) del: of_nat_add)
qed

definition shortened :: "tx_buffer \<Rightarrow> nat \<Rightarrow> tx_item list \<Rightarrow> tx_buffer \<Rightarrow> bool" where
  "shortened b d l b' \<longleftrightarrow> tx_core b' \<and> tx_sentList b' = l \<and> tx_content b' = drop d (tx_content b) \<and>
     tx_firstByteSeq b' = tx_firstByteSeq b + of_nat d \<and> tx_highestSack b' = tx_highestSack b \<and> tx_sackEnabled b' = tx_sackEnabled b"

lemma shortenedD:
  assumes "shortened b d l b'"
  shows "tx_core b'" "tx_sentList b' = l" "tx_content b' = drop d (tx_content b)" "tx_firstByteSeq b' = tx_firstByteSeq b + of_nat d"
    "tx_highestSack b' = tx_highestSack b" "tx_sackEnabled b' = tx_sackEnabled b"
  using assms unfolding shortened_def by blast+

lemma head_whole:
  assumes core: "tx_core b" and b: "tx_sentList b = t # ts" and d: "length (ti_packet t) \<le> d" "d < 2 ^ 31"
  shows "\<exists>b'. discard_head (of_nat d) b = Inr (Some t, of_nat (d - length (ti_packet t)), b') \<and> shortened b (length (ti_packet t)) ts b'"
proof -
  have sz: "tbytes (t # ts) < 2 ^ 31" using flagged_bound(1) [OF core] by (simp add: b)
  have ge: "(of_nat d :: u32) \<ge> item_size t" using size_cmp(2) [of d "length (ti_packet t)"] d by (simp add: not_less [symmetric])
  have start: "ti_startSeq t = tx_firstByteSeq b" using core by (simp add: tx_core_def b)
  let ?b1 = "b\<lparr>tx_size := tx_size b - item_size t, tx_sentSize := tx_sentSize b - item_size t, tx_firstByteSeq := tx_firstByteSeq b + item_size t\<rparr>"
  have c: "tx_sackedOut ?b1 = of_nat (flagged ti_sacked (t # ts))" "tx_retrans ?b1 = of_nat (flagged ti_retrans (t # ts))"
    "tx_lostOut ?b1 = of_nat (flagged ti_lost (t # ts))"
    using core by (simp_all add: tx_core_def b)
  let ?b2 = "?b1\<lparr>tx_sackedOut := of_nat (flagged ti_sacked ts), tx_retrans := of_nat (flagged ti_retrans ts), tx_lostOut := of_nat (flagged ti_lost ts),
      tx_sentList := ts\<rparr>"
  have "discard_head (of_nat d) b = Inr (Some t, of_nat (d - length (ti_packet t)), ?b2)"
    using ge start remove_counts [OF c refl sz, of "length (ti_packet t)" t] d(1) by (simp add: discard_head_def b)
  moreover have "shortened b (length (ti_packet t)) ts ?b2"
    using core by (simp add: shortened_def tx_core_def b)
  ultimately show ?thesis by blast
qed

lemma head_part:
  assumes core: "tx_core b" and b: "tx_sentList b = t # ts" and d: "d < length (ti_packet t)"
  shows "\<exists>b'. discard_head (of_nat d) b = Inr (None, 0, b') \<and> shortened b d (split2 t d # ts) b'"
proof -
  have sz: "tbytes (t # ts) < 2 ^ 31" using flagged_bound(1) [OF core] by (simp add: b)
  have ge: "\<not> (of_nat d :: u32) \<ge> item_size t" "unat (of_nat d :: u32) = d"
    using size_cmp(2) [of d "length (ti_packet t)"] d sz by (simp_all add: not_le small_unat)
  have amount: "unat (item_size t - of_nat d) = length (ti_packet t) - d"
    using small_unat [of "length (ti_packet t) - d"] d sz by (simp add: of_nat_diff)
  have start: "ti_startSeq t = tx_firstByteSeq b" using core by (simp add: tx_core_def b)
  let ?b1 = "b\<lparr>tx_sentList := split2 t d # ts, tx_size := tx_size b - of_nat d, tx_sentSize := tx_sentSize b - of_nat d,
      tx_firstByteSeq := tx_firstByteSeq b + of_nat d\<rparr>"
  have c: "tx_sackedOut ?b1 = of_nat (flagged ti_sacked (t # ts))" "tx_retrans ?b1 = of_nat (flagged ti_retrans (t # ts))"
    "tx_lostOut ?b1 = of_nat (flagged ti_lost (t # ts))"
    using core by (simp_all add: tx_core_def b)
  obtain b' where b': "RemoveFromCounts (split2 t d) (of_nat d) ?b1 = Inr b'"
      "b' = ?b1\<lparr>tx_sackedOut := of_nat (flagged ti_sacked (split2 t d # ts)), tx_retrans := of_nat (flagged ti_retrans (split2 t d # ts)),
        tx_lostOut := of_nat (flagged ti_lost (split2 t d # ts))\<rparr>"
    using remove_counts [OF c refl sz, of d "split2 t d"] d by simp
  have frag: "CreateFragment d (length (ti_packet t) - d) (ti_packet t) = Inr (drop d (ti_packet t))"
    using d by (simp add: CreateFragment_def)
  have "discard_head (of_nat d) b = Inr (None, 0, b')"
    using ge amount start frag b'(1) by (simp add: discard_head_def b split2_def)
  moreover have "shortened b d (split2 t d # ts) b'"
    using core d unfolding b'(2) by (auto simp: shortened_def tx_core_def b of_nat_diff)
  ultimately show ?thesis by blast
qed

lemma shortened_trans:
  assumes "shortened b d l b'" "shortened b' e l' b''"
  shows "shortened b (d + e) l' b''"
proof -
  note a = shortenedD [OF assms(1)] and b = shortenedD [OF assms(2)]
  have content: "tx_content b'' = drop (d + e) (tx_content b)" unfolding b(3) a(3) by (simp add: add.commute del: item_bytes_simps)
  have "tx_firstByteSeq b'' = tx_firstByteSeq b + of_nat (d + e)" unfolding b(4) a(4) by (simp add: add.assoc)
  then show ?thesis unfolding shortened_def using content a b by (intro conjI) (rule b | assumption | simp only:)+
qed

lemma loop_total:
  assumes "tx_core b" "d \<le> n" "d \<le> length (tx_content b)"
  shows "\<exists>ts b'. discard_loop n now (of_nat d) b = Inr (ts, b') \<and> shortened b d (cut_items d (tx_sentList b)) b'"
  using assms
proof (induction n arbitrary: d b)
  case 0
  have "cut_items 0 (tx_sentList b) = tx_sentList b" using 0 cut_0 by (simp add: tx_core_def)
  then show ?case using 0 by (simp add: discard_loop.simps shortened_def)
next
  case (Suc n)
  show ?case
  proof (cases "d = 0")
    case True
    have "cut_items 0 (tx_sentList b) = tx_sentList b" using Suc.prems cut_0 by (simp add: tx_core_def)
    then show ?thesis using True Suc.prems by (simp add: discard_loop.simps shortened_def)
  next
    case False
    have d: "d < 2 ^ 31" "(of_nat d :: u32) > 0" "tx_size b > 0"
      using flagged_bound(1) [OF Suc.prems(1)] sizes_exact(1) [OF Suc.prems(1)] Suc.prems(3) False small_unat [of d]
      by (auto simp: word_less_nat_alt)
    obtain b1 where b1: "(if tx_sentList b = [] then bind_res (CopyFromSequence now (of_nat d) (tx_firstByteSeq b) b) (\<lambda>(t, b).
          if t = None then Inl Undefined_Behaviour else Inr b) else Inr b) = Inr b1"
        "shortened b 0 (tx_sentList b1) b1" "tx_sentList b1 \<noteq> []" "cut_items d (tx_sentList b1) = cut_items d (tx_sentList b)"
      using copy_refill [OF Suc.prems(1) _ _ Suc.prems(3), of now] False Suc.prems(1)
      by (cases "tx_sentList b = []") (fastforce simp: shortened_def)+
    have b1': "tx_core b1" "tx_content b1 = tx_content b" using b1(2) by (simp_all add: shortened_def)
    obtain t us where us: "tx_sentList b1 = t # us" using b1(3) by (cases "tx_sentList b1") auto
    have step: "discard_loop (Suc n) now (of_nat d) b = bind_res (discard_head (of_nat d) b1) (\<lambda>(t, offset', b).
            case t of None \<Rightarrow> Inr ([], b)
            | Some t \<Rightarrow> bind_res (discard_loop n now offset' b) (\<lambda>(ts, b). Inr (t # ts, b)))"
      using d(2,3) b1(1) by (subst discard_loop.simps) (simp only: bind_res_simps simp_thms if_True if_False nat.case)
    show ?thesis
    proof (cases "length (ti_packet t) \<le> d")
      case True
      obtain b2 where b2: "discard_head (of_nat d) b1 = Inr (Some t, of_nat (d - length (ti_packet t)), b2)"
          "shortened b1 (length (ti_packet t)) us b2"
        using head_whole [OF b1'(1) us True d(1)] by blast
      have "ti_packet t \<noteq> []" using b1'(1) by (simp add: tx_core_def us)
      then have "d - length (ti_packet t) \<le> n" using Suc.prems(2) True by (cases "ti_packet t") auto
      moreover have "d - length (ti_packet t) \<le> length (tx_content b2)"
      proof -
        have "tx_content b2 = drop (length (ti_packet t)) (tx_content b)" unfolding shortenedD(3) [OF b2(2)] b1'(2) ..
        then show ?thesis using Suc.prems(3) by (simp del: item_bytes_simps)
      qed
      moreover have "tx_core b2" using b2(2) by (simp add: shortened_def)
      ultimately obtain ts b' where rest: "discard_loop n now (of_nat (d - length (ti_packet t))) b2 = Inr (ts, b')"
          "shortened b2 (d - length (ti_packet t)) (cut_items (d - length (ti_packet t)) (tx_sentList b2)) b'"
        using Suc.IH by blast
      have "shortened b d (cut_items d (tx_sentList b)) b'"
      proof -
        have "cut_items d (tx_sentList b) = cut_items (d - length (ti_packet t)) (tx_sentList b2)"
          unfolding b1(4) [symmetric] us shortenedD(2) [OF b2(2)] using True by simp
        moreover have "0 + (length (ti_packet t) + (d - length (ti_packet t))) = d" using True by simp
        ultimately show ?thesis using shortened_trans [OF b1(2) shortened_trans [OF b2(2) rest(2)]] by metis
      qed
      then show ?thesis using step b2(1) rest(1) by simp
    next
      case False
      then have "d < length (ti_packet t)" by simp
      then obtain b2 where b2: "discard_head (of_nat d) b1 = Inr (None, 0, b2)" "shortened b1 d (split2 t d # us) b2"
        using head_part [OF b1'(1) us] by blast
      then show ?thesis using step shortened_trans [OF b1(2) b2(2)] False by (simp add: us b1(4) [symmetric])
    qed
  qed
qed

section \<open>The acknowledgement\<close>

text \<open>
  When an acknowledgement up to \<open>s\<close> is taken: no item selectively acknowledged contains \<open>s\<close>, or SACK is off and every item marked
  lost is acknowledged.
\<close>

definition discard_ok :: "seq \<Rightarrow> tx_buffer \<Rightarrow> bool" where
  "discard_ok s b \<longleftrightarrow>
     list_all (\<lambda>t. \<not> (ti_sacked t \<and> seq_le (ti_startSeq t) s \<and> seq_lt s (ti_startSeq t + item_size t))) (tx_sentList b) \<or>
     \<not> tx_sackEnabled b \<and> list_all (\<lambda>t. ti_lost t \<longrightarrow> seq_le (ti_startSeq t + item_size t) s) (tx_sentList b)"

text \<open>The head selectively acknowledged gives its mark to another segment.\<close>

definition moved_sack :: "seq \<Rightarrow> tx_buffer \<Rightarrow> tx_buffer \<Rightarrow> bool" where
  "moved_sack s b b' \<longleftrightarrow> tx_core b' \<and> head_ok b' \<and> tx_content b' = tx_content b \<and> tx_firstByteSeq b' = tx_firstByteSeq b \<and>
     (\<forall>t\<in>set (tx_sentList b). ti_sacked t \<and> ti_startSeq t \<noteq> s \<longrightarrow> t \<in> set (tx_sentList b')) \<and>
     (tx_highestSack b' = tx_highestSack b \<or> (\<exists>t\<in>set (tx_sentList b'). ti_sacked t \<and> tx_highestSack b' = (Some (ti_id t), ti_startSeq t)))"

lemma move_sack:
  assumes core: "tx_core b" and b: "tx_sentList b = t # ts" "ti_sacked t" and ok: "\<not> tx_sackEnabled b" "\<forall>u\<in>set ts. \<not> ti_lost u"
  shows "\<exists>b'. AddRenoSack (b\<lparr>tx_sentList := t\<lparr>ti_sacked := False\<rparr> # ts, tx_sackedOut := tx_sackedOut b - item_size t\<rparr>) = Inr b' \<and>
    moved_sack (tx_firstByteSeq b) b (MarkHeadAsLost b')"
proof -
  let ?b = "b\<lparr>tx_sentList := t\<lparr>ti_sacked := False\<rparr> # ts, tx_sackedOut := tx_sackedOut b - item_size t\<rparr>"
  have start: "ti_startSeq t = tx_firstByteSeq b" using core by (simp add: tx_core_def b)
  have core1: "tx_core ?b" by (rule core_flags(1) [OF core]) (use core b in \<open>simp_all add: tx_core_def\<close>)
  have content1: "tx_content ?b = tx_content b" by (rule core_flags(2) [OF core]) (use core b in \<open>simp_all add: tx_core_def\<close>)
  have "reno_ok ?b"
  proof (cases "mark_first_unsacked ts")
    case (Some a)
    then show ?thesis using ok mark_first_unsacked_cases [of ts] by (cases a) (auto simp: reno_ok_def)
  qed (use ok in \<open>simp add: reno_ok_def\<close>)
  then obtain c l where c: "AddRenoSack ?b = Inr c" "tx_core c" "tx_content c = tx_content ?b" "tx_firstByteSeq c = tx_firstByteSeq ?b"
      "tx_sentList c = hd (tx_sentList ?b) # l" "\<forall>t\<in>set (tx_sentList ?b). ti_sacked t \<longrightarrow> t \<in> set (tx_sentList c)"
      "tx_highestSack c = tx_highestSack ?b \<or> (\<exists>t\<in>set (tl (tx_sentList c)). ti_sacked t \<and> tx_highestSack c = (Some (ti_id t), ti_startSeq t))"
    using AddRenoSack_core [OF core1] by blast
  note m = MarkHeadAsLost_core [OF c(2)]
  have tl: "tx_sentList (MarkHeadAsLost c) = t\<lparr>ti_sacked := False, ti_retrans := False, ti_lost := True\<rparr> # l"
    "tx_highestSack (MarkHeadAsLost c) = tx_highestSack c"
    using c(5) by (simp_all add: MarkHeadAsLost_def)
  have "\<forall>u\<in>set (tx_sentList b). ti_sacked u \<and> ti_startSeq u \<noteq> tx_firstByteSeq b \<longrightarrow> u \<in> set (tx_sentList (MarkHeadAsLost c))"
    using c(5,6) start unfolding tl b(1) by auto
  moreover have "tx_highestSack (MarkHeadAsLost c) = tx_highestSack b \<or>
      (\<exists>t\<in>set (tx_sentList (MarkHeadAsLost c)). ti_sacked t \<and> tx_highestSack (MarkHeadAsLost c) = (Some (ti_id t), ti_startSeq t))"
    using c(5,7) unfolding tl by auto
  ultimately have "moved_sack (tx_firstByteSeq b) b (MarkHeadAsLost c)"
    using m c(3,4) content1 unfolding moved_sack_def by simp
  then show ?thesis using c(1) by blast
qed

lemma finish_total:
  assumes inv: "tx_inv b" and d: "d \<le> length (tx_content b)" and ok: "discard_ok (tx_firstByteSeq b + of_nat d) b"
    and c: "shortened b d (cut_items d (tx_sentList b)) c"
  shows "\<exists>b'. discard_finish (tx_firstByteSeq b + of_nat d) c = Inr b' \<and> tx_inv b' \<and> tx_content b' = tx_content c \<and>
      tx_firstByteSeq b' = tx_firstByteSeq b + of_nat d"
proof -
  let ?s = "tx_firstByteSeq b + of_nat d" and ?l = "cut_items d (tx_sentList b)"
  note c = shortenedD [OF c]
  have core: "tx_core b" using inv by (simp add: tx_inv_def)
  have sent: "starts (tx_firstByteSeq b) (tx_sentList b)" "nonempty (tx_sentList b)" "tbytes (tx_sentList b) < 2 ^ 31"
    using core flagged_bound(1) [OF core] by (simp_all add: tx_core_def)
  have first: "(if tx_size c = 0 then c\<lparr>tx_firstByteSeq := ?s\<rparr> else c) = c" using c(4) by (simp add: tx_buffer.equality)
  obtain b1 where b1: "(case tx_sentList c of
             [] \<Rightarrow> Inr c
           | t # ts \<Rightarrow>
               bind_res (if ti_sacked t
                         then if ti_lost t then Inl Assert_Failed
                              else bind_res (AddRenoSack (c\<lparr>tx_sentList := t\<lparr>ti_sacked := False\<rparr> # ts,
                                       tx_sackedOut := tx_sackedOut c - item_size t\<rparr>)) (\<lambda>b. Inr (MarkHeadAsLost b))
                         else Inr c) (\<lambda>b.
                 if ti_startSeq t \<noteq> ?s then Inl Assert_Failed else Inr b)) = Inr b1"
      "moved_sack ?s c b1"
  proof (cases "tx_sentList c")
    case Nil
    then show ?thesis using that [of c] c(1) by (simp add: moved_sack_def head_ok_def)
  next
    case (Cons t ts)
    have start: "ti_startSeq t = ?s" using c(1,4) by (simp add: tx_core_def Cons)
    show ?thesis
    proof (cases "ti_sacked t")
      case False
      then show ?thesis using that [of c] c(1) Cons start by (simp add: moved_sack_def head_ok_def)
    next
      case True
      have l: "?l = t # ts" using c(2) Cons by simp
      have from_l: "\<exists>u\<in>set (tx_sentList b). ti_sacked u = ti_sacked v \<and> ti_lost u = ti_lost v \<and> seq_lt ?s (ti_startSeq u + item_size u) \<and>
          \<not> seq_le (ti_startSeq u + item_size u) ?s \<and> (v = t \<longrightarrow> seq_le (ti_startSeq u) ?s)" if "v \<in> set (t # ts)" for v
        using cut_from [of v d "tx_sentList b" "tx_firstByteSeq b" 0] that sent start unfolding l by auto
      then have not_first: "\<not> list_all (\<lambda>t. \<not> (ti_sacked t \<and> seq_le (ti_startSeq t) ?s \<and> seq_lt ?s (ti_startSeq t + item_size t))) (tx_sentList b)"
        using from_l [of t] True by (auto simp: list_all_iff)
      then have reno: "\<not> tx_sackEnabled b" "\<forall>u\<in>set (tx_sentList b). ti_lost u \<longrightarrow> seq_le (ti_startSeq u + item_size u) ?s"
        using ok by (auto simp: discard_ok_def list_all_iff)
      have lost: "\<not> ti_lost v" if "v \<in> set (t # ts)" for v using from_l [OF that] reno(2) by auto
      obtain c' where c': "AddRenoSack (c\<lparr>tx_sentList := t\<lparr>ti_sacked := False\<rparr> # ts, tx_sackedOut := tx_sackedOut c - item_size t\<rparr>) = Inr c'"
          "moved_sack (tx_firstByteSeq c) c (MarkHeadAsLost c')"
        using move_sack [OF c(1) Cons True] reno(1) lost c(6) by auto
      show ?thesis using that [of "MarkHeadAsLost c'"] c' True lost [of t] start c(4) Cons by simp
    qed
  qed
  note m = b1(2) [unfolded moved_sack_def]
  let ?b = "if seq_le (snd (tx_highestSack b1)) (tx_firstByteSeq b1) then b1\<lparr>tx_sackSeen := False, tx_highestSack := (None, 0)\<rparr> else b1"
  have core1: "tx_core b1" "head_ok b1" "tx_content b1 = tx_content c" "tx_firstByteSeq b1 = ?s" using m c(4) by simp_all
  have reset: "tx_core (b1\<lparr>tx_sackSeen := False, tx_highestSack := (None, 0)\<rparr>)" using core1(1) by (simp add: tx_core_def)
  have core': "tx_core ?b" using reset core1(1) by simp
  have core': "tx_core ?b" "head_ok ?b" "tx_content ?b = tx_content c" "tx_firstByteSeq ?b = ?s"
    using core' core1(2,3,4) by (simp_all add: head_ok_def)
  have "highest_ok ?b"
  proof (cases "seq_le (snd (tx_highestSack b1)) (tx_firstByteSeq b1)")
    case False
    show ?thesis
    proof (cases "tx_highestSack b1 = tx_highestSack c")
      case True
      have "\<exists>t\<in>set (tx_sentList b1). ti_id t = i \<and> ti_sacked t \<and> ti_startSeq t = snd (tx_highestSack b1)" if i: "fst (tx_highestSack b1) = Some i" for i
      proof -
        have hb: "tx_highestSack b1 = tx_highestSack b" using True c(5) by simp
        then obtain t where t: "t \<in> set (tx_sentList b)" "ti_id t = i" "ti_sacked t" "ti_startSeq t = snd (tx_highestSack b)"
          using inv i by (auto simp: tx_inv_def highest_ok_def)
        obtain pre post where split: "tx_sentList b = pre @ t # post" using t(1) by (meson split_list)
        have q: "ti_startSeq t = tx_firstByteSeq b + of_nat (tbytes pre)" "tbytes pre < 2 ^ 31" using sent by (simp_all add: split)
        have dsmall: "d < 2 ^ 31" using d flagged_bound(1) [OF core] by simp
        have "\<not> seq_le (ti_startSeq t) ?s" using False m c(4) t(4) hb by simp
        then have "d < tbytes pre" using pos_cmp(2) [OF q(2) dsmall, of "tx_firstByteSeq b"] q(1) by simp
        then have "t \<in> set ?l" using cut_highest [OF sent(1) t(1) q(1) sent(3) _ q(2) sent(2)] by simp
        moreover have "ti_startSeq t \<noteq> ?s" using pos_cmp(5) [OF q(2) dsmall, of "tx_firstByteSeq b"] q(1) \<open>d < tbytes pre\<close> by simp
        ultimately have "t \<in> set (tx_sentList b1)" using m t(3) c(2) by auto
        then show ?thesis using t hb by auto
      qed
      then show ?thesis using False by (simp add: highest_ok_def)
    next
      case changed: False
      then show ?thesis using m False by (auto simp: highest_ok_def)
    qed
  qed (simp add: highest_ok_def)
  then have inv': "tx_inv ?b" using core' by (simp add: tx_inv_def)
  have fit: "tx_sentSize ?b \<ge> tx_sackedOut ?b + tx_lostOut ?b" by (rule counts_fit [OF core'(1)])
  have ge: "seq_ge (tx_firstByteSeq ?b) ?s" using pos_cmp(4) [of 0 0 ?s] unfolding core'(4) by simp
  have "discard_finish ?s c = Inr ?b"
    unfolding discard_finish_def Let_def first b1(1) using fit ge by (simp only: bind_res_simps) simp
  then show ?thesis using inv' core'(3,4) by blast
qed

lemma discard_total:
  assumes inv: "tx_inv b" and d: "d \<le> length (tx_content b)" and ok: "discard_ok (tx_firstByteSeq b + of_nat d) b"
  shows "\<exists>ts b'. DiscardUpTo now (tx_firstByteSeq b + of_nat d) b = Inr (ts, b') \<and> tx_inv b' \<and> tx_content b' = drop d (tx_content b) \<and>
      tx_firstByteSeq b' = tx_firstByteSeq b + of_nat d"
proof -
  have core: "tx_core b" using inv by (simp add: tx_inv_def)
  have small: "d < 2 ^ 31" using d flagged_bound(1) [OF core] by simp
  show ?thesis
  proof (cases "d = 0")
    case True
    have "seq_ge (tx_firstByteSeq b) (tx_firstByteSeq b)" using pos_cmp(4) [of 0 0 "tx_firstByteSeq b"] by simp
    then show ?thesis using True inv by (simp add: DiscardUpTo_def)
  next
    case False
    have cmp: "\<not> seq_ge (tx_firstByteSeq b) (tx_firstByteSeq b + of_nat d)" "seq_diff (tx_firstByteSeq b + of_nat d) (tx_firstByteSeq b) = Inr (int d)"
      using pos_cmp(4) [of 0 d "tx_firstByteSeq b"] pos_cmp(6) [of d 0 "tx_firstByteSeq b"] small False by simp_all
    obtain ts c where loop: "discard_loop d now (of_nat d) b = Inr (ts, c)" "shortened b d (cut_items d (tx_sentList b)) c"
      using loop_total [OF core order_refl d] by blast
    obtain b' where fin: "discard_finish (tx_firstByteSeq b + of_nat d) c = Inr b'" "tx_inv b'" "tx_content b' = tx_content c"
        "tx_firstByteSeq b' = tx_firstByteSeq b + of_nat d"
      using finish_total [OF inv d ok loop(2)] by blast
    show ?thesis using cmp loop(1) fin shortenedD(3) [OF loop(2)] by (simp add: DiscardUpTo_def)
  qed
qed

end
