(* ===== verification/Tcp_Tx_Send.thy ===== *)
theory Tcp_Tx_Send
  imports Tcp_Tx_Discard
begin

text \<open>
  The send buffer under sequences of its operations, each taken under a condition (\<open>tx_allowed\<close>): the counters stay exact, the bytes of
  the stream stay in order, and no assertion fails. The conditions are assumptions of this theory about the caller, not facts about the
  socket: \<open>TcpSocketBase\<close> keeps the one on where a copy begins when it sends new data or a segment \<open>NextSeg\<close> chose, but it calls
  \<open>AddRenoSack\<close> without testing \<open>reno_ok\<close>, and it does not test \<open>discard_ok\<close> or the wrap-around of a copy. What happens outside
  the conditions is in \<open>reno_sack_on_lost\<close> (a counter that is no longer the sum of its items) and in the last result below (a null item).
\<close>

section \<open>Operations\<close>

datatype tx_op =
  Write bytes
| Copy int u32 seq
| Acknowledge int seq
| Selective "(seq \<times> seq) list"
| Duplicate
| Head_Lost
| Reset_Reno
| All_Lost bool
| Reset_Sent
| Reset_Last
| Head_Not_Retransmitted
| Configure u32 u32 bool

definition offset :: "seq \<Rightarrow> tx_buffer \<Rightarrow> nat" where
  "offset s b = unat (s - tx_firstByteSeq b)"

text \<open>
  The condition of each operation. \<open>Write\<close>: the packet is shorter than \<open>2 ^ 32\<close> bytes. \<open>Copy\<close> (\<open>copy_ok\<close>): at least one byte is asked for,
  from the first byte of an item sent and not selectively acknowledged or from the end of what has been sent, before the end of the data;
  and either the sequence numbers of the bytes held do not wrap around, or the request stays within what has been sent, or it begins at
  the end of that. \<open>Acknowledge\<close>: the number is at or below the head, or at most the end of the data with \<open>discard_ok\<close>, that is, no
  selectively acknowledged item contains it or begins at it, or SACK is off and every item marked lost ends at it or before. \<open>Selective\<close>:
  something has been sent and every block begins beyond the head. \<open>Duplicate\<close> (\<open>reno_ok\<close>): something has been sent (two items with SACK)
  and the item the duplicate acknowledgement is counted on is not marked lost. \<open>Reset_Last\<close>: the last item sent carries no mark.
\<close>

fun tx_allowed :: "tx_op \<Rightarrow> tx_buffer \<Rightarrow> bool" where
  "tx_allowed (Write p) b \<longleftrightarrow> int (length p) < 2 ^ 32"
| "tx_allowed (Copy now n s) b \<longleftrightarrow> copy_ok (offset s b) n b"
| "tx_allowed (Acknowledge now s) b \<longleftrightarrow> seq_ge (tx_firstByteSeq b) s \<or> offset s b \<le> unat (tx_size b) \<and> discard_ok s b"
| "tx_allowed (Selective blks) b \<longleftrightarrow> above_head b blks \<and> tx_sentList b \<noteq> []"
| "tx_allowed Duplicate b \<longleftrightarrow> reno_ok b"
| "tx_allowed Reset_Last b \<longleftrightarrow> tx_sentList b \<noteq> [] \<longrightarrow> clean (last (tx_sentList b))"
| "tx_allowed _ b \<longleftrightarrow> True"

fun tx_do :: "tx_op \<Rightarrow> tx_buffer \<Rightarrow> tx_buffer res" where
  "tx_do (Write p) b = Inr (snd (tx_Add p b))"
| "tx_do (Copy now n s) b = bind_res (CopyFromSequence now n s b) (\<lambda>(t, b). Inr b)"
| "tx_do (Acknowledge now s) b = bind_res (DiscardUpTo now s b) (\<lambda>(ts, b). Inr b)"
| "tx_do (Selective blks) b = bind_res (tx_Update blks b) (\<lambda>(n, cb, b). Inr b)"
| "tx_do Duplicate b = AddRenoSack b"
| "tx_do Head_Lost b = Inr (MarkHeadAsLost b)"
| "tx_do Reset_Reno b = Inr (ResetRenoSack b)"
| "tx_do (All_Lost r) b = SetSentListLost r b"
| "tx_do Reset_Sent b = Inr (ResetSentList b)"
| "tx_do Reset_Last b = Inr (ResetLastSegmentSent b)"
| "tx_do Head_Not_Retransmitted b = DeleteRetransmittedFlagFromHead b"
| "tx_do (Configure thresh seg sack) b = Inr (tx_SetSackEnabled sack (tx_SetSegmentSize seg (tx_SetDupAckThresh thresh b)))"

text \<open>The bytes an operation adds to the stream.\<close>

fun written :: "tx_op \<Rightarrow> tx_buffer \<Rightarrow> bytes" where
  "written (Write p) b = (if fst (tx_Add p b) then p else [])"
| "written _ b = []"

text \<open>\<open>tx_reach isn S k b\<close>: the buffer of a connection that began at \<open>isn\<close>, wrote \<open>S\<close> and had its first \<open>k\<close> bytes acknowledged.\<close>

inductive tx_reach :: "seq \<Rightarrow> bytes \<Rightarrow> nat \<Rightarrow> tx_buffer \<Rightarrow> bool" for isn :: seq where
  created: "unat mb < 2 ^ 31 \<Longrightarrow> tx_reach isn [] 0 (tx_SetMaxBufferSize mb (TcpTxBuffer isn))"
| stepped: "tx_reach isn S k b \<Longrightarrow> tx_allowed op b \<Longrightarrow> tx_do op b = Inr b' \<Longrightarrow>
    k' = k + unat (tx_firstByteSeq b' - tx_firstByteSeq b) \<Longrightarrow> tx_reach isn (S @ written op b) k' b'"

section \<open>One operation\<close>

lemma at_offset: "tx_firstByteSeq b + of_nat (offset s b) = s"
  by (simp add: offset_def)

lemma configure_inv:
  assumes "tx_inv b"
  shows "tx_inv (tx_SetSackEnabled sack (tx_SetSegmentSize seg (tx_SetDupAckThresh thresh b)))"
proof -
  let ?b = "tx_SetSackEnabled sack (tx_SetSegmentSize seg (tx_SetDupAckThresh thresh b))"
  have "tx_core ?b" "head_ok ?b" "highest_ok ?b"
    using assms by (simp_all add: tx_inv_def tx_core_def head_ok_def highest_ok_def tx_SetSackEnabled_def tx_SetSegmentSize_def tx_SetDupAckThresh_def)
  then show ?thesis by (simp add: tx_inv_def)
qed

definition kept :: "tx_buffer \<Rightarrow> tx_buffer \<Rightarrow> bool" where
  "kept b b' \<longleftrightarrow> tx_inv b' \<and> tx_content b' = tx_content b \<and> tx_firstByteSeq b' = tx_firstByteSeq b"

definition stepped_to :: "bytes \<Rightarrow> tx_buffer \<Rightarrow> tx_buffer \<Rightarrow> bool" where
  "stepped_to w b b' \<longleftrightarrow> tx_inv b' \<and> (\<exists>d. d \<le> length (tx_content b) \<and> tx_content b' = drop d (tx_content b) @ w \<and>
     tx_firstByteSeq b' = tx_firstByteSeq b + of_nat d)"

lemma kept_step: "kept b b' \<Longrightarrow> stepped_to [] b b'"
  unfolding kept_def stepped_to_def by (auto intro: exI [of _ 0])

lemma copy_step:
  assumes "tx_inv b" "copy_ok (offset s b) n b"
  shows "\<exists>t b'. CopyFromSequence now n s b = Inr (Some t, b') \<and> kept b b'"
  using copy_total [OF assms, of now] unfolding at_offset copied_def kept_def by blast

lemma acknowledge_step:
  assumes "tx_inv b" "tx_allowed (Acknowledge now s) b"
  shows "\<exists>ts b'. DiscardUpTo now s b = Inr (ts, b') \<and> stepped_to [] b b'"
proof (cases "seq_ge (tx_firstByteSeq b) s")
  case True
  have "stepped_to [] b b" using assms(1) by (intro kept_step) (simp add: kept_def)
  then show ?thesis using True by (simp add: DiscardUpTo_def)
next
  case False
  have core: "tx_core b" using assms(1) by (simp add: tx_inv_def)
  have d: "offset s b \<le> length (tx_content b)" "discard_ok (tx_firstByteSeq b + of_nat (offset s b)) b"
    using False assms(2) sizes_exact(1) [OF core] by (simp_all add: at_offset)
  show ?thesis
    using discard_total [OF assms(1) d, of now] d(1) unfolding stepped_to_def at_offset by (metis append_Nil2 at_offset)
qed

lemma op_step:
  assumes inv: "tx_inv b" and ok: "tx_allowed op b"
  shows "\<exists>b'. tx_do op b = Inr b' \<and> stepped_to (written op b) b b'"
proof (cases op)
  case (Write p)
  then show ?thesis using Add_inv [OF inv, of p] ok by (auto simp: stepped_to_def intro: exI [of _ 0])
next
  case (Copy now n s)
  then show ?thesis using copy_step [OF inv, of s n now] ok kept_step by auto
next
  case (Acknowledge now s)
  then show ?thesis using acknowledge_step [OF inv, of now s] ok by auto
next
  case (Selective blks)
  then have "above_head b blks" "tx_sentList b \<noteq> []" using ok by simp_all
  then show ?thesis using Update_inv [OF inv, of blks] kept_step Selective by (fastforce simp: kept_def)
next
  case Duplicate
  then show ?thesis using AddRenoSack_inv [OF inv] ok kept_step by (fastforce simp: kept_def)
next
  case Head_Lost
  then show ?thesis using MarkHeadAsLost_inv [OF inv] MarkHeadAsLost_core [of b] inv kept_step by (auto simp: kept_def tx_inv_def)
next
  case Reset_Reno
  then show ?thesis using ResetRenoSack_inv [OF inv] kept_step by (simp add: kept_def)
next
  case (All_Lost r)
  then show ?thesis using SetSentListLost_inv [OF inv, of r] kept_step by (fastforce simp: kept_def)
next
  case Reset_Sent
  then show ?thesis using ResetSentList_inv [OF inv] kept_step by (simp add: kept_def)
next
  case Reset_Last
  then show ?thesis using ResetLastSegmentSent_inv [OF inv] ok kept_step by (simp add: kept_def)
next
  case Head_Not_Retransmitted
  then show ?thesis using DeleteRetransmittedFlag_inv [OF inv] kept_step by (fastforce simp: kept_def)
next
  case (Configure thresh seg sack)
  have "kept b (tx_SetSackEnabled sack (tx_SetSegmentSize seg (tx_SetDupAckThresh thresh b)))"
    unfolding kept_def using configure_inv [OF inv]
    by (simp add: tx_SetSackEnabled_def tx_SetSegmentSize_def tx_SetDupAckThresh_def)
  then show ?thesis using kept_step Configure by simp
qed

section \<open>Reachable buffers\<close>

lemma reach_inv:
  assumes "tx_reach isn S k b"
  shows "tx_inv b \<and> k \<le> length S \<and> tx_content b = drop k S \<and> tx_firstByteSeq b = isn + of_nat k"
  using assms
proof (induction rule: tx_reach.induct)
  case (created mb)
  then show ?case using TcpTxBuffer_inv by (simp add: TcpTxBuffer_def tx_SetMaxBufferSize_def)
next
  case (stepped S k b op b' k')
  then have inv: "tx_inv b" and k: "k \<le> length S" "tx_content b = drop k S" "tx_firstByteSeq b = isn + of_nat k" by simp_all
  obtain d where d: "tx_inv b'" "d \<le> length (tx_content b)" "tx_content b' = drop d (tx_content b) @ written op b"
      "tx_firstByteSeq b' = tx_firstByteSeq b + of_nat d"
    using op_step [OF inv stepped.hyps(2)] stepped.hyps(3) by (auto simp: stepped_to_def)
  have core: "tx_core b" using inv by (simp add: tx_inv_def)
  have small: "d < 2 ^ 31" using d(2) flagged_bound(1) [OF core] by simp
  have k': "k' = k + d" using stepped.hyps(4) d(4) small_unat [OF small] by simp
  have le: "k + d \<le> length S" using d(2) k by (simp del: item_bytes_simps)
  have "tx_content b' = drop k' (S @ written op b)" unfolding d(3) k(2) k' using le by (simp add: add.commute)
  then show ?case using d(1,4) k(3) le k' by (simp add: add.assoc)
qed

text \<open>A list of operations, each allowed where it is taken.\<close>

fun tx_run :: "tx_op list \<Rightarrow> bytes \<times> nat \<times> tx_buffer \<Rightarrow> (bytes \<times> nat \<times> tx_buffer) option" where
  "tx_run [] st = Some st"
| "tx_run (op # ops) (S, k, b) =
     (if \<not> tx_allowed op b then None
      else case tx_do op b of
        Inl e \<Rightarrow> None
      | Inr b' \<Rightarrow> tx_run ops (S @ written op b, k + unat (tx_firstByteSeq b' - tx_firstByteSeq b), b'))"

lemma run_reach: "tx_reach isn S k b \<Longrightarrow> tx_run ops (S, k, b) = Some (S', k', b') \<Longrightarrow> tx_reach isn S' k' b'"
proof (induction ops arbitrary: S k b)
  case (Cons op ops)
  then obtain c where "tx_allowed op b" "tx_do op b = Inr c"
      "tx_run ops (S @ written op b, k + unat (tx_firstByteSeq c - tx_firstByteSeq b), c) = Some (S', k', b')"
    by (auto split: if_splits sum.splits)
  then show ?case using Cons.IH tx_reach.stepped [OF Cons.prems(1)] by blast
qed simp

lemma run_created:
  "unat mb < 2 ^ 31 \<Longrightarrow> tx_run ops ([], 0, tx_SetMaxBufferSize mb (TcpTxBuffer isn)) = Some (S, k, b) \<Longrightarrow> tx_reach isn S k b"
  by (rule run_reach [OF tx_reach.created])

section \<open>Properties\<close>

lemma counter_sum: "sum_list (map item_size (filter P l)) = of_nat (flagged P l)"
  by (induction l) auto

lemma core_consistent: "tx_core b \<Longrightarrow> ConsistencyCheck b"
  by (simp add: ConsistencyCheck_def counter_sum tx_core_def)

lemma in_flight:
  assumes core: "tx_core b"
  shows "\<exists>n. BytesInFlight b = Inr n \<and>
    unat n + flagged ti_sacked (tx_sentList b) + flagged ti_lost (tx_sentList b) = tbytes (tx_sentList b) + flagged ti_retrans (tx_sentList b)"
proof -
  note z = sizes_exact [OF core]
  have small: "flagged P (tx_sentList b) < 2 ^ 31" "tbytes (tx_sentList b) < 2 ^ 31" for P
    using flagged_bound [OF core] by auto
  have fit: "flagged ti_sacked (tx_sentList b) + flagged ti_lost (tx_sentList b) \<le> tbytes (tx_sentList b)" by (rule flags_fit [OF core])
  have two: "unat (tx_sackedOut b + tx_lostOut b) = flagged ti_sacked (tx_sentList b) + flagged ti_lost (tx_sentList b)"
    using z(3,4) small(1) [of ti_sacked] small(1) [of ti_lost] by (simp add: unat_word_ariths)
  have rest: "unat (tx_sentSize b - (tx_sackedOut b + tx_lostOut b)) =
      tbytes (tx_sentList b) - (flagged ti_sacked (tx_sentList b) + flagged ti_lost (tx_sentList b))"
    using counts_fit [OF core] z(2) two by (simp add: unat_sub)
  have "unat (tx_sentSize b - (tx_sackedOut b + tx_lostOut b) + tx_retrans b) =
      tbytes (tx_sentList b) - (flagged ti_sacked (tx_sentList b) + flagged ti_lost (tx_sentList b)) + flagged ti_retrans (tx_sentList b)"
    using rest z(5) small(1) [of ti_retrans] small(2) by (simp add: unat_word_ariths)
  then show ?thesis using counts_fit [OF core] fit by (simp add: BytesInFlight_def)
qed

text \<open>
  C22: Take a buffer of less than \<open>2 ^ 31\<close> bytes and any sequence of operations each of which meets its condition \<open>tx_allowed\<close> when it is
  taken: writes of less than \<open>2 ^ 32\<close> bytes, copies under \<open>copy_ok\<close>, acknowledgements up to the end of the data under \<open>discard_ok\<close>,
  selective acknowledgements of blocks beyond the head, duplicate acknowledgements under \<open>reno_ok\<close> (which the socket does not test),
  resets of a last segment without marks, and the unconditional marking and resetting operations. Then the check of consistency holds, the
  bytes in flight are those sent less those lost or selectively acknowledged plus those sent again, the sizes are exact, the bytes held
  are those of the stream not yet acknowledged, and no operation that meets its condition fails an assertion.
\<close>

theorem tx_buffer_consistent:
  assumes "tx_reach isn S k b"
  shows "ConsistencyCheck b \<and>
    (\<exists>n. BytesInFlight b = Inr n \<and>
      unat n + flagged ti_sacked (tx_sentList b) + flagged ti_lost (tx_sentList b) = tbytes (tx_sentList b) + flagged ti_retrans (tx_sentList b)) \<and>
    unat (tx_size b) = length S - k \<and> unat (tx_sentSize b) = tbytes (tx_sentList b) \<and>
    tx_firstByteSeq b = isn + of_nat k \<and> tx_content b = drop k S \<and>
    (\<forall>op. tx_allowed op b \<longrightarrow> (\<exists>b'. tx_do op b = Inr b'))"
proof -
  have r: "tx_inv b" "tx_content b = drop k S" "tx_firstByteSeq b = isn + of_nat k" using reach_inv [OF assms] by simp_all
  have core: "tx_core b" using r(1) by (simp add: tx_inv_def)
  have "unat (tx_size b) = length S - k" using sizes_exact(1) [OF core] unfolding r(2) by simp
  then show ?thesis
    using core_consistent [OF core] in_flight [OF core] sizes_exact(2) [OF core] r op_step [OF r(1)] by blast
qed

text \<open>A run across the wrap-around of the sequence numbers, with a loss, a selective acknowledgement and a retransmission.\<close>

definition lossy_ops :: "tx_op list" where
  "lossy_ops = [Configure 3 2 True, Write [1, 2, 3, 4, 5, 6], Copy 0 2 0xfffffffe, Copy 1 2 0, Copy 2 2 2, Selective [(2, 4)], Head_Lost,
     Write [7], Copy 3 2 0xfffffffe, Acknowledge 4 0xffffffff]"

lemma lossy_run:
  "case tx_run lossy_ops ([], 0, tx_SetMaxBufferSize 100 (TcpTxBuffer 0xfffffffe)) of None \<Rightarrow> False
   | Some (S, k, b) \<Rightarrow> S = [1, 2, 3, 4, 5, 6, 7] \<and> k = 1 \<and> copy_ok (offset 0 b) 4 b \<and> offset 0 b = 1 \<and> discard_ok 1 b \<and>
       BytesInFlight b = Inr 3 \<and> map ti_packet (tx_sentList b) = [[2], [3, 4], [5, 6]]"
  by code_simp

lemma lossy_reach:
  obtains b where "tx_reach 0xfffffffe [1, 2, 3, 4, 5, 6, 7] 1 b" "copy_ok (offset 0 b) 4 b" "offset 0 b = 1" "discard_ok 1 b"
    "BytesInFlight b = Inr 3" "map ti_packet (tx_sentList b) = [[2], [3, 4], [5, 6]]"
proof -
  obtain S k b where run: "tx_run lossy_ops ([], 0, tx_SetMaxBufferSize 100 (TcpTxBuffer 0xfffffffe)) = Some (S, k, b)"
    using lossy_run by (cases "tx_run lossy_ops ([], 0, tx_SetMaxBufferSize 100 (TcpTxBuffer 0xfffffffe))") auto
  note b = lossy_run [unfolded run option.case prod.case]
  have "tx_reach 0xfffffffe S k b" by (rule run_created [OF _ run]) simp
  then show thesis using that [of b] b by blast
qed

theorem tx_buffer_consistent_witness:
  "\<exists>b. tx_reach 0xfffffffe [1, 2, 3, 4, 5, 6, 7] 1 b \<and> ConsistencyCheck b \<and> BytesInFlight b = Inr 3 \<and> unat (tx_size b) = 6 \<and>
     tx_content b = [2, 3, 4, 5, 6, 7] \<and> (\<exists>b'. tx_do (Copy 5 4 0) b = Inr b')"
proof -
  obtain b where b: "tx_reach 0xfffffffe [1, 2, 3, 4, 5, 6, 7] 1 b" "copy_ok (offset 0 b) 4 b" "BytesInFlight b = Inr 3"
    using lossy_reach by metis
  have "tx_allowed (Copy 5 4 0) b" using b(2) by simp
  moreover note c = tx_buffer_consistent [OF b(1)]
  ultimately have "\<exists>b'. tx_do (Copy 5 4 0) b = Inr b'" by blast
  moreover have "tx_content b = [2, 3, 4, 5, 6, 7]" "unat (tx_size b) = 6" "ConsistencyCheck b" using c by simp_all
  ultimately show ?thesis using b(1,3) by blast
qed

text \<open>
  C23: In such a buffer, a copy under \<open>copy_ok\<close> returns a segment that begins at the sequence number asked for and holds exactly the
  bytes of the stream at that place: at least one byte, at most those asked for, and, when the data is new, all of those asked for that
  have been written. Nothing is lost from the buffer. \<open>copy_ok\<close>: at least one byte is asked for and held there; the copy begins at the
  first byte of an item that is not selectively acknowledged or at the end of what has been sent; and the sequence numbers of the
  bytes held do not wrap around, or the request stays within what has been sent, or it is for new data only. Without the last condition the
  result is false, as the failure at the wrap-around below shows.
\<close>

theorem tx_copy_exact:
  assumes "tx_reach isn S k b" "copy_ok (offset s b) n b"
  shows "\<exists>t b'. CopyFromSequence now n s b = Inr (Some t, b') \<and> ti_startSeq t = s \<and> t \<in> set (tx_sentList b') \<and>
    0 < length (ti_packet t) \<and> length (ti_packet t) \<le> unat n \<and>
    ti_packet t = take (length (ti_packet t)) (drop (k + offset s b) S) \<and> tx_content b' = tx_content b \<and>
    (tbytes (tx_sentList b) \<le> offset s b \<longrightarrow> length (ti_packet t) = min (unat n) (length S - (k + offset s b)) \<and>
       tx_sentList b' = tx_sentList b @ [t])"
proof -
  have r: "tx_inv b" "tx_content b = drop k S" using reach_inv [OF assms(1)] by simp_all
  obtain t b' where t: "CopyFromSequence now n s b = Inr (Some t, b')" "tx_content b' = tx_content b" "ti_startSeq t = s"
      "0 < length (ti_packet t)" "length (ti_packet t) \<le> min (unat n) (length (tx_content b) - offset s b)" "t \<in> set (tx_sentList b')"
      "ti_packet t = take (length (ti_packet t)) (drop (offset s b) (tx_content b))"
      "tbytes (tx_sentList b) \<le> offset s b \<longrightarrow>
         length (ti_packet t) = min (unat n) (length (tx_content b) - offset s b) \<and> tx_sentList b' = tx_sentList b @ [t]"
    using copy_total [OF r(1) assms(2), of now] unfolding copied_def at_offset by blast
  have "ti_packet t = take (length (ti_packet t)) (drop (k + offset s b) S)" using t(7) unfolding r(2) by (simp add: add.commute)
  moreover have "length (tx_content b) - offset s b = length S - (k + offset s b)" unfolding r(2) by simp
  ultimately show ?thesis using t(1-6,8) by (intro exI [of _ t] exI [of _ b']) simp
qed

theorem tx_copy_exact_witness:
  "\<exists>b t b'. tx_reach 0xfffffffe [1, 2, 3, 4, 5, 6, 7] 1 b \<and> CopyFromSequence 5 4 0 b = Inr (Some t, b') \<and> ti_startSeq t = 0 \<and>
     ti_packet t = take (length (ti_packet t)) [3, 4, 5, 6, 7] \<and> ti_packet t \<noteq> []"
proof -
  obtain b where b: "tx_reach 0xfffffffe [1, 2, 3, 4, 5, 6, 7] 1 b" "copy_ok (offset 0 b) 4 b" "offset 0 b = 1"
    using lossy_reach by metis
  then show ?thesis using tx_copy_exact [OF b(1,2), of 5] by (fastforce simp: b(3))
qed

text \<open>
  C24: In such a buffer, an acknowledgement of bytes written, at the head or beyond it, removes exactly the bytes it acknowledges and leaves
  a buffer of the same kind, provided \<open>discard_ok\<close> holds: no selectively acknowledged item begins at the acknowledged number or
  contains it, or SACK is off and every item marked lost ends at that number or before. It may end inside an item that is not selectively
  acknowledged. An acknowledgement that stops at or inside a selectively acknowledged item with SACK enabled, where the code moves the
  mark by \<open>AddRenoSack\<close>, is not covered.
\<close>

theorem tx_acknowledge_exact:
  assumes "tx_reach isn S k b" "k \<le> k'" "k' \<le> length S" "discard_ok (isn + of_nat k') b"
  shows "\<exists>ts b'. DiscardUpTo now (isn + of_nat k') b = Inr (ts, b') \<and> tx_firstByteSeq b' = isn + of_nat k' \<and>
    tx_content b' = drop k' S \<and> tx_reach isn S k' b'"
proof -
  have r: "tx_inv b" "tx_content b = drop k S" "tx_firstByteSeq b = isn + of_nat k" using reach_inv [OF assms(1)] by simp_all
  have core: "tx_core b" using r(1) by (simp add: tx_inv_def)
  let ?d = "k' - k"
  have s: "tx_firstByteSeq b + of_nat ?d = isn + of_nat k'" using assms(2) r(3) by (simp add: of_nat_diff)
  have d: "?d \<le> length (tx_content b)" unfolding r(2) using assms(3) by simp
  have small: "?d < 2 ^ 31" using d flagged_bound(1) [OF core] by simp
  obtain ts b' where b': "DiscardUpTo now (isn + of_nat k') b = Inr (ts, b')" "tx_content b' = drop ?d (tx_content b)"
      "tx_firstByteSeq b' = isn + of_nat k'"
    using discard_total [OF r(1) d, of now] assms(4) unfolding s by blast
  have off: "offset (isn + of_nat k') b = ?d" 
  proof -
    have "isn + of_nat k' - tx_firstByteSeq b = of_nat ?d" unfolding s [symmetric] by simp
    then show ?thesis using small_unat [OF small] by (simp only: offset_def)
  qed
  have "tx_content b' = drop k' S" unfolding b'(2) r(2) using assms(2) by simp
  moreover have "tx_reach isn (S @ written (Acknowledge now (isn + of_nat k')) b) k' b'"
  proof (rule tx_reach.stepped [OF assms(1)])
    show "tx_allowed (Acknowledge now (isn + of_nat k')) b" using off d assms(4) sizes_exact(1) [OF core] by simp
    show "tx_do (Acknowledge now (isn + of_nat k')) b = Inr b'" using b'(1) by simp
    show "k' = k + unat (tx_firstByteSeq b' - tx_firstByteSeq b)" using off assms(2) unfolding b'(3) offset_def by simp
  qed
  ultimately show ?thesis using b'(1,3) by simp
qed

theorem tx_acknowledge_exact_witness:
  "\<exists>b ts b'. tx_reach 0xfffffffe [1, 2, 3, 4, 5, 6, 7] 1 b \<and> map ti_packet (tx_sentList b) = [[2], [3, 4], [5, 6]] \<and>
     DiscardUpTo 5 1 b = Inr (ts, b') \<and> tx_content b' = [4, 5, 6, 7] \<and> tx_reach 0xfffffffe [1, 2, 3, 4, 5, 6, 7] 3 b'"
proof -
  obtain b where b: "tx_reach 0xfffffffe [1, 2, 3, 4, 5, 6, 7] 1 b" "discard_ok 1 b" "map ti_packet (tx_sentList b) = [[2], [3, 4], [5, 6]]"
    using lossy_reach by metis
  have s: "0xfffffffe + of_nat 3 = (1 :: u32)" by simp
  have "\<exists>ts b'. DiscardUpTo 5 1 b = Inr (ts, b') \<and> tx_firstByteSeq b' = 1 \<and> tx_content b' = drop 3 [1, 2, 3, 4, 5, 6, 7] \<and>
      tx_reach 0xfffffffe [1, 2, 3, 4, 5, 6, 7] 3 b'"
    by (rule tx_acknowledge_exact [OF b(1), of 3 5, unfolded s]) (use b(2) in simp_all)
  moreover have "drop 3 [1, 2, 3, 4, 5, 6, 7] = [4, 5, 6, 7 :: u8]" by simp
  ultimately show ?thesis using b(1,3) by metis
qed

lemma raw_wrap:
  fixes s :: u32
  assumes "a < m" "m < 2 ^ 31" "2 ^ 32 \<le> unat s + m"
  shows "\<not> (s + of_nat a > s \<and> s + of_nat a < s + of_nat m)"
proof -
  have u: "unat (of_nat a :: u32) = a" "unat (of_nat m :: u32) = m" using assms small_unat [of a] small_unat [of m] by simp_all
  have b: "unat s < 2 ^ 32" by (rule unat_u32_less)
  have sm: "unat (s + of_nat m) = unat s + m - 2 ^ 32"
    using assms(2,3) b u(2) by (simp add: unat_word_ariths mod_if)
  show ?thesis
  proof (cases "unat s + a < 2 ^ 32")
    case True
    then have "unat (s + of_nat a) = unat s + a" using u(1) by (simp add: unat_word_ariths)
    then have "unat (s + of_nat m) < unat (s + of_nat a)" using sm assms(2,3) b by simp
    then show ?thesis by (simp add: word_less_nat_alt)
  next
    case False
    then have "unat (s + of_nat a) = unat s + a - 2 ^ 32" using u(1) b assms(1,2) by (simp add: unat_word_ariths mod_if)
    then have "unat (s + of_nat a) < unat s" using False b assms(1,2) by simp
    then show ?thesis by (simp add: word_less_nat_alt)
  qed
qed

text \<open>
  C25: A copy that begins in what has been sent, ends beyond it and reaches the wrap-around of the sequence numbers takes none of the
  three branches of the code, which compare raw 32-bit numbers, and dereferences a null item.
\<close>

theorem tx_copy_fails_at_wrap:
  assumes "tx_reach isn S k b" and inside: "offset s b < tbytes (tx_sentList b)"
    and beyond: "tbytes (tx_sentList b) < offset s b + min (unat n) (length S - (k + offset s b))"
    and wrap: "2 ^ 32 \<le> unat s + min (unat n) (length S - (k + offset s b))"
  shows "CopyFromSequence now n s b = Inl Undefined_Behaviour"
proof -
  have r: "tx_inv b" "tx_content b = drop k S" using reach_inv [OF assms(1)] by simp_all
  have core: "tx_core b" using r(1) by (simp add: tx_inv_def)
  let ?f = "tx_firstByteSeq b" and ?p = "offset s b" and ?S = "tbytes (tx_sentList b)" and ?L = "length (tx_content b)"
  let ?m = "min (unat n) (?L - ?p)"
  have L: "length S - (k + ?p) = ?L - ?p" unfolding r(2) by simp
  note beyond = beyond [unfolded L] and wrap = wrap [unfolded L]
  have small: "?L < 2 ^ 31" "?p < 2 ^ 31" "?S < 2 ^ 31" "?p + ?m < 2 ^ 31" "?p \<le> ?L" "?m < 2 ^ 31"
    using flagged_bound(1) [OF core] inside by auto
  have s: "s = ?f + of_nat ?p" by (simp add: at_offset)
  have m: "min n (of_nat (?L - ?p)) = of_nat ?m" "(of_nat ?m :: u32) \<noteq> 0"
    using inside beyond small_unat [of "?L - ?p"] small_unat [OF small(6)] small(1)
    by (auto simp: min_def word_le_nat_alt unat_eq_0 [symmetric] split: if_splits)
  have sent: "?f + tx_sentSize b = ?f + of_nat ?S" using core by (simp add: tx_core_def)
  have cmp: "\<not> seq_gt ?f s" "\<not> seq_ge (?f + of_nat ?S) (s + of_nat ?m)" "\<not> seq_le (?f + of_nat ?S) s"
  proof -
    have sm: "s + of_nat ?m = ?f + of_nat (?p + ?m)" by (subst s) (simp only: of_nat_add add.assoc)
    show "\<not> seq_gt ?f s" using pos_cmp(3) [of 0 ?p ?f] small(2) by (subst s) simp
    show "\<not> seq_ge (?f + of_nat ?S) (s + of_nat ?m)" using pos_cmp(4) [OF small(3,4), of ?f] beyond unfolding sm by linarith
    show "\<not> seq_le (?f + of_nat ?S) s" using pos_cmp(2) [OF small(3,2), of ?f] inside by (subst s) linarith
  qed
  have "?f + of_nat ?S = (?f + of_nat ?p) + of_nat (?S - ?p)" using inside by (simp add: of_nat_diff)
  then have eq: "?f + of_nat ?S = s + of_nat (?S - ?p)" by (simp only: at_offset)
  have "?S - ?p < ?m" using inside beyond by linarith
  then have raw: "\<not> (?f + of_nat ?S > s \<and> ?f + of_nat ?S < s + of_nat ?m)"
    unfolding eq using small(6) wrap by (rule raw_wrap)
  have "SizeFromSequence s b = Inr (of_nat (?L - ?p))" using size_from [OF core small(5)] by (simp only: at_offset)
  then show ?thesis using cmp m raw by (subst CopyFromSequence.simps) (simp add: sent Let_def, blast)
qed

definition wrap_ops :: "tx_op list" where
  "wrap_ops = [Write [1, 2, 3, 4, 5, 6, 7, 8, 9, 10, 11, 12, 13, 14, 15, 16], Copy 0 3 0xfffffffa, Copy 1 7 0xfffffffd]"

lemma wrap_run:
  "case tx_run wrap_ops ([], 0, tx_SetMaxBufferSize 100 (TcpTxBuffer 0xfffffffa)) of None \<Rightarrow> False
   | Some (S, k, b) \<Rightarrow> S = [1, 2, 3, 4, 5, 6, 7, 8, 9, 10, 11, 12, 13, 14, 15, 16] \<and> k = 0 \<and> offset 0xfffffffd b = 3 \<and> tbytes (tx_sentList b) = 10"
  by code_simp

theorem tx_copy_fails_at_wrap_witness:
  "\<exists>b. tx_reach 0xfffffffa [1, 2, 3, 4, 5, 6, 7, 8, 9, 10, 11, 12, 13, 14, 15, 16] 0 b \<and>
     CopyFromSequence 2 12 0xfffffffd b = Inl Undefined_Behaviour"
proof -
  obtain S k b where run: "tx_run wrap_ops ([], 0, tx_SetMaxBufferSize 100 (TcpTxBuffer 0xfffffffa)) = Some (S, k, b)"
    using wrap_run by (cases "tx_run wrap_ops ([], 0, tx_SetMaxBufferSize 100 (TcpTxBuffer 0xfffffffa))") auto
  note b = wrap_run [unfolded run option.case prod.case]
  have r: "tx_reach 0xfffffffa S k b" by (rule run_created [OF _ run]) simp
  have "CopyFromSequence 2 12 0xfffffffd b = Inl Undefined_Behaviour"
    by (rule tx_copy_fails_at_wrap [OF r]) (use b in simp_all)
  then show ?thesis using r b by metis
qed

section \<open>Why the conditions are there\<close>

text \<open>
  A duplicate acknowledgement counted on a segment that is marked lost makes the bytes lost and selectively acknowledged exceed those
  sent, and the assertion of \<^verbatim>\<open>BytesInFlight\<close> fails.
\<close>

lemma reno_sack_on_lost:
  "case tx_run [Configure 3 2 False, Write [1, 2, 3, 4, 5, 6], Copy 0 6 10, Head_Lost, Copy 1 2 10]
       ([], 0, tx_SetMaxBufferSize 100 (TcpTxBuffer 10)) of
     None \<Rightarrow> False
   | Some (S, k, b) \<Rightarrow> \<not> reno_ok b \<and> (case AddRenoSack b of Inl e \<Rightarrow> False | Inr b' \<Rightarrow> BytesInFlight b' = Inl Assert_Failed)"
  by code_simp

text \<open>Taking back the last segment sent when it is marked lost leaves its bytes in \<^verbatim>\<open>m_lostOut\<close>.\<close>

lemma reset_last_keeps_lost:
  "case tx_run [Configure 3 2 True, Write [1, 2, 3, 4], Copy 0 4 10, Head_Lost] ([], 0, tx_SetMaxBufferSize 100 (TcpTxBuffer 10)) of
     None \<Rightarrow> False
   | Some (S, k, b) \<Rightarrow> \<not> ConsistencyCheck (ResetLastSegmentSent b) \<and> BytesInFlight (ResetLastSegmentSent b) = Inl Assert_Failed"
  by code_simp

end
