(* ===== verification/Calendar_Scheduler.thy ===== *)
theory Calendar_Scheduler
  imports List_Scheduler
begin

text \<open>
  \<^verbatim>\<open>src/src/core/model/calendar-scheduler.cc\<close>, class \<^verbatim>\<open>CalendarScheduler\<close>: events hashed by their time into an array of
  buckets, each a sorted list, a scan over the array that starts at the bucket of the last event, and resizing with a bucket
  width estimated from the next events. The function pointers that \<^verbatim>\<open>SetReverse\<close> installs are functions of \<^verbatim>\<open>m_reverse\<close>.
  \<open>Calendar_Contract\<close> shows that the scheduler meets the whole scheduler contract in both storage orders.
\<close>

section \<open>State\<close>

record calendar =
  cal_buckets :: "event list list"
  cal_nBuckets :: u32
  cal_width :: u64
  cal_lastBucket :: u32
  cal_bucketTop :: u64
  cal_lastPrio :: u64
  cal_qSize :: u32
  cal_reverse :: bool

definition cal_NextEvent :: "bool \<Rightarrow> event list \<Rightarrow> event" where
  "cal_NextEvent reverse bucket = (if reverse then last bucket else hd bucket)"

definition cal_Order :: "bool \<Rightarrow> event_key \<Rightarrow> event_key \<Rightarrow> bool" where
  "cal_Order reverse a b \<longleftrightarrow> (if reverse then key_greater a b else key_less a b)"

definition cal_Pop :: "bool \<Rightarrow> event list \<Rightarrow> event list" where
  "cal_Pop reverse bucket = (if reverse then butlast bucket else tl bucket)"

section \<open>Hashing and inserting\<close>

definition cal_Hash :: "calendar \<Rightarrow> u64 \<Rightarrow> u32 res" where
  "cal_Hash c t =
     (if cal_width c = 0 \<or> cal_nBuckets c = 0 then Inl Undefined_Behaviour
      else Inr (ucast (t div cal_width c mod ucast (cal_nBuckets c))))"

definition cal_bucket :: "calendar \<Rightarrow> u32 \<Rightarrow> event list res" where
  "cal_bucket c i = (if unat i < length (cal_buckets c) then Inr (cal_buckets c ! unat i) else Inl Undefined_Behaviour)"

definition cal_Init :: "u32 \<Rightarrow> u64 \<Rightarrow> u64 \<Rightarrow> calendar \<Rightarrow> calendar res" where
  "cal_Init nBuckets width startPrio c =
     (let c = c\<lparr>cal_buckets := replicate (unat nBuckets) [], cal_nBuckets := nBuckets, cal_width := width, cal_lastPrio := startPrio\<rparr>
      in bind_res (cal_Hash c startPrio) (\<lambda>b.
           Inr (c\<lparr>cal_lastBucket := b, cal_bucketTop := (startPrio div width + 1) * width\<rparr>)))"

definition CalendarScheduler :: "bool \<Rightarrow> calendar res" where
  "CalendarScheduler reverse =
     cal_Init 2 1 0 \<lparr>cal_buckets = [], cal_nBuckets = 0, cal_width = 0, cal_lastBucket = 0, cal_bucketTop = 0, cal_lastPrio = 0,
       cal_qSize = 0, cal_reverse = reverse\<rparr>"

fun bucket_insert :: "bool \<Rightarrow> event \<Rightarrow> event list \<Rightarrow> event list" where
  "bucket_insert reverse ev [] = [ev]"
| "bucket_insert reverse ev (i # is) =
     (if cal_Order reverse (key ev) (key i) then ev # i # is else i # bucket_insert reverse ev is)"

definition cal_DoInsert :: "event \<Rightarrow> calendar \<Rightarrow> calendar res" where
  "cal_DoInsert ev c =
     bind_res (cal_Hash c (ts ev)) (\<lambda>bucket.
     bind_res (cal_bucket c bucket) (\<lambda>l.
       Inr (c\<lparr>cal_buckets := (cal_buckets c)[unat bucket := bucket_insert (cal_reverse c) ev l]\<rparr>)))"

fun cal_insert_all :: "event list \<Rightarrow> calendar \<Rightarrow> calendar res" where
  "cal_insert_all [] c = Inr c"
| "cal_insert_all (e # es) c = bind_res (cal_DoInsert e c) (cal_insert_all es)"

definition cal_IsEmpty :: "calendar \<Rightarrow> bool" where
  "cal_IsEmpty c \<longleftrightarrow> cal_qSize c = 0"

section \<open>Finding the next event\<close>

text \<open>
  The loop of \<^verbatim>\<open>PeekNext\<close> and of \<^verbatim>\<open>DoRemoveNext\<close>, which differ in what they keep of an event that is not due in the
  current round: it ends with an event that is due, its bucket and the top of the bucket, or with what was kept. The first
  argument bounds the number of rounds by the number of buckets; a loop that does not come back to
  \<^verbatim>\<open>m_lastBucket\<close> by then never does.
\<close>

datatype 'a scan = Found event u32 u64 | Ended 'a

fun cal_scan :: "nat \<Rightarrow> calendar \<Rightarrow> (event \<Rightarrow> u32 \<Rightarrow> 'a \<Rightarrow> 'a) \<Rightarrow> u32 \<Rightarrow> u64 \<Rightarrow> 'a \<Rightarrow> 'a scan res" where
  "cal_scan 0 c keep i bucketTop acc = Inl Undefined_Behaviour"
| "cal_scan (Suc n) c keep i bucketTop acc =
     bind_res (cal_bucket c i) (\<lambda>l.
       if l \<noteq> [] \<and> ts (cal_NextEvent (cal_reverse c) l) < bucketTop
       then Inr (Found (cal_NextEvent (cal_reverse c) l) i bucketTop)
       else let acc = (if l \<noteq> [] then keep (cal_NextEvent (cal_reverse c) l) i acc else acc);
                i' = (i + 1) mod cal_nBuckets c
            in if i' \<noteq> cal_lastBucket c then cal_scan n c keep i' (bucketTop + cal_width c) acc else Inr (Ended acc))"

definition keep_event :: "event \<Rightarrow> u32 \<Rightarrow> event \<Rightarrow> event" where
  "keep_event next i minEvent = (if key next < key minEvent then next else minEvent)"

definition cal_PeekNext :: "calendar \<Rightarrow> event res" where
  "cal_PeekNext c =
     (if cal_IsEmpty c then Inl Assert_Failed
      else bind_res (cal_scan (unat (cal_nBuckets c)) c keep_event (cal_lastBucket c) (cal_bucketTop c)
             (Event 0 (EventKey 0xffffffffffffffff 0xffffffff 0)))
             (\<lambda>r. Inr (case r of Found next i t \<Rightarrow> next | Ended minEvent \<Rightarrow> minEvent)))"

definition keep_key :: "event \<Rightarrow> u32 \<Rightarrow> event_key \<times> u32 option \<Rightarrow> event_key \<times> u32 option" where
  "keep_key next i m = (if key next < fst m then (key next, Some i) else m)"

definition cal_take :: "u32 \<Rightarrow> calendar \<Rightarrow> (event \<times> calendar) res" where
  "cal_take i c =
     bind_res (cal_bucket c i) (\<lambda>l.
       if l = [] then Inl Undefined_Behaviour
       else Inr (cal_NextEvent (cal_reverse c) l, c\<lparr>cal_buckets := (cal_buckets c)[unat i := cal_Pop (cal_reverse c) l]\<rparr>))"

definition cal_DoRemoveNext :: "calendar \<Rightarrow> (event \<times> calendar) res" where
  "cal_DoRemoveNext c =
     (if cal_IsEmpty c then Inl Assert_Failed
      else bind_res (cal_scan (unat (cal_nBuckets c)) c keep_key (cal_lastBucket c) (cal_bucketTop c)
             (EventKey 0xffffffffffffffff 0 0xffffffff, None))
             (\<lambda>r. case r of
                Found next i bucketTop \<Rightarrow>
                  cal_take i (c\<lparr>cal_lastBucket := i, cal_lastPrio := ts next, cal_bucketTop := bucketTop\<rparr>)
              | Ended (minKey, minBucket) \<Rightarrow>
                  bind_res (cal_Hash c (m_ts minKey)) (\<lambda>b.
                    case minBucket of
                      None \<Rightarrow> Inl Undefined_Behaviour
                    | Some i \<Rightarrow> cal_take i (c\<lparr>cal_lastPrio := m_ts minKey, cal_lastBucket := b,
                        cal_bucketTop := (m_ts minKey div cal_width c + 1) * cal_width c\<rparr>))))"

section \<open>Resizing\<close>

fun cal_samples :: "nat \<Rightarrow> calendar \<Rightarrow> (event list \<times> calendar) res" where
  "cal_samples 0 c = Inr ([], c)"
| "cal_samples (Suc n) c =
     bind_res (cal_DoRemoveNext c) (\<lambda>(e, c). bind_res (cal_samples n c) (\<lambda>(es, c). Inr (e # es, c)))"

fun separations :: "event list \<Rightarrow> u64 list" where
  "separations (cur # next # es) = (ts next - ts cur) # separations (next # es)"
| "separations es = []"

definition sample_count :: "u32 \<Rightarrow> u32" where
  "sample_count qSize = (let n = (if qSize \<le> 5 then qSize else 5 + qSize div 10) in if n > 25 then 25 else n)"

definition width_of_samples :: "u32 \<Rightarrow> event list \<Rightarrow> u64" where
  "width_of_samples nSamples samples =
     (let diffs = separations samples;
          twiceAvg = sum_list diffs div ucast (nSamples - 1) * 2
      in max (sum_list (filter (\<lambda>d. d \<le> twiceAvg) diffs) * 3) 1)"

definition CalculateNewWidth :: "calendar \<Rightarrow> (u64 \<times> calendar) res" where
  "CalculateNewWidth c =
     (if cal_qSize c < 2 then Inr (1, c)
      else let nSamples = sample_count (cal_qSize c)
           in bind_res (cal_samples (unat nSamples) c) (\<lambda>(samples, c1).
              bind_res (cal_insert_all samples c1) (\<lambda>c2.
                Inr (width_of_samples nSamples samples,
                     c2\<lparr>cal_lastBucket := cal_lastBucket c, cal_bucketTop := cal_bucketTop c, cal_lastPrio := cal_lastPrio c\<rparr>))))"

definition cal_DoResize :: "u32 \<Rightarrow> u64 \<Rightarrow> calendar \<Rightarrow> calendar res" where
  "cal_DoResize newSize newWidth c =
     bind_res (cal_Init newSize newWidth (cal_lastPrio c) c) (cal_insert_all (concat (cal_buckets c)))"

definition cal_Resize :: "u32 \<Rightarrow> calendar \<Rightarrow> calendar res" where
  "cal_Resize newSize c = bind_res (CalculateNewWidth c) (\<lambda>(w, c). cal_DoResize newSize w c)"

definition ResizeUp :: "calendar \<Rightarrow> calendar res" where
  "ResizeUp c =
     (if cal_qSize c > cal_nBuckets c * 2 \<and> cal_nBuckets c < 32768 then cal_Resize (cal_nBuckets c * 2) c else Inr c)"

definition ResizeDown :: "calendar \<Rightarrow> calendar res" where
  "ResizeDown c = (if cal_qSize c < cal_nBuckets c div 2 then cal_Resize (cal_nBuckets c div 2) c else Inr c)"

section \<open>Operations\<close>

definition cal_Insert :: "event \<Rightarrow> calendar \<Rightarrow> calendar res" where
  "cal_Insert ev c = bind_res (cal_DoInsert ev c) (\<lambda>c. ResizeUp (c\<lparr>cal_qSize := cal_qSize c + 1\<rparr>))"

definition cal_RemoveNext :: "calendar \<Rightarrow> (event \<times> calendar) res" where
  "cal_RemoveNext c =
     (if cal_IsEmpty c then Inl Assert_Failed
      else bind_res (cal_DoRemoveNext c) (\<lambda>(ev, c).
           bind_res (ResizeDown (c\<lparr>cal_qSize := cal_qSize c - 1\<rparr>)) (\<lambda>c. Inr (ev, c))))"

definition cal_Remove :: "event \<Rightarrow> calendar \<Rightarrow> calendar res" where
  "cal_Remove ev c =
     (if cal_IsEmpty c then Inl Assert_Failed
      else bind_res (cal_Hash c (ts ev)) (\<lambda>bucket.
           bind_res (cal_bucket c bucket) (\<lambda>l.
           bind_res (list_Remove ev l) (\<lambda>l.
             ResizeDown (c\<lparr>cal_buckets := (cal_buckets c)[unat bucket := l], cal_qSize := cal_qSize c - 1\<rparr>)))))"

definition cal_ops :: "calendar sched_ops" where
  "cal_ops = \<lparr>Insert = cal_Insert, IsEmpty = cal_IsEmpty, PeekNext = cal_PeekNext, RemoveNext = cal_RemoveNext, Remove = cal_Remove\<rparr>"

end
