(* ===== verification/Calendar_Contract.thy ===== *)
theory Calendar_Contract
  imports Calendar_Scheduler
begin

text \<open>
  The calendar scheduler is correct: the structure of its buckets, the scan that finds the next event also where the tops
  of the buckets wrap around 64 bits, the operations with their resizing, and the interpretation of the scheduler contract.
\<close>

section \<open>Structure\<close>


definition cal_events :: "calendar \<Rightarrow> event set" where
  "cal_events c = (\<Union>l\<in>set (cal_buckets c). set l)"

text \<open>The round of the calendar in which a time falls, and its bucket.\<close>

definition day :: "calendar \<Rightarrow> u64 \<Rightarrow> nat" where
  "day c t = unat t div unat (cal_width c)"

definition slot :: "calendar \<Rightarrow> u64 \<Rightarrow> nat" where
  "slot c t = day c t mod unat (cal_nBuckets c)"

definition bucket_sorted :: "bool \<Rightarrow> event list \<Rightarrow> bool" where
  "bucket_sorted r l \<longleftrightarrow> sorted_wrt (<) (if r then rev l else l)"

definition cal_struct :: "calendar \<Rightarrow> bool" where
  "cal_struct c \<longleftrightarrow> cal_width c \<noteq> 0 \<and> 0 < unat (cal_nBuckets c) \<and> unat (cal_nBuckets c) \<le> 65536 \<and>
     length (cal_buckets c) = unat (cal_nBuckets c) \<and>
     (\<forall>i<length (cal_buckets c). bucket_sorted (cal_reverse c) (cal_buckets c ! i) \<and>
        (\<forall>e\<in>set (cal_buckets c ! i). slot c (ts e) = i)) \<and>
     inj_on uid (cal_events c) \<and> (\<forall>e\<in>cal_events c. event_ok e)"

definition cal_pos :: "calendar \<Rightarrow> bool" where
  "cal_pos c \<longleftrightarrow> (\<forall>e\<in>cal_events c. cal_lastPrio c \<le> ts e) \<and> unat (cal_lastBucket c) = slot c (cal_lastPrio c) \<and>
     cal_bucketTop c = (cal_lastPrio c div cal_width c + 1) * cal_width c"

definition cal_inv :: "calendar \<Rightarrow> bool" where
  "cal_inv c \<longleftrightarrow> cal_struct c \<and> cal_pos c \<and> unat (cal_qSize c) = card (cal_events c)"

lemma cal_structD:
  assumes "cal_struct c"
  shows "cal_width c \<noteq> 0" "0 < unat (cal_nBuckets c)" "unat (cal_nBuckets c) \<le> 65536"
    "length (cal_buckets c) = unat (cal_nBuckets c)" "inj_on uid (cal_events c)" "e \<in> cal_events c \<Longrightarrow> event_ok e"
    "i < unat (cal_nBuckets c) \<Longrightarrow> bucket_sorted (cal_reverse c) (cal_buckets c ! i)"
    "i < unat (cal_nBuckets c) \<Longrightarrow> e \<in> set (cal_buckets c ! i) \<Longrightarrow> slot c (ts e) = i"
  using assms by (auto simp: cal_struct_def)

lemma finite_cal_events [simp]: "finite (cal_events c)"
  by (simp add: cal_events_def)

lemma cal_events_nth: "e \<in> cal_events c \<longleftrightarrow> (\<exists>j<length (cal_buckets c). e \<in> set (cal_buckets c ! j))"
  unfolding cal_events_def by (metis UN_iff in_set_conv_nth)

lemma cal_events_slot:
  assumes "cal_struct c"
  shows "e \<in> cal_events c \<longleftrightarrow> e \<in> set (cal_buckets c ! slot c (ts e))"
proof
  have n: "slot c (ts e) < length (cal_buckets c)" using cal_structD [OF assms] by (simp add: slot_def)
  show "e \<in> set (cal_buckets c ! slot c (ts e)) \<Longrightarrow> e \<in> cal_events c" using n by (auto simp: cal_events_def)
  show "e \<in> cal_events c \<Longrightarrow> e \<in> set (cal_buckets c ! slot c (ts e))"
    using assms unfolding cal_events_nth cal_struct_def by metis
qed

lemma unat_ucast64: "unat (ucast (x :: u32) :: u64) = unat x"
  using unat_u32_less [of x] by (simp add: unsigned_ucast_eq take_bit_nat_eq_self)

lemma cal_Hash_ok:
  assumes "cal_width c \<noteq> 0" "0 < unat (cal_nBuckets c)"
  shows "\<exists>b. cal_Hash c t = Inr b \<and> unat b = slot c t"
proof -
  have "unat (t div cal_width c mod ucast (cal_nBuckets c)) = slot c t"
    by (simp add: slot_def day_def unat_div unat_mod unat_ucast64)
  moreover have "slot c t < 2 ^ 32"
    unfolding slot_def by (rule less_trans [OF mod_less_divisor [OF assms(2)] unat_u32_less])
  moreover have "cal_nBuckets c \<noteq> 0" using assms(2) by auto
  ultimately show ?thesis using assms(1) by (simp add: cal_Hash_def unsigned_ucast_eq take_bit_nat_eq_self)
qed

subsection \<open>Buckets\<close>

lemma set_bucket_insert [simp]: "set (bucket_insert r e l) = insert e (set l)"
  by (induction l) auto

lemma sorted_bucket_insert:
  assumes "bucket_sorted r l" "uid e \<notin> uid ` set l"
  shows "bucket_sorted r (bucket_insert r e l)"
proof (cases r)
  case False
  have "bucket_insert False e l = list_Insert e l" by (induction l) (auto simp: cal_Order_def less_event_key_def)
  then show ?thesis using assms False sorted_list_Insert by (simp add: bucket_sorted_def)
next
  case True
  have "sorted_wrt (\<lambda>x y. y < x) l \<Longrightarrow> uid e \<notin> uid ` set l \<Longrightarrow> sorted_wrt (\<lambda>x y. y < x) (bucket_insert True e l)"
  proof (induction l)
    case (Cons i l)
    show ?case
    proof (cases "key i < key e")
      case True
      then have "i < e" by (simp add: less_event_def)
      then show ?thesis using True Cons.prems by (auto simp: cal_Order_def key_greater_iff intro: less_trans)
    next
      case False
      then have "e \<le> i" by (simp add: less_eq_event_def key_not_less)
      then have "e < i" using Cons.prems(2) less_of_neq_uid [of e i] by fastforce
      then show ?thesis using False Cons by (auto simp: cal_Order_def key_greater_iff)
    qed
  qed simp
  then show ?thesis using assms True by (simp add: bucket_sorted_def sorted_wrt_rev)
qed

lemma bucket_next:
  assumes "bucket_sorted r l" "l \<noteq> []"
  shows "least_event (set l) (cal_NextEvent r l) \<and> bucket_sorted r (cal_Pop r l) \<and> set (cal_Pop r l) = set l - {cal_NextEvent r l}"
proof -
  define m where "m = (if r then rev l else l)"
  have m: "m \<noteq> []" "sorted_wrt (<) m" "set m = set l" using assms by (auto simp: m_def bucket_sorted_def)
  have nx: "cal_NextEvent r l = hd m" "set (cal_Pop r l) = set (tl m)" "bucket_sorted r (cal_Pop r l) = sorted_wrt (<) (tl m)"
    using assms(2) set_rev [of "butlast l"] butlast_rev [of "rev l"]
    by (auto simp: m_def cal_NextEvent_def cal_Pop_def bucket_sorted_def hd_rev simp del: set_rev)
  show ?thesis unfolding nx using m(1,2) unfolding m(3) [symmetric]
    by (cases m) (auto simp: least_event_def intro: less_imp_le)
qed

lemma list_Remove_bucket:
  assumes "bucket_sorted r l" "inj_on uid (set l)" "e \<in> set l"
  shows "\<exists>l'. list_Remove e l = Inr l' \<and> bucket_sorted r l' \<and> set l' = set l - {e}"
proof -
  have "sorted_wrt (<) xs \<Longrightarrow> distinct xs" for xs :: "event list" by (induction xs) auto
  then have "distinct (if r then rev l else l)" using assms(1) unfolding bucket_sorted_def by blast
  then have d: "distinct l" by (auto split: if_splits)
  then have "list_Remove e l = Inr (remove1 e l)" using assms(2,3) list_Remove_eq by (simp add: distinct_map)
  moreover have "bucket_sorted r (remove1 e l)"
    using assms(1) sorted_wrt_remove1 by (auto simp: bucket_sorted_def sorted_wrt_rev split: if_splits)
  ultimately show ?thesis using d by (simp add: set_remove1_distinct)
qed


subsection \<open>Changing a bucket\<close>

text \<open>Operations that replace one bucket keep the structure when the new list is sorted and holds events of that bucket.\<close>

lemma cal_events_update:
  assumes "cal_struct c" "i < unat (cal_nBuckets c)" "\<forall>e\<in>set l. slot c (ts e) = i"
  shows "e \<in> cal_events (c\<lparr>cal_buckets := (cal_buckets c)[i := l]\<rparr>) \<longleftrightarrow>
    (if slot c (ts e) = i then e \<in> set l else e \<in> cal_events c)"
proof -
  have n: "length (cal_buckets c) = unat (cal_nBuckets c)" using assms(1) by (rule cal_structD)
  have s: "slot c (ts e) < length (cal_buckets c)" using cal_structD [OF assms(1)] by (simp add: slot_def)
  have "e \<in> cal_events (c\<lparr>cal_buckets := (cal_buckets c)[i := l]\<rparr>) \<longleftrightarrow> (\<exists>j<length (cal_buckets c). e \<in> set ((cal_buckets c)[i := l] ! j))"
    unfolding cal_events_nth by simp
  also have "\<dots> \<longleftrightarrow> e \<in> set ((cal_buckets c)[i := l] ! slot c (ts e))"
  proof
    assume "\<exists>j<length (cal_buckets c). e \<in> set ((cal_buckets c)[i := l] ! j)"
    then obtain j where j: "j < length (cal_buckets c)" "e \<in> set ((cal_buckets c)[i := l] ! j)" by blast
    then have "slot c (ts e) = j" using assms n cal_structD(8) [OF assms(1)] by (cases "j = i") auto
    then show "e \<in> set ((cal_buckets c)[i := l] ! slot c (ts e))" using j by simp
  qed (use s in blast)
  also have "\<dots> \<longleftrightarrow> (if slot c (ts e) = i then e \<in> set l else e \<in> set (cal_buckets c ! slot c (ts e)))"
    using assms(2) n by (auto simp: nth_list_update)
  finally show ?thesis using cal_events_slot [OF assms(1), of e] by simp
qed

lemma cal_struct_update:
  assumes c: "cal_struct c" and i: "i < unat (cal_nBuckets c)" and l: "bucket_sorted (cal_reverse c) l" "\<forall>e\<in>set l. slot c (ts e) = i"
    and new: "inj_on uid (cal_events (c\<lparr>cal_buckets := (cal_buckets c)[i := l]\<rparr>))" "\<forall>e\<in>set l. event_ok e"
  shows "cal_struct (c\<lparr>cal_buckets := (cal_buckets c)[i := l]\<rparr>)"
proof -
  let ?c = "c\<lparr>cal_buckets := (cal_buckets c)[i := l]\<rparr>"
  have slot: "slot ?c = slot c" by (simp add: slot_def day_def fun_eq_iff)
  have "\<forall>e\<in>cal_events ?c. event_ok e"
    using cal_events_update [OF c i l(2)] new(2) cal_structD(6) [OF c] by (auto split: if_splits)
  moreover have "bucket_sorted (cal_reverse c) ((cal_buckets c)[i := l] ! j) \<and> (\<forall>e\<in>set ((cal_buckets c)[i := l] ! j). slot c (ts e) = j)"
    if "j < length (cal_buckets c)" for j
    using that l i cal_structD [OF c] by (cases "j = i") auto
  ultimately show ?thesis using new(1) cal_structD(1-4) [OF c] slot by (simp add: cal_struct_def)
qed

lemma cal_DoInsert_ok:
  assumes c: "cal_struct c" and e: "uid e \<notin> uid ` cal_events c" "event_ok e"
  shows "\<exists>bs. cal_DoInsert e c = Inr (c\<lparr>cal_buckets := bs\<rparr>) \<and> cal_struct (c\<lparr>cal_buckets := bs\<rparr>) \<and>
    cal_events (c\<lparr>cal_buckets := bs\<rparr>) = insert e (cal_events c)"
proof -
  let ?i = "slot c (ts e)"
  let ?l = "bucket_insert (cal_reverse c) e (cal_buckets c ! ?i)"
  obtain b where b: "cal_Hash c (ts e) = Inr b" "unat b = ?i" using cal_Hash_ok cal_structD [OF c] by blast
  have i: "?i < unat (cal_nBuckets c)" using cal_structD(2) [OF c] by (simp add: slot_def)
  have sub: "set (cal_buckets c ! ?i) \<subseteq> cal_events c" using i cal_structD(4) [OF c] by (auto simp: cal_events_nth)
  have l: "bucket_sorted (cal_reverse c) ?l" "\<forall>x\<in>set ?l. slot c (ts x) = ?i"
    using sorted_bucket_insert [OF cal_structD(7) [OF c i]] e(1) sub cal_structD(8) [OF c i] by auto
  have ev: "cal_events (c\<lparr>cal_buckets := (cal_buckets c)[?i := ?l]\<rparr>) = insert e (cal_events c)"
    using cal_events_update [OF c i l(2)] cal_events_slot [OF c] by (auto split: if_splits)
  have "cal_struct (c\<lparr>cal_buckets := (cal_buckets c)[?i := ?l]\<rparr>)"
    using e sub cal_structD(5,6) [OF c] by (intro cal_struct_update [OF c i l]) (auto simp: ev)
  moreover have "cal_DoInsert e c = Inr (c\<lparr>cal_buckets := (cal_buckets c)[?i := ?l]\<rparr>)"
    using b i cal_structD(4) [OF c] by (simp add: cal_DoInsert_def cal_bucket_def)
  ultimately show ?thesis using ev by blast
qed

lemma cal_drop_ok:
  assumes c: "cal_struct c" and e: "e \<in> cal_events c" and i: "i = slot c (ts e)"
    and l: "bucket_sorted (cal_reverse c) l" "set l = set (cal_buckets c ! i) - {e}"
  shows "cal_struct (c\<lparr>cal_buckets := (cal_buckets c)[i := l]\<rparr>)"
    "cal_events (c\<lparr>cal_buckets := (cal_buckets c)[i := l]\<rparr>) = cal_events c - {e}"
proof -
  have n: "i < unat (cal_nBuckets c)" using cal_structD(2) [OF c] i by (simp add: slot_def)
  have s: "\<forall>x\<in>set l. slot c (ts x) = i" using cal_structD(8) [OF c n] l(2) by simp
  show ev: "cal_events (c\<lparr>cal_buckets := (cal_buckets c)[i := l]\<rparr>) = cal_events c - {e}"
  proof (rule set_eqI)
    fix x show "x \<in> cal_events (c\<lparr>cal_buckets := (cal_buckets c)[i := l]\<rparr>) \<longleftrightarrow> x \<in> cal_events c - {e}"
    proof (cases "slot c (ts x) = i")
      case True
      then show ?thesis using cal_events_update [OF c n s, of x] cal_events_slot [OF c, of x] by (simp add: l(2))
    next
      case False
      then have "x \<noteq> e" using i by auto
      then show ?thesis using False cal_events_update [OF c n s, of x] by simp
    qed
  qed
  have "set (cal_buckets c ! i) \<subseteq> cal_events c" using n cal_structD(4) [OF c] by (auto simp: cal_events_nth)
  then have "set l \<subseteq> cal_events c" using l(2) by blast
  then show "cal_struct (c\<lparr>cal_buckets := (cal_buckets c)[i := l]\<rparr>)"
    using cal_structD(5,6) [OF c] by (intro cal_struct_update [OF c n l(1) s]) (auto simp: ev intro: inj_on_subset)
qed


section \<open>The scan\<close>

text \<open>
  The bucket that step \<open>k\<close> of the scan looks at, the head event of a bucket, and what the loop keeps over the steps
  when nothing is due.
\<close>

definition cal_heads :: "calendar \<Rightarrow> nat \<Rightarrow> (event \<times> nat) list" where
  "cal_heads c k = (let i = (day c (cal_lastPrio c) + k) mod unat (cal_nBuckets c); l = cal_buckets c ! i
     in if l = [] then [] else [(cal_NextEvent (cal_reverse c) l, i)])"

definition step_top :: "calendar \<Rightarrow> nat \<Rightarrow> nat" where
  "step_top c k = (day c (cal_lastPrio c) + k + 1) * unat (cal_width c)"

lemma cal_head_least:
  assumes c: "cal_struct c" and h: "(h, i) \<in> set (cal_heads c k)"
  shows "i = (day c (cal_lastPrio c) + k) mod unat (cal_nBuckets c)" "h = cal_NextEvent (cal_reverse c) (cal_buckets c ! i)"
    "cal_buckets c ! i \<noteq> []" "h \<in> cal_events c" "slot c (ts h) = i" "e \<in> cal_events c \<Longrightarrow> slot c (ts e) = i \<Longrightarrow> h \<le> e"
proof -
  show i: "i = (day c (cal_lastPrio c) + k) mod unat (cal_nBuckets c)"
    and hd: "h = cal_NextEvent (cal_reverse c) (cal_buckets c ! i)" and ne: "cal_buckets c ! i \<noteq> []"
    using h by (auto simp: cal_heads_def Let_def split: if_splits)
  have n: "i < unat (cal_nBuckets c)" using cal_structD(2) [OF c] i by simp
  have least: "least_event (set (cal_buckets c ! i)) h" using bucket_next [OF cal_structD(7) [OF c n] ne] hd by simp
  then show "h \<in> cal_events c" "slot c (ts h) = i"
    using n cal_structD(4,8) [OF c] by (auto simp: least_event_def cal_events_nth)
  show "e \<in> cal_events c \<Longrightarrow> slot c (ts e) = i \<Longrightarrow> h \<le> e"
    using least cal_events_slot [OF c, of e] by (auto simp: least_event_def)
qed

lemma unat_u64_less: "unat (w :: u64) < 2 ^ 64"
  using unsigned_less [of w, where 'a = nat] by simp

lemma day_le: "a \<le> b \<Longrightarrow> day c a \<le> day c b"
  by (simp add: day_def word_le_nat_alt div_le_mono)

lemma same_residue:
  fixes d y k n :: nat
  assumes "y \<le> d" "d mod n = (y + k) mod n" "k < n"
  shows "d = y + k \<or> y + k + n \<le> d"
proof -
  consider "d = y + k" | "d < y + k" | "y + k < d" by linarith
  then show ?thesis
  proof cases
    case 2
    then have "n dvd y + k - d" using assms(2) mod_eq_dvd_iff_nat [of d "y + k" n] by simp
    then have "n \<le> y + k - d" using 2 by (intro dvd_imp_le) auto
    then show ?thesis using assms 2 by linarith
  next
    case 3
    then have "n dvd d - (y + k)" using assms(2) mod_eq_dvd_iff_nat [of "y + k" d n] by simp
    then have "n \<le> d - (y + k)" using 3 by (intro dvd_imp_le) auto
    then show ?thesis using 3 by linarith
  qed simp
qed

lemma day_bounds:
  assumes "cal_width c \<noteq> 0"
  shows "day c t * unat (cal_width c) \<le> unat t" "unat t < (day c t + 1) * unat (cal_width c)"
proof -
  have "0 < unat (cal_width c)" using assms by (simp add: unat_gt_0)
  then show "day c t * unat (cal_width c) \<le> unat t" "unat t < (day c t + 1) * unat (cal_width c)"
    by (simp_all add: day_def) (metis dividend_less_div_times add.commute)
qed

lemma less_word_of_nat:
  "unat (w :: u64) < n \<Longrightarrow> n < 2 ^ 64 \<Longrightarrow> w < of_nat n" "w < of_nat n \<Longrightarrow> n \<le> unat w \<Longrightarrow> False"
  using unat_u64_less [of w] by (auto simp: word_less_nat_alt unat_of_nat take_bit_nat_eq_self)

text \<open>The head of the bucket of step \<open>k\<close> is found due only when it falls in the round of that step, and is passed over
  although it does only when the top of the bucket exceeds 64 bits.\<close>

lemma due_day:
  assumes c: "cal_struct c" and pos: "\<forall>e\<in>cal_events c. cal_lastPrio c \<le> ts e" and k: "k < unat (cal_nBuckets c)"
    and h: "(h, i) \<in> set (cal_heads c k)"
  shows "ts h < of_nat (step_top c k) \<Longrightarrow> day c (ts h) = day c (cal_lastPrio c) + k"
    "\<not> ts h < of_nat (step_top c k) \<Longrightarrow> day c (ts h) = day c (cal_lastPrio c) + k \<Longrightarrow> 2 ^ 64 \<le> step_top c k"
proof -
  let ?y = "day c (cal_lastPrio c)"
  note hd = cal_head_least [OF c h]
  have "?y \<le> day c (ts h)" using pos hd(4) by (intro day_le) auto
  moreover have "day c (ts h) mod unat (cal_nBuckets c) = (?y + k) mod unat (cal_nBuckets c)" using hd(1,5) by (simp add: slot_def)
  ultimately have d: "day c (ts h) = ?y + k \<or> ?y + k + unat (cal_nBuckets c) \<le> day c (ts h)" using k by (rule same_residue)
  have w: "cal_width c \<noteq> 0" using c by (rule cal_structD)
  {
    assume t: "ts h < of_nat (step_top c k)" and "day c (ts h) \<noteq> ?y + k"
    then have "?y + k + 1 \<le> day c (ts h)" using d k by linarith
    then have "step_top c k \<le> day c (ts h) * unat (cal_width c)" unfolding step_top_def by (rule mult_le_mono1)
    also have "\<dots> \<le> unat (ts h)" by (rule day_bounds [OF w])
    finally have False using less_word_of_nat(2) [OF t] by blast
  }
  then show "ts h < of_nat (step_top c k) \<Longrightarrow> day c (ts h) = ?y + k" by blast
  assume "\<not> ts h < of_nat (step_top c k)" "day c (ts h) = ?y + k"
  moreover have "unat (ts h) < step_top c k" using day_bounds(2) [OF w, of "ts h"] calculation(2) by (simp add: step_top_def)
  ultimately show "2 ^ 64 \<le> step_top c k" using less_word_of_nat(1) by (meson not_le)
qed


lemma due_least:
  assumes c: "cal_struct c" and pos: "\<forall>e\<in>cal_events c. cal_lastPrio c \<le> ts e"
    and passed: "\<forall>j<k. \<forall>e\<in>cal_events c. day c (ts e) = day c (cal_lastPrio c) + j \<longrightarrow> 2 ^ 64 \<le> step_top c j"
    and h: "(h, i) \<in> set (cal_heads c k)" and d: "day c (ts h) = day c (cal_lastPrio c) + k"
  shows "least_event (cal_events c) h"
proof -
  let ?y = "day c (cal_lastPrio c)" and ?W = "unat (cal_width c)"
  note hd = cal_head_least [OF c h]
  have w: "cal_width c \<noteq> 0" using c by (rule cal_structD)
  have "h \<le> e" if e: "e \<in> cal_events c" for e
  proof -
    have ge: "?y \<le> day c (ts e)" using pos e by (intro day_le) auto
    consider "day c (ts e) < ?y + k" | "day c (ts e) = ?y + k" | "?y + k < day c (ts e)" by linarith
    then show ?thesis
    proof cases
      case 1
      then obtain j where j: "day c (ts e) = ?y + j" "j < k" using ge by (metis le_add_diff_inverse nat_add_left_cancel_less)
      then have "2 ^ 64 \<le> step_top c j" using passed e by blast
      also have "\<dots> \<le> day c (ts h) * ?W" unfolding step_top_def d using j(2) by (intro mult_le_mono1) simp
      also have "\<dots> \<le> unat (ts h)" by (rule day_bounds [OF w])
      finally show ?thesis using unat_u64_less [of "ts h"] by simp
    next
      case 2
      then have "slot c (ts e) = i" using hd(1) by (simp add: slot_def)
      then show ?thesis using hd(6) e by blast
    next
      case 3
      have "unat (ts h) < (day c (ts h) + 1) * ?W" by (rule day_bounds [OF w])
      also have "\<dots> \<le> day c (ts e) * ?W" using 3 d by (intro mult_le_mono1) simp
      also have "\<dots> \<le> unat (ts e)" by (rule day_bounds [OF w])
      finally have "h < e" by (intro event_less_ts) (simp add: word_less_nat_alt)
      then show ?thesis by (rule less_imp_le)
    qed
  qed
  then show ?thesis using hd(4) by (simp add: least_event_def)
qed

lemma passed_day:
  assumes c: "cal_struct c" and pos: "\<forall>e\<in>cal_events c. cal_lastPrio c \<le> ts e" and k: "k < unat (cal_nBuckets c)"
    and not_due: "\<forall>(h, i)\<in>set (cal_heads c k). \<not> ts h < of_nat (step_top c k)"
    and e: "e \<in> cal_events c" "day c (ts e) = day c (cal_lastPrio c) + k"
  shows "2 ^ 64 \<le> step_top c k"
proof -
  let ?y = "day c (cal_lastPrio c)" and ?n = "unat (cal_nBuckets c)"
  let ?i = "(?y + k) mod ?n"
  have "e \<in> set (cal_buckets c ! ?i)" using cal_events_slot [OF c, of e] e by (simp add: slot_def)
  then have "cal_heads c k = [(cal_NextEvent (cal_reverse c) (cal_buckets c ! ?i), ?i)]" by (auto simp: cal_heads_def Let_def)
  then obtain h where h: "(h, ?i) \<in> set (cal_heads c k)" by simp
  note hd = cal_head_least [OF c h]
  have "?y \<le> day c (ts h)" using pos hd(4) by (intro day_le) auto
  moreover have "day c (ts h) mod ?n = (?y + k) mod ?n" using hd(5) by (simp add: slot_def)
  moreover have "day c (ts h) \<le> ?y + k"
    using hd(6) [OF e(1)] e(2) day_le [OF event_le_ts, of h e c] by (simp add: slot_def)
  ultimately have "day c (ts h) = ?y + k" using same_residue [of ?y "day c (ts h)" ?n k] k by linarith
  then show ?thesis using due_day(2) [OF c pos k h] not_due h by blast
qed


definition keep_heads :: "(event \<Rightarrow> u32 \<Rightarrow> 'a \<Rightarrow> 'a) \<Rightarrow> (event \<times> nat) list \<Rightarrow> 'a \<Rightarrow> 'a" where
  "keep_heads keep hs acc = foldl (\<lambda>a (h, i). keep h (of_nat i) a) acc hs"

lemma keep_heads_simps [simp]:
  "keep_heads keep [] acc = acc" "keep_heads keep ((h, i) # hs) acc = keep_heads keep hs (keep h (of_nat i) acc)"
  "keep_heads keep (hs @ hs') acc = keep_heads keep hs' (keep_heads keep hs acc)"
  by (simp_all add: keep_heads_def)

lemma unat_of_small: "i \<le> 131072 \<Longrightarrow> unat (of_nat i :: u32) = i"
  by (simp add: unat_of_nat take_bit_nat_eq_self)

lemma next_bucket:
  assumes c: "cal_struct c" "cal_pos c" and k: "k < unat (cal_nBuckets c)"
  defines "y \<equiv> day c (cal_lastPrio c)" and "n \<equiv> unat (cal_nBuckets c)"
  shows "(of_nat ((y + k) mod n) + 1) mod cal_nBuckets c = of_nat ((y + Suc k) mod n)"
    "of_nat ((y + Suc k) mod n) = cal_lastBucket c \<longleftrightarrow> Suc k = n"
    "of_nat (step_top c k) + cal_width c = of_nat (step_top c (Suc k))"
proof -
  have n: "0 < n" "n \<le> 65536" using cal_structD(2,3) [OF c(1)] by (auto simp: n_def)
  have small: "(x mod n) \<le> 131072" for x using n mod_less_divisor [OF n(1), of x] by linarith
  have "of_nat ((y + k) mod n) + 1 = (of_nat (Suc ((y + k) mod n)) :: u32)" by simp
  moreover have "Suc ((y + k) mod n) \<le> 131072" using mod_less_divisor [OF n(1), of "y + k"] n(2) by linarith
  ultimately have "unat (of_nat ((y + k) mod n) + 1 :: u32) = Suc ((y + k) mod n)" using unat_of_small by metis
  then have "unat ((of_nat ((y + k) mod n) + 1) mod cal_nBuckets c :: u32) = Suc ((y + k) mod n) mod n"
    by (simp add: unat_mod n_def)
  also have "\<dots> = (y + Suc k) mod n" by (simp add: mod_Suc_eq)
  finally have "unat ((of_nat ((y + k) mod n) + 1) mod cal_nBuckets c :: u32) = unat (of_nat ((y + Suc k) mod n) :: u32)"
    using unat_of_small [OF small] by simp
  then show "(of_nat ((y + k) mod n) + 1) mod cal_nBuckets c = of_nat ((y + Suc k) mod n)" by (simp only: word_unat_eq_iff)
  have "of_nat ((y + Suc k) mod n) = cal_lastBucket c \<longleftrightarrow> (y + Suc k) mod n = y mod n"
    using c(2) unat_of_small [OF small, of "y + Suc k"] by (simp add: word_unat_eq_iff cal_pos_def slot_def y_def n_def)
  also have "\<dots> \<longleftrightarrow> n dvd Suc k" using mod_eq_dvd_iff_nat [of y "y + Suc k" n] by auto
  also have "\<dots> \<longleftrightarrow> Suc k = n" using k n_def by (auto dest: dvd_imp_le)
  finally show "of_nat ((y + Suc k) mod n) = cal_lastBucket c \<longleftrightarrow> Suc k = n" .
  show "of_nat (step_top c k) + cal_width c = of_nat (step_top c (Suc k))" by (simp add: step_top_def algebra_simps)
qed

lemma cal_scan_ok:
  assumes c: "cal_struct c" "cal_pos c"
    and k: "k + r = unat (cal_nBuckets c)" "0 < r"
    and passed: "\<forall>j<k. \<forall>e\<in>cal_events c. day c (ts e) = day c (cal_lastPrio c) + j \<longrightarrow> 2 ^ 64 \<le> step_top c j"
  shows "\<exists>res. cal_scan r c keep (of_nat ((day c (cal_lastPrio c) + k) mod unat (cal_nBuckets c))) (of_nat (step_top c k)) acc = Inr res \<and>
    (case res of
      Found h i t \<Rightarrow> \<exists>m<unat (cal_nBuckets c). (h, unat i) \<in> set (cal_heads c m) \<and> t = of_nat (step_top c m) \<and>
        day c (ts h) = day c (cal_lastPrio c) + m \<and> least_event (cal_events c) h
    | Ended a \<Rightarrow> a = keep_heads keep (concat (map (cal_heads c) [k..<unat (cal_nBuckets c)])) acc)"
  using k passed
proof (induction r arbitrary: k acc)
  case (Suc r)
  let ?y = "day c (cal_lastPrio c)" and ?n = "unat (cal_nBuckets c)"
  let ?i = "(?y + k) mod ?n"
  let ?l = "cal_buckets c ! ?i"
  have pos: "\<forall>e\<in>cal_events c. cal_lastPrio c \<le> ts e" using c(2) by (simp add: cal_pos_def)
  have n: "0 < ?n" "?n \<le> 65536" "length (cal_buckets c) = ?n" using cal_structD(2-4) [OF c(1)] by auto
  have kn: "k < ?n" using Suc.prems(1) by simp
  have i: "?i < ?n" using n by simp
  then have ui: "unat (of_nat ?i :: u32) = ?i" using n by (intro unat_of_small) linarith
  have bkt: "cal_bucket c (of_nat ?i) = Inr ?l" using i ui n by (simp add: cal_bucket_def)
  have heads: "cal_heads c k = (if ?l = [] then [] else [(cal_NextEvent (cal_reverse c) ?l, ?i)])" by (simp add: cal_heads_def Let_def)
  note nb = next_bucket [OF c kn]
  show ?case
  proof (cases "?l \<noteq> [] \<and> ts (cal_NextEvent (cal_reverse c) ?l) < of_nat (step_top c k)")
    case True
    then have h: "(cal_NextEvent (cal_reverse c) ?l, ?i) \<in> set (cal_heads c k)" by (simp add: heads)
    have d: "day c (ts (cal_NextEvent (cal_reverse c) ?l)) = ?y + k" using due_day(1) [OF c(1) pos kn h] True by blast
    then show ?thesis using True bkt h ui kn due_least [OF c(1) pos Suc.prems(3) h d] by auto
  next
    case False
    let ?acc = "keep_heads keep (cal_heads c k) acc"
    have acc: "?acc = (if ?l \<noteq> [] then keep (cal_NextEvent (cal_reverse c) ?l) (of_nat ?i) acc else acc)" by (simp add: heads)
    have not_due: "\<forall>(h, i)\<in>set (cal_heads c k). \<not> ts h < of_nat (step_top c k)" using False by (auto simp: heads)
    have step: "cal_scan (Suc r) c keep (of_nat ?i) (of_nat (step_top c k)) acc =
      (if Suc k = ?n then Inr (Ended ?acc) else cal_scan r c keep (of_nat ((?y + Suc k) mod ?n)) (of_nat (step_top c (Suc k))) ?acc)"
      using False bkt nb acc by (auto simp: Let_def)
    show ?thesis
    proof (cases "Suc k = ?n")
      case True
      then have "[k..<?n] = [k]" by (metis upt_rec lessI upt_conv_Nil order_refl)
      then show ?thesis using step True by simp
    next
      case more: False
      have p: "\<forall>j<Suc k. \<forall>e\<in>cal_events c. day c (ts e) = ?y + j \<longrightarrow> 2 ^ 64 \<le> step_top c j"
        using Suc.prems(3) passed_day [OF c(1) pos kn not_due] by (auto simp: less_Suc_eq)
      have upt: "concat (map (cal_heads c) [k..<?n]) = cal_heads c k @ concat (map (cal_heads c) [Suc k..<?n])"
        using kn by (simp add: upt_conv_Cons)
      have r: "Suc k + r = ?n" "0 < r" using Suc.prems(1) more by auto
      show ?thesis unfolding step if_not_P [OF more] upt keep_heads_simps by (rule Suc.IH [OF r p])
    qed
  qed
qed simp


subsection \<open>The event found\<close>

lemma keep_event_least:
  "(keep_heads keep_event hs m = m \<or> (\<exists>i. (keep_heads keep_event hs m, i) \<in> set hs)) \<and>
   (\<forall>(h, i)\<in>set hs. keep_heads keep_event hs m \<le> h) \<and> keep_heads keep_event hs m \<le> m"
proof (induction hs arbitrary: m)
  case (Cons x hs)
  obtain h i where [simp]: "x = (h, i)" by (cases x)
  have "keep_event h (of_nat i) m = m \<and> m \<le> h \<or> keep_event h (of_nat i) m = h \<and> h \<le> m"
    by (auto simp: keep_event_def less_event_def less_eq_event_def key_not_less intro: less_imp_le)
  then show ?case using Cons.IH [of "keep_event h (of_nat i) m"] by (auto intro: order_trans)
qed simp

lemma keep_key_least:
  "(keep_heads keep_key hs m = m \<or> (\<exists>(h, i)\<in>set hs. keep_heads keep_key hs m = (key h, Some (of_nat i)))) \<and>
   (\<forall>(h, i)\<in>set hs. fst (keep_heads keep_key hs m) \<le> key h) \<and> fst (keep_heads keep_key hs m) \<le> fst m"
proof (induction hs arbitrary: m)
  case (Cons x hs)
  obtain h i where [simp]: "x = (h, i)" by (cases x)
  have "keep_key h (of_nat i) m = m \<and> fst m \<le> key h \<or> keep_key h (of_nat i) m = (key h, Some (of_nat i)) \<and> key h \<le> fst m"
    by (auto simp: keep_key_def key_not_less intro: less_imp_le)
  then show ?case using Cons.IH [of "keep_key h (of_nat i) m"] by (auto intro: order_trans)
qed simp

definition all_heads :: "calendar \<Rightarrow> (event \<times> nat) list" where
  "all_heads c = concat (map (cal_heads c) [0..<unat (cal_nBuckets c)])"

lemma residue_step:
  fixes y n s :: nat
  assumes "s < n"
  shows "\<exists>m<n. (y + m) mod n = s"
proof (intro exI conjI)
  let ?m = "(s + (n - y mod n)) mod n"
  show "?m < n" using assms by simp
  have "(y + ?m) mod n = (y mod n + (s + (n - y mod n))) mod n" by (metis mod_add_left_eq mod_add_right_eq)
  also have "y mod n + (s + (n - y mod n)) = s + n" using mod_less_divisor [of n y] assms by linarith
  finally show "(y + ?m) mod n = s" using assms by simp
qed

lemma all_heads_cover:
  assumes c: "cal_struct c" and e: "e \<in> cal_events c"
  shows "\<exists>(h, i)\<in>set (all_heads c). h \<le> e"
proof -
  let ?n = "unat (cal_nBuckets c)"
  have "slot c (ts e) < ?n" using cal_structD(2) [OF c] by (simp add: slot_def)
  then obtain m where m: "m < ?n" "(day c (cal_lastPrio c) + m) mod ?n = slot c (ts e)" using residue_step by blast
  have "cal_buckets c ! slot c (ts e) \<noteq> []" using cal_events_slot [OF c, of e] e by auto
  then have h: "(cal_NextEvent (cal_reverse c) (cal_buckets c ! slot c (ts e)), slot c (ts e)) \<in> set (cal_heads c m)"
    using m(2) by (simp add: cal_heads_def Let_def)
  have "(cal_NextEvent (cal_reverse c) (cal_buckets c ! slot c (ts e)), slot c (ts e)) \<in> set (all_heads c)"
    using h m(1) by (auto simp: all_heads_def)
  then show ?thesis using cal_head_least(6) [OF c h e] by blast
qed

lemma all_headsE:
  assumes "cal_struct c" "(h, i) \<in> set (all_heads c)"
  shows "h \<in> cal_events c" "slot c (ts h) = i" "h = cal_NextEvent (cal_reverse c) (cal_buckets c ! i)" "cal_buckets c ! i \<noteq> []"
  using assms cal_head_least [OF assms(1)] by (auto simp: all_heads_def)

lemma event_ok_max: "event_ok e \<Longrightarrow> ts e < 0xffffffffffffffff"
  unfolding event_ok_def ts_bound_def by (erule conjE, erule less_trans) simp

lemma ended_event:
  assumes c: "cal_struct c" "cal_events c \<noteq> {}" and m: "ts m = 0xffffffffffffffff"
  shows "least_event (cal_events c) (keep_heads keep_event (all_heads c) m)"
proof -
  let ?r = "keep_heads keep_event (all_heads c) m"
  have le: "?r \<le> e" if e: "e \<in> cal_events c" for e
  proof -
    obtain h i where "(h, i) \<in> set (all_heads c)" "h \<le> e" using all_heads_cover [OF c(1) e] by blast
    then show ?thesis using keep_event_least [of "all_heads c" m] by (auto intro: order_trans)
  qed
  obtain e where e: "e \<in> cal_events c" using c(2) by blast
  have "ts e < ts m" using event_ok_max [OF cal_structD(6) [OF c(1) e]] m by simp
  then have "?r \<noteq> m" using event_le_ts [OF le [OF e]] by auto
  then obtain i where "(?r, i) \<in> set (all_heads c)" using keep_event_least [of "all_heads c" m] by blast
  then show ?thesis using all_headsE(1) [OF c(1)] le by (auto simp: least_event_def)
qed

lemma ended_key:
  assumes c: "cal_struct c" "cal_events c \<noteq> {}" and m: "m_ts (fst m) = 0xffffffffffffffff"
  shows "\<exists>h i. keep_heads keep_key (all_heads c) m = (key h, Some (of_nat i)) \<and> least_event (cal_events c) h \<and> (h, i) \<in> set (all_heads c)"
proof -
  let ?r = "keep_heads keep_key (all_heads c) m"
  have le: "fst ?r \<le> key e" if e: "e \<in> cal_events c" for e
  proof -
    obtain h i where hi: "(h, i) \<in> set (all_heads c)" "h \<le> e" using all_heads_cover [OF c(1) e] by blast
    have "fst ?r \<le> key h" using keep_key_least [of "all_heads c" m] hi(1) by blast
    also have "key h \<le> key e" using hi(2) by (simp add: less_eq_event_def)
    finally show ?thesis .
  qed
  obtain e where e: "e \<in> cal_events c" using c(2) by blast
  have "ts e < m_ts (fst m)" using event_ok_max [OF cal_structD(6) [OF c(1) e]] m by simp
  then have "?r \<noteq> m" using le [OF e] by (auto simp: less_eq_event_key_def key_less_def)
  then obtain h i where hi: "(h, i) \<in> set (all_heads c)" "?r = (key h, Some (of_nat i))" using keep_key_least [of "all_heads c" m] by blast
  moreover have "least_event (cal_events c) h"
    using all_headsE(1) [OF c(1) hi(1)] le hi(2) by (auto simp: least_event_def less_eq_event_def)
  ultimately show ?thesis by blast
qed


section \<open>Operations\<close>

lemma cal_upd [simp]:
  "day (c\<lparr>cal_lastBucket := x\<rparr>) = day c" "day (c\<lparr>cal_lastPrio := t\<rparr>) = day c" "day (c\<lparr>cal_bucketTop := t\<rparr>) = day c"
  "day (c\<lparr>cal_buckets := bs\<rparr>) = day c" "day (c\<lparr>cal_qSize := x\<rparr>) = day c"
  "slot (c\<lparr>cal_lastBucket := x\<rparr>) = slot c" "slot (c\<lparr>cal_lastPrio := t\<rparr>) = slot c" "slot (c\<lparr>cal_bucketTop := t\<rparr>) = slot c"
  "slot (c\<lparr>cal_buckets := bs\<rparr>) = slot c" "slot (c\<lparr>cal_qSize := x\<rparr>) = slot c"
  "cal_events (c\<lparr>cal_lastBucket := x\<rparr>) = cal_events c" "cal_events (c\<lparr>cal_lastPrio := t\<rparr>) = cal_events c"
  "cal_events (c\<lparr>cal_bucketTop := t\<rparr>) = cal_events c" "cal_events (c\<lparr>cal_qSize := x\<rparr>) = cal_events c"
  by (simp_all add: fun_eq_iff day_def slot_def cal_events_def)

lemma cal_struct_upd [simp]:
  "cal_struct (c\<lparr>cal_lastBucket := x\<rparr>) = cal_struct c" "cal_struct (c\<lparr>cal_lastPrio := t\<rparr>) = cal_struct c"
  "cal_struct (c\<lparr>cal_bucketTop := t\<rparr>) = cal_struct c" "cal_struct (c\<lparr>cal_qSize := x\<rparr>) = cal_struct c"
  by (simp_all add: cal_struct_def)

text \<open>Everything but the buckets and the position.\<close>

definition same_params :: "calendar \<Rightarrow> calendar \<Rightarrow> bool" where
  "same_params c c' \<longleftrightarrow> cal_nBuckets c' = cal_nBuckets c \<and> cal_width c' = cal_width c \<and> cal_qSize c' = cal_qSize c \<and>
     cal_reverse c' = cal_reverse c"

lemma cal_take_ok:
  assumes c: "cal_struct c" and e: "e \<in> cal_events c" "e = cal_NextEvent (cal_reverse c) (cal_buckets c ! slot c (ts e))"
    and i: "unat i = slot c (ts e)"
  shows "\<exists>c'. cal_take i c = Inr (e, c') \<and> cal_struct c' \<and> cal_events c' = cal_events c - {e} \<and> same_params c c' \<and>
    cal_lastPrio c' = cal_lastPrio c \<and> cal_lastBucket c' = cal_lastBucket c \<and> cal_bucketTop c' = cal_bucketTop c"
proof -
  let ?i = "slot c (ts e)"
  let ?l = "cal_buckets c ! ?i"
  have n: "?i < unat (cal_nBuckets c)" using cal_structD(2) [OF c] by (simp add: slot_def)
  have ne: "?l \<noteq> []" using cal_events_slot [OF c, of e] e(1) by auto
  note nx = bucket_next [OF cal_structD(7) [OF c n] ne]
  let ?c = "c\<lparr>cal_buckets := (cal_buckets c)[?i := cal_Pop (cal_reverse c) ?l]\<rparr>"
  have "cal_take i c = Inr (e, ?c)" using n ne cal_structD(4) [OF c] e(2) i by (simp add: cal_take_def cal_bucket_def)
  moreover have "cal_struct ?c" "cal_events ?c = cal_events c - {e}"
    using cal_drop_ok [OF c e(1) refl, of "cal_Pop (cal_reverse c) ?l"] nx e(2) by auto
  ultimately show ?thesis by (intro exI [of _ ?c]) (simp add: same_params_def)
qed

lemma unat_of_nat_self: "of_nat (unat w) = (w :: 'a::len word)"
  by simp

lemma start_bucket:
  assumes "cal_struct c" "cal_pos c"
  shows "cal_lastBucket c = of_nat ((day c (cal_lastPrio c) + 0) mod unat (cal_nBuckets c))" "cal_bucketTop c = of_nat (step_top c 0)"
proof -
  have "unat (cal_lastBucket c) = (day c (cal_lastPrio c) + 0) mod unat (cal_nBuckets c)"
    using assms(2) by (simp add: cal_pos_def slot_def)
  then show "cal_lastBucket c = of_nat ((day c (cal_lastPrio c) + 0) mod unat (cal_nBuckets c))" by (metis unat_of_nat_self)
  have "cal_lastPrio c div cal_width c = of_nat (day c (cal_lastPrio c))" by (metis day_def unat_div unat_of_nat_self)
  then show "cal_bucketTop c = of_nat (step_top c 0)" using assms(2) by (simp add: cal_pos_def step_top_def algebra_simps)
qed

lemma cal_scan_start:
  assumes c: "cal_struct c" "cal_pos c"
  shows "(\<exists>h i m. cal_scan (unat (cal_nBuckets c)) c keep (cal_lastBucket c) (cal_bucketTop c) acc = Inr (Found h i (of_nat (step_top c m))) \<and>
      (h, unat i) \<in> set (cal_heads c m) \<and> day c (ts h) = day c (cal_lastPrio c) + m \<and> least_event (cal_events c) h) \<or>
    cal_scan (unat (cal_nBuckets c)) c keep (cal_lastBucket c) (cal_bucketTop c) acc = Inr (Ended (keep_heads keep (all_heads c) acc))"
proof -
  have n: "0 + unat (cal_nBuckets c) = unat (cal_nBuckets c)" "0 < unat (cal_nBuckets c)" using cal_structD(2) [OF c(1)] by auto
  have "\<forall>j<0. \<forall>e\<in>cal_events c. day c (ts e) = day c (cal_lastPrio c) + j \<longrightarrow> 2 ^ 64 \<le> step_top c j" by simp
  from cal_scan_ok [OF c n this, of keep acc] obtain res where
    "cal_scan (unat (cal_nBuckets c)) c keep (cal_lastBucket c) (cal_bucketTop c) acc = Inr res"
    "case res of
      Found h i t \<Rightarrow> \<exists>m<unat (cal_nBuckets c). (h, unat i) \<in> set (cal_heads c m) \<and> t = of_nat (step_top c m) \<and>
        day c (ts h) = day c (cal_lastPrio c) + m \<and> least_event (cal_events c) h
    | Ended a \<Rightarrow> a = keep_heads keep (all_heads c) acc"
    unfolding start_bucket [OF c] all_heads_def by blast
  then show ?thesis by (cases res) auto
qed

text \<open>The position after an event has been taken is that of its time.\<close>

lemma cal_pos_at:
  assumes "cal_struct c" "\<forall>x\<in>cal_events c. t \<le> ts x" "cal_lastPrio c = t" "unat (cal_lastBucket c) = slot c t"
    "cal_bucketTop c = of_nat ((day c t + 1) * unat (cal_width c))"
  shows "cal_pos c"
proof -
  have "t div cal_width c = of_nat (day c t)" by (metis day_def unat_div unat_of_nat_self)
  then show ?thesis using assms by (simp add: cal_pos_def algebra_simps)
qed

lemma pos_order: "c\<lparr>cal_lastPrio := p, cal_lastBucket := b, cal_bucketTop := t\<rparr> = c\<lparr>cal_lastBucket := b, cal_lastPrio := p, cal_bucketTop := t\<rparr>"
  by simp

lemma cal_DoRemoveNext_ok:
  assumes c: "cal_struct c" "cal_pos c" "cal_events c \<noteq> {}" and q: "cal_qSize c \<noteq> 0"
  shows "\<exists>e c'. cal_DoRemoveNext c = Inr (e, c') \<and> least_event (cal_events c) e \<and> cal_struct c' \<and> cal_pos c' \<and>
    cal_events c' = cal_events c - {e} \<and> cal_lastPrio c' = ts e \<and> same_params c c'"
proof -
  let ?m = "(EventKey 0xffffffffffffffff 0 0xffffffff, None)"
  have taken: "\<exists>e c'. R = Inr (e, c') \<and> least_event (cal_events c) e \<and> cal_struct c' \<and> cal_pos c' \<and>
      cal_events c' = cal_events c - {e} \<and> cal_lastPrio c' = ts e \<and> same_params c c'"
    if R: "R = cal_take i (c\<lparr>cal_lastBucket := b, cal_lastPrio := ts e, cal_bucketTop := t\<rparr>)"
      and e: "least_event (cal_events c) e" "e = cal_NextEvent (cal_reverse c) (cal_buckets c ! slot c (ts e))" "unat i = slot c (ts e)"
      and b: "unat b = slot c (ts e)" "t = of_nat ((day c (ts e) + 1) * unat (cal_width c))" for R i b t e
  proof -
    let ?c = "c\<lparr>cal_lastBucket := b, cal_lastPrio := ts e, cal_bucketTop := t\<rparr>"
    have "e \<in> cal_events c" using e(1) by (simp add: least_event_def)
    then obtain c' where c': "cal_take i ?c = Inr (e, c')" "cal_struct c'" "cal_events c' = cal_events c - {e}" "same_params ?c c'"
        "cal_lastPrio c' = ts e" "cal_lastBucket c' = b" "cal_bucketTop c' = t"
      using cal_take_ok [of ?c e i] c(1) e by auto
    moreover have "slot c' = slot c" "day c' = day c" "cal_width c' = cal_width c"
      using c'(4) by (auto simp: same_params_def slot_def day_def fun_eq_iff)
    then have "cal_pos c'" using c' b e(1) by (intro cal_pos_at [of c' "ts e"]) (auto simp: least_event_def event_le_ts)
    ultimately show ?thesis using R e(1) by (auto simp: same_params_def)
  qed
  consider (found) h i m where
      "cal_scan (unat (cal_nBuckets c)) c keep_key (cal_lastBucket c) (cal_bucketTop c) ?m = Inr (Found h i (of_nat (step_top c m)))"
      "(h, unat i) \<in> set (cal_heads c m)" "day c (ts h) = day c (cal_lastPrio c) + m" "least_event (cal_events c) h"
    | (ended) "cal_scan (unat (cal_nBuckets c)) c keep_key (cal_lastBucket c) (cal_bucketTop c) ?m =
        Inr (Ended (keep_heads keep_key (all_heads c) ?m))"
    using cal_scan_start [OF c(1,2), of keep_key ?m] by blast
  then show ?thesis
  proof cases
    case found
    note hd = cal_head_least [OF c(1) found(2)]
    have "cal_DoRemoveNext c = cal_take i (c\<lparr>cal_lastBucket := i, cal_lastPrio := ts h, cal_bucketTop := of_nat (step_top c m)\<rparr>)"
      using found(1) q by (simp add: cal_DoRemoveNext_def cal_IsEmpty_def)
    then show ?thesis using found hd by (intro taken) (auto simp: step_top_def)
  next
    case ended
    obtain h i where h: "keep_heads keep_key (all_heads c) ?m = (key h, Some (of_nat i))" "least_event (cal_events c) h" "(h, i) \<in> set (all_heads c)"
      using ended_key [OF c(1,3), of ?m] by auto
    note hd = all_headsE [OF c(1) h(3)]
    have "i \<le> 131072" using hd(2) cal_structD(2,3) [OF c(1)] mod_less_divisor [of "unat (cal_nBuckets c)" "day c (ts h)"]
      unfolding slot_def by linarith
    obtain b where b: "cal_Hash c (ts h) = Inr b" "unat b = slot c (ts h)" using cal_Hash_ok cal_structD [OF c(1)] by blast
    have "ts h div cal_width c = of_nat (day c (ts h))" by (metis day_def unat_div unat_of_nat_self)
    moreover have "cal_DoRemoveNext c = cal_take (of_nat i) (c\<lparr>cal_lastBucket := b, cal_lastPrio := ts h,
        cal_bucketTop := (ts h div cal_width c + 1) * cal_width c\<rparr>)"
      using ended h(1) b(1) q by (simp add: cal_DoRemoveNext_def cal_IsEmpty_def) (simp only: pos_order)
    ultimately show ?thesis using h(2) hd b unat_of_small [OF \<open>i \<le> 131072\<close>] by (intro taken) (auto simp: algebra_simps)
  qed
qed

lemma cal_PeekNext_ok:
  assumes c: "cal_struct c" "cal_pos c" "cal_events c \<noteq> {}" and q: "cal_qSize c \<noteq> 0"
  shows "\<exists>e. cal_PeekNext c = Inr e \<and> least_event (cal_events c) e"
  using cal_scan_start [OF c(1,2), of keep_event "Event 0 (EventKey 0xffffffffffffffff 0xffffffff 0)"] q
    ended_event [OF c(1,3), of "Event 0 (EventKey 0xffffffffffffffff 0xffffffff 0)"]
  by (auto simp: cal_PeekNext_def cal_IsEmpty_def)


subsection \<open>Resizing\<close>

lemma same_params_trans: "same_params a b \<Longrightarrow> same_params b c \<Longrightarrow> same_params a c"
  by (simp add: same_params_def)

lemma cal_insert_all_ok:
  assumes "cal_struct c" "distinct (map uid es)" "\<forall>e\<in>set es. uid e \<notin> uid ` cal_events c \<and> event_ok e"
  shows "\<exists>bs. cal_insert_all es c = Inr (c\<lparr>cal_buckets := bs\<rparr>) \<and> cal_struct (c\<lparr>cal_buckets := bs\<rparr>) \<and>
    cal_events (c\<lparr>cal_buckets := bs\<rparr>) = cal_events c \<union> set es"
  using assms
proof (induction es arbitrary: c)
  case Nil
  then show ?case by (intro exI [of _ "cal_buckets c"]) simp
next
  case (Cons e es)
  obtain bs where bs: "cal_DoInsert e c = Inr (c\<lparr>cal_buckets := bs\<rparr>)" "cal_struct (c\<lparr>cal_buckets := bs\<rparr>)"
      "cal_events (c\<lparr>cal_buckets := bs\<rparr>) = insert e (cal_events c)"
    using cal_DoInsert_ok [OF Cons.prems(1), of e] Cons.prems by auto
  have "\<forall>x\<in>set es. uid x \<notin> uid ` cal_events (c\<lparr>cal_buckets := bs\<rparr>) \<and> event_ok x"
    using Cons.prems bs(3) by (auto simp: rev_image_eqI)
  from Cons.IH [OF bs(2) _ this] Cons.prems(2) obtain bs' where
    "cal_insert_all es (c\<lparr>cal_buckets := bs\<rparr>) = Inr (c\<lparr>cal_buckets := bs'\<rparr>)" "cal_struct (c\<lparr>cal_buckets := bs'\<rparr>)"
    "cal_events (c\<lparr>cal_buckets := bs'\<rparr>) = cal_events (c\<lparr>cal_buckets := bs\<rparr>) \<union> set es" by auto
  then show ?case using bs by (intro exI [of _ bs']) auto
qed

lemma cal_samples_ok:
  assumes "cal_struct c" "cal_pos c" "n \<le> card (cal_events c)" "cal_qSize c \<noteq> 0"
  shows "\<exists>es c'. cal_samples n c = Inr (es, c') \<and> cal_struct c' \<and> distinct es \<and> set es \<subseteq> cal_events c \<and>
    cal_events c' = cal_events c - set es \<and> same_params c c'"
  using assms
proof (induction n arbitrary: c)
  case 0
  then show ?case by (simp add: same_params_def)
next
  case (Suc n)
  then have "cal_events c \<noteq> {}" by auto
  from cal_DoRemoveNext_ok [OF Suc.prems(1,2) this Suc.prems(4)] obtain e c1 where
    e: "cal_DoRemoveNext c = Inr (e, c1)" "least_event (cal_events c) e" "cal_struct c1" "cal_pos c1"
      "cal_events c1 = cal_events c - {e}" "same_params c c1" by blast
  have "e \<in> cal_events c" using e(2) by (simp add: least_event_def)
  then have "n \<le> card (cal_events c1)" using Suc.prems(3) e(5) by (simp add: card_Diff_singleton)
  moreover have "cal_qSize c1 \<noteq> 0" using e(6) Suc.prems(4) by (simp add: same_params_def)
  ultimately obtain es c' where es: "cal_samples n c1 = Inr (es, c')" "cal_struct c'" "distinct es" "set es \<subseteq> cal_events c1"
      "cal_events c' = cal_events c1 - set es" "same_params c1 c'" using Suc.IH [OF e(3,4)] by blast
  then show ?case using e \<open>e \<in> cal_events c\<close> same_params_trans [OF e(6) es(6)]
    by (intro exI [of _ "e # es"] exI [of _ c']) auto
qed

lemma sample_count_le: "unat (sample_count q) \<le> unat q"
proof -
  have "unat (5 + q div 10) \<le> unat q" if "\<not> q \<le> 5"
  proof -
    have q: "6 \<le> unat q" "unat q < 2 ^ 32" using that unat_u32_less [of q] by (auto simp: word_le_nat_alt)
    then have "unat (5 + q div 10) = 5 + unat q div 10" by (subst unat_add_lt) (auto simp: unat_div)
    then show ?thesis using q(1) by linarith
  qed
  then show ?thesis by (auto simp: sample_count_def Let_def word_less_nat_alt)
qed

lemma CalculateNewWidth_ok:
  assumes "cal_inv c"
  shows "\<exists>w bs. CalculateNewWidth c = Inr (w, c\<lparr>cal_buckets := bs\<rparr>) \<and> w \<noteq> 0 \<and> cal_struct (c\<lparr>cal_buckets := bs\<rparr>) \<and>
    cal_events (c\<lparr>cal_buckets := bs\<rparr>) = cal_events c"
proof (cases "cal_qSize c < 2")
  case True
  then show ?thesis using assms by (auto simp: CalculateNewWidth_def cal_inv_def intro!: exI [of _ "cal_buckets c"])
next
  case False
  let ?n = "sample_count (cal_qSize c)"
  have c: "cal_struct c" "cal_pos c" "unat ?n \<le> card (cal_events c)" "cal_qSize c \<noteq> 0"
    using assms sample_count_le [of "cal_qSize c"] False by (auto simp: cal_inv_def)
  from cal_samples_ok [OF this] obtain es c1 where es: "cal_samples (unat ?n) c = Inr (es, c1)" "cal_struct c1" "distinct es"
    "set es \<subseteq> cal_events c" "cal_events c1 = cal_events c - set es" "same_params c c1" by blast
  have inj: "inj_on uid (cal_events c)" using c(1) by (rule cal_structD)
  have "distinct (map uid es)" using es(3,4) inj by (auto simp: distinct_map intro: inj_on_subset)
  moreover have "\<forall>e\<in>set es. uid e \<notin> uid ` cal_events c1 \<and> event_ok e"
    using es(4,5) inj cal_structD(6) [OF c(1)] by (auto dest: inj_onD)
  ultimately obtain bs where bs: "cal_insert_all es c1 = Inr (c1\<lparr>cal_buckets := bs\<rparr>)" "cal_struct (c1\<lparr>cal_buckets := bs\<rparr>)"
      "cal_events (c1\<lparr>cal_buckets := bs\<rparr>) = cal_events c1 \<union> set es" using cal_insert_all_ok [OF es(2)] by blast
  have restored: "c1\<lparr>cal_buckets := bs, cal_lastBucket := cal_lastBucket c, cal_bucketTop := cal_bucketTop c, cal_lastPrio := cal_lastPrio c\<rparr> =
      c\<lparr>cal_buckets := bs\<rparr>" using es(6) by (simp add: same_params_def)
  have "cal_struct (c\<lparr>cal_buckets := bs\<rparr>)" "cal_events (c\<lparr>cal_buckets := bs\<rparr>) = cal_events c"
    using bs(2,3) es(4,5) unfolding restored [symmetric] by auto
  moreover have "width_of_samples ?n es \<noteq> 0" by (auto simp: width_of_samples_def Let_def max_def)
  ultimately show ?thesis using False es(1) bs(1) restored by (auto simp: CalculateNewWidth_def Let_def)
qed


lemma distinct_concat_slots:
  "\<forall>i<length bs. distinct (bs ! i) \<and> (\<forall>e\<in>set (bs ! i). f e = i + k) \<Longrightarrow> distinct (concat bs)"
proof (induction bs arbitrary: k)
  case (Cons b bs)
  have b: "distinct b" "\<forall>e\<in>set b. f e = k" using Cons.prems by (auto dest: spec [of _ 0])
  have bs: "\<forall>i<length bs. distinct (bs ! i) \<and> (\<forall>e\<in>set (bs ! i). f e = i + Suc k)"
    using Cons.prems by (fastforce dest: spec [of _ "Suc _"])
  then have "\<forall>e\<in>set (concat bs). f e > k" by (force simp: in_set_conv_nth)
  then show ?case using Cons.IH [OF bs] b by fastforce
qed simp

lemma cal_buckets_distinct:
  assumes "cal_struct c"
  shows "distinct (map uid (concat (cal_buckets c)))" "set (concat (cal_buckets c)) = cal_events c"
proof -
  have sd: "sorted_wrt (<) xs \<Longrightarrow> distinct xs" for xs :: "event list" by (induction xs) auto
  have "distinct l" if "bucket_sorted r l" for r l using sd that by (cases r) (auto simp: bucket_sorted_def dest: sd)
  then have "distinct (concat (cal_buckets c))"
    using cal_structD(4,7,8) [OF assms] by (intro distinct_concat_slots [of _ "\<lambda>e. slot c (ts e)" 0]) auto
  moreover show "set (concat (cal_buckets c)) = cal_events c" by (simp add: cal_events_def)
  ultimately show "distinct (map uid (concat (cal_buckets c)))" using cal_structD(5) [OF assms] by (simp add: distinct_map)
qed

lemma cal_DoResize_ok:
  assumes c: "cal_struct c" "\<forall>e\<in>cal_events c. cal_lastPrio c \<le> ts e" and n: "0 < unat n" "unat n \<le> 65536" and w: "w \<noteq> 0"
  shows "\<exists>c'. cal_DoResize n w c = Inr c' \<and> cal_struct c' \<and> cal_pos c' \<and> cal_events c' = cal_events c \<and>
    cal_lastPrio c' = cal_lastPrio c \<and> cal_qSize c' = cal_qSize c"
proof -
  let ?c0 = "c\<lparr>cal_buckets := replicate (unat n) [], cal_nBuckets := n, cal_width := w, cal_lastPrio := cal_lastPrio c\<rparr>"
  obtain b where b: "cal_Hash ?c0 (cal_lastPrio c) = Inr b" "unat b = slot ?c0 (cal_lastPrio c)"
    using cal_Hash_ok [of ?c0] n w by auto
  let ?c1 = "?c0\<lparr>cal_lastBucket := b, cal_bucketTop := (cal_lastPrio c div w + 1) * w\<rparr>"
  have init: "cal_Init n w (cal_lastPrio c) c = Inr ?c1" using b(1) by (simp add: cal_Init_def)
  have ev: "cal_events ?c1 = {}" by (auto simp: cal_events_def)
  have st: "cal_struct ?c1" using n w ev by (auto simp: cal_struct_def bucket_sorted_def)
  obtain bs where bs: "cal_insert_all (concat (cal_buckets c)) ?c1 = Inr (?c1\<lparr>cal_buckets := bs\<rparr>)" "cal_struct (?c1\<lparr>cal_buckets := bs\<rparr>)"
      "cal_events (?c1\<lparr>cal_buckets := bs\<rparr>) = cal_events ?c1 \<union> set (concat (cal_buckets c))"
    using cal_insert_all_ok [OF st cal_buckets_distinct(1) [OF c(1)]] ev cal_buckets_distinct(2) [OF c(1)] cal_structD(6) [OF c(1)] by auto
  have ev': "cal_events (?c1\<lparr>cal_buckets := bs\<rparr>) = cal_events c" unfolding bs(3) ev cal_buckets_distinct(2) [OF c(1)] by simp
  moreover have "cal_pos (?c1\<lparr>cal_buckets := bs\<rparr>)" using c(2) b(2) unfolding cal_pos_def ev' by (simp add: slot_def day_def)
  ultimately show ?thesis using bs(1,2) by (intro exI [of _ "?c1\<lparr>cal_buckets := bs\<rparr>"]) (simp add: cal_DoResize_def init)
qed

lemma cal_Resize_ok:
  assumes c: "cal_inv c" and n: "0 < unat n" "unat n \<le> 65536"
  shows "\<exists>c'. cal_Resize n c = Inr c' \<and> cal_inv c' \<and> cal_events c' = cal_events c \<and> cal_lastPrio c' = cal_lastPrio c"
proof -
  obtain w bs where w: "CalculateNewWidth c = Inr (w, c\<lparr>cal_buckets := bs\<rparr>)" "w \<noteq> 0" "cal_struct (c\<lparr>cal_buckets := bs\<rparr>)"
    "cal_events (c\<lparr>cal_buckets := bs\<rparr>) = cal_events c" using CalculateNewWidth_ok [OF c] by blast
  have "\<forall>e\<in>cal_events (c\<lparr>cal_buckets := bs\<rparr>). cal_lastPrio (c\<lparr>cal_buckets := bs\<rparr>) \<le> ts e"
    using c unfolding w(4) by (simp add: cal_inv_def cal_pos_def)
  from cal_DoResize_ok [OF w(3) this n w(2)] obtain c' where
    "cal_DoResize n w (c\<lparr>cal_buckets := bs\<rparr>) = Inr c'" "cal_struct c'" "cal_pos c'" "cal_events c' = cal_events c"
    "cal_lastPrio c' = cal_lastPrio c" "cal_qSize c' = cal_qSize c" unfolding w(4) by auto
  then show ?thesis using w(1) c by (simp add: cal_Resize_def cal_inv_def)
qed

lemma ResizeUp_ok:
  assumes "cal_inv c"
  shows "\<exists>c'. ResizeUp c = Inr c' \<and> cal_inv c' \<and> cal_events c' = cal_events c \<and> cal_lastPrio c' = cal_lastPrio c"
proof (cases "cal_qSize c > cal_nBuckets c * 2 \<and> cal_nBuckets c < 32768")
  case True
  then have "unat (cal_nBuckets c) < 32768" by (simp add: word_less_nat_alt)
  moreover have "unat (cal_nBuckets c * 2) = unat (cal_nBuckets c) * 2" using calculation by (simp add: unat_word_ariths)
  moreover have "0 < unat (cal_nBuckets c)" using assms cal_structD(2) by (auto simp: cal_inv_def)
  ultimately show ?thesis using cal_Resize_ok [OF assms, of "cal_nBuckets c * 2"] True by (simp add: ResizeUp_def)
qed (use assms in \<open>auto simp: ResizeUp_def\<close>)

lemma ResizeDown_ok:
  assumes "cal_inv c"
  shows "\<exists>c'. ResizeDown c = Inr c' \<and> cal_inv c' \<and> cal_events c' = cal_events c \<and> cal_lastPrio c' = cal_lastPrio c"
proof (cases "cal_qSize c < cal_nBuckets c div 2")
  case True
  then have "0 < unat (cal_nBuckets c div 2)" by (simp add: word_less_nat_alt)
  moreover have "unat (cal_nBuckets c div 2) \<le> 65536" using assms cal_structD(3) [of c] by (auto simp: cal_inv_def unat_div)
  ultimately show ?thesis using cal_Resize_ok [OF assms] True by (simp add: ResizeDown_def)
qed (use assms in \<open>auto simp: ResizeDown_def\<close>)

section \<open>The contract\<close>

lemma card_events_bound:
  assumes "inj_on uid E" "\<And>e. e \<in> E \<Longrightarrow> event_ok e"
  shows "card E < 2 ^ 32"
proof -
  have "uid ` E \<subseteq> UNIV - {0 :: u32}" using assms(2) by (auto simp: event_ok_def)
  then have "card (uid ` E) \<le> card (UNIV - {0 :: u32})" by (intro card_mono) auto
  also have "\<dots> = 2 ^ 32 - 1" by (simp add: card_Diff_singleton card_word)
  finally show ?thesis using card_image [OF assms(1)] by simp
qed

lemma cal_Insert_ok:
  assumes c: "cal_inv c" and e: "insertable (cal_events c) (cal_lastPrio c) e"
  shows "\<exists>c'. cal_Insert e c = Inr c' \<and> cal_inv c' \<and> cal_events c' = insert e (cal_events c) \<and> cal_lastPrio c' = cal_lastPrio c"
proof -
  have st: "cal_struct c" using c by (simp add: cal_inv_def)
  obtain bs where bs: "cal_DoInsert e c = Inr (c\<lparr>cal_buckets := bs\<rparr>)" "cal_struct (c\<lparr>cal_buckets := bs\<rparr>)"
      "cal_events (c\<lparr>cal_buckets := bs\<rparr>) = insert e (cal_events c)"
    using cal_DoInsert_ok [OF st, of e] e by (auto simp: insertable_def)
  let ?c = "c\<lparr>cal_buckets := bs, cal_qSize := cal_qSize c + 1\<rparr>"
  have ev: "cal_events ?c = insert e (cal_events c)" using bs(3) by simp
  have new: "e \<notin> cal_events c" using e by (auto simp: insertable_def)
  then have card: "card (insert e (cal_events c)) = unat (cal_qSize c) + 1" using c by (simp add: cal_inv_def)
  also have "unat (cal_qSize c) + 1 = unat (cal_qSize c + 1)"
    using card_events_bound [OF cal_structD(5,6) [OF bs(2)]] unfolding bs(3) card by (simp add: unat_add_lt)
  finally have "cal_inv ?c" using c bs(2) e ev by (auto simp: cal_inv_def cal_pos_def insertable_def)
  from ResizeUp_ok [OF this] show ?thesis using bs(1) ev by (auto simp: cal_Insert_def)
qed


text \<open>Taking one event off the count.\<close>

lemma cal_inv_less:
  assumes c: "cal_inv c" "e \<in> cal_events c" and c': "cal_struct c'" "cal_pos c'" "cal_events c' = cal_events c - {e}" "cal_qSize c' = cal_qSize c"
  shows "cal_inv (c'\<lparr>cal_qSize := cal_qSize c - 1\<rparr>)"
proof -
  have "0 < card (cal_events c)" using c(2) by (auto simp: card_gt_0_iff)
  then have "unat (cal_qSize c - 1) = card (cal_events c) - 1"
    using c(1) by (simp add: cal_inv_def unat_sub word_le_nat_alt)
  then show ?thesis using c c' by (simp add: cal_inv_def cal_pos_def card_Diff_singleton)
qed

lemma cal_RemoveNext_ok:
  assumes c: "cal_inv c" "cal_events c \<noteq> {}"
  shows "\<exists>e c'. cal_RemoveNext c = Inr (e, c') \<and> least_event (cal_events c) e \<and> cal_inv c' \<and> cal_events c' = cal_events c - {e} \<and>
    cal_lastPrio c' = ts e"
proof -
  have q: "cal_qSize c \<noteq> 0" using c by (auto simp: cal_inv_def)
  obtain e c1 where e: "cal_DoRemoveNext c = Inr (e, c1)" "least_event (cal_events c) e" "cal_struct c1" "cal_pos c1"
    "cal_events c1 = cal_events c - {e}" "cal_lastPrio c1 = ts e" "same_params c c1"
    using cal_DoRemoveNext_ok [of c] c q by (auto simp: cal_inv_def)
  have "cal_inv (c1\<lparr>cal_qSize := cal_qSize c1 - 1\<rparr>)"
    using cal_inv_less [OF c(1), of e c1] e by (simp add: least_event_def same_params_def)
  from ResizeDown_ok [OF this] show ?thesis using e q by (auto simp: cal_RemoveNext_def cal_IsEmpty_def)
qed

lemma cal_Remove_ok:
  assumes c: "cal_inv c" "e \<in> cal_events c"
  shows "\<exists>c'. cal_Remove e c = Inr c' \<and> cal_inv c' \<and> cal_events c' = cal_events c - {e} \<and> cal_lastPrio c' = cal_lastPrio c"
proof -
  have st: "cal_struct c" and q: "cal_qSize c \<noteq> 0" using c by (auto simp: cal_inv_def)
  let ?i = "slot c (ts e)"
  have n: "?i < unat (cal_nBuckets c)" using cal_structD(2) [OF st] by (simp add: slot_def)
  obtain b where b: "cal_Hash c (ts e) = Inr b" "unat b = ?i" using cal_Hash_ok cal_structD [OF st] by blast
  have sub: "set (cal_buckets c ! ?i) \<subseteq> cal_events c" using n cal_structD(4) [OF st] by (auto simp: cal_events_nth)
  obtain l where l: "list_Remove e (cal_buckets c ! ?i) = Inr l" "bucket_sorted (cal_reverse c) l" "set l = set (cal_buckets c ! ?i) - {e}"
    using list_Remove_bucket [OF cal_structD(7) [OF st n] inj_on_subset [OF cal_structD(5) [OF st] sub]] cal_events_slot [OF st, of e] c(2) by blast
  let ?c = "c\<lparr>cal_buckets := (cal_buckets c)[?i := l]\<rparr>"
  have c1: "cal_struct ?c" "cal_events ?c = cal_events c - {e}" using cal_drop_ok [OF st c(2) refl l(2,3)] by auto
  have "cal_pos ?c" using c(1) c1(2) by (simp add: cal_inv_def cal_pos_def)
  then have "cal_inv (?c\<lparr>cal_qSize := cal_qSize c - 1\<rparr>)" using cal_inv_less [OF c c1(1) _ c1(2)] by simp
  from ResizeDown_ok [OF this] show ?thesis
    using b n l(1) c1(2) q cal_structD(4) [OF st] by (auto simp: cal_Remove_def cal_IsEmpty_def cal_bucket_def)
qed

text \<open>The calendar scheduler meets the whole contract; events must not be earlier than the last event delivered.\<close>

interpretation cal_sched: event_scheduler cal_ops cal_inv cal_events cal_lastPrio
proof
  fix c e
  assume c: "cal_inv c"
  then have st: "cal_struct c" "cal_pos c" by (auto simp: cal_inv_def)
  show "finite (cal_events c)" by simp
  show "inj_on uid (cal_events c)" using st(1) by (rule cal_structD)
  show "cal_lastPrio c \<le> ts e \<and> event_ok e" if "e \<in> cal_events c"
    using that cal_structD(6) [OF st(1)] st(2) by (simp add: cal_pos_def)
  have empty: "cal_qSize c = 0 \<longleftrightarrow> cal_events c = {}"
    using c by (metis cal_inv_def card_0_eq finite_cal_events unat_eq_zero)
  then show "IsEmpty cal_ops c \<longleftrightarrow> cal_events c = {}" by (simp add: cal_ops_def cal_IsEmpty_def)
  show "\<exists>c'. Insert cal_ops e c = Inr c' \<and> cal_inv c' \<and> cal_events c' = insert e (cal_events c) \<and> cal_lastPrio c' = cal_lastPrio c"
    if "insertable (cal_events c) (cal_lastPrio c) e" using cal_Insert_ok [OF c that] by (simp add: cal_ops_def)
  show "\<exists>e. PeekNext cal_ops c = Inr e \<and> least_event (cal_events c) e" if "cal_events c \<noteq> {}"
    using cal_PeekNext_ok [OF st that] that empty by (simp add: cal_ops_def)
  show "\<exists>e c'. RemoveNext cal_ops c = Inr (e, c') \<and> least_event (cal_events c) e \<and> cal_inv c' \<and>
      cal_events c' = cal_events c - {e} \<and> cal_lastPrio c' \<le> ts e" if "cal_events c \<noteq> {}"
    using cal_RemoveNext_ok [OF c that] by (auto simp: cal_ops_def)
  show "\<exists>c'. Remove cal_ops e c = Inr c' \<and> cal_inv c' \<and> cal_events c' = cal_events c - {e} \<and> cal_lastPrio c' = cal_lastPrio c"
    if "e \<in> cal_events c" using cal_Remove_ok [OF c that] by (simp add: cal_ops_def)
qed

lemma CalendarScheduler_ok: "\<exists>c. CalendarScheduler r = Inr c \<and> cal_inv c \<and> cal_events c = {} \<and> cal_lastPrio c = 0 \<and> cal_reverse c = r"
proof -
  let ?c = "\<lparr>cal_buckets = [[], []], cal_nBuckets = 2, cal_width = 1, cal_lastBucket = 0, cal_bucketTop = 1, cal_lastPrio = 0,
      cal_qSize = 0, cal_reverse = r\<rparr>"
  have "unat (2 :: u32) = Suc (Suc 0)" by simp
  then have "replicate (unat (2 :: u32)) [] = [[], [] :: event list]" by (simp only: replicate_Suc replicate_0)
  then have "CalendarScheduler r = Inr ?c" by (simp add: CalendarScheduler_def cal_Init_def cal_Hash_def Let_def)
  moreover have "cal_inv ?c"
    by (auto simp: cal_inv_def cal_struct_def cal_pos_def cal_events_def bucket_sorted_def slot_def day_def less_Suc_eq)
  ultimately show ?thesis by (simp add: cal_events_def)
qed

section \<open>Results\<close>

text \<open>
  C31: the calendar scheduler behaves as the list scheduler. A new calendar is empty, in either storage order; on every state with the
  same pending events, inserting an event that is not earlier than the last one delivered, removing a pending event
  and taking the next one succeed, through all resizing of the calendar, and again give the same pending events, and the
  next event is the same.
\<close>

theorem calendar_scheduler_refines_list:
  assumes c: "cal_inv c" and l: "list_invar l" "cal_events c = set l"
  shows "(\<exists>c0. CalendarScheduler r = Inr c0 \<and> cal_inv c0 \<and> cal_events c0 = {}) \<and>
    (cal_IsEmpty c \<longleftrightarrow> list_IsEmpty l) \<and>
    (insertable (set l) (cal_lastPrio c) e \<longrightarrow>
      (\<exists>c'. cal_Insert e c = Inr c' \<and> cal_inv c' \<and> cal_events c' = set (list_Insert e l))) \<and>
    (e \<in> set l \<longrightarrow>
      (\<exists>c' l'. cal_Remove e c = Inr c' \<and> cal_inv c' \<and> list_Remove e l = Inr l' \<and> cal_events c' = set l')) \<and>
    (\<not> cal_IsEmpty c \<longrightarrow>
      (\<exists>x c' l'. cal_RemoveNext c = Inr (x, c') \<and> cal_inv c' \<and> list_RemoveNext l = Inr (x, l') \<and> cal_events c' = set l' \<and>
         cal_PeekNext c = Inr x \<and> cal_lastPrio c' = ts x))"
proof -
  have empty: "cal_IsEmpty c \<longleftrightarrow> set l = {}" using cal_sched.IsEmpty_iff [OF c] l(2) by (simp add: cal_ops_def)
  have "\<exists>c' l'. cal_Remove e c = Inr c' \<and> cal_inv c' \<and> list_Remove e l = Inr l' \<and> cal_events c' = set l'" if "e \<in> set l"
    using cal_Remove_ok [OF c] list_sched.Remove_ok [OF l(1) that] that l(2) by (fastforce simp: list_ops_def)
  moreover have "\<exists>x c' l'. cal_RemoveNext c = Inr (x, c') \<and> cal_inv c' \<and> list_RemoveNext l = Inr (x, l') \<and> cal_events c' = set l' \<and>
      cal_PeekNext c = Inr x \<and> cal_lastPrio c' = ts x" if ne: "set l \<noteq> {}"
  proof -
    have nc: "cal_events c \<noteq> {}" using ne l(2) by simp
    obtain x c' where x: "cal_RemoveNext c = Inr (x, c')" "least_event (set l) x" "cal_inv c'" "cal_events c' = set l - {x}" "cal_lastPrio c' = ts x"
      using cal_RemoveNext_ok [OF c nc] l(2) by auto
    obtain y l' where y: "list_RemoveNext l = Inr (y, l')" "least_event (set l) y" "set l' = set l - {y}"
      using list_sched.RemoveNext_ok [OF l(1) ne] by (auto simp: list_ops_def)
    have "x = y" using x(2) y(2) least_event_unique [OF list_sched.inj_uid [OF l(1)]] by (simp add: least_event_def)
    moreover have "cal_PeekNext c = Inr x" using cal_sched.peek_is_next [OF c _ nc, of x c'] x(1) by (simp add: cal_ops_def)
    ultimately show ?thesis using x y by auto
  qed
  moreover have "list_IsEmpty l \<longleftrightarrow> set l = {}" by (simp add: list_IsEmpty_def)
  ultimately show ?thesis
    using CalendarScheduler_ok [of r] empty cal_Insert_ok [OF c, of e] l(2) by auto
qed

theorem calendar_scheduler_refines_list_witness:
  "\<exists>c. CalendarScheduler True = Inr c \<and> (\<exists>c'. cal_Insert (Event 7 (EventKey 2 9 0)) c = Inr c' \<and> cal_events c' = {Event 7 (EventKey 2 9 0)})"
proof -
  obtain c where c: "CalendarScheduler True = Inr c" "cal_inv c" "cal_events c = {}" "cal_lastPrio c = 0" using CalendarScheduler_ok by blast
  have "list_invar []" "insertable (set []) 0 (Event 7 (EventKey 2 9 0))"
    by (simp_all add: list_invar_def insertable_def event_ok_def ts_bound_def)
  then show ?thesis
    using calendar_scheduler_refines_list [OF c(2), of "[]" False "Event 7 (EventKey 2 9 0)"] c by auto
qed

end
