(* ===== verification/Tcp_Rate.thy ===== *)
theory Tcp_Rate
  imports Tcp_Tx_Send Fixed_Point Nstime
begin

text \<open>
  \<^verbatim>\<open>src/src/internet/model/tcp-rate-ops.cc\<close>, class \<^verbatim>\<open>TcpRateLinux\<close>: how many bytes a connection has delivered and at what
  rate. Sending an item stores a snapshot of the connection in it; when the item is acknowledged, selectively or not, its bytes are
  counted once and the snapshot is marked as used. The times are those of \<^verbatim>\<open>Simulator::Now ()\<close>, which is never negative, so their
  differences stay in range.
\<close>

record rate_conn =
  rc_delivered :: u64
  rc_deliveredTime :: int
  rc_firstSentTime :: int
  rc_appLimited :: u32
  rc_txItemDelivered :: u32
  rc_rateDelivered :: int
  rc_rateInterval :: int
  rc_rateAppLimited :: bool

record rate_sample =
  rs_deliveryRate :: u64
  rs_isAppLimited :: bool
  rs_interval :: int
  rs_delivered :: int
  rs_priorDelivered :: u32
  rs_priorTime :: int
  rs_sendElapsed :: int
  rs_ackElapsed :: int
  rs_bytesLoss :: u32
  rs_priorInFlight :: u32
  rs_ackedSacked :: u32

record rate_ops =
  ro_rate :: rate_conn
  ro_sample :: rate_sample

definition TcpRateLinux :: rate_ops where
  "TcpRateLinux = \<lparr>
     ro_rate = \<lparr>rc_delivered = 0, rc_deliveredTime = 0, rc_firstSentTime = 0, rc_appLimited = 0, rc_txItemDelivered = 0,
       rc_rateDelivered = 0, rc_rateInterval = 0, rc_rateAppLimited = False\<rparr>,
     ro_sample = \<lparr>rs_deliveryRate = 0, rs_isAppLimited = False, rs_interval = 0, rs_delivered = 0, rs_priorDelivered = 0,
       rs_priorTime = 0, rs_sendElapsed = 0, rs_ackElapsed = 0, rs_bytesLoss = 0, rs_priorInFlight = 0, rs_ackedSacked = 0\<rparr>\<rparr>"

text \<open>A conversion to \<^verbatim>\<open>int32_t\<close>, and a product of a \<^verbatim>\<open>Time\<close> and an integer.\<close>

definition to_int32 :: "int \<Rightarrow> int" where
  "to_int32 x = sint (word_of_int x :: u32)"

definition time_mul :: "int \<Rightarrow> int \<Rightarrow> int res" where
  "time_mul k t = (if int64_range (k * t) then Inr (k * t) else Inl Undefined_Behaviour)"

definition GenerateSample :: "u32 \<Rightarrow> u32 \<Rightarrow> bool \<Rightarrow> u32 \<Rightarrow> int \<Rightarrow> rate_ops \<Rightarrow> (rate_sample \<times> rate_ops) res" where
  "GenerateSample delivered lost is_sack_reneg priorInFlight minRtt ro =
     (let rate = (let r = ro_rate ro in if rc_appLimited r \<noteq> 0 \<and> rc_delivered r > ucast (rc_appLimited r) then r\<lparr>rc_appLimited := 0\<rparr> else r);
          smp = (ro_sample ro)\<lparr>rs_ackedSacked := delivered, rs_bytesLoss := lost, rs_priorInFlight := priorInFlight\<rparr>
      in if rs_priorTime smp = 0 \<or> is_sack_reneg
         then let smp = smp\<lparr>rs_delivered := - 1, rs_interval := 0\<rparr> in Inr (smp, \<lparr>ro_rate = rate, ro_sample = smp\<rparr>)
         else let smp = smp\<lparr>rs_interval := max (rs_sendElapsed smp) (rs_ackElapsed smp),
                    rs_delivered := to_int32 (uint (rc_delivered rate - ucast (rs_priorDelivered smp)))\<rparr>
              in if rs_interval smp < minRtt
                 then let smp = smp\<lparr>rs_interval := 0, rs_priorTime := 0\<rparr> in Inr (smp, \<lparr>ro_rate = rate, ro_sample = smp\<rparr>)
                 else bind_res
                   (if \<not> rs_isAppLimited smp then Inr True
                    else bind_res (time_mul (rs_delivered smp) (rc_rateInterval rate)) (\<lambda>a.
                         bind_res (time_mul (rc_rateDelivered rate) (rs_interval smp)) (\<lambda>b. Inr (a \<ge> b))))
                   (\<lambda>record.
                     if \<not> record then Inr (smp, \<lparr>ro_rate = rate, ro_sample = smp\<rparr>)
                     else bind_res (GetSeconds (rs_interval smp)) (\<lambda>seconds.
                          bind_res (d_to_word (d_div (d_mul (d_of_int (rs_delivered smp)) (Fin 8)) seconds)) (\<lambda>bps.
                          let rate = rate\<lparr>rc_rateDelivered := rs_delivered smp, rc_rateInterval := rs_interval smp,
                                rc_rateAppLimited := rs_isAppLimited smp\<rparr>;
                              smp = smp\<lparr>rs_deliveryRate := bps\<rparr>
                          in Inr (smp, \<lparr>ro_rate = rate, ro_sample = smp\<rparr>)))))"

definition CalculateAppLimited :: "u32 \<Rightarrow> u32 \<Rightarrow> u32 \<Rightarrow> seq \<Rightarrow> seq \<Rightarrow> u32 \<Rightarrow> u32 \<Rightarrow> rate_ops \<Rightarrow> rate_ops res" where
  "CalculateAppLimited cWnd in_flight segmentSize tailSeq nextTx lostOut retransOut ro =
     bind_res (seq_diff tailSeq nextTx) (\<lambda>d.
       Inr (if d < sint segmentSize \<and> in_flight < cWnd \<and> lostOut \<le> retransOut
            then ro\<lparr>ro_rate := (ro_rate ro)\<lparr>rc_appLimited := max (ucast (rc_delivered (ro_rate ro) + ucast in_flight)) 1\<rparr>\<rparr>
            else ro))"

definition GetSeqSize :: "tx_item \<Rightarrow> u32" where
  "GetSeqSize t = (if item_size t > 0 then item_size t else 1)"

definition SkbDelivered :: "int \<Rightarrow> tx_item \<Rightarrow> rate_ops \<Rightarrow> tx_item \<times> rate_ops" where
  "SkbDelivered now skb ro =
     (let info = ti_rate skb; rate = ro_rate ro; smp = ro_sample ro
      in if ri_deliveredTime info = time_max then (skb, ro)
         else let rate = rate\<lparr>rc_delivered := rc_delivered rate + ucast (GetSeqSize skb), rc_deliveredTime := now\<rparr>;
                  (rate, smp) =
                    (if rs_priorDelivered smp = 0 \<or> ri_delivered info > ucast (rs_priorDelivered smp)
                     then (rate\<lparr>rc_firstSentTime := ti_lastSent skb\<rparr>,
                           smp\<lparr>rs_ackElapsed := now - ri_deliveredTime info, rs_priorDelivered := ucast (ri_delivered info),
                             rs_priorTime := ri_deliveredTime info, rs_isAppLimited := ri_isAppLimited info,
                             rs_sendElapsed := ti_lastSent skb - ri_firstSent info\<rparr>)
                     else (rate, smp))
              in (skb\<lparr>ti_rate := info\<lparr>ri_deliveredTime := time_max\<rparr>\<rparr>,
                  \<lparr>ro_rate = rate\<lparr>rc_txItemDelivered := ucast (ri_delivered info)\<rparr>, ro_sample = smp\<rparr>))"

definition SkbSent :: "int \<Rightarrow> tx_item \<Rightarrow> bool \<Rightarrow> rate_ops \<Rightarrow> tx_item \<times> rate_ops" where
  "SkbSent now skb isStartOfTransmission ro =
     (let rate = (if isStartOfTransmission then (ro_rate ro)\<lparr>rc_firstSentTime := now, rc_deliveredTime := now\<rparr> else ro_rate ro)
      in (skb\<lparr>ti_rate := \<lparr>ri_delivered = rc_delivered rate, ri_deliveredTime = rc_deliveredTime rate, ri_firstSent = rc_firstSentTime rate,
                ri_isAppLimited = (rc_appLimited rate \<noteq> 0)\<rparr>\<rparr>,
          ro\<lparr>ro_rate := rate\<rparr>))"

end
