(* ===== verification/Rtt_Estimator.thy ===== *)
theory Rtt_Estimator
  imports Data_Rate Nstime
begin

text \<open>
  \<^verbatim>\<open>src/src/internet/model/rtt-estimator.cc\<close>, class \<^verbatim>\<open>RttMeanDeviation\<close>: the smoothed round-trip time and its variation.
  When both gains are reciprocals of powers of two, an update is integer arithmetic on the ticks of \<^verbatim>\<open>Time\<close>, whose left shifts
  wrap at 64 bits; otherwise it goes through \<^verbatim>\<open>double\<close> and \<^verbatim>\<open>int64x64_t\<close>.
\<close>

record rtt_estimator =
  re_initialEstimatedRtt :: int
  re_estimatedRtt :: int
  re_estimatedVariation :: int
  re_nSamples :: u32
  re_alpha :: dbl
  re_beta :: dbl

definition RttMeanDeviation :: rtt_estimator where
  "RttMeanDeviation = \<lparr>re_initialEstimatedRtt = 10 ^ 9, re_estimatedRtt = 10 ^ 9, re_estimatedVariation = 0, re_nSamples = 0,
     re_alpha = Fin (1 / 8), re_beta = Fin (1 / 4)\<rparr>"

definition rtt_Reset :: "rtt_estimator \<Rightarrow> rtt_estimator" where
  "rtt_Reset r = r\<lparr>re_estimatedRtt := re_initialEstimatedRtt r, re_estimatedVariation := 0, re_nSamples := 0\<rparr>"

definition rtt_tolerance :: dbl where
  "rtt_tolerance = mk_double (1 / 1000000)"

fun d_abs :: "dbl \<Rightarrow> dbl" where
  "d_abs (Fin a) = Fin \<bar>a\<bar>"
| "d_abs NaN = NaN"
| "d_abs _ = PInf"

definition CheckForReciprocalPowerOfTwo :: "dbl \<Rightarrow> nat" where
  "CheckForReciprocalPowerOfTwo v =
     (let near = (\<lambda>k. d_less (d_abs (d_sub (d_div (Fin 1) v) (Fin k))) rtt_tolerance)
      in if d_less v rtt_tolerance then 0
         else if near 8 then 3
         else if near 4 then 2
         else if near 32 then 5
         else if near 16 then 4
         else if near 2 then 1
         else 0)"

text \<open>\<^verbatim>\<open>int64x64_t (double)\<close> of \<^verbatim>\<open>int64x64-128.h\<close>: the fraction is scaled and rounded in \<^verbatim>\<open>long double\<close>.\<close>

definition hp_of_double :: "dbl \<Rightarrow> int res" where
  "hp_of_double d =
     (case d of
        Fin a \<Rightarrow>
          let v = \<bar>a\<bar>; hi = \<lfloor>v\<rfloor>; flo = rnd 64 (- 16445) (rnd 64 (- 16445) ((v - of_int hi) * 2 ^ 64) + 1 / 2)
          in if hi \<ge> 2 ^ 127 \<or> flo \<ge> 2 ^ 64 then Inl Undefined_Behaviour
             else let w = i128 (hi * 2 ^ 64 + \<lfloor>flo\<rfloor>) in Inr (if a < 0 then i128 (- w) else w)
      | _ \<Rightarrow> Inl Undefined_Behaviour)"

definition time_FromSeconds :: "dbl \<Rightarrow> int res" where
  "time_FromSeconds d = bind_res (hp_of_double d) (time_From (10 ^ 9))"

definition time_scale :: "int \<Rightarrow> dbl \<Rightarrow> int res" where
  "time_scale t d = bind_res (hp_of_double d) (\<lambda>w. bind_res (hp_Mul (t * 2 ^ 64) w) hp_Round)"

definition FloatingPointUpdate :: "int \<Rightarrow> rtt_estimator \<Rightarrow> rtt_estimator res" where
  "FloatingPointUpdate m r =
     bind_res (time_sub m (re_estimatedRtt r)) (\<lambda>err.
     bind_res (GetSeconds err) (\<lambda>secs.
     bind_res (time_FromSeconds (d_mul secs (re_alpha r))) (\<lambda>gErr.
     bind_res (time_add (re_estimatedRtt r) gErr) (\<lambda>est.
     bind_res (time_sub \<bar>err\<bar> (re_estimatedVariation r)) (\<lambda>difference.
     bind_res (time_scale difference (re_beta r)) (\<lambda>step.
     bind_res (time_add (re_estimatedVariation r) step) (\<lambda>var.
       Inr (r\<lparr>re_estimatedRtt := est, re_estimatedVariation := var\<rparr>))))))))"

text \<open>The shifts of \<^verbatim>\<open>int64_t\<close>: to the left the result wraps, to the right it rounds down.\<close>

definition shl64 :: "int \<Rightarrow> nat \<Rightarrow> int" where
  "shl64 x k = sint (word_of_int (x * 2 ^ k) :: u64)"

definition IntegerUpdate :: "int \<Rightarrow> nat \<Rightarrow> nat \<Rightarrow> rtt_estimator \<Rightarrow> rtt_estimator res" where
  "IntegerUpdate m rttShift variationShift r =
     bind_res (time_sub m (re_estimatedRtt r)) (\<lambda>delta.
     bind_res (time_add (shl64 (re_estimatedRtt r) rttShift) delta) (\<lambda>srtt.
     bind_res (if delta < 0 then time_sub 0 delta else Inr delta) (\<lambda>delta.
     bind_res (time_sub delta (re_estimatedVariation r)) (\<lambda>delta.
     bind_res (time_add (shl64 (re_estimatedVariation r) variationShift) delta) (\<lambda>rttvar.
       Inr (r\<lparr>re_estimatedRtt := srtt div 2 ^ rttShift, re_estimatedVariation := rttvar div 2 ^ variationShift\<rparr>))))))"

definition Measurement :: "int \<Rightarrow> rtt_estimator \<Rightarrow> rtt_estimator res" where
  "Measurement m r =
     bind_res
       (if re_nSamples r \<noteq> 0
        then let rttShift = CheckForReciprocalPowerOfTwo (re_alpha r);
                 variationShift = CheckForReciprocalPowerOfTwo (re_beta r)
             in if rttShift \<noteq> 0 \<and> variationShift \<noteq> 0 then IntegerUpdate m rttShift variationShift r else FloatingPointUpdate m r
        else Inr (r\<lparr>re_estimatedRtt := m, re_estimatedVariation := (if m \<ge> 0 then m div 2 else - (- m div 2))\<rparr>))
       (\<lambda>r. Inr (r\<lparr>re_nSamples := re_nSamples r + 1\<rparr>))"

section \<open>Integer updates\<close>

lemma shl64_exact:
  assumes "0 \<le> x" "x * 2 ^ k < 2 ^ 63"
  shows "shl64 x k = x * 2 ^ k"
proof -
  have "0 \<le> x * 2 ^ k" using assms(1) by simp
  then have "signed_take_bit 63 (x * 2 ^ k) = x * 2 ^ k" using assms(2) by (intro signed_take_bit_int_eq_self) (simp_all add: order_trans [of _ 0])
  then show ?thesis by (simp only: shl64_def sint_sbintrunc') simp
qed

lemma step_between:
  fixes x d :: int
  shows "(x * 2 ^ k + d) div 2 ^ k = x + d div 2 ^ k" "0 \<le> d \<Longrightarrow> 0 \<le> d div 2 ^ k \<and> d div 2 ^ k \<le> d"
    "d < 0 \<Longrightarrow> d \<le> d div 2 ^ k \<and> d div 2 ^ k < 0"
proof -
  show "(x * 2 ^ k + d) div 2 ^ k = x + d div 2 ^ k" by simp
  show "0 \<le> d div 2 ^ k \<and> d div 2 ^ k \<le> d" if "0 \<le> d" using that int_div_le_dividend [of "2 ^ k" d] by (simp add: pos_imp_zdiv_nonneg_iff)
  have "d * 2 ^ k \<le> d" if "d < 0" using that by (simp add: mult_le_cancel_left1)
  then show "d \<le> d div 2 ^ k \<and> d div 2 ^ k < 0" if "d < 0"
    using that zdiv_mono1 [of "d * 2 ^ k" d "2 ^ k"] by (simp add: pos_imp_zdiv_neg_iff)
qed

lemma step_lies:
  fixes x d :: int
  shows "min (x + d) x \<le> x + d div 2 ^ k" "x + d div 2 ^ k \<le> max (x + d) x"
  using step_between(2,3) [of d k] by linarith+

lemma IntegerUpdate_bounds:
  assumes r: "0 \<le> re_estimatedRtt r" "re_estimatedRtt r < 2 ^ 57" "0 \<le> re_estimatedVariation r" "re_estimatedVariation r < 2 ^ 57"
    and m: "0 \<le> m" "m < 2 ^ 57" and k: "a \<le> 5" "b \<le> 5"
  shows "\<exists>e v. IntegerUpdate m a b r = Inr (r\<lparr>re_estimatedRtt := e, re_estimatedVariation := v\<rparr>) \<and>
    e = re_estimatedRtt r + (m - re_estimatedRtt r) div 2 ^ a \<and>
    v = re_estimatedVariation r + (\<bar>m - re_estimatedRtt r\<bar> - re_estimatedVariation r) div 2 ^ b \<and>
    min m (re_estimatedRtt r) \<le> e \<and> e \<le> max m (re_estimatedRtt r) \<and>
    min \<bar>m - re_estimatedRtt r\<bar> (re_estimatedVariation r) \<le> v \<and> v \<le> max \<bar>m - re_estimatedRtt r\<bar> (re_estimatedVariation r)"
proof -
  let ?e = "re_estimatedRtt r" and ?v = "re_estimatedVariation r"
  have pow: "(2 :: int) ^ a \<le> 2 ^ 5" "(2 :: int) ^ b \<le> 2 ^ 5" using k by (intro power_increasing; simp)+
  have bound: "x * 2 ^ j < 2 ^ 62" if "0 \<le> x" "x < 2 ^ 57" "(2 :: int) ^ j \<le> 2 ^ 5" for x :: int and j
  proof -
    have "x * 2 ^ j \<le> x * 2 ^ 5" using that by (intro mult_left_mono) simp_all
    then show ?thesis using that(2) by simp
  qed
  have ea: "shl64 ?e a = ?e * 2 ^ a" "?e * 2 ^ a < 2 ^ 62" "0 \<le> ?e * 2 ^ a"
    and vb: "shl64 ?v b = ?v * 2 ^ b" "?v * 2 ^ b < 2 ^ 62" "0 \<le> ?v * 2 ^ b"
    using bound [OF r(1,2) pow(1)] bound [OF r(3,4) pow(2)] r shl64_exact [of ?e a] shl64_exact [of ?v b] by simp_all
  have range: "int64_range (E + d)" "int64_range d" if "0 \<le> E" "E < 2 ^ 62" "- (2 ^ 58) < d" "d < 2 ^ 58" for E d :: int
    using that by (simp_all add: int64_range_def)
  have d: "- (2 ^ 58) < m - ?e" "m - ?e < 2 ^ 58" "- (2 ^ 58) < \<bar>m - ?e\<bar> - ?v" "\<bar>m - ?e\<bar> - ?v < 2 ^ 58" "0 - (m - ?e) < 2 ^ 58"
      "- (2 ^ 58) < 0 - (m - ?e)"
    using r m by (simp_all add: abs_if)
  have abs: "(if m - ?e < 0 then time_sub 0 (m - ?e) else Inr (m - ?e)) = Inr \<bar>m - ?e\<bar>"
    using range(2) [of 0 "0 - (m - ?e)"] d by (simp add: time_sub_def)
  have ops: "time_sub m ?e = Inr (m - ?e)" "time_add (?e * 2 ^ a) (m - ?e) = Inr (?e * 2 ^ a + (m - ?e))"
    "time_sub \<bar>m - ?e\<bar> ?v = Inr (\<bar>m - ?e\<bar> - ?v)" "time_add (?v * 2 ^ b) (\<bar>m - ?e\<bar> - ?v) = Inr (?v * 2 ^ b + (\<bar>m - ?e\<bar> - ?v))"
    using range(1) [OF ea(3,2) d(1,2)] range(1) [OF vb(3,2) d(3,4)] range(2) [OF ea(3,2) d(1,2)] range(2) [OF vb(3,2) d(3,4)]
    by (simp_all only: time_sub_def time_add_def if_True)
  have eq: "IntegerUpdate m a b r = Inr (r\<lparr>re_estimatedRtt := (?e * 2 ^ a + (m - ?e)) div 2 ^ a,
      re_estimatedVariation := (?v * 2 ^ b + (\<bar>m - ?e\<bar> - ?v)) div 2 ^ b\<rparr>)"
    unfolding IntegerUpdate_def ea(1) vb(1) ops bind_res_simps abs ..
  show ?thesis unfolding eq step_between(1)
    using step_lies [of ?e "m - ?e" a] step_lies [of ?v "\<bar>m - ?e\<bar> - ?v" b] by auto
qed

section \<open>A sequence of measurements\<close>

definition rtt_params :: "rtt_estimator \<Rightarrow> bool" where
  "rtt_params r \<longleftrightarrow> re_alpha r = Fin (1 / 8) \<and> re_beta r = Fin (1 / 4)"

lemma default_shifts: "CheckForReciprocalPowerOfTwo (Fin (1 / 8)) = 3" "CheckForReciprocalPowerOfTwo (Fin (1 / 4)) = 2"
  by code_simp+

text \<open>Where the estimate and the variation lie when all samples lie between \<open>lo\<close> and \<open>hi\<close>.\<close>

definition rtt_within :: "int \<Rightarrow> int \<Rightarrow> rtt_estimator \<Rightarrow> bool" where
  "rtt_within lo hi r \<longleftrightarrow> lo \<le> re_estimatedRtt r \<and> re_estimatedRtt r \<le> hi \<and> 0 \<le> re_estimatedVariation r \<and>
     re_estimatedVariation r \<le> max (hi div 2) (hi - lo)"

lemma Measurement_within:
  assumes "rtt_params r" "re_nSamples r \<noteq> 0 \<longrightarrow> rtt_within lo hi r" and m: "0 \<le> lo" "lo \<le> m" "m \<le> hi" "hi < 2 ^ 57"
  shows "\<exists>r'. Measurement m r = Inr r' \<and> rtt_params r' \<and> rtt_within lo hi r' \<and> re_nSamples r' = re_nSamples r + 1"
proof (cases "re_nSamples r = 0")
  case True
  have "m div 2 \<le> hi div 2" "0 \<le> m div 2" using m by simp_all
  then show ?thesis using True m assms(1) by (simp add: Measurement_def rtt_params_def rtt_within_def)
next
  case False
  then have w: "rtt_within lo hi r" using assms(2) by simp
  have b: "0 \<le> re_estimatedRtt r" "re_estimatedRtt r < 2 ^ 57" "0 \<le> re_estimatedVariation r" "re_estimatedVariation r < 2 ^ 57"
    using w m by (auto simp: rtt_within_def)
  obtain e v where u: "IntegerUpdate m 3 2 r = Inr (r\<lparr>re_estimatedRtt := e, re_estimatedVariation := v\<rparr>)"
      "min m (re_estimatedRtt r) \<le> e" "e \<le> max m (re_estimatedRtt r)"
      "min \<bar>m - re_estimatedRtt r\<bar> (re_estimatedVariation r) \<le> v" "v \<le> max \<bar>m - re_estimatedRtt r\<bar> (re_estimatedVariation r)"
    using IntegerUpdate_bounds [OF b, of m 3 2] m by auto
  have "Measurement m r = Inr (r\<lparr>re_estimatedRtt := e, re_estimatedVariation := v, re_nSamples := re_nSamples r + 1\<rparr>)"
    using False u(1) assms(1) by (simp add: Measurement_def rtt_params_def default_shifts)
  moreover have "\<bar>m - re_estimatedRtt r\<bar> \<le> hi - lo" using w m by (auto simp: rtt_within_def)
  then have "v \<le> max (hi div 2) (hi - lo)" using u(5) w unfolding rtt_within_def max_def by (auto split: if_splits)
  moreover have "lo \<le> e" "e \<le> hi" "0 \<le> v" using u(2,3,4) w m by (auto simp: rtt_within_def)
  ultimately show ?thesis using assms(1) by (simp add: rtt_params_def rtt_within_def)
qed

fun rtt_run :: "int list \<Rightarrow> rtt_estimator \<Rightarrow> rtt_estimator res" where
  "rtt_run [] r = Inr r"
| "rtt_run (m # ms) r = bind_res (Measurement m r) (rtt_run ms)"

lemma rtt_run_within:
  assumes "rtt_params r" "rtt_within lo hi r" "0 \<le> lo" "\<forall>m\<in>set ms. lo \<le> m \<and> m \<le> hi" "hi < 2 ^ 57"
  shows "\<exists>r'. rtt_run ms r = Inr r' \<and> rtt_params r' \<and> rtt_within lo hi r'"
  using assms
proof (induction ms arbitrary: r)
  case (Cons m ms)
  obtain r1 where "Measurement m r = Inr r1" "rtt_params r1" "rtt_within lo hi r1"
    using Measurement_within [of r lo hi m] Cons.prems by auto
  then show ?case using Cons.IH [of r1] Cons.prems by simp
qed simp

text \<open>
  C26: let the default round-trip time estimator take any sequence of measurements, not empty, that lie between two bounds \<open>lo\<close> and \<open>hi\<close> with
  \<open>0 \<le> lo\<close> and \<open>hi < 2 ^ 57\<close> nanoseconds (about four years). It never fails, the smoothed time lies between \<open>lo\<close> and \<open>hi\<close> too, and the
  variation is not negative and at most the larger of \<open>hi div 2\<close> and \<open>hi - lo\<close>. It is not bounded by the spread of the samples: the first of
  them sets it to half of itself.
\<close>

theorem rtt_estimate_within_samples:
  assumes "ms \<noteq> []" "0 \<le> lo" "\<forall>m\<in>set ms. lo \<le> m \<and> m \<le> hi" "hi < 2 ^ 57"
  shows "\<exists>r. rtt_run ms RttMeanDeviation = Inr r \<and> lo \<le> re_estimatedRtt r \<and> re_estimatedRtt r \<le> hi \<and>
    0 \<le> re_estimatedVariation r \<and> re_estimatedVariation r \<le> max (hi div 2) (hi - lo)"
proof -
  obtain m rest where ms: "ms = m # rest" using assms(1) by (cases ms) auto
  obtain r1 where r1: "Measurement m RttMeanDeviation = Inr r1" "rtt_params r1" "rtt_within lo hi r1"
    using Measurement_within [of RttMeanDeviation lo hi m] assms by (auto simp: ms RttMeanDeviation_def rtt_params_def)
  then show ?thesis using rtt_run_within [OF r1(2,3), of rest] assms by (auto simp: ms rtt_within_def)
qed

theorem rtt_estimate_within_samples_witness:
  "\<exists>r. rtt_run [100, 180, 90] RttMeanDeviation = Inr r \<and> 90 \<le> re_estimatedRtt r \<and> re_estimatedRtt r \<le> 180 \<and>
    0 \<le> re_estimatedVariation r \<and> re_estimatedVariation r \<le> 90"
  using rtt_estimate_within_samples [of "[100, 180, 90]" 90 180] by simp

end
