(* ===== verification/Tcp_Recovery.thy ===== *)
theory Tcp_Recovery
  imports Tcp_Congestion
begin

text \<open>
  \<^verbatim>\<open>src/src/internet/model/tcp-recovery-ops.cc\<close> and \<^verbatim>\<open>tcp-prr-recovery.cc\<close>: the window during loss recovery, by the classic
  algorithm or by proportional rate reduction. \<^verbatim>\<open>uint32_t\<close> products and sums wrap; the quotient of the proportional part is a
  \<^verbatim>\<open>double\<close> converted to \<^verbatim>\<open>int\<close>.
\<close>

record prr =
  prr_delivered :: u32
  prr_out :: u32
  prr_flight :: u32

datatype recovery = Classic | Prr prr

definition TcpPrrRecovery :: recovery where
  "TcpPrrRecovery = Prr \<lparr>prr_delivered = 0, prr_out = 0, prr_flight = 0\<rparr>"

section \<open>The classic algorithm\<close>

definition classic_EnterRecovery :: "u32 \<Rightarrow> tcb \<Rightarrow> tcb" where
  "classic_EnterRecovery dupAckCount tcb =
     tcb\<lparr>m_cWnd := m_ssThresh tcb, m_cWndInfl := m_ssThresh tcb + dupAckCount * m_segmentSize tcb\<rparr>"

definition classic_DoRecovery :: "tcb \<Rightarrow> tcb" where
  "classic_DoRecovery tcb = tcb\<lparr>m_cWndInfl := m_cWndInfl tcb + m_segmentSize tcb\<rparr>"

definition classic_ExitRecovery :: "tcb \<Rightarrow> tcb" where
  "classic_ExitRecovery tcb = tcb\<lparr>m_cWndInfl := m_ssThresh tcb\<rparr>"

section \<open>Proportional rate reduction\<close>

text \<open>\<^verbatim>\<open>std::ceil\<close>, and the conversions to \<^verbatim>\<open>int\<close> from \<^verbatim>\<open>double\<close> and from \<^verbatim>\<open>uint32_t\<close>.\<close>

fun d_ceil :: "dbl \<Rightarrow> dbl" where
  "d_ceil (Fin a) = Fin (of_int \<lceil>a\<rceil>)"
| "d_ceil d = d"

definition d_to_int32 :: "dbl \<Rightarrow> int res" where
  "d_to_int32 d =
     (case d of
        Fin a \<Rightarrow> (let n = (if a \<ge> 0 then \<lfloor>a\<rfloor> else - \<lfloor>- a\<rfloor>)
                  in if - (2 ^ 31) \<le> n \<and> n < 2 ^ 31 then Inr n else Inl Undefined_Behaviour)
      | _ \<Rightarrow> Inl Undefined_Behaviour)"

abbreviation int_of_u32 :: "u32 \<Rightarrow> int" where
  "int_of_u32 w \<equiv> sint w"

definition prr_DoRecovery :: "u32 \<Rightarrow> bool \<Rightarrow> prr \<times> tcb \<Rightarrow> (prr \<times> tcb) res" where
  "prr_DoRecovery deliveredBytes isDupAck st =
     (case st of (p, tcb) \<Rightarrow>
        let deliveredBytes = (if isDupAck \<and> prr_delivered p < prr_flight p then deliveredBytes + m_segmentSize tcb else deliveredBytes)
        in if deliveredBytes = 0 then Inr (p, tcb)
           else let p = p\<lparr>prr_delivered := prr_delivered p + deliveredBytes\<rparr>
                in bind_res
                  (if m_bytesInFlight tcb > m_ssThresh tcb
                   then d_to_int32 (d_sub (d_ceil (d_div (d_mul (d_of_word (prr_delivered p * m_ssThresh tcb)) (Fin 1)) (d_of_word (prr_flight p))))
                          (d_of_word (prr_out p)))
                   else let limit = int_of_u32 (max (prr_delivered p - prr_out p) deliveredBytes);
                            limit = (if m_isRetransDataAcked tcb then int_of_u32 (word_of_int limit + m_segmentSize tcb) else limit)
                        in Inr (min limit (int_of_u32 (m_ssThresh tcb - m_bytesInFlight tcb))))
                  (\<lambda>sendCount.
                    let sendCount = max sendCount (int_of_u32 (if prr_out p > 0 then 0 else m_segmentSize tcb));
                        tcb = tcb\<lparr>m_cWnd := m_bytesInFlight tcb + word_of_int sendCount\<rparr>
                    in Inr (p, tcb\<lparr>m_cWndInfl := m_cWnd tcb\<rparr>)))"

definition prr_EnterRecovery :: "u32 \<Rightarrow> prr \<times> tcb \<Rightarrow> (prr \<times> tcb) res" where
  "prr_EnterRecovery deliveredBytes st =
     (case st of (p, tcb) \<Rightarrow>
        prr_DoRecovery deliveredBytes True (p\<lparr>prr_out := 0, prr_delivered := 0, prr_flight := m_bytesInFlight tcb\<rparr>, tcb))"

definition prr_ExitRecovery :: "tcb \<Rightarrow> tcb" where
  "prr_ExitRecovery tcb = tcb\<lparr>m_cWndInfl := m_cWnd tcb\<rparr>"

definition prr_UpdateBytesSent :: "u32 \<Rightarrow> prr \<Rightarrow> prr" where
  "prr_UpdateBytesSent bytesSent p = p\<lparr>prr_out := prr_out p + bytesSent\<rparr>"

section \<open>The calls of the socket\<close>

fun rec_EnterRecovery :: "u32 \<Rightarrow> u32 \<Rightarrow> recovery \<times> tcb \<Rightarrow> (recovery \<times> tcb) res" where
  "rec_EnterRecovery dupAckCount deliveredBytes (Classic, tcb) = Inr (Classic, classic_EnterRecovery dupAckCount tcb)"
| "rec_EnterRecovery dupAckCount deliveredBytes (Prr p, tcb) =
     bind_res (prr_EnterRecovery deliveredBytes (p, tcb)) (\<lambda>(p, tcb). Inr (Prr p, tcb))"

fun rec_DoRecovery :: "u32 \<Rightarrow> bool \<Rightarrow> recovery \<times> tcb \<Rightarrow> (recovery \<times> tcb) res" where
  "rec_DoRecovery deliveredBytes isDupAck (Classic, tcb) = Inr (Classic, classic_DoRecovery tcb)"
| "rec_DoRecovery deliveredBytes isDupAck (Prr p, tcb) =
     bind_res (prr_DoRecovery deliveredBytes isDupAck (p, tcb)) (\<lambda>(p, tcb). Inr (Prr p, tcb))"

fun rec_ExitRecovery :: "recovery \<Rightarrow> tcb \<Rightarrow> tcb" where
  "rec_ExitRecovery Classic tcb = classic_ExitRecovery tcb"
| "rec_ExitRecovery (Prr p) tcb = prr_ExitRecovery tcb"

fun rec_UpdateBytesSent :: "u32 \<Rightarrow> recovery \<Rightarrow> recovery" where
  "rec_UpdateBytesSent bytesSent Classic = Classic"
| "rec_UpdateBytesSent bytesSent (Prr p) = Prr (prr_UpdateBytesSent bytesSent p)"

section \<open>The proportional part\<close>




















text \<open>The product of the code is one of 32 bits: beyond that the share is that of the product modulo \<^verbatim>\<open>2^32\<close>.\<close>

lemma prr_product_wraps:
  "case prr_DoRecovery 100000 False (\<lparr>prr_delivered = 0, prr_out = 0, prr_flight = 200000\<rparr>,
       (demo_tcb 200000 1000)\<lparr>m_ssThresh := 100000, m_bytesInFlight := 200000\<rparr>) of
     Inl e \<Rightarrow> False
   | Inr (p, tcb) \<Rightarrow> m_cWnd tcb = 207051"
  by code_simp

end
