(* ===== verification/Tcp_Socket.thy ===== *)
theory Tcp_Socket
  imports Tcp_Rate Rtt_Estimator Tcp_Recovery Tcp_Swift
begin

text \<open>
  \<^verbatim>\<open>src/src/internet/model/tcp-socket-base.cc\<close>, class \<^verbatim>\<open>TcpSocketBase\<close>: the state of a TCP socket and its basic operations, among them
  the segments without data. The other theories of the socket are Tcp_Output (sending data), Tcp_Input (acknowledgements and received data)
  and Tcp_States (connection set-up, tear-down and timers).

  The congestion control is an argument: the operations of an object of \<^verbatim>\<open>TcpCongestionOps\<close> with state \<open>'c\<close>. What the application
  sends when it is told of free space in \<^verbatim>\<open>NotifySend\<close> and whether it accepts connections are arguments as well; its other callbacks do not call the socket back. An event is
  the time at which it expires, \<open>None\<close> when it is not pending. An end point is its existence. Segments handed to \<^verbatim>\<open>TcpL4Protocol\<close> are
  collected in \<open>sk_out\<close>, notifications of the application in \<open>sk_notified\<close>. Pacing is off (\<^verbatim>\<open>m_pacing\<close> is false), as is
  \<^verbatim>\<open>HasCongControl\<close>.
\<close>

section \<open>State\<close>

datatype tcp_state = CLOSED | LISTEN | SYN_SENT | SYN_RCVD | ESTABLISHED | CLOSE_WAIT | LAST_ACK | FIN_WAIT_1 | FIN_WAIT_2 | CLOSING |
  TIME_WAIT

text \<open>The order of the enumeration, which the code compares with.\<close>

fun state_code :: "tcp_state \<Rightarrow> nat" where
  "state_code CLOSED = 0"
| "state_code LISTEN = 1"
| "state_code SYN_SENT = 2"
| "state_code SYN_RCVD = 3"
| "state_code ESTABLISHED = 4"
| "state_code CLOSE_WAIT = 5"
| "state_code LAST_ACK = 6"
| "state_code FIN_WAIT_1 = 7"
| "state_code FIN_WAIT_2 = 8"
| "state_code CLOSING = 9"
| "state_code TIME_WAIT = 10"

instantiation tcp_state :: linorder
begin

definition less_eq_tcp_state :: "tcp_state \<Rightarrow> tcp_state \<Rightarrow> bool" where
  "less_eq_tcp_state a b \<longleftrightarrow> state_code a \<le> state_code b"

definition less_tcp_state :: "tcp_state \<Rightarrow> tcp_state \<Rightarrow> bool" where
  "less_tcp_state a b \<longleftrightarrow> state_code a < state_code b"

instance
proof
  fix a b :: tcp_state
  show "a \<le> b \<Longrightarrow> b \<le> a \<Longrightarrow> a = b" by (cases a; cases b) (simp_all add: less_eq_tcp_state_def)
qed (auto simp: less_eq_tcp_state_def less_tcp_state_def)

end

abbreviation flag_FIN :: u8 where "flag_FIN \<equiv> 1"
abbreviation flag_SYN :: u8 where "flag_SYN \<equiv> 2"
abbreviation flag_RST :: u8 where "flag_RST \<equiv> 4"
abbreviation flag_PSH :: u8 where "flag_PSH \<equiv> 8"
abbreviation flag_ACK :: u8 where "flag_ACK \<equiv> 16"
abbreviation flag_URG :: u8 where "flag_URG \<equiv> 32"
abbreviation flag_ECE :: u8 where "flag_ECE \<equiv> 64"
abbreviation flag_CWR :: u8 where "flag_CWR \<equiv> 128"

definition has_flag :: "u8 \<Rightarrow> u8 \<Rightarrow> bool" where
  "has_flag f flags \<longleftrightarrow> and flags f \<noteq> 0"

definition set_flag :: "u8 \<Rightarrow> u8 \<Rightarrow> u8" where
  "set_flag f flags = or flags f"

definition clear_flags :: "u8 \<Rightarrow> u8 \<Rightarrow> u8" where
  "clear_flags f flags = and flags (not f)"

text \<open>A segment: the fields of \<^verbatim>\<open>TcpHeader\<close>, its options, and the data.\<close>

record tcp_segment =
  sg_flags :: u8
  sg_seq :: seq
  sg_ack :: seq
  sg_window :: u16
  sg_ts :: "(u32 \<times> u32) option"
  sg_sack :: "(seq \<times> seq) list option"
  sg_wscale :: "u8 option"
  sg_sackPermitted :: bool
  sg_payload :: bytes

record rtt_history =
  rh_seq :: seq
  rh_count :: u32
  rh_time :: int
  rh_retx :: bool

text \<open>What the retransmission event calls: \<^verbatim>\<open>ReTxTimeout\<close>, or \<^verbatim>\<open>SendEmptyPacket\<close> with its flags.\<close>

datatype retx_call = Call_ReTxTimeout | Call_SendEmptyPacket u8

datatype notification = Normal_Close | Error_Close | Connection_Failed | Connection_Succeeded | New_Connection | Data_Received

record 'c sock =
  sk_state :: tcp_state
  sk_tcb :: tcb
  sk_txBuffer :: tx_buffer
  sk_rxBuffer :: "seq rx_buffer"
  sk_cong :: 'c
  sk_recovery :: recovery
  sk_rateOps :: rate_ops
  sk_rtt :: rtt_estimator
  sk_endPoint :: bool
  sk_retxEvent :: "(int \<times> retx_call) option"
  sk_lastAckEvent :: "int option"
  sk_delAckEvent :: "int option"
  sk_persistEvent :: "int option"
  sk_timewaitEvent :: "int option"
  sk_sendPendingDataEvent :: "int option"
  sk_connSucceededEvent :: "int option"
  sk_dupAckCount :: u32
  sk_delAckCount :: u32
  sk_delAckMaxCount :: u32
  sk_noDelay :: bool
  sk_synCount :: u32
  sk_synRetries :: u32
  sk_dataRetrCount :: u32
  sk_dataRetries :: u32
  sk_rto :: int
  sk_minRto :: int
  sk_clockGranularity :: int
  sk_delAckTimeout :: int
  sk_persistTimeout :: int
  sk_cnTimeout :: int
  sk_history :: "rtt_history list"
  sk_closeNotified :: bool
  sk_closeOnEmpty :: bool
  sk_shutdownSend :: bool
  sk_shutdownRecv :: bool
  sk_connected :: bool
  sk_twoMsl :: int
  sk_maxWinSize :: u16
  sk_bytesAckedNotProcessed :: u32
  sk_highTxAck :: seq
  sk_rWnd :: u32
  sk_advWnd :: u32
  sk_highRxMark :: seq
  sk_highRxAckMark :: seq
  sk_sackEnabled :: bool
  sk_winScalingEnabled :: bool
  sk_rcvWindShift :: u8
  sk_sndWindShift :: u8
  sk_timestampEnabled :: bool
  sk_timestampToEcho :: u32
  sk_recover :: seq
  sk_recoverActive :: bool
  sk_retxThresh :: u32
  sk_limitedTx :: bool
  sk_isFirstPartialAck :: bool
  sk_initialCWnd :: u32
  sk_initialSsThresh :: u32
  sk_ecnEchoSeq :: seq
  sk_ecnCESeq :: seq
  sk_ecnCWRSeq :: seq
  sk_out :: "tcp_segment list"
  sk_notified :: "notification list"

text \<open>The virtual functions of \<^verbatim>\<open>TcpCongestionOps\<close>; the first argument of those that may look at the clock is the time.\<close>

record 'c cong_ops =
  co_Init :: "int \<Rightarrow> 'c \<times> tcb \<Rightarrow> 'c \<times> tcb"
  co_GetSsThresh :: "tcb \<Rightarrow> u32 \<Rightarrow> u32"
  co_IncreaseWindow :: "int \<Rightarrow> u32 \<Rightarrow> 'c \<times> tcb \<Rightarrow> ('c \<times> tcb) res"
  co_PktsAcked :: "int \<Rightarrow> u32 \<Rightarrow> int \<Rightarrow> 'c \<times> tcb \<Rightarrow> ('c \<times> tcb) res"
  co_CongestionStateSet :: "int \<Rightarrow> cong_state \<Rightarrow> 'c \<times> tcb \<Rightarrow> ('c \<times> tcb) res"
  co_CwndEvent :: "int \<Rightarrow> ca_event \<Rightarrow> 'c \<times> tcb \<Rightarrow> ('c \<times> tcb) res"

definition reno_ops :: "unit cong_ops" where
  "reno_ops = \<lparr>co_Init = (\<lambda>now st. st), co_GetSsThresh = reno_GetSsThresh,
     co_IncreaseWindow = (\<lambda>now n (c, tcb). bind_res (reno_IncreaseWindow n tcb) (\<lambda>tcb. Inr (c, tcb))),
     co_PktsAcked = (\<lambda>now n rtt st. Inr st), co_CongestionStateSet = (\<lambda>now cs st. Inr st), co_CwndEvent = (\<lambda>now ev st. Inr st)\<rparr>"

definition swift_ops :: "swift cong_ops" where
  "swift_ops = \<lparr>co_Init = (\<lambda>now (c, tcb). (swift_Init now c, tcb)), co_GetSsThresh = swift_GetSsThresh,
     co_IncreaseWindow = swift_IncreaseWindow,
     co_PktsAcked = (\<lambda>now n rtt (c, tcb). Inr (swift_PktsAcked rtt tcb c, tcb)), co_CongestionStateSet = swift_CongestionStateSet,
     co_CwndEvent = swift_CwndEvent\<rparr>"

record 'c env =
  env_cong :: "'c cong_ops"
  env_app :: "'c sock \<Rightarrow> bytes list"
  env_accept :: bool

text \<open>A call of the congestion control with the state of the socket.\<close>

definition with_cong :: "('c \<times> tcb \<Rightarrow> ('c \<times> tcb) res) \<Rightarrow> 'c sock \<Rightarrow> 'c sock res" where
  "with_cong f sk = bind_res (f (sk_cong sk, sk_tcb sk)) (\<lambda>(c, tcb). Inr (sk\<lparr>sk_cong := c, sk_tcb := tcb\<rparr>))"

definition with_recovery :: "(recovery \<times> tcb \<Rightarrow> (recovery \<times> tcb) res) \<Rightarrow> 'c sock \<Rightarrow> 'c sock res" where
  "with_recovery f sk = bind_res (f (sk_recovery sk, sk_tcb sk)) (\<lambda>(r, tcb). Inr (sk\<lparr>sk_recovery := r, sk_tcb := tcb\<rparr>))"

definition upd_tcb :: "(tcb \<Rightarrow> tcb) \<Rightarrow> 'c sock \<Rightarrow> 'c sock" where
  "upd_tcb f sk = sk\<lparr>sk_tcb := f (sk_tcb sk)\<rparr>"

definition notify :: "notification \<Rightarrow> 'c sock \<Rightarrow> 'c sock" where
  "notify n sk = sk\<lparr>sk_notified := sk_notified sk @ [n]\<rparr>"

definition SendPacket :: "tcp_segment \<Rightarrow> 'c sock \<Rightarrow> 'c sock" where
  "SendPacket sg sk = sk\<lparr>sk_out := sk_out sk @ [sg]\<rparr>"

section \<open>Windows\<close>

definition sk_HeadSequence :: "'c sock \<Rightarrow> seq" where
  "sk_HeadSequence sk = tx_firstByteSeq (sk_txBuffer sk)"

definition sk_NextRxSequence :: "'c sock \<Rightarrow> seq" where
  "sk_NextRxSequence sk = rx_nextRxSeq (sk_rxBuffer sk)"

definition UnAckDataCount :: "'c sock \<Rightarrow> u32 res" where
  "UnAckDataCount sk = bind_res (seq_diff (m_highTxMark (sk_tcb sk)) (sk_HeadSequence sk)) (\<lambda>d. Inr (word_of_int d))"

definition sk_BytesInFlight :: "'c sock \<Rightarrow> (u32 \<times> 'c sock) res" where
  "sk_BytesInFlight sk =
     bind_res (BytesInFlight (sk_txBuffer sk)) (\<lambda>bytesInFlight. Inr (bytesInFlight, upd_tcb (\<lambda>t. t\<lparr>m_bytesInFlight := bytesInFlight\<rparr>) sk))"

definition Window :: "'c sock \<Rightarrow> u32" where
  "Window sk = min (sk_rWnd sk) (m_cWnd (sk_tcb sk))"

definition AvailableWindow :: "'c sock \<Rightarrow> (u32 \<times> 'c sock) res" where
  "AvailableWindow sk =
     (let win = Window sk
      in bind_res (sk_BytesInFlight sk) (\<lambda>(inflight, sk). Inr (if inflight > win then 0 else win - inflight, sk)))"

definition AdvertisedWindowSize :: "bool \<Rightarrow> 'c sock \<Rightarrow> (u16 \<times> 'c sock) res" where
  "AdvertisedWindowSize scale sk =
     bind_res
       (if rx_gotFin (sk_rxBuffer sk) then Inr (sk_advWnd sk)
        else bind_res (seq_diff (MaxRxSequence seq32_ops (sk_rxBuffer sk)) (sk_NextRxSequence sk)) (\<lambda>d.
               if \<not> d \<ge> 0 then Inl Assert_Failed else Inr (word_of_int d)))
       (\<lambda>w. let sk = sk\<lparr>sk_advWnd := w\<rparr>;
                w = (if scale then drop_bit (unat (sk_rcvWindShift sk)) w else w);
                w = (if w > ucast (sk_maxWinSize sk) then ucast (sk_maxWinSize sk) else w)
            in Inr (ucast w, sk))"

definition GetTxAvailable :: "'c sock \<Rightarrow> u32" where
  "GetTxAvailable sk = tx_Available (sk_txBuffer sk)"

definition SafeSubtraction :: "u32 \<Rightarrow> u32 \<Rightarrow> u32" where
  "SafeSubtraction a b = (if a > b then a - b else 0)"

section \<open>Options\<close>

text \<open>\<^verbatim>\<open>TcpOptionTS\<close>: time stamps are the low 32 bits of the time in milliseconds.\<close>

definition NowToTsValue :: "int \<Rightarrow> u32" where
  "NowToTsValue now = word_of_int (now div 1000000)"

definition ElapsedTimeFromTsValue :: "int \<Rightarrow> u32 \<Rightarrow> int" where
  "ElapsedTimeFromTsValue now echoTime =
     (let now32 = NowToTsValue now in if now32 > echoTime then uint (now32 - echoTime) * 1000000 else 0)"

definition AddOptions :: "int \<Rightarrow> 'c sock \<Rightarrow> tcp_segment \<Rightarrow> tcp_segment" where
  "AddOptions now sk h = (if sk_timestampEnabled sk then h\<lparr>sg_ts := Some (NowToTsValue now, sk_timestampToEcho sk)\<rparr> else h)"

definition ProcessOptionTimestamp :: "u32 \<times> u32 \<Rightarrow> seq \<Rightarrow> 'c sock \<Rightarrow> 'c sock" where
  "ProcessOptionTimestamp ts s sk =
     (if m_rcvTimestampValue (sk_tcb sk) > fst ts then sk
      else let sk = upd_tcb (\<lambda>t. t\<lparr>m_rcvTimestampValue := fst ts, m_rcvTimestampEchoReply := snd ts\<rparr>) sk
           in if s = sk_NextRxSequence sk \<and> seq_le s (sk_highTxAck sk) then sk\<lparr>sk_timestampToEcho := fst ts\<rparr> else sk)"

definition ProcessOptionWScale :: "u8 \<Rightarrow> 'c sock \<Rightarrow> 'c sock" where
  "ProcessOptionWScale scale sk = sk\<lparr>sk_sndWindShift := (if scale > 14 then 14 else scale)\<rparr>"

function wscale_loop :: "u32 \<Rightarrow> u16 \<Rightarrow> u8 \<Rightarrow> u8" where
  "wscale_loop maxSpace maxWin scale = (if maxSpace > ucast maxWin then wscale_loop (drop_bit 1 maxSpace) maxWin (scale + 1) else scale)"
  by auto
termination
proof (relation "measure (\<lambda>(maxSpace, _, _). unat maxSpace)")
  fix maxSpace :: u32 and maxWin :: u16 and scale :: u8
  assume "maxSpace > ucast maxWin"
  then have "0 < unat maxSpace" by (metis gr_zeroI unat_eq_zero word_not_simps(1))
  then have "unat (drop_bit 1 maxSpace) < unat maxSpace" unfolding unat_drop_bit_eq by (simp add: drop_bit_eq_div)
  then show "((drop_bit 1 maxSpace, maxWin, scale + 1), maxSpace, maxWin, scale) \<in> measure (\<lambda>(maxSpace, _, _). unat maxSpace)" by simp
qed simp

declare wscale_loop.simps [simp del]

definition CalculateWScale :: "'c sock \<Rightarrow> u8" where
  "CalculateWScale sk = (let scale = wscale_loop (rx_maxBuffer (sk_rxBuffer sk)) (sk_maxWinSize sk) 0 in if scale > 14 then 14 else scale)"

text \<open>The options present take 10 bytes for the time stamp, 3 for the window scale and 2 for \<^verbatim>\<open>SACK_PERMITTED\<close>; there is room for 40.\<close>

definition option_length :: "tcp_segment \<Rightarrow> nat" where
  "option_length h = (if sg_ts h = None then 0 else 10) + (if sg_wscale h = None then 0 else 3) + (if sg_sackPermitted h then 2 else 0)"

definition AddOptionSack :: "'c sock \<Rightarrow> tcp_segment \<Rightarrow> tcp_segment" where
  "AddOptionSack sk h =
     (let allowedSackBlocks = (40 - option_length h - 2) div 8; sackList = rx_sackList (sk_rxBuffer sk)
      in if allowedSackBlocks = 0 \<or> sackList = [] then h else h\<lparr>sg_sack := Some (take allowedSackBlocks sackList)\<rparr>)"

section \<open>Segments without data\<close>

definition CancelAllTimers :: "'c sock \<Rightarrow> 'c sock" where
  "CancelAllTimers sk = sk\<lparr>sk_retxEvent := None, sk_persistEvent := None, sk_delAckEvent := None, sk_lastAckEvent := None,
     sk_timewaitEvent := None, sk_sendPendingDataEvent := None\<rparr>"

definition DeallocateEndPoint :: "'c sock \<Rightarrow> 'c sock" where
  "DeallocateEndPoint sk = (if sk_endPoint sk then (CancelAllTimers sk)\<lparr>sk_endPoint := False\<rparr> else sk)"

definition UpdateRttHistory :: "int \<Rightarrow> seq \<Rightarrow> u32 \<Rightarrow> bool \<Rightarrow> rtt_history list \<Rightarrow> rtt_history list" where
  "UpdateRttHistory now s sz isRetransmission hist =
     (if \<not> isRetransmission then hist @ [\<lparr>rh_seq = s, rh_count = sz, rh_time = now, rh_retx = False\<rparr>]
      else let found = (\<lambda>h. seq_ge s (rh_seq h) \<and> seq_lt s (rh_seq h + rh_count h))
           in case dropWhile (\<lambda>h. \<not> found h) hist of
                [] \<Rightarrow> hist
              | h # rest \<Rightarrow> takeWhile (\<lambda>h. \<not> found h) hist @ h\<lparr>rh_retx := True, rh_count := s + sz - rh_seq h\<rparr> # rest)"

definition rto_estimate :: "'c sock \<Rightarrow> int res" where
  "rto_estimate sk =
     bind_res (time_mul 4 (re_estimatedVariation (sk_rtt sk))) (\<lambda>v.
     bind_res (time_add (re_estimatedRtt (sk_rtt sk)) (max (sk_clockGranularity sk) v)) (\<lambda>t. Inr t))"

definition rto_from_rtt :: "'c sock \<Rightarrow> int res" where
  "rto_from_rtt sk = bind_res (rto_estimate sk) (\<lambda>t. Inr (max t (sk_minRto sk)))"

text \<open>
  The branch for a segment with \<^verbatim>\<open>SYN\<close>: it yields \<open>None\<close> when no connection retry is left and the socket gives up, otherwise the
  header, the window to advertise and the socket. The back-off is an \<^verbatim>\<open>int\<close> shifted left.
\<close>

definition send_syn :: "int \<Rightarrow> seq \<Rightarrow> tcp_segment \<Rightarrow> 'c sock \<Rightarrow> ((tcp_segment \<times> u16) option \<times> 'c sock) res" where
  "send_syn now s h sk =
     (let sk = (if sk_winScalingEnabled sk then sk\<lparr>sk_rcvWindShift := CalculateWScale sk\<rparr> else sk);
          h = (if sk_winScalingEnabled sk then h\<lparr>sg_wscale := Some (sk_rcvWindShift sk)\<rparr> else h);
          h = (if sk_sackEnabled sk then h\<lparr>sg_sackPermitted := True\<rparr> else h)
      in if sk_synCount sk = 0
         then Inr (None, DeallocateEndPoint (notify Connection_Failed (sk\<lparr>sk_rtt := rtt_Reset (sk_rtt sk)\<rparr>)\<lparr>sk_state := CLOSED\<rparr>))
         else if \<not> sk_synRetries sk - sk_synCount sk < 32 then Inl Undefined_Behaviour
         else bind_res (time_mul (to_int32 (2 ^ unat (sk_synRetries sk - sk_synCount sk))) (sk_cnTimeout sk)) (\<lambda>rto.
                let sk = sk\<lparr>sk_rto := rto, sk_synCount := sk_synCount sk - 1\<rparr>;
                    sk = sk\<lparr>sk_history := UpdateRttHistory now s 0 (sk_synRetries sk - 1 \<noteq> sk_synCount sk) (sk_history sk)\<rparr>
                in bind_res (AdvertisedWindowSize False sk) (\<lambda>(w, sk). Inr (Some (h, w), sk))))"

definition SendEmptyPacket :: "int \<Rightarrow> u8 \<Rightarrow> 'c sock \<Rightarrow> 'c sock res" where
  "SendEmptyPacket now flags sk =
     (if \<not> sk_endPoint sk then Inr sk
      else let s = m_nextTxSequence (sk_tcb sk);
               isFin = has_flag flag_FIN flags;
               flags = (if isFin then set_flag flag_ACK flags else flags);
               s = (if \<not> isFin \<and> (sk_state sk = FIN_WAIT_1 \<or> sk_state sk = LAST_ACK \<or> sk_state sk = CLOSING) then s + 1 else s);
               hasSyn = has_flag flag_SYN flags
           in if \<not> (isFin \<or> hasSyn \<or> has_flag flag_ACK flags \<or> has_flag flag_RST flags) then Inl Assert_Failed
              else let h = AddOptions now sk \<lparr>sg_flags = flags, sg_seq = s, sg_ack = sk_NextRxSequence sk, sg_window = 0, sg_ts = None,
                         sg_sack = None, sg_wscale = None, sg_sackPermitted = False, sg_payload = []\<rparr>
                   in bind_res (rto_from_rtt sk) (\<lambda>rto.
                      bind_res (AdvertisedWindowSize True (sk\<lparr>sk_rto := rto\<rparr>)) (\<lambda>(w, sk).
                      bind_res (if hasSyn then send_syn now s h sk else Inr (Some (h, w), sk)) (\<lambda>(sent, sk).
                        case sent of
                          None \<Rightarrow> Inr sk
                        | Some (h, w) \<Rightarrow>
                            let h = h\<lparr>sg_window := w\<rparr>;
                                isAck = has_flag flag_ACK flags;
                                sk = (if isAck
                                      then sk\<lparr>sk_delAckEvent := None, sk_delAckCount := 0,
                                             sk_highTxAck := (if seq_lt (sk_highTxAck sk) (sg_ack h) then sg_ack h else sk_highTxAck sk)\<rparr>
                                      else sk);
                                h = (if isAck \<and> sk_sackEnabled sk \<and> rx_sackList (sk_rxBuffer sk) \<noteq> [] then AddOptionSack sk h else h);
                                sk = SendPacket h sk
                            in Inr (if sk_retxEvent sk = None \<and> (hasSyn \<or> isFin) \<and> flags \<noteq> flag_ACK
                                    then sk\<lparr>sk_retxEvent := Some (now + sk_rto sk, Call_SendEmptyPacket flags)\<rparr> else sk)))))"

definition SendRST :: "int \<Rightarrow> 'c sock \<Rightarrow> 'c sock res" where
  "SendRST now sk = bind_res (SendEmptyPacket now flag_RST sk) (\<lambda>sk. Inr (DeallocateEndPoint (notify Error_Close sk)))"

text \<open>An acknowledgement, with \<^verbatim>\<open>ECE\<close> while a congestion mark is being echoed.\<close>

definition send_ack_ecn :: "int \<Rightarrow> 'c sock \<Rightarrow> 'c sock res" where
  "send_ack_ecn now sk =
     (if m_ecnState (sk_tcb sk) = ECN_CE_RCVD \<or> m_ecnState (sk_tcb sk) = ECN_SENDING_ECE
      then bind_res (SendEmptyPacket now (set_flag flag_ECE flag_ACK) sk) (\<lambda>sk. Inr (upd_tcb (\<lambda>t. t\<lparr>m_ecnState := ECN_SENDING_ECE\<rparr>) sk))
      else SendEmptyPacket now flag_ACK sk)"

section \<open>Writing\<close>

text \<open>\<^verbatim>\<open>Send\<close>: whether it reports success, and the socket.\<close>

definition sk_Send :: "int \<Rightarrow> bytes \<Rightarrow> 'c sock \<Rightarrow> (bool \<times> 'c sock) res" where
  "sk_Send now p sk =
     (if sk_state sk = ESTABLISHED \<or> sk_state sk = SYN_SENT \<or> sk_state sk = CLOSE_WAIT
      then case tx_Add p (sk_txBuffer sk) of (added, tx) \<Rightarrow>
           if \<not> added then Inr (False, sk)
           else let sk = sk\<lparr>sk_txBuffer := tx\<rparr>; tcb = sk_tcb sk
                in if sk_shutdownSend sk then Inr (False, sk)
                   else bind_res (CalculateAppLimited (m_cWnd tcb) (m_bytesInFlight tcb) (m_segmentSize tcb) (TailSequence tx) (m_nextTxSequence tcb)
                          (tx_lostOut tx) (tx_retrans tx) (sk_rateOps sk)) (\<lambda>ro.
                        let sk = sk\<lparr>sk_rateOps := ro\<rparr>
                        in if sk_state sk = ESTABLISHED \<or> sk_state sk = CLOSE_WAIT
                           then bind_res (AvailableWindow sk) (\<lambda>(win, sk).
                                  Inr (True, if win > 0 \<and> sk_sendPendingDataEvent sk = None then sk\<lparr>sk_sendPendingDataEvent := Some (now + 1)\<rparr> else sk))
                           else Inr (True, sk))
      else Inr (False, sk))"

fun send_all :: "int \<Rightarrow> bytes list \<Rightarrow> 'c sock \<Rightarrow> 'c sock res" where
  "send_all now [] sk = Inr sk"
| "send_all now (p # ps) sk = bind_res (sk_Send now p sk) (\<lambda>(ok, sk). send_all now ps sk)"

definition NotifySend :: "'c env \<Rightarrow> int \<Rightarrow> 'c sock \<Rightarrow> 'c sock res" where
  "NotifySend env now sk = send_all now (env_app env sk) sk"

end
