(* ===== verification/Tcp_Output.thy ===== *)
theory Tcp_Output
  imports Tcp_Socket
begin

text \<open>
  \<^verbatim>\<open>src/src/internet/model/tcp-socket-base.cc\<close>: \<^verbatim>\<open>SendDataPacket\<close> and \<^verbatim>\<open>SendPendingData\<close>. One round of the
  loop of \<^verbatim>\<open>SendPendingData\<close> is \<open>pending_step\<close>; the loop itself is a partial function, whose value \<open>None\<close> means that it does not end.
\<close>

section \<open>One segment\<close>

text \<open>The snapshot that \<^verbatim>\<open>SkbSent\<close> stores in the item.\<close>

definition skb_sent :: "int \<Rightarrow> tx_item \<Rightarrow> bool \<Rightarrow> 'c sock \<Rightarrow> 'c sock" where
  "skb_sent now t start sk =
     (case SkbSent now t start (sk_rateOps sk) of (t, ro) \<Rightarrow>
        sk\<lparr>sk_rateOps := ro, sk_txBuffer := (sk_txBuffer sk)\<lparr>tx_sentList := replace_item t (tx_sentList (sk_txBuffer sk))\<rparr>\<rparr>)"

text \<open>The flags of the segment, with the change of the ECN state and of the TCP state that they report.\<close>

definition data_flags :: "seq \<Rightarrow> bool \<Rightarrow> bool \<Rightarrow> u32 \<Rightarrow> 'c sock \<Rightarrow> u8 \<times> 'c sock" where
  "data_flags s withAck isRetransmission remainingData sk =
     (let flags = (if withAck then flag_ACK else 0);
          (flags, sk) =
            (if m_ecnState (sk_tcb sk) = ECN_ECE_RCVD \<and> seq_gt (sk_ecnEchoSeq sk) (sk_ecnCWRSeq sk) \<and> \<not> isRetransmission
             then (set_flag flag_CWR flags, (upd_tcb (\<lambda>t. t\<lparr>m_ecnState := ECN_CWR_SENT\<rparr>) sk)\<lparr>sk_ecnCWRSeq := s\<rparr>)
             else (flags, sk))
      in if sk_closeOnEmpty sk \<and> remainingData = 0
         then (set_flag flag_FIN flags,
               if sk_state sk = ESTABLISHED then sk\<lparr>sk_state := FIN_WAIT_1\<rparr>
               else if sk_state sk = CLOSE_WAIT then sk\<lparr>sk_state := LAST_ACK\<rparr> else sk)
         else (flags, sk))"

definition SendDataPacket :: "int \<Rightarrow> seq \<Rightarrow> u32 \<Rightarrow> bool \<Rightarrow> 'c sock \<Rightarrow> (u32 \<times> 'c sock) res" where
  "SendDataPacket now s maxSize withAck sk =
     bind_res (sk_BytesInFlight sk) (\<lambda>(inflight, sk).
     bind_res (CopyFromSequence now maxSize s (sk_txBuffer sk)) (\<lambda>(outItem, tx).
       case outItem of
         None \<Rightarrow> Inl Undefined_Behaviour
       | Some t \<Rightarrow>
           let sk = skb_sent now t (inflight = 0) (sk\<lparr>sk_txBuffer := tx\<rparr>);
               isRetransmission = ti_retrans t; p = ti_packet t; sz = item_size t
           in bind_res (SizeFromSequence (s + sz) (sk_txBuffer sk)) (\<lambda>remainingData.
              if \<not> (isRetransmission \<or> seq_ge (sk_highRxAckMark sk + sk_rWnd sk) (s + maxSize)) then Inl Assert_Failed
              else let sk = (if withAck then sk\<lparr>sk_delAckEvent := None, sk_delAckCount := 0\<rparr> else sk);
                       (flags, sk) = data_flags s withAck isRetransmission remainingData sk
                   in bind_res (if sk_endPoint sk then AdvertisedWindowSize True sk else Inl Undefined_Behaviour) (\<lambda>(w, sk).
                      let h = AddOptions now sk \<lparr>sg_flags = flags, sg_seq = s, sg_ack = sk_NextRxSequence sk, sg_window = w, sg_ts = None,
                            sg_sack = None, sg_wscale = None, sg_sackPermitted = False, sg_payload = p\<rparr>;
                          sk = (if sk_retxEvent sk = None then sk\<lparr>sk_retxEvent := Some (now + sk_rto sk, Call_ReTxTimeout)\<rparr> else sk);
                          sk = SendPacket h sk
                      in bind_res (sk_BytesInFlight sk) (\<lambda>(inflight, sk).
                         let sk = upd_tcb (\<lambda>t. t\<lparr>m_isCwndLimited := (m_cWnd t < inflight + m_segmentSize t)\<rparr>) sk;
                             sk = sk\<lparr>sk_history := UpdateRttHistory now s sz isRetransmission (sk_history sk)\<rparr>;
                             sk = (if m_congState (sk_tcb sk) = CA_RECOVERY \<or> m_congState (sk_tcb sk) = CA_CWR
                                   then sk\<lparr>sk_recovery := rec_UpdateBytesSent sz (sk_recovery sk)\<rparr> else sk)
                         in Inr (sz, upd_tcb (\<lambda>t. t\<lparr>m_highTxMark := (if seq_lt (s + sz) (m_highTxMark t) then m_highTxMark t else s + sz)\<rparr>) sk))))))"

section \<open>Pending data\<close>

text \<open>
  One round, entered with a window that is not zero: whether to go on, the number of segments sent, the window and the socket.
  The conditions for sending at all, and how much, are first.
\<close>

definition pending_amount :: "u32 \<Rightarrow> seq \<Rightarrow> seq \<Rightarrow> u32 \<Rightarrow> 'c sock \<Rightarrow> u32 option res" where
  "pending_amount availableWindow nxt nextHigh availableData sk =
     (let seg = m_segmentSize (sk_tcb sk)
      in if availableWindow < seg \<and> availableData > availableWindow then Inr None
         else bind_res (if sk_noDelay sk then Inr False else bind_res (UnAckDataCount sk) (\<lambda>n. Inr (n > 0 \<and> availableData < seg))) (\<lambda>nagle.
              if nagle then Inr None
              else bind_res (seq_diff nextHigh nxt) (\<lambda>d. Inr (Some (min (min availableWindow seg) (word_of_int d))))))"

definition pending_step :: "'c env \<Rightarrow> int \<Rightarrow> bool \<Rightarrow> u32 \<Rightarrow> u32 \<Rightarrow> 'c sock \<Rightarrow> (bool \<times> u32 \<times> u32 \<times> 'c sock) res" where
  "pending_step env now withAck nPacketsSent availableWindow sk =
     (if m_congState (sk_tcb sk) = CA_OPEN \<and> sk_state sk = FIN_WAIT_1 then Inr (False, nPacketsSent, availableWindow, sk)
      else let enableRule3 = (sk_sackEnabled sk \<and> m_congState (sk_tcb sk) = CA_RECOVERY)
           in bind_res (NextSeg (sk_rWnd sk) enableRule3 (sk_txBuffer sk)) (\<lambda>found.
              case found of
                None \<Rightarrow> Inr (False, nPacketsSent, availableWindow, sk)
              | Some (nxt, nextHigh) \<Rightarrow>
                  bind_res (SizeFromSequence nxt (sk_txBuffer sk)) (\<lambda>availableData.
                  bind_res (if availableData < availableWindow then NotifySend env now sk else Inr sk) (\<lambda>sk.
                  bind_res (pending_amount availableWindow nxt nextHigh availableData sk) (\<lambda>amount.
                    case amount of
                      None \<Rightarrow> Inr (False, nPacketsSent, availableWindow, sk)
                    | Some n \<Rightarrow>
                        let sk = upd_tcb (\<lambda>t. t\<lparr>m_nextTxSequence := nxt\<rparr>) sk
                        in bind_res (if m_bytesInFlight (sk_tcb sk) = 0 then with_cong (co_CwndEvent (env_cong env) now CA_EVENT_TX_START) sk
                                     else Inr sk) (\<lambda>sk.
                           bind_res (SendDataPacket now (m_nextTxSequence (sk_tcb sk)) n withAck sk) (\<lambda>(sz, sk).
                           let sk = upd_tcb (\<lambda>t. t\<lparr>m_nextTxSequence := m_nextTxSequence t + sz\<rparr>) sk
                           in bind_res (AvailableWindow sk) (\<lambda>(win, sk). Inr (True, nPacketsSent + 1, win, sk)))))))))"

partial_function (option) pending_loop ::
    "'c env \<Rightarrow> int \<Rightarrow> bool \<Rightarrow> u32 \<Rightarrow> u32 \<Rightarrow> 'c sock \<Rightarrow> (u32 \<times> 'c sock) res option" where
  [code]: "pending_loop env now withAck nPacketsSent availableWindow sk =
     (if availableWindow = 0 then Some (Inr (nPacketsSent, sk))
      else case pending_step env now withAck nPacketsSent availableWindow sk of
        Inl e \<Rightarrow> Some (Inl e)
      | Inr (continue, nPacketsSent, availableWindow, sk) \<Rightarrow>
          if continue then pending_loop env now withAck nPacketsSent availableWindow sk else Some (Inr (nPacketsSent, sk)))"

text \<open>Results of operations that contain the loop.\<close>

type_synonym 'a run = "'a res option"

definition bind_run :: "'a run \<Rightarrow> ('a \<Rightarrow> 'b run) \<Rightarrow> 'b run" where
  "bind_run m f = (case m of None \<Rightarrow> None | Some (Inl e) \<Rightarrow> Some (Inl e) | Some (Inr x) \<Rightarrow> f x)"

lemma bind_run_simps [simp]:
  "bind_run None f = None" "bind_run (Some (Inl e)) f = Some (Inl e)" "bind_run (Some (Inr x)) f = f x"
  by (simp_all add: bind_run_def)

definition SendPendingData :: "'c env \<Rightarrow> int \<Rightarrow> bool \<Rightarrow> 'c sock \<Rightarrow> (u32 \<times> 'c sock) run" where
  "SendPendingData env now withAck sk =
     (if tx_size (sk_txBuffer sk) = 0 \<or> \<not> sk_endPoint sk then Some (Inr (0, sk))
      else bind_run (Some (AvailableWindow sk)) (\<lambda>(availableWindow, sk).
           bind_run (pending_loop env now withAck 0 availableWindow sk) (\<lambda>(nPacketsSent, sk).
             Some (if nPacketsSent > 0 \<and> \<not> sk_sackEnabled sk \<and> \<not> sk_limitedTx sk \<and> m_congState (sk_tcb sk) = CA_DISORDER then Inl Assert_Failed
                   else Inr (nPacketsSent, sk)))))"

end
