(* ===== verification/Tcp_Input.thy ===== *)
theory Tcp_Input
  imports Tcp_Output
begin

text \<open>
  \<^verbatim>\<open>src/src/internet/model/tcp-socket-base.cc\<close>: what an acknowledgement does. The scoreboard is updated, acknowledged data is
  discarded and counted as delivered, the congestion state machine moves and may retransmit, the window grows, the timer is reset, and
  pending data is sent. Also the round-trip time samples, the update of the peer's window, and received data.
\<close>

section \<open>Round-trip times\<close>

definition CalculateRttSample :: "int \<Rightarrow> tcp_segment \<Rightarrow> rtt_history \<Rightarrow> 'c sock \<Rightarrow> int" where
  "CalculateRttSample now h hist sk =
     (if seq_ge (sg_ack h) (rh_seq hist + rh_count hist)
      then if sk_timestampEnabled sk \<and> sg_ts h \<noteq> None
           then let rtt = ElapsedTimeFromTsValue now (snd (the (sg_ts h))) in if rtt = 0 then 1000 else rtt
           else if \<not> rh_retx hist then now - rh_time hist
           else 0
      else 0)"

text \<open>The loop that drops acknowledged entries; it yields the last one dropped, or the first entry.\<close>

fun drop_history :: "seq \<Rightarrow> rtt_history \<Rightarrow> rtt_history list \<Rightarrow> rtt_history \<times> rtt_history list" where
  "drop_history ackSeq latest [] = (latest, [])"
| "drop_history ackSeq latest (h # hs) =
     (if seq_gt (rh_seq h + rh_count h) ackSeq then (latest, h # hs) else drop_history ackSeq h hs)"

definition EstimateRtt :: "int \<Rightarrow> tcp_segment \<Rightarrow> 'c sock \<Rightarrow> 'c sock res" where
  "EstimateRtt now h sk =
     (let (rtt, sk) =
        (case sk_history sk of
           [] \<Rightarrow> (0, sk)
         | earliest # _ \<Rightarrow>
             let rtt = CalculateRttSample now h earliest sk;
                 (latest, hist) = drop_history (sg_ack h) earliest (sk_history sk);
                 sk = sk\<lparr>sk_history := hist\<rparr>;
                 lastRtt = CalculateRttSample now h latest sk
             in (rtt, if lastRtt \<noteq> 0 then upd_tcb (\<lambda>t. t\<lparr>m_lastRtt := lastRtt\<rparr>) sk else sk))
      in if rtt = 0 then Inr sk
         else bind_res (Measurement rtt (sk_rtt sk)) (\<lambda>re.
              let sk = sk\<lparr>sk_rtt := re\<rparr>
              in bind_res (rto_from_rtt sk) (\<lambda>rto.
                   Inr (upd_tcb (\<lambda>t. t\<lparr>m_srtt := re_estimatedRtt re, m_minRtt := min (re_estimatedRtt re) (m_minRtt t)\<rparr>) (sk\<lparr>sk_rto := rto\<rparr>)))))"

definition UpdateWindowSize :: "tcp_segment \<Rightarrow> 'c sock \<Rightarrow> 'c sock" where
  "UpdateWindowSize h sk =
     (let receivedWindow = push_bit (unat (sk_sndWindShift sk)) (ucast (sg_window h)) :: u32
      in if sk_state sk < ESTABLISHED then sk\<lparr>sk_rWnd := receivedWindow\<rparr>
         else let update1 = (sg_ack h = sk_highRxAckMark sk \<and> receivedWindow > sk_rWnd sk);
                  update2 = seq_gt (sg_ack h) (sk_highRxAckMark sk);
                  sk = (if update2 then sk\<lparr>sk_highRxAckMark := sg_ack h\<rparr> else sk);
                  update3 = seq_gt (sg_seq h) (sk_highRxMark sk);
                  sk = (if update3 then sk\<lparr>sk_highRxMark := sg_seq h\<rparr> else sk)
              in if update1 \<or> update2 \<or> update3 then sk\<lparr>sk_rWnd := receivedWindow\<rparr> else sk)"

section \<open>Congestion states\<close>

definition set_cong_state :: "cong_state \<Rightarrow> 'c sock \<Rightarrow> 'c sock" where
  "set_cong_state cs sk = upd_tcb (\<lambda>t. t\<lparr>m_congState := cs\<rparr>) sk"

definition EnterCwr :: "'c env \<Rightarrow> u32 \<Rightarrow> 'c sock \<Rightarrow> 'c sock res" where
  "EnterCwr env currentDelivered sk =
     bind_res (sk_BytesInFlight sk) (\<lambda>(n, sk).
       let sk = upd_tcb (\<lambda>t. t\<lparr>m_ssThresh := co_GetSsThresh (env_cong env) t n\<rparr>) sk;
           sk = upd_tcb (\<lambda>t. t\<lparr>m_cWndInfl := m_ssThresh t\<rparr>) sk
       in if m_congState (sk_tcb sk) = CA_CWR then Inl Assert_Failed
          else let sk = set_cong_state CA_CWR sk; sk = sk\<lparr>sk_recover := m_highTxMark (sk_tcb sk)\<rparr>
               in bind_res (UnAckDataCount sk) (\<lambda>_. with_recovery (rec_EnterRecovery (sk_dupAckCount sk) currentDelivered) sk))"

definition EnterRecovery :: "'c env \<Rightarrow> int \<Rightarrow> u32 \<Rightarrow> 'c sock \<Rightarrow> 'c sock res" where
  "EnterRecovery env now currentDelivered sk =
     (if m_congState (sk_tcb sk) = CA_RECOVERY then Inl Assert_Failed
      else bind_res
        (if \<not> sk_sackEnabled sk
         then bind_res (AddRenoSack (sk_txBuffer sk)) (\<lambda>tx. Inr (sk\<lparr>sk_txBuffer := MarkHeadAsLost tx\<rparr>))
         else if \<not> IsLost (sk_HeadSequence sk) (sk_txBuffer sk) then Inr (sk\<lparr>sk_txBuffer := MarkHeadAsLost (sk_txBuffer sk)\<rparr>)
         else Inr sk) (\<lambda>sk.
      let sk = sk\<lparr>sk_recover := m_highTxMark (sk_tcb sk), sk_recoverActive := True\<rparr>
      in bind_res (with_cong (co_CongestionStateSet (env_cong env) now CA_RECOVERY) sk) (\<lambda>sk.
         let sk = set_cong_state CA_RECOVERY sk
         in bind_res (sk_BytesInFlight sk) (\<lambda>(n, sk).
            let bytesInFlight = (if sk_sackEnabled sk then n else n + m_segmentSize (sk_tcb sk));
                sk = upd_tcb (\<lambda>t. t\<lparr>m_ssThresh := co_GetSsThresh (env_cong env) t bytesInFlight\<rparr>) sk
            in bind_res (UnAckDataCount sk) (\<lambda>_.
               bind_res (with_recovery (rec_EnterRecovery (sk_dupAckCount sk) currentDelivered) sk) (\<lambda>sk.
               bind_res (SendDataPacket now (sk_highRxAckMark sk) (m_segmentSize (sk_tcb sk)) True sk) (\<lambda>(sz, sk).
                 if \<not> sz > 0 then Inl Assert_Failed else Inr sk)))))))"

text \<open>The part of \<^verbatim>\<open>DupAck\<close> for \<^verbatim>\<open>CA_DISORDER\<close>.\<close>

definition DupAck_disorder :: "'c env \<Rightarrow> int \<Rightarrow> u32 \<Rightarrow> 'c sock \<Rightarrow> 'c sock res" where
  "DupAck_disorder env now currentDelivered sk =
     (if \<not> (sk_dupAckCount sk \<le> sk_retxThresh sk \<or> sk_recoverActive sk) then Inl Assert_Failed
      else if sk_dupAckCount sk = sk_retxThresh sk \<and> (seq_ge (sk_highRxAckMark sk) (sk_recover sk) \<or> \<not> sk_recoverActive sk) \<or>
              IsLost (sk_highRxAckMark sk) (sk_txBuffer sk)
      then bind_res (EnterRecovery env now currentDelivered sk) (\<lambda>sk.
             if m_congState (sk_tcb sk) \<noteq> CA_RECOVERY then Inl Assert_Failed else Inr sk)
      else if \<not> sk_sackEnabled sk \<and> sk_limitedTx sk
      then bind_res (AddRenoSack (sk_txBuffer sk)) (\<lambda>tx. Inr (sk\<lparr>sk_txBuffer := tx\<rparr>))
      else Inr sk)"

definition DupAck :: "'c env \<Rightarrow> int \<Rightarrow> u32 \<Rightarrow> 'c sock \<Rightarrow> 'c sock res" where
  "DupAck env now currentDelivered sk =
     (if m_congState (sk_tcb sk) = CA_LOSS then Inr sk
      else let sk = (if m_congState (sk_tcb sk) \<noteq> CA_RECOVERY then sk\<lparr>sk_dupAckCount := sk_dupAckCount sk + 1\<rparr> else sk)
           in bind_res
             (if m_congState (sk_tcb sk) = CA_OPEN
              then if sk_dupAckCount sk \<noteq> 1 then Inl Assert_Failed
                   else bind_res (with_cong (co_CongestionStateSet (env_cong env) now CA_DISORDER) sk) (\<lambda>sk. Inr (set_cong_state CA_DISORDER sk))
              else Inr sk) (\<lambda>sk.
             if m_congState (sk_tcb sk) = CA_RECOVERY
             then bind_res (if \<not> sk_sackEnabled sk then bind_res (AddRenoSack (sk_txBuffer sk)) (\<lambda>tx. Inr (sk\<lparr>sk_txBuffer := tx\<rparr>)) else Inr sk) (\<lambda>sk.
                  with_recovery (rec_DoRecovery currentDelivered True) sk)
             else if m_congState (sk_tcb sk) = CA_DISORDER then DupAck_disorder env now currentDelivered sk
             else Inr sk))"

section \<open>New acknowledgements\<close>

definition NewAck :: "'c env \<Rightarrow> int \<Rightarrow> seq \<Rightarrow> bool \<Rightarrow> 'c sock \<Rightarrow> 'c sock res" where
  "NewAck env now ack resetRTO sk =
     (let sk = sk\<lparr>sk_dataRetrCount := sk_dataRetries sk\<rparr>
      in bind_res
        (if sk_state sk \<noteq> SYN_RCVD \<and> resetRTO
         then bind_res (rto_from_rtt sk) (\<lambda>rto. Inr (sk\<lparr>sk_rto := rto, sk_retxEvent := Some (now + rto, Call_ReTxTimeout)\<rparr>))
         else Inr sk) (\<lambda>sk.
         bind_res (if GetTxAvailable sk > 0 then NotifySend env now sk else Inr sk) (\<lambda>sk.
         let sk = (if seq_gt ack (m_nextTxSequence (sk_tcb sk)) then upd_tcb (\<lambda>t. t\<lparr>m_nextTxSequence := ack\<rparr>) sk else sk)
         in Inr (if tx_size (sk_txBuffer sk) = 0 \<and> sk_state sk \<noteq> FIN_WAIT_1 \<and> sk_state sk \<noteq> CLOSING then sk\<lparr>sk_retxEvent := None\<rparr> else sk))))"

definition DoRetransmit :: "int \<Rightarrow> 'c sock \<Rightarrow> 'c sock res" where
  "DoRetransmit now sk =
     bind_res (NextSeg (sk_rWnd sk) False (sk_txBuffer sk)) (\<lambda>found.
     bind_res
       (case found of
          None \<Rightarrow> Inr (sk_HeadSequence sk, m_segmentSize (sk_tcb sk))
        | Some (s, seqHigh) \<Rightarrow> bind_res (seq_diff seqHigh s) (\<lambda>d. Inr (s, word_of_int d))) (\<lambda>(s, maxSizeToSend).
       if \<not> (sk_sackEnabled sk \<or> s = sk_HeadSequence sk) then Inl Assert_Failed
       else let sk = upd_tcb (\<lambda>t. t\<lparr>m_nextTxSequence := s\<rparr>) sk
            in bind_res (SendDataPacket now (m_nextTxSequence (sk_tcb sk)) maxSizeToSend True sk) (\<lambda>(sz, sk).
                 if \<not> sz > 0 then Inl Assert_Failed else Inr sk)))"

text \<open>A partial acknowledgement in \<^verbatim>\<open>CA_RECOVERY\<close>.\<close>

definition partial_ack :: "'c env \<Rightarrow> int \<Rightarrow> seq \<Rightarrow> u32 \<Rightarrow> u32 \<Rightarrow> u32 \<Rightarrow> 'c sock \<Rightarrow> 'c sock res" where
  "partial_ack env now ackNumber currentDelivered segsAcked bytesAcked sk =
     (let sk = (if \<not> sk_sackEnabled sk then sk\<lparr>sk_txBuffer := MarkHeadAsLost (sk_txBuffer sk)\<rparr> else sk)
      in bind_res (if segsAcked \<ge> 1 then with_recovery (rec_DoRecovery currentDelivered False) sk else Inr sk) (\<lambda>sk.
         bind_res
           (if \<not> IsRetransmittedDataAcked (ackNumber + m_segmentSize (sk_tcb sk)) (sk_txBuffer sk)
            then bind_res (DoRetransmit now sk) (\<lambda>sk. Inr (upd_tcb (\<lambda>t. t\<lparr>m_cWndInfl := SafeSubtraction (m_cWndInfl t) bytesAcked\<rparr>) sk))
            else Inr sk) (\<lambda>sk.
         bind_res (with_cong (co_PktsAcked (env_cong env) now 1 (m_srtt (sk_tcb sk))) sk) (\<lambda>sk.
         bind_res (NewAck env now ackNumber (sk_isFirstPartialAck sk) sk) (\<lambda>sk. Inr (sk\<lparr>sk_isFirstPartialAck := False\<rparr>))))))"

text \<open>
  An acknowledgement of new data outside a partial recovery. First the move of the state machine, which yields whether fast recovery was
  left and the segments acknowledged, then the growth of the window.
\<close>

definition full_ack_state :: "'c env \<Rightarrow> int \<Rightarrow> seq \<Rightarrow> seq \<Rightarrow> bool \<Rightarrow> u32 \<Rightarrow> u32 \<Rightarrow> 'c sock \<Rightarrow> (bool \<times> u32 \<times> 'c sock) res" where
  "full_ack_state env now ackNumber oldHeadSequence isDupack oldDupAckCount segsAcked sk =
     (let cong = env_cong env; seg = m_segmentSize (sk_tcb sk);
          pkts = (\<lambda>n. with_cong (co_PktsAcked cong now n (m_srtt (sk_tcb sk))));
          open = (\<lambda>sk. bind_res (with_cong (co_CongestionStateSet cong now CA_OPEN) sk) (\<lambda>sk. Inr (set_cong_state CA_OPEN sk)))
      in case m_congState (sk_tcb sk) of
           CA_OPEN \<Rightarrow> bind_res (pkts segsAcked sk) (\<lambda>sk. Inr (False, segsAcked, sk))
         | CA_DISORDER \<Rightarrow>
             bind_res (if segsAcked \<ge> oldDupAckCount then pkts (segsAcked - oldDupAckCount) sk else Inr sk) (\<lambda>sk.
             bind_res (if \<not> isDupack then open sk else Inr sk) (\<lambda>sk. Inr (False, segsAcked, sk)))
         | CA_RECOVERY \<Rightarrow>
             let sk = sk\<lparr>sk_isFirstPartialAck := True\<rparr>
             in bind_res (seq_diff ackNumber oldHeadSequence) (\<lambda>d.
                let segsAcked = word_of_int d div seg
                in bind_res (pkts segsAcked sk) (\<lambda>sk.
                   bind_res (with_cong (co_CwndEvent cong now CA_EVENT_COMPLETE_CWR) sk) (\<lambda>sk.
                   bind_res (open sk) (\<lambda>sk. Inr (True, segsAcked, sk\<lparr>sk_dupAckCount := 0\<rparr>)))))
         | CA_LOSS \<Rightarrow>
             let sk = sk\<lparr>sk_isFirstPartialAck := True\<rparr>
             in bind_res (seq_diff ackNumber (sk_recover sk)) (\<lambda>d.
                let segsAcked = word_of_int d div seg
                in bind_res (pkts segsAcked sk) (\<lambda>sk. bind_res (open sk) (\<lambda>sk. Inr (False, segsAcked, sk))))
         | CA_CWR \<Rightarrow> Inr (False, segsAcked, sk))"

definition full_ack :: "'c env \<Rightarrow> int \<Rightarrow> seq \<Rightarrow> seq \<Rightarrow> bool \<Rightarrow> u32 \<Rightarrow> u32 \<Rightarrow> 'c sock \<Rightarrow> 'c sock res" where
  "full_ack env now ackNumber oldHeadSequence isDupack oldDupAckCount segsAcked sk =
     bind_res (full_ack_state env now ackNumber oldHeadSequence isDupack oldDupAckCount segsAcked sk) (\<lambda>(exitedFastRecovery, segsAcked, sk).
     let sk = (if seq_ge ackNumber (sk_recover sk) then sk\<lparr>sk_recoverActive := False\<rparr> else sk)
     in bind_res
       (if exitedFastRecovery
        then bind_res (NewAck env now ackNumber True sk) (\<lambda>sk.
               let sk = upd_tcb (\<lambda>t. rec_ExitRecovery (sk_recovery sk) (t\<lparr>m_cWnd := m_ssThresh t\<rparr>)) sk
               in Inr sk)
        else Inr sk) (\<lambda>sk.
       if m_congState (sk_tcb sk) = CA_OPEN
       then bind_res (with_cong (co_IncreaseWindow (env_cong env) now segsAcked) sk) (\<lambda>sk.
              NewAck env now ackNumber True (upd_tcb (\<lambda>t. t\<lparr>m_cWndInfl := m_cWnd t\<rparr>) sk))
       else Inr sk))"

text \<open>Whole segments acknowledged, with the bytes left over from earlier acknowledgements: segments, bytes, and what is left.\<close>

definition count_segments :: "u32 \<Rightarrow> u32 \<Rightarrow> u32 \<Rightarrow> u32 \<times> u32 \<times> u32" where
  "count_segments seg notProcessed delivered =
     (let segsAcked = delivered div seg; notProcessed = notProcessed + delivered mod seg; bytesAcked = delivered - delivered mod seg
      in if notProcessed \<ge> seg then (segsAcked + 1, bytesAcked + seg, notProcessed - seg) else (segsAcked, bytesAcked, notProcessed))"

definition new_data_ack :: "'c env \<Rightarrow> int \<Rightarrow> seq \<Rightarrow> seq \<Rightarrow> bool \<Rightarrow> u32 \<Rightarrow> u32 \<Rightarrow> 'c sock \<Rightarrow> 'c sock res" where
  "new_data_ack env now ackNumber oldHeadSequence isDupack oldDupAckCount currentDelivered sk =
     (case count_segments (m_segmentSize (sk_tcb sk)) (sk_bytesAckedNotProcessed sk) currentDelivered of (segsAcked, bytesAcked, notProcessed) \<Rightarrow>
        let sk = sk\<lparr>sk_bytesAckedNotProcessed := notProcessed\<rparr>;
            sk = (if \<not> isDupack then sk\<lparr>sk_dupAckCount := 0\<rparr> else sk);
            cs = m_congState (sk_tcb sk)
        in if seq_lt ackNumber (sk_recover sk) \<and> cs = CA_RECOVERY then partial_ack env now ackNumber currentDelivered segsAcked bytesAcked sk
           else if seq_lt ackNumber (sk_recover sk) \<and> cs = CA_LOSS
           then bind_res (with_cong (co_PktsAcked (env_cong env) now segsAcked (m_srtt (sk_tcb sk))) sk) (\<lambda>sk.
                bind_res (with_cong (co_IncreaseWindow (env_cong env) now segsAcked) sk) (\<lambda>sk.
                  if \<not> sk_sackEnabled sk \<and> tx_sackedOut (sk_txBuffer sk) \<noteq> 0 then Inl Assert_Failed
                  else NewAck env now ackNumber True sk))
           else if cs = CA_CWR
           then bind_res (with_cong (co_PktsAcked (env_cong env) now segsAcked (m_srtt (sk_tcb sk))) sk) (\<lambda>sk.
                bind_res (if segsAcked \<ge> 1 then with_recovery (rec_DoRecovery currentDelivered False) sk else Inr sk) (\<lambda>sk.
                  NewAck env now ackNumber True sk))
           else full_ack env now ackNumber oldHeadSequence isDupack oldDupAckCount segsAcked sk)"

definition ProcessAck :: "'c env \<Rightarrow> int \<Rightarrow> seq \<Rightarrow> bool \<Rightarrow> u32 \<Rightarrow> seq \<Rightarrow> bool \<Rightarrow> 'c sock \<Rightarrow> 'c sock res" where
  "ProcessAck env now ackNumber scoreboardUpdated currentDelivered oldHeadSequence receivedData sk =
     (let oldDupAckCount = sk_dupAckCount sk;
          sk = upd_tcb (\<lambda>t. t\<lparr>m_lastAckedSeq := ackNumber\<rparr>) sk;
          isDupack = (if sk_sackEnabled sk then scoreboardUpdated
                      else ackNumber = oldHeadSequence \<and> seq_lt ackNumber (m_highTxMark (sk_tcb sk)) \<and> \<not> receivedData)
      in bind_res (if isDupack then DupAck env now currentDelivered sk else Inr sk) (\<lambda>sk.
         if ackNumber = oldHeadSequence \<and> ackNumber = m_highTxMark (sk_tcb sk) then Inr sk
         else if ackNumber = oldHeadSequence \<and> seq_gt ackNumber (m_highTxMark (sk_tcb sk))
         then Inr (upd_tcb (\<lambda>t. t\<lparr>m_nextTxSequence := ackNumber\<rparr>) sk)
         else if ackNumber = oldHeadSequence then with_cong (co_PktsAcked (env_cong env) now 1 (m_srtt (sk_tcb sk))) sk
         else if seq_gt ackNumber oldHeadSequence
         then new_data_ack env now ackNumber oldHeadSequence isDupack oldDupAckCount currentDelivered sk
         else Inr sk))"

section \<open>Delivered data\<close>

text \<open>The calls of \<^verbatim>\<open>SkbDelivered\<close> for the items acknowledged selectively, by address, and for those discarded.\<close>

fun skbs_sacked :: "int \<Rightarrow> nat list \<Rightarrow> tx_item list \<Rightarrow> rate_ops \<Rightarrow> tx_item list \<times> rate_ops" where
  "skbs_sacked now [] l ro = (l, ro)"
| "skbs_sacked now (i # is) l ro =
     (case find (\<lambda>t. ti_id t = i) l of
        None \<Rightarrow> skbs_sacked now is l ro
      | Some t \<Rightarrow> (case SkbDelivered now t ro of (t', ro) \<Rightarrow> skbs_sacked now is (replace_item t' l) ro))"

fun skbs_discarded :: "int \<Rightarrow> tx_item list \<Rightarrow> rate_ops \<Rightarrow> rate_ops" where
  "skbs_discarded now [] ro = ro"
| "skbs_discarded now (t # ts) ro = skbs_discarded now ts (snd (SkbDelivered now t ro))"

definition ReadOptions :: "int \<Rightarrow> tcp_segment \<Rightarrow> 'c sock \<Rightarrow> (u32 \<times> 'c sock) res" where
  "ReadOptions now h sk =
     (case sg_sack h of
        None \<Rightarrow> Inr (0, sk)
      | Some blks \<Rightarrow>
          bind_res (tx_Update blks (sk_txBuffer sk)) (\<lambda>(n, cb, tx).
            case skbs_sacked now cb (tx_sentList tx) (sk_rateOps sk) of (l, ro) \<Rightarrow>
              Inr (n, sk\<lparr>sk_txBuffer := tx\<lparr>tx_sentList := l\<rparr>, sk_rateOps := ro\<rparr>)))"

definition discard_acked :: "int \<Rightarrow> seq \<Rightarrow> 'c sock \<Rightarrow> 'c sock res" where
  "discard_acked now ackNumber sk =
     bind_res (DiscardUpTo now ackNumber (sk_txBuffer sk)) (\<lambda>(ts, tx).
       Inr (sk\<lparr>sk_txBuffer := tx, sk_rateOps := skbs_discarded now ts (sk_rateOps sk)\<rparr>))"

text \<open>Whether one of the segments acknowledged in recovery had been retransmitted.\<close>

definition note_retransmitted :: "seq \<Rightarrow> seq \<Rightarrow> 'c sock \<Rightarrow> 'c sock res" where
  "note_retransmitted ackNumber oldHeadSequence sk =
     (if seq_gt ackNumber oldHeadSequence \<and> seq_lt ackNumber (sk_recover sk) \<and> m_congState (sk_tcb sk) = CA_RECOVERY
      then bind_res (seq_diff ackNumber oldHeadSequence) (\<lambda>d.
           let seg = m_segmentSize (sk_tcb sk); segAcked = word_of_int d div seg
           in Inr (if list_ex (\<lambda>i. IsRetransmittedDataAcked (ackNumber - of_nat i * seg) (sk_txBuffer sk)) [0..<unat segAcked]
                   then upd_tcb (\<lambda>t. t\<lparr>m_isRetransDataAcked := True\<rparr>) sk else sk))
      else Inr sk)"

text \<open>The end of a reduction that an ECN echo began, and the beginning of one.\<close>

definition leave_cwr :: "'c env \<Rightarrow> int \<Rightarrow> seq \<Rightarrow> 'c sock \<Rightarrow> 'c sock res" where
  "leave_cwr env now ackNumber sk =
     (if m_congState (sk_tcb sk) = CA_CWR \<and> seq_gt ackNumber (sk_recover sk)
      then let sk = set_cong_state CA_OPEN sk;
               sk = upd_tcb (\<lambda>t. rec_ExitRecovery (sk_recovery sk) (t\<lparr>m_cWnd := m_ssThresh t\<rparr>)) sk
           in with_cong (co_CwndEvent (env_cong env) now CA_EVENT_COMPLETE_CWR) sk
      else Inr sk)"

definition ecn_echo :: "'c env \<Rightarrow> tcp_segment \<Rightarrow> seq \<Rightarrow> u32 \<Rightarrow> 'c sock \<Rightarrow> 'c sock res" where
  "ecn_echo env h oldHeadSequence currentDelivered sk =
     (if seq_gt (sg_ack h) oldHeadSequence \<and> m_ecnState (sk_tcb sk) \<noteq> ECN_DISABLED \<and> has_flag flag_ECE (sg_flags h)
      then if seq_lt (sk_ecnEchoSeq sk) (sg_ack h)
           then let sk = (upd_tcb (\<lambda>t. t\<lparr>m_ecnState := ECN_ECE_RCVD\<rparr>) sk)\<lparr>sk_ecnEchoSeq := sg_ack h\<rparr>
                in if m_congState (sk_tcb sk) \<noteq> CA_CWR then EnterCwr env currentDelivered sk else Inr sk
           else Inr sk
      else if m_ecnState (sk_tcb sk) = ECN_ECE_RCVD \<and> \<not> has_flag flag_ECE (sg_flags h)
      then Inr (upd_tcb (\<lambda>t. t\<lparr>m_ecnState := ECN_IDLE\<rparr>) sk)
      else Inr sk)"

end
