(* ===== verification/Tcp_States.thy ===== *)
theory Tcp_States
  imports Tcp_Input
begin

text \<open>
  \<^verbatim>\<open>src/src/internet/model/tcp-socket-base.cc\<close>: the states of a connection. Opening and closing, the timers, received data, and
  \<^verbatim>\<open>ForwardUp\<close>, which checks an incoming segment and hands it to the function of the current state. A listening
  socket answers a \<^verbatim>\<open>SYN\<close> with a copy of itself, on which \<^verbatim>\<open>CompleteFork\<close> is called.
\<close>

section \<open>Closing\<close>

definition CloseAndNotify :: "'c sock \<Rightarrow> 'c sock" where
  "CloseAndNotify sk =
     (let sk = (if \<not> sk_closeNotified sk then (notify Normal_Close sk)\<lparr>sk_closeNotified := True\<rparr> else sk)
      in DeallocateEndPoint (sk\<lparr>sk_lastAckEvent := None, sk_state := CLOSED\<rparr>))"

definition TimeWait :: "int \<Rightarrow> 'c sock \<Rightarrow> 'c sock" where
  "TimeWait now sk =
     (let sk = CancelAllTimers (sk\<lparr>sk_state := TIME_WAIT\<rparr>);
          sk = (if \<not> sk_closeNotified sk then (notify Normal_Close sk)\<lparr>sk_closeNotified := True\<rparr> else sk)
      in sk\<lparr>sk_timewaitEvent := Some (now + sk_twoMsl sk)\<rparr>)"

definition DoClose :: "int \<Rightarrow> 'c sock \<Rightarrow> 'c sock res" where
  "DoClose now sk =
     (case sk_state sk of
        SYN_RCVD \<Rightarrow> bind_res (SendEmptyPacket now flag_FIN sk) (\<lambda>sk. Inr (sk\<lparr>sk_state := FIN_WAIT_1\<rparr>))
      | ESTABLISHED \<Rightarrow> bind_res (SendEmptyPacket now flag_FIN sk) (\<lambda>sk. Inr (sk\<lparr>sk_state := FIN_WAIT_1\<rparr>))
      | CLOSE_WAIT \<Rightarrow> bind_res (SendEmptyPacket now (set_flag flag_ACK flag_FIN) sk) (\<lambda>sk. Inr (sk\<lparr>sk_state := LAST_ACK\<rparr>))
      | SYN_SENT \<Rightarrow> bind_res (SendRST now sk) (\<lambda>sk. Inr (CloseAndNotify sk))
      | CLOSING \<Rightarrow> bind_res (SendRST now sk) (\<lambda>sk. Inr (CloseAndNotify sk))
      | LISTEN \<Rightarrow> Inr (CloseAndNotify sk)
      | _ \<Rightarrow> Inr sk)"

definition Close :: "int \<Rightarrow> 'c sock \<Rightarrow> 'c sock res" where
  "Close now sk =
     (if rx_size (sk_rxBuffer sk) \<noteq> 0 then SendRST now sk
      else bind_res (SizeFromSequence (m_nextTxSequence (sk_tcb sk)) (sk_txBuffer sk)) (\<lambda>n.
             if n > 0 then Inr (sk\<lparr>sk_closeOnEmpty := True\<rparr>) else DoClose now sk))"

definition ShutdownSend :: "int \<Rightarrow> 'c sock \<Rightarrow> 'c sock res" where
  "ShutdownSend now sk =
     (let sk = sk\<lparr>sk_shutdownSend := True, sk_closeOnEmpty := True\<rparr>
      in if tx_size (sk_txBuffer sk) = 0 \<and> (sk_state sk = ESTABLISHED \<or> sk_state sk = CLOSE_WAIT)
         then bind_res (SendEmptyPacket now flag_FIN sk) (\<lambda>sk.
                Inr (if sk_state sk = ESTABLISHED then sk\<lparr>sk_state := FIN_WAIT_1\<rparr> else sk\<lparr>sk_state := LAST_ACK\<rparr>))
         else Inr sk)"

definition ShutdownRecv :: "'c sock \<Rightarrow> 'c sock" where
  "ShutdownRecv sk = sk\<lparr>sk_shutdownRecv := True\<rparr>"

definition DoPeerClose :: "int \<Rightarrow> 'c sock \<Rightarrow> 'c sock res" where
  "DoPeerClose now sk =
     (if \<not> (sk_state sk = ESTABLISHED \<or> sk_state sk = SYN_RCVD \<or> sk_state sk = FIN_WAIT_1 \<or> sk_state sk = FIN_WAIT_2) then Inl Assert_Failed
      else let sk = sk\<lparr>sk_state := CLOSE_WAIT\<rparr>;
               sk = (if \<not> sk_closeNotified sk then (notify Normal_Close sk)\<lparr>sk_closeNotified := True\<rparr> else sk)
           in bind_res (if sk_shutdownSend sk then Close now sk else SendEmptyPacket now flag_ACK sk) (\<lambda>sk.
              if sk_state sk = LAST_ACK
              then bind_res (rto_estimate sk) (\<lambda>lastRto.
                     Inr (sk\<lparr>sk_dataRetrCount := sk_dataRetries sk, sk_lastAckEvent := Some (now + lastRto)\<rparr>))
              else Inr sk))"

section \<open>Received data\<close>

definition ReceivedData :: "'c env \<Rightarrow> int \<Rightarrow> tcp_segment \<Rightarrow> 'c sock \<Rightarrow> 'c sock res" where
  "ReceivedData env now h sk =
     (let expectedSeq = sk_NextRxSequence sk
      in bind_res (rx_Add seq32_ops (sg_payload h) (sg_seq h) (sk_rxBuffer sk)) (\<lambda>(added, rx).
         let sk = sk\<lparr>sk_rxBuffer := rx\<rparr>; event = (\<lambda>ev. with_cong (co_CwndEvent (env_cong env) now ev))
         in if \<not> added then send_ack_ecn now sk
            else let advanced = seq_lt expectedSeq (sk_NextRxSequence sk);
                     sk = (if advanced \<and> \<not> sk_shutdownRecv sk then notify Data_Received sk else sk)
                 in if advanced \<and> Finished seq32_ops rx \<and> \<not> has_flag flag_FIN (sg_flags h) then DoPeerClose now sk
                    else if rx_size rx > rx_availBytes rx \<or> seq_gt (sk_NextRxSequence sk) (expectedSeq + of_nat (length (sg_payload h)))
                    then bind_res (event CA_EVENT_NON_DELAYED_ACK sk) (send_ack_ecn now)
                    else let sk = sk\<lparr>sk_delAckCount := sk_delAckCount sk + 1\<rparr>
                         in if sk_delAckCount sk \<ge> sk_delAckMaxCount sk
                            then bind_res (event CA_EVENT_NON_DELAYED_ACK (sk\<lparr>sk_delAckEvent := None, sk_delAckCount := 0\<rparr>)) (send_ack_ecn now)
                            else if sk_delAckEvent sk \<noteq> None then event CA_EVENT_DELAYED_ACK sk
                            else bind_res (event CA_EVENT_DELAYED_ACK sk) (\<lambda>sk. Inr (sk\<lparr>sk_delAckEvent := Some (now + sk_delAckTimeout sk)\<rparr>))))"

definition PeerClose :: "'c env \<Rightarrow> int \<Rightarrow> tcp_segment \<Rightarrow> 'c sock \<Rightarrow> 'c sock res" where
  "PeerClose env now h sk =
     (if seq_lt (sg_seq h) (sk_NextRxSequence sk) \<or> seq_gt (sg_seq h) (MaxRxSequence seq32_ops (sk_rxBuffer sk)) then Inr sk
      else let sk = sk\<lparr>sk_rxBuffer := SetFinSequence seq32_ops (sg_seq h + of_nat (length (sg_payload h))) (sk_rxBuffer sk)\<rparr>
           in bind_res (if sg_payload h \<noteq> [] then ReceivedData env now h sk else Inr sk) (\<lambda>sk.
              if \<not> Finished seq32_ops (sk_rxBuffer sk) then Inr sk
              else if sk_state sk = FIN_WAIT_1 then Inr (sk\<lparr>sk_state := CLOSING\<rparr>)
              else DoPeerClose now sk))"

section \<open>Acknowledgements\<close>

text \<open>\<^verbatim>\<open>ReceivedAck\<close> between the options and the pending data, for an acknowledgement that is not below the head.\<close>

definition received_ack_state :: "'c env \<Rightarrow> int \<Rightarrow> tcp_segment \<Rightarrow> u32 \<Rightarrow> seq \<Rightarrow> u64 \<Rightarrow> 'c sock \<Rightarrow> 'c sock res" where
  "received_ack_state env now h bytesSacked oldHeadSequence previousDelivered sk =
     (let ackNumber = sg_ack h; receivedData = sg_payload h \<noteq> []
      in bind_res (note_retransmitted ackNumber oldHeadSequence sk) (\<lambda>sk.
         bind_res (discard_acked now ackNumber sk) (\<lambda>sk.
         let currentDelivered = ucast (rc_delivered (ro_rate (sk_rateOps sk)) - previousDelivered);
             sk = upd_tcb (\<lambda>t. t\<lparr>m_lastAckedSackedBytes := currentDelivered\<rparr>) sk
         in bind_res (leave_cwr env now ackNumber sk) (\<lambda>sk.
            bind_res (ecn_echo env h oldHeadSequence currentDelivered sk) (\<lambda>sk.
            bind_res (sk_BytesInFlight sk) (\<lambda>(n, sk).
            bind_res (ProcessAck env now ackNumber (bytesSacked > 0) currentDelivered oldHeadSequence receivedData sk) (\<lambda>sk.
            let sk = upd_tcb (\<lambda>t. t\<lparr>m_isRetransDataAcked := False\<rparr>) sk
            in if receivedData then ReceivedData env now h sk else Inr sk)))))))"

definition ReceivedAck :: "'c env \<Rightarrow> int \<Rightarrow> tcp_segment \<Rightarrow> 'c sock \<Rightarrow> 'c sock run" where
  "ReceivedAck env now h sk =
     (if \<not> has_flag flag_ACK (sg_flags h) \<or> \<not> m_segmentSize (sk_tcb sk) > 0 then Some (Inl Assert_Failed)
      else let previousDelivered = rc_delivered (ro_rate (sk_rateOps sk)); ackNumber = sg_ack h;
               receivedData = sg_payload h \<noteq> []
           in bind_run (Some (ReadOptions now h sk)) (\<lambda>(bytesSacked, sk).
              let oldHeadSequence = sk_HeadSequence sk
              in if seq_lt ackNumber oldHeadSequence then Some (if receivedData then ReceivedData env now h sk else Inr sk)
                 else bind_run (Some (received_ack_state env now h bytesSacked oldHeadSequence previousDelivered sk)) (\<lambda>sk.
                      bind_run (SendPendingData env now (sk_connected sk) sk) (\<lambda>(n, sk). Some (Inr sk)))))"

section \<open>Timers\<close>

text \<open>The reactions to the expiry of a timer; the event is no longer pending.\<close>

definition syn_flags :: "'c sock \<Rightarrow> u8" where
  "syn_flags sk = (if m_useEcn (sk_tcb sk) = Ecn_On then set_flag flag_CWR (set_flag flag_ECE flag_SYN) else flag_SYN)"

text \<open>\<^verbatim>\<open>ReTxTimeout\<close> with data in the buffer and a retry left, up to the retransmission.\<close>

definition timeout_loss :: "'c env \<Rightarrow> int \<Rightarrow> 'c sock \<Rightarrow> 'c sock res" where
  "timeout_loss env now sk =
     bind_res (sk_BytesInFlight (sk\<lparr>sk_dataRetrCount := sk_dataRetrCount sk - 1\<rparr>)) (\<lambda>(inFlightBeforeRto, sk).
     let resetSack = \<not> sk_sackEnabled sk;
         sk = sk\<lparr>sk_dupAckCount := 0\<rparr>;
         sk = (if \<not> sk_sackEnabled sk then sk\<lparr>sk_txBuffer := ResetRenoSack (sk_txBuffer sk)\<rparr> else sk)
     in bind_res (SetSentListLost resetSack (sk_txBuffer sk)) (\<lambda>tx.
        let sk = sk\<lparr>sk_txBuffer := tx, sk_recover := m_highTxMark (sk_tcb sk), sk_recoverActive := True\<rparr>
        in bind_res (time_add (sk_rto sk) (sk_rto sk)) (\<lambda>doubledRto.
           let sk = sk\<lparr>sk_rto := min doubledRto 60000000000, sk_history := []\<rparr>
           in bind_res (if m_congState (sk_tcb sk) \<noteq> CA_LOSS then Inr True
                        else bind_res (IsHeadRetransmitted (sk_txBuffer sk)) (\<lambda>r. Inr (\<not> r))) (\<lambda>reduce.
              let sk = (if reduce then upd_tcb (\<lambda>t. t\<lparr>m_ssThresh := co_GetSsThresh (env_cong env) t inFlightBeforeRto\<rparr>) sk else sk)
              in bind_res (with_cong (co_CwndEvent (env_cong env) now CA_EVENT_LOSS) sk) (\<lambda>sk.
                 bind_res (with_cong (co_CongestionStateSet (env_cong env) now CA_LOSS) sk) (\<lambda>sk.
                 let sk = upd_tcb (\<lambda>t. t\<lparr>m_congState := CA_LOSS, m_cWnd := m_segmentSize t, m_cWndInfl := m_segmentSize t\<rparr>) sk
                 in bind_res (sk_BytesInFlight sk) (\<lambda>(n, sk). if n \<noteq> 0 then Inl Assert_Failed else Inr sk)))))))"

definition ReTxTimeout :: "'c env \<Rightarrow> int \<Rightarrow> 'c sock \<Rightarrow> 'c sock run" where
  "ReTxTimeout env now sk =
     (if sk_state sk = CLOSED \<or> sk_state sk = TIME_WAIT then Some (Inr sk)
      else if sk_state sk = SYN_SENT
      then Some (if \<not> sk_synCount sk > 0 then Inl Assert_Failed else SendEmptyPacket now (syn_flags sk) sk)
      else if tx_size (sk_txBuffer sk) = 0
      then Some (if sk_state sk = FIN_WAIT_1 \<or> sk_state sk = CLOSING then SendEmptyPacket now flag_FIN sk else Inr sk)
      else if sk_dataRetrCount sk = 0 then Some (Inr (DeallocateEndPoint (notify Error_Close sk)))
      else bind_run (Some (timeout_loss env now sk)) (\<lambda>sk.
           bind_run (SendPendingData env now (sk_connected sk) sk) (\<lambda>(sent, sk).
             Some (bind_res (sk_BytesInFlight sk) (\<lambda>(n, sk). if \<not> n \<le> m_segmentSize (sk_tcb sk) then Inl Assert_Failed else Inr sk)))))"

definition DelAckTimeout :: "'c env \<Rightarrow> int \<Rightarrow> 'c sock \<Rightarrow> 'c sock res" where
  "DelAckTimeout env now sk =
     bind_res (with_cong (co_CwndEvent (env_cong env) now CA_EVENT_DELAYED_ACK) (sk\<lparr>sk_delAckCount := 0\<rparr>)) (send_ack_ecn now)"

definition LastAckTimeout :: "int \<Rightarrow> 'c sock \<Rightarrow> 'c sock res" where
  "LastAckTimeout now sk =
     (let sk = sk\<lparr>sk_lastAckEvent := None\<rparr>
      in if sk_state sk \<noteq> LAST_ACK then Inr sk
         else if sk_dataRetrCount sk = 0 then Inr (DeallocateEndPoint (notify Error_Close sk))
         else bind_res (SendEmptyPacket now (set_flag flag_ACK flag_FIN) (sk\<lparr>sk_dataRetrCount := sk_dataRetrCount sk - 1\<rparr>)) (\<lambda>sk.
              bind_res (rto_estimate sk) (\<lambda>lastRto. Inr (sk\<lparr>sk_lastAckEvent := Some (now + lastRto)\<rparr>))))"

definition PersistTimeout :: "int \<Rightarrow> 'c sock \<Rightarrow> 'c sock res" where
  "PersistTimeout now sk =
     bind_res (time_mul 2 (sk_persistTimeout sk)) (\<lambda>doubled.
     let sk = sk\<lparr>sk_persistTimeout := min 60000000000 doubled\<rparr>; nxt = m_nextTxSequence (sk_tcb sk)
     in bind_res (CopyFromSequence now 1 nxt (sk_txBuffer sk)) (\<lambda>(outItem, tx).
        case outItem of
          None \<Rightarrow> Inl Undefined_Behaviour
        | Some t \<Rightarrow>
            bind_res (AdvertisedWindowSize True (sk\<lparr>sk_txBuffer := ResetLastSegmentSent tx\<rparr>)) (\<lambda>(w, sk).
              let h = AddOptions now sk \<lparr>sg_flags = 0, sg_seq = nxt, sg_ack = sk_NextRxSequence sk, sg_window = w, sg_ts = None, sg_sack = None,
                    sg_wscale = None, sg_sackPermitted = False, sg_payload = ti_packet t\<rparr>
              in Inr ((SendPacket h sk)\<lparr>sk_persistEvent := Some (now + sk_persistTimeout sk)\<rparr>))))"

section \<open>Opening\<close>

definition DoConnect :: "int \<Rightarrow> 'c sock \<Rightarrow> 'c sock res" where
  "DoConnect now sk =
     (if sk_state sk \<in> {CLOSED, LISTEN, SYN_SENT, LAST_ACK, CLOSE_WAIT}
      then bind_res (SendEmptyPacket now (syn_flags sk) sk) (\<lambda>sk.
             Inr (upd_tcb (\<lambda>t. t\<lparr>m_ecnState := ECN_DISABLED\<rparr>) (sk\<lparr>sk_state := SYN_SENT\<rparr>)))
      else if sk_state sk \<noteq> TIME_WAIT then bind_res (SendRST now sk) (\<lambda>sk. Inr (CloseAndNotify sk))
      else Inr sk)"

text \<open>\<^verbatim>\<open>Connect\<close> once the end point is bound and routed.\<close>

definition Connect :: "int \<Rightarrow> 'c sock \<Rightarrow> 'c sock res" where
  "Connect now sk = DoConnect now (sk\<lparr>sk_rtt := rtt_Reset (sk_rtt sk), sk_synCount := sk_synRetries sk, sk_dataRetrCount := sk_dataRetries sk\<rparr>)"

definition Listen :: "'c sock \<Rightarrow> bool \<times> 'c sock" where
  "Listen sk = (if sk_state sk \<noteq> CLOSED then (False, sk) else (True, sk\<lparr>sk_state := LISTEN\<rparr>))"

definition is_ecn_syn :: "u8 \<Rightarrow> 'c sock \<Rightarrow> bool" where
  "is_ecn_syn flags sk \<longleftrightarrow> m_useEcn (sk_tcb sk) \<noteq> Ecn_Off \<and> has_flag flag_CWR flags \<and> has_flag flag_ECE flags"

definition answer_syn :: "int \<Rightarrow> tcp_segment \<Rightarrow> 'c sock \<Rightarrow> 'c sock res" where
  "answer_syn now h sk =
     (let sk = sk\<lparr>sk_rxBuffer := SetNextRxSequence (sg_seq h + 1) (sk_rxBuffer sk)\<rparr>
      in if is_ecn_syn (sg_flags h) sk
         then bind_res (SendEmptyPacket now (set_flag flag_ECE (set_flag flag_ACK flag_SYN)) sk) (\<lambda>sk. Inr (upd_tcb (\<lambda>t. t\<lparr>m_ecnState := ECN_IDLE\<rparr>) sk))
         else SendEmptyPacket now (set_flag flag_ACK flag_SYN) (upd_tcb (\<lambda>t. t\<lparr>m_ecnState := ECN_DISABLED\<rparr>) sk))"

text \<open>The copy of a listening socket: the fields that the copy constructors of the socket and of \<^verbatim>\<open>TcpSocketState\<close> name.\<close>

definition Fork :: "'c env \<Rightarrow> int \<Rightarrow> 'c sock \<Rightarrow> 'c sock" where
  "Fork env now sk =
     (let tcb = (sk_tcb sk)\<lparr>m_cWndInfl := 0, m_maxDelay := 0, m_target_delay := 0, m_hops := 0, m_isRetransDataAcked := False\<rparr>;
          (c, tcb) = co_Init (env_cong env) now (sk_cong sk, tcb)
      in sk\<lparr>sk_cong := c, sk_tcb := tcb, sk_rateOps := TcpRateLinux, sk_endPoint := False, sk_retxEvent := None, sk_lastAckEvent := None,
           sk_delAckEvent := None, sk_persistEvent := None, sk_timewaitEvent := None, sk_sendPendingDataEvent := None, sk_connSucceededEvent := None, sk_delAckCount := 0,
           sk_history := [], sk_highTxAck := 0, sk_advWnd := 0, sk_out := [], sk_notified := []\<rparr>)"

definition CompleteFork :: "int \<Rightarrow> tcp_segment \<Rightarrow> 'c sock \<Rightarrow> 'c sock res" where
  "CompleteFork now h sk =
     (let sk = sk\<lparr>sk_endPoint := True, sk_state := SYN_RCVD, sk_synCount := sk_synRetries sk, sk_dataRetrCount := sk_dataRetries sk,
            sk_rxBuffer := SetNextRxSequence (sg_seq h + 1) (sk_rxBuffer sk)\<rparr>
      in if is_ecn_syn (sg_flags h) sk
         then bind_res (SendEmptyPacket now (set_flag flag_ECE (set_flag flag_ACK flag_SYN)) sk) (\<lambda>sk. Inr (upd_tcb (\<lambda>t. t\<lparr>m_ecnState := ECN_IDLE\<rparr>) sk))
         else bind_res (SendEmptyPacket now (set_flag flag_ACK flag_SYN) sk) (\<lambda>sk. Inr (upd_tcb (\<lambda>t. t\<lparr>m_ecnState := ECN_DISABLED\<rparr>) sk)))"

definition ConnectionSucceeded :: "'c env \<Rightarrow> int \<Rightarrow> 'c sock \<Rightarrow> 'c sock res" where
  "ConnectionSucceeded env now sk =
     (let sk = notify Connection_Succeeded sk in if GetTxAvailable sk > 0 then NotifySend env now sk else Inr sk)"

end
