(* ===== verification/Tcp_Process.thy ===== *)
theory Tcp_Process
  imports Tcp_States Ipv4_Header
begin

text \<open>
  \<^verbatim>\<open>src/src/internet/model/tcp-socket-base.cc\<close>: \<^verbatim>\<open>ForwardUp\<close>, which receives a segment from the network
  layer, and \<^verbatim>\<open>DoForwardUp\<close>, which reads its options and hands it to the function of the state the connection is in.
  The length of the TCP header and the IP header come with the segment. A listening socket yields the copy of itself on which
  the scheduled \<^verbatim>\<open>CompleteFork\<close> is called.
\<close>

section \<open>Acceptance\<close>

definition OutOfRange :: "seq \<Rightarrow> seq \<Rightarrow> 'c sock \<Rightarrow> bool" where
  "OutOfRange head tail sk =
     (if sk_state sk = LISTEN \<or> sk_state sk = SYN_SENT \<or> sk_state sk = SYN_RCVD then False
      else if sk_state sk = LAST_ACK \<or> sk_state sk = CLOSING \<or> sk_state sk = CLOSE_WAIT then sk_NextRxSequence sk \<noteq> head
      else seq_lt tail (sk_NextRxSequence sk) \<or> seq_le (MaxRxSequence seq32_ops (sk_rxBuffer sk)) head)"

definition IsValidTcpSegment :: "int \<Rightarrow> seq \<Rightarrow> u32 \<Rightarrow> u32 \<Rightarrow> 'c sock \<Rightarrow> (bool \<times> 'c sock) res" where
  "IsValidTcpSegment now s tcpHeaderSize tcpPayloadSize sk =
     (if tcpHeaderSize = 0 \<or> tcpHeaderSize > 60 then Inr (False, sk)
      else if tcpPayloadSize > 0 \<and> OutOfRange s (s + tcpPayloadSize) sk
      then bind_res (SendEmptyPacket now flag_ACK sk) (\<lambda>sk. Inr (False, sk))
      else Inr (True, sk))"

section \<open>The states\<close>

definition ProcessEstablished :: "'c env \<Rightarrow> int \<Rightarrow> tcp_segment \<Rightarrow> 'c sock \<Rightarrow> 'c sock run" where
  "ProcessEstablished env now h sk =
     (let tcpflags = clear_flags (set_flag flag_PSH (set_flag flag_URG (set_flag flag_CWR flag_ECE))) (sg_flags h)
      in if tcpflags = flag_ACK
         then if seq_lt (sg_ack h) (sk_HeadSequence sk) then Some (Inr sk)
              else if seq_gt (sg_ack h) (m_highTxMark (sk_tcb sk)) then Some (send_ack_ecn now sk)
              else ReceivedAck env now h sk
         else if tcpflags = flag_SYN \<or> tcpflags = set_flag flag_SYN flag_ACK then Some (Inr sk)
         else if tcpflags = flag_FIN \<or> tcpflags = set_flag flag_FIN flag_ACK then Some (PeerClose env now h sk)
         else if tcpflags = 0
         then Some (bind_res (ReceivedData env now h sk) (\<lambda>sk.
                if Finished seq32_ops (sk_rxBuffer sk) then PeerClose env now h sk else Inr sk))
         else Some (bind_res (if tcpflags \<noteq> flag_RST then SendRST now sk else Inr sk) (\<lambda>sk. Inr (CloseAndNotify sk))))"

definition ProcessListen :: "'c env \<Rightarrow> int \<Rightarrow> tcp_segment \<Rightarrow> 'c sock \<Rightarrow> 'c sock option" where
  "ProcessListen env now h sk =
     (let tcpflags = clear_flags (set_flag flag_PSH (set_flag flag_URG (set_flag flag_CWR flag_ECE))) (sg_flags h)
      in if tcpflags \<noteq> flag_SYN then None
         else if \<not> env_accept env then None
         else Some (Fork env now sk))"

text \<open>The part that \<^verbatim>\<open>ProcessSynSent\<close> and \<^verbatim>\<open>ProcessSynRcvd\<close> share when the connection is established.\<close>

definition enter_established :: "'c env \<Rightarrow> int \<Rightarrow> 'c sock \<Rightarrow> 'c sock res" where
  "enter_established env now sk =
     bind_res (with_cong (co_CongestionStateSet (env_cong env) now CA_OPEN) sk) (\<lambda>sk.
       Inr ((set_cong_state CA_OPEN sk)\<lparr>sk_state := ESTABLISHED, sk_connected := True, sk_retxEvent := None\<rparr>))"

text \<open>The acknowledged \<^verbatim>\<open>SYN\<close> takes a sequence number.\<close>

definition consume_syn :: "'c sock \<Rightarrow> 'c sock res" where
  "consume_syn sk =
     (let sk = upd_tcb (\<lambda>t. t\<lparr>m_nextTxSequence := m_nextTxSequence t + 1, m_highTxMark := m_nextTxSequence t + 1\<rparr>) sk
      in bind_res (SetHeadSequence (m_nextTxSequence (sk_tcb sk)) (sk_txBuffer sk)) (\<lambda>tx. Inr (sk\<lparr>sk_txBuffer := tx\<rparr>)))"

definition ProcessSynSent :: "'c env \<Rightarrow> int \<Rightarrow> tcp_segment \<Rightarrow> 'c sock \<Rightarrow> 'c sock run" where
  "ProcessSynSent env now h sk =
     (let tcpflags = clear_flags (set_flag flag_PSH flag_URG) (sg_flags h)
      in if tcpflags = 0
         then Some (bind_res (enter_established env now sk) (\<lambda>sk.
                bind_res (ReceivedData env now h (sk\<lparr>sk_delAckCount := sk_delAckMaxCount sk\<rparr>)) (\<lambda>sk. Inr (sk\<lparr>sk_connSucceededEvent := Some now\<rparr>))))
         else if has_flag flag_ACK tcpflags \<and> \<not> has_flag flag_SYN tcpflags then Some (Inr sk)
         else if has_flag flag_SYN tcpflags \<and> \<not> has_flag flag_ACK tcpflags
         then Some (answer_syn now h (sk\<lparr>sk_state := SYN_RCVD, sk_synCount := sk_synRetries sk\<rparr>))
         else if has_flag (set_flag flag_SYN flag_ACK) tcpflags \<and> m_nextTxSequence (sk_tcb sk) + 1 = sg_ack h
         then bind_run (Some (
                bind_res (enter_established env now sk) (\<lambda>sk.
                bind_res (consume_syn (sk\<lparr>sk_rxBuffer := SetNextRxSequence (sg_seq h + 1) (sk_rxBuffer sk)\<rparr>)) (\<lambda>sk.
                bind_res (SendEmptyPacket now flag_ACK sk) (\<lambda>sk.
                let ecn = m_useEcn (sk_tcb sk) \<noteq> Ecn_Off \<and> and tcpflags (set_flag flag_CWR flag_ECE) = flag_ECE
                in Inr (upd_tcb (\<lambda>t. t\<lparr>m_ecnState := (if ecn then ECN_IDLE else ECN_DISABLED)\<rparr>) sk)))))) (\<lambda>sk.
              bind_run (SendPendingData env now (sk_connected sk) sk) (\<lambda>(n, sk).
                Some (Inr (sk\<lparr>sk_connSucceededEvent := Some now, sk_delAckCount := sk_delAckMaxCount sk\<rparr>))))
         else Some (bind_res (if \<not> has_flag flag_RST tcpflags then SendRST now sk else Inr sk) (\<lambda>sk. Inr (CloseAndNotify sk))))"

definition ProcessSynRcvd :: "'c env \<Rightarrow> int \<Rightarrow> tcp_segment \<Rightarrow> 'c sock \<Rightarrow> 'c sock run" where
  "ProcessSynRcvd env now h sk =
     (let tcpflags = clear_flags (set_flag flag_PSH (set_flag flag_URG (set_flag flag_CWR flag_ECE))) (sg_flags h)
      in if tcpflags = 0 \<or> tcpflags = flag_ACK \<and> m_nextTxSequence (sk_tcb sk) + 1 = sg_ack h
         then bind_run (Some (bind_res (enter_established env now sk) consume_syn)) (\<lambda>sk.
              bind_run (ReceivedAck env now h (notify New_Connection (sk\<lparr>sk_delAckCount := sk_delAckMaxCount sk\<rparr>))) (\<lambda>sk.
                Some (if GetTxAvailable sk > 0 then NotifySend env now sk else Inr sk)))
         else if tcpflags = flag_SYN then Some (answer_syn now h sk)
         else if tcpflags = set_flag flag_FIN flag_ACK
         then Some (if sg_seq h = sk_NextRxSequence sk
                    then bind_res (consume_syn (sk\<lparr>sk_connected := True, sk_retxEvent := None\<rparr>)) (\<lambda>sk. PeerClose env now h (notify New_Connection sk))
                    else Inr sk)
         else Some (bind_res (if tcpflags \<noteq> flag_RST then SendRST now sk else Inr sk) (\<lambda>sk. Inr (CloseAndNotify sk))))"

text \<open>The end of \<^verbatim>\<open>ProcessWait\<close>.\<close>

definition check_finished :: "int \<Rightarrow> tcp_segment \<Rightarrow> 'c sock \<Rightarrow> 'c sock res" where
  "check_finished now h sk =
     (if (sk_state sk = FIN_WAIT_1 \<or> sk_state sk = FIN_WAIT_2) \<and> Finished seq32_ops (sk_rxBuffer sk)
      then let sk = (if sk_state sk = FIN_WAIT_1
                     then let sk = sk\<lparr>sk_state := CLOSING\<rparr>
                          in if tx_size (sk_txBuffer sk) = 0 \<and> sg_ack h = m_highTxMark (sk_tcb sk) + 1 then TimeWait now sk else sk
                     else TimeWait now sk)
           in bind_res (SendEmptyPacket now flag_ACK sk) (\<lambda>sk. Inr (if \<not> sk_shutdownRecv sk then notify Data_Received sk else sk))
      else Inr sk)"

definition ProcessWait :: "'c env \<Rightarrow> int \<Rightarrow> tcp_segment \<Rightarrow> 'c sock \<Rightarrow> 'c sock run" where
  "ProcessWait env now h sk =
     (let tcpflags = clear_flags (set_flag flag_PSH (set_flag flag_URG (set_flag flag_CWR flag_ECE))) (sg_flags h);
          check = (\<lambda>sk. Some (check_finished now h sk))
      in if sg_payload h \<noteq> [] \<and> \<not> has_flag flag_ACK tcpflags then bind_run (Some (ReceivedData env now h sk)) check
         else if tcpflags = flag_ACK
         then bind_run (ReceivedAck env now h sk) (\<lambda>sk.
                check (if sk_state sk = FIN_WAIT_1 \<and> tx_size (sk_txBuffer sk) = 0 \<and> sg_ack h = m_highTxMark (sk_tcb sk) + 1
                       then sk\<lparr>sk_state := FIN_WAIT_2\<rparr> else sk))
         else if tcpflags = flag_FIN \<or> tcpflags = set_flag flag_FIN flag_ACK
         then bind_run (if has_flag flag_ACK tcpflags then ReceivedAck env now h sk else Some (Inr sk)) (\<lambda>sk.
                check (sk\<lparr>sk_rxBuffer := SetFinSequence seq32_ops (sg_seq h) (sk_rxBuffer sk)\<rparr>))
         else if tcpflags = flag_SYN \<or> tcpflags = set_flag flag_SYN flag_ACK then Some (Inr sk)
         else Some (bind_res (if tcpflags \<noteq> flag_RST then SendRST now sk else Inr sk) (\<lambda>sk. Inr (CloseAndNotify sk))))"

definition ProcessClosing :: "int \<Rightarrow> tcp_segment \<Rightarrow> 'c sock \<Rightarrow> 'c sock res" where
  "ProcessClosing now h sk =
     (let tcpflags = clear_flags (set_flag flag_PSH flag_URG) (sg_flags h)
      in if tcpflags = flag_ACK then Inr (if sg_seq h = sk_NextRxSequence sk then TimeWait now sk else sk)
         else bind_res
           (if tcpflags = flag_FIN \<or> tcpflags = set_flag flag_FIN flag_ACK then SendEmptyPacket now flag_ACK sk
            else if tcpflags \<noteq> flag_RST then SendRST now sk else Inr sk) (\<lambda>sk. Inr (CloseAndNotify sk)))"

definition ProcessLastAck :: "'c env \<Rightarrow> int \<Rightarrow> tcp_segment \<Rightarrow> 'c sock \<Rightarrow> 'c sock res" where
  "ProcessLastAck env now h sk =
     (let tcpflags = clear_flags (set_flag flag_PSH flag_URG) (sg_flags h)
      in if tcpflags = 0 then ReceivedData env now h sk
         else if tcpflags = flag_ACK then Inr (if sg_seq h = sk_NextRxSequence sk then CloseAndNotify sk else sk)
         else if tcpflags = flag_FIN then SendEmptyPacket now (set_flag flag_FIN flag_ACK) sk
         else if tcpflags = set_flag flag_FIN flag_ACK \<or> tcpflags = flag_RST then Inr (CloseAndNotify sk)
         else bind_res (SendRST now sk) (\<lambda>sk. Inr (CloseAndNotify sk)))"

section \<open>Forwarding\<close>

text \<open>The options and the window of a segment with \<^verbatim>\<open>SYN\<close>.\<close>

definition read_syn :: "int \<Rightarrow> tcp_segment \<Rightarrow> 'c sock \<Rightarrow> 'c sock res" where
  "read_syn now h sk =
     (let sk = sk\<lparr>sk_rWnd := ucast (sg_window h)\<rparr>;
          sk = (case sg_wscale h of
                  Some scale \<Rightarrow> if sk_winScalingEnabled sk then ProcessOptionWScale scale sk else sk\<lparr>sk_winScalingEnabled := False\<rparr>
                | None \<Rightarrow> sk\<lparr>sk_winScalingEnabled := False\<rparr>);
          sk = (if sg_sackPermitted h \<and> sk_sackEnabled sk then sk
                else sk\<lparr>sk_sackEnabled := False, sk_txBuffer := tx_SetSackEnabled False (sk_txBuffer sk)\<rparr>);
          sk = (case sg_ts h of
                  Some ts \<Rightarrow> if sk_timestampEnabled sk then ProcessOptionTimestamp ts (sg_seq h) sk else sk\<lparr>sk_timestampEnabled := False\<rparr>
                | None \<Rightarrow> sk\<lparr>sk_timestampEnabled := False\<rparr>);
          sk = upd_tcb (\<lambda>t. t\<lparr>m_cWnd := sk_initialCWnd sk * m_segmentSize t, m_cWndInfl := sk_initialCWnd sk * m_segmentSize t,
                             m_ssThresh := sk_initialSsThresh sk\<rparr>) sk
      in if has_flag flag_ACK (sg_flags h)
         then bind_res (EstimateRtt now h sk) (\<lambda>sk. Inr (sk\<lparr>sk_highRxAckMark := sg_ack h\<rparr>))
         else Inr sk)"

text \<open>Other segments with \<^verbatim>\<open>ACK\<close>: \<open>None\<close> when the segment is dropped for want of a time stamp.\<close>

definition read_ack :: "int \<Rightarrow> tcp_segment \<Rightarrow> 'c sock \<Rightarrow> 'c sock option res" where
  "read_ack now h sk =
     (if sk_timestampEnabled sk \<and> sg_ts h = None then Inr None
      else let sk = (if sk_timestampEnabled sk then ProcessOptionTimestamp (the (sg_ts h)) (sg_seq h) sk else sk)
           in bind_res (EstimateRtt now h sk) (\<lambda>sk. Inr (Some (UpdateWindowSize h sk))))"

definition reset_closed :: "int \<Rightarrow> tcp_segment \<Rightarrow> 'c sock \<Rightarrow> 'c sock res" where
  "reset_closed now h sk =
     (if clear_flags (set_flag flag_PSH flag_URG) (sg_flags h) \<noteq> flag_RST
      then bind_res (AdvertisedWindowSize True sk) (\<lambda>(w, sk).
             Inr (SendPacket (AddOptions now sk \<lparr>sg_flags = flag_RST, sg_seq = m_nextTxSequence (sk_tcb sk), sg_ack = sk_NextRxSequence sk,
               sg_window = w, sg_ts = None, sg_sack = None, sg_wscale = None, sg_sackPermitted = False, sg_payload = []\<rparr>) sk))
      else Inr sk)"

definition dispatch :: "'c env \<Rightarrow> int \<Rightarrow> tcp_segment \<Rightarrow> 'c sock \<Rightarrow> ('c sock \<times> 'c sock option) run" where
  "dispatch env now h sk =
     (let single = (\<lambda>r. bind_run r (\<lambda>sk. Some (Inr (sk, None))))
      in case sk_state sk of
           ESTABLISHED \<Rightarrow> single (ProcessEstablished env now h sk)
         | LISTEN \<Rightarrow> Some (Inr (sk, ProcessListen env now h sk))
         | TIME_WAIT \<Rightarrow> Some (Inr (sk, None))
         | CLOSED \<Rightarrow> single (Some (reset_closed now h sk))
         | SYN_SENT \<Rightarrow> single (ProcessSynSent env now h sk)
         | SYN_RCVD \<Rightarrow> single (ProcessSynRcvd env now h sk)
         | FIN_WAIT_1 \<Rightarrow> single (ProcessWait env now h sk)
         | FIN_WAIT_2 \<Rightarrow> single (ProcessWait env now h sk)
         | CLOSE_WAIT \<Rightarrow> single (ProcessWait env now h sk)
         | CLOSING \<Rightarrow> single (Some (ProcessClosing now h sk))
         | LAST_ACK \<Rightarrow> single (Some (ProcessLastAck env now h sk)))"

definition DoForwardUp :: "'c env \<Rightarrow> int \<Rightarrow> tcp_segment \<Rightarrow> 'c sock \<Rightarrow> ('c sock \<times> 'c sock option) run" where
  "DoForwardUp env now h sk =
     (let sk = (if sk_state sk = ESTABLISHED \<and> \<not> has_flag flag_RST (sg_flags h) \<and> has_flag flag_CWR (sg_flags h) \<and>
                   m_ecnState (sk_tcb sk) \<noteq> ECN_CE_RCVD
                then upd_tcb (\<lambda>t. t\<lparr>m_ecnState := ECN_IDLE\<rparr>) sk else sk)
      in bind_run (Some
           (if has_flag flag_SYN (sg_flags h) then bind_res (read_syn now h sk) (\<lambda>sk. Inr (Some sk))
            else if has_flag flag_ACK (sg_flags h) then read_ack now h sk
            else Inr (Some sk))) (\<lambda>accepted.
         case accepted of
           None \<Rightarrow> Some (Inr (sk, None))
         | Some sk \<Rightarrow>
             let sk = (if sk_rWnd sk = 0 \<and> sk_persistEvent sk = None
                       then sk\<lparr>sk_retxEvent := None, sk_persistEvent := Some (now + sk_persistTimeout sk)\<rparr> else sk)
             in bind_run (dispatch env now h sk) (\<lambda>(sk, forked).
                if sk_rWnd sk \<noteq> 0 \<and> sk_persistEvent sk \<noteq> None
                then if \<not> sk_connected sk then Some (Inl Assert_Failed)
                     else bind_run (SendPendingData env now (sk_connected sk) (sk\<lparr>sk_persistEvent := None\<rparr>)) (\<lambda>(n, sk). Some (Inr (sk, forked)))
                else Some (Inr (sk, forked)))))"

abbreviation ECN_NotECT :: u8 where "ECN_NotECT \<equiv> 0"
abbreviation ECN_CE :: u8 where "ECN_CE \<equiv> 3"

definition ForwardUp ::
    "'c env \<Rightarrow> int \<Rightarrow> u32 \<Rightarrow> ipv4_header \<Rightarrow> delay_tag option \<Rightarrow> tcp_segment \<Rightarrow> 'c sock \<Rightarrow> ('c sock \<times> 'c sock option) run" where
  "ForwardUp env now bytesRemoved header tag h sk =
     bind_run (Some (IsValidTcpSegment now (sg_seq h) bytesRemoved (of_nat (length (sg_payload h))) sk)) (\<lambda>(valid, sk).
       if \<not> valid then Some (Inr (sk, None))
       else bind_run (Some
              (if GetEcn header = ECN_CE \<and> seq_lt (sk_ecnCESeq sk) (sg_seq h)
               then with_cong (co_CwndEvent (env_cong env) now CA_EVENT_ECN_IS_CE)
                      ((upd_tcb (\<lambda>t. t\<lparr>m_ecnState := ECN_CE_RCVD\<rparr>) sk)\<lparr>sk_ecnCESeq := sg_seq h\<rparr>)
               else if GetEcn header \<noteq> ECN_NotECT \<and> m_ecnState (sk_tcb sk) \<noteq> ECN_DISABLED
               then with_cong (co_CwndEvent (env_cong env) now CA_EVENT_ECN_NO_CE) sk
               else Inr sk)) (\<lambda>sk. DoForwardUp env now h (upd_tcb (forward_up_tag tag) sk)))"

definition sk_Recv :: "u32 \<Rightarrow> 'c sock \<Rightarrow> (bytes option \<times> 'c sock) res" where
  "sk_Recv maxSize sk =
     (if rx_size (sk_rxBuffer sk) = 0 \<and> sk_state sk = CLOSE_WAIT then Inr (Some [], sk)
      else bind_res (rx_Extract seq32_ops maxSize (sk_rxBuffer sk)) (\<lambda>(p, rx). Inr (p, sk\<lparr>sk_rxBuffer := rx\<rparr>)))"

end
