(* ===== verification/Tcp_Machine.thy ===== *)
theory Tcp_Machine
  imports Tcp_Process
begin

section \<open>Results that satisfy a predicate\<close>

text \<open>An operation that returns does so with a result that satisfies \<open>P\<close>; the rules for the operations of the socket are collected in \<open>wp\<close>.\<close>

named_theorems wp "what an operation yields when it returns"

definition yields :: "'a res \<Rightarrow> ('a \<Rightarrow> bool) \<Rightarrow> bool" where
  "yields m P \<longleftrightarrow> (\<forall>x. m = Inr x \<longrightarrow> P x)"

definition run_yields :: "'a run \<Rightarrow> ('a \<Rightarrow> bool) \<Rightarrow> bool" where
  "run_yields m P \<longleftrightarrow> (\<forall>x. m = Some (Inr x) \<longrightarrow> P x)"

lemma yields_simps [simp]:
  "yields (Inl e) P" "yields (Inr x) P \<longleftrightarrow> P x"
  "yields (if b then m else m') P \<longleftrightarrow> (b \<longrightarrow> yields m P) \<and> (\<not> b \<longrightarrow> yields m' P)"
  by (auto simp: yields_def)

lemma yields_bind [simp]: "yields (bind_res m f) P \<longleftrightarrow> yields m (\<lambda>x. yields (f x) P)"
  by (cases m) (auto simp: yields_def)

lemma yields_option [simp]:
  "yields (case r of None \<Rightarrow> m | Some x \<Rightarrow> f x) P \<longleftrightarrow> (r = None \<longrightarrow> yields m P) \<and> (\<forall>x. r = Some x \<longrightarrow> yields (f x) P)"
  by (cases r) simp_all

lemma run_yields_simps [simp]:
  "run_yields None P" "run_yields (Some r) P \<longleftrightarrow> yields r P"
  "run_yields (if b then m else m') P \<longleftrightarrow> (b \<longrightarrow> run_yields m P) \<and> (\<not> b \<longrightarrow> run_yields m' P)"
  by (auto simp: run_yields_def yields_def)

lemma run_yields_bind [simp]: "run_yields (bind_run m f) P \<longleftrightarrow> run_yields m (\<lambda>x. run_yields (f x) P)"
  by (auto simp: run_yields_def bind_run_def split: option.splits sum.splits)

lemma yields_mono: "yields m Q \<Longrightarrow> (\<And>x. Q x \<Longrightarrow> P x) \<Longrightarrow> yields m P"
  by (simp add: yields_def)

lemma run_yields_mono: "run_yields m Q \<Longrightarrow> (\<And>x. Q x \<Longrightarrow> P x) \<Longrightarrow> run_yields m P"
  by (simp add: run_yields_def)

lemma yields_any: "(\<And>x. P x) \<Longrightarrow> yields m P"
  by (simp add: yields_def)

text \<open>Operations that yield no socket.\<close>

lemmas [wp] =
  yields_any [where m = "CalculateAppLimited a b c d e f g h" for a b c d e f g h]
  yields_any [where m = "time_mul a b" for a b] yields_any [where m = "time_add a b" for a b]
  yields_any [where m = "rto_from_rtt a" for a] yields_any [where m = "rto_estimate a" for a]
  yields_any [where m = "seq_diff a b" for a b] yields_any [where m = "BytesInFlight a" for a]
  yields_any [where m = "CopyFromSequence a b c d" for a b c d] yields_any [where m = "SizeFromSequence a b" for a b]
  yields_any [where m = "NextSeg a b c" for a b c] yields_any [where m = "UnAckDataCount a" for a]
  yields_any [where m = "tx_Update a b" for a b] yields_any [where m = "DiscardUpTo a b c" for a b c]
  yields_any [where m = "AddRenoSack a" for a] yields_any [where m = "SetSentListLost a b" for a b]
  yields_any [where m = "IsHeadRetransmitted a" for a] yields_any [where m = "rx_Add a b c d" for a b c d]
  yields_any [where m = "pending_amount a b c d e" for a b c d e]
  yields_any [where m = "Measurement a b" for a b] yields_any [where m = "SetHeadSequence a b" for a b]

section \<open>What keeps the state\<close>

lemma state_if [simp]: "sk_state (if b then x else y) = (if b then sk_state x else sk_state y)"
  by simp

lemma state_simps [simp]:
  "sk_state (upd_tcb f sk) = sk_state sk" "sk_state (notify n sk) = sk_state sk" "sk_state (SendPacket h sk) = sk_state sk"
  "sk_state (DeallocateEndPoint sk) = sk_state sk" "sk_state (set_cong_state cs sk) = sk_state sk" "sk_state (CloseAndNotify sk) = CLOSED"
  "sk_state (TimeWait now sk) = TIME_WAIT" "sk_state (skb_sent now t start sk) = sk_state sk"
  by (simp_all add: upd_tcb_def notify_def SendPacket_def DeallocateEndPoint_def CancelAllTimers_def set_cong_state_def CloseAndNotify_def
    TimeWait_def skb_sent_def Let_def split: prod.split)

lemma state_with_cong [wp]: "(\<And>sk'. sk_state sk' = sk_state sk \<Longrightarrow> P sk') \<Longrightarrow> yields (with_cong f sk) P"
  by (simp add: with_cong_def split_beta) (simp add: yields_def)

lemma state_with_recovery [wp]: "(\<And>sk'. sk_state sk' = sk_state sk \<Longrightarrow> P sk') \<Longrightarrow> yields (with_recovery f sk) P"
  by (simp add: with_recovery_def split_beta) (simp add: yields_def)

lemma state_BytesInFlight [wp]: "(\<And>n sk'. sk_state sk' = sk_state sk \<Longrightarrow> P (n, sk')) \<Longrightarrow> yields (sk_BytesInFlight sk) P"
  by (auto simp: sk_BytesInFlight_def intro!: wp)

lemma state_AvailableWindow [wp]: "(\<And>n sk'. sk_state sk' = sk_state sk \<Longrightarrow> P (n, sk')) \<Longrightarrow> yields (AvailableWindow sk) P"
  by (auto simp: AvailableWindow_def Let_def intro!: wp)

lemma state_AdvertisedWindowSize [wp]:
  "(\<And>w sk'. sk_state sk' = sk_state sk \<Longrightarrow> P (w, sk')) \<Longrightarrow> yields (AdvertisedWindowSize b sk) P"
  by (auto simp: AdvertisedWindowSize_def Let_def intro!: wp)

lemma state_Send [wp]: "(\<And>ok sk'. sk_state sk' = sk_state sk \<Longrightarrow> P (ok, sk')) \<Longrightarrow> yields (sk_Send now p sk) P"
  by (auto simp: sk_Send_def Let_def split_beta intro!: wp)

lemma state_send_all [wp]: "(\<And>sk'. sk_state sk' = sk_state sk \<Longrightarrow> P sk') \<Longrightarrow> yields (send_all now ps sk) P"
  by (induction ps arbitrary: sk) (auto intro!: state_Send)

lemma state_NotifySend [wp]: "(\<And>sk'. sk_state sk' = sk_state sk \<Longrightarrow> P sk') \<Longrightarrow> yields (NotifySend env now sk) P"
  by (auto simp: NotifySend_def intro!: wp)

lemma state_send_syn [wp]:
  "(\<And>sk'. sk_state sk' = CLOSED \<Longrightarrow> P (None, sk')) \<Longrightarrow> (\<And>x sk'. sk_state sk' = sk_state sk \<Longrightarrow> P (Some x, sk')) \<Longrightarrow>
   yields (send_syn now s h sk) P"
  by (auto simp: send_syn_def Let_def intro!: wp)

lemma has_flag_set: "and f g = 0 \<Longrightarrow> has_flag f (set_flag g flags) = has_flag f flags"
  unfolding has_flag_def set_flag_def by (subst bit.conj_disj_distrib2) (simp add: and.commute)

lemma state_SendEmptyPacket:
  assumes "\<And>sk'. sk_state sk' = sk_state sk \<or> has_flag flag_SYN flags \<and> sk_state sk' = CLOSED \<Longrightarrow> P sk'"
  shows "yields (SendEmptyPacket now flags sk) P"
  using assms
  by (auto simp: SendEmptyPacket_def Let_def has_flag_set intro!: wp)

declare state_SendEmptyPacket [wp]

lemma flag_simps [simp]:
  "has_flag flag_SYN flag_ACK = False" "has_flag flag_SYN flag_FIN = False" "has_flag flag_SYN flag_RST = False"
  "has_flag flag_SYN (set_flag flag_ECE flag_ACK) = False" "has_flag flag_SYN (set_flag flag_ACK flag_FIN) = False"
  "has_flag flag_SYN (set_flag flag_FIN flag_ACK) = False"
  by (simp_all add: has_flag_def set_flag_def)

lemma state_SendRST [wp]: "(\<And>sk'. sk_state sk' = sk_state sk \<Longrightarrow> P sk') \<Longrightarrow> yields (SendRST now sk) P"
  by (auto simp: SendRST_def intro!: wp)

lemma state_send_ack_ecn [wp]: "(\<And>sk'. sk_state sk' = sk_state sk \<Longrightarrow> P sk') \<Longrightarrow> yields (send_ack_ecn now sk) P"
  by (auto simp: send_ack_ecn_def intro!: wp)

section \<open>Sending data\<close>

text \<open>The last data may carry the \<^verbatim>\<open>FIN\<close>, and the peer's \<^verbatim>\<open>FIN\<close> may come in order.\<close>

fun data_step :: "tcp_state \<Rightarrow> tcp_state \<Rightarrow> bool" where
  "data_step s s' =
     (s' = s \<or> s = ESTABLISHED \<and> s' = FIN_WAIT_1 \<or> s = CLOSE_WAIT \<and> s' = LAST_ACK \<or>
      s \<in> {SYN_RCVD, ESTABLISHED, FIN_WAIT_1, FIN_WAIT_2} \<and> s' \<in> {CLOSE_WAIT, LAST_ACK})"

declare data_step.simps [simp del]

lemma data_step_refl [simp, intro]: "data_step s s"
  by (simp add: data_step.simps)

lemma data_step_trans: "data_step s s' \<Longrightarrow> data_step s' s'' \<Longrightarrow> data_step s s''"
  by (cases s; cases s'; cases s''; simp add: data_step.simps)

fun peer_step :: "tcp_state \<Rightarrow> tcp_state \<Rightarrow> bool" where
  "peer_step s s' = (s' = s \<or> s \<in> {SYN_RCVD, ESTABLISHED, FIN_WAIT_1, FIN_WAIT_2} \<and> s' \<in> {CLOSE_WAIT, LAST_ACK})"

declare peer_step.simps [simp del]

lemma peer_step_refl [simp, intro]: "peer_step s s"
  by (simp add: peer_step.simps)

lemma peer_data_step: "peer_step s s' \<Longrightarrow> data_step s s'"
  by (auto simp: peer_step.simps data_step.simps)

lemma state_data_flags: "data_step s (sk_state sk) \<Longrightarrow> data_step s (sk_state (snd (data_flags q withAck r n sk)))"
  by (rule data_step_trans, assumption) (cases "sk_state sk"; auto simp: data_flags_def Let_def data_step.simps)

lemma state_SendDataPacket [wp]:
  assumes P: "\<And>n sk'. data_step (sk_state sk) (sk_state sk') \<Longrightarrow> P (n, sk')"
  shows "yields (SendDataPacket now s maxSize withAck sk) P"
  by (auto simp: SendDataPacket_def Let_def split_beta intro!: wp P state_data_flags)

lemma state_pending_step [wp]:
  assumes P: "\<And>c n w sk'. data_step (sk_state sk) (sk_state sk') \<Longrightarrow> P (c, n, w, sk')"
  shows "yields (pending_step env now withAck n w sk) P"
  by (auto simp: pending_step_def Let_def split_beta intro!: wp P)

lemma state_pending_loop [wp]:
  assumes P: "\<And>n' sk'. data_step (sk_state sk) (sk_state sk') \<Longrightarrow> P (n', sk')"
  shows "run_yields (pending_loop env now withAck n w sk) P"
proof -
  have "yields r (\<lambda>x. data_step (sk_state sk) (sk_state (snd x)))" if "pending_loop env now withAck n w sk = Some r" for r
    using that
  proof (rule pending_loop.raw_induct
      [of "\<lambda>env now withAck n w sk r. yields r (\<lambda>x. data_step (sk_state sk) (sk_state (snd x)))", rotated])
    fix loop :: "'a env \<Rightarrow> int \<Rightarrow> bool \<Rightarrow> u32 \<Rightarrow> u32 \<Rightarrow> 'a sock \<Rightarrow> (u32 \<times> 'a sock) run" and env now withAck n w sk r
    assume IH: "\<And>env now withAck n w sk r. loop env now withAck n w sk = Some r \<Longrightarrow> yields r (\<lambda>x. data_step (sk_state sk) (sk_state (snd x)))"
      and r: "(if w = 0 then Some (Inr (n, sk))
        else case pending_step env now withAck n w sk of Inl e \<Rightarrow> Some (Inl e)
          | Inr (continue, n, w, sk) \<Rightarrow> if continue then loop env now withAck n w sk else Some (Inr (n, sk))) = Some r"
    have "yields (pending_step env now withAck n w sk) (\<lambda>(c, n', w', sk'). data_step (sk_state sk) (sk_state sk'))"
      by (rule state_pending_step) simp
    with r show "yields r (\<lambda>x. data_step (sk_state sk) (sk_state (snd x)))"
      by (auto split: if_splits sum.splits elim!: yields_mono [OF IH] data_step_trans)
  qed
  then show ?thesis
    using P by (auto simp: run_yields_def yields_def)
qed

lemma state_SendPendingData [wp]:
  assumes P: "\<And>n' sk'. data_step (sk_state sk) (sk_state sk') \<Longrightarrow> P (n', sk')"
  shows "run_yields (SendPendingData env now withAck sk) P"
  by (auto simp: SendPendingData_def intro!: wp P)

section \<open>Acknowledgements and data\<close>

lemma state_EnterCwr [wp]: "(\<And>sk'. sk_state sk' = sk_state sk \<Longrightarrow> P sk') \<Longrightarrow> yields (EnterCwr env n sk) P"
  by (auto simp: EnterCwr_def Let_def intro!: wp)

lemma state_EnterRecovery [wp]:
  assumes P: "\<And>sk'. data_step (sk_state sk) (sk_state sk') \<Longrightarrow> P sk'"
  shows "yields (EnterRecovery env now n sk) P"
  by (auto simp: EnterRecovery_def Let_def intro!: wp P)

lemma state_DupAck_disorder [wp]:
  assumes P: "\<And>sk'. data_step (sk_state sk) (sk_state sk') \<Longrightarrow> P sk'"
  shows "yields (DupAck_disorder env now n sk) P"
  by (auto simp: DupAck_disorder_def Let_def intro!: wp P)

lemma state_DupAck [wp]:
  assumes P: "\<And>sk'. data_step (sk_state sk) (sk_state sk') \<Longrightarrow> P sk'"
  shows "yields (DupAck env now n sk) P"
  by (auto simp: DupAck_def Let_def intro!: wp P)

lemma state_NewAck [wp]: "(\<And>sk'. sk_state sk' = sk_state sk \<Longrightarrow> P sk') \<Longrightarrow> yields (NewAck env now a r sk) P"
  by (auto simp: NewAck_def Let_def intro!: wp)

lemma state_DoRetransmit [wp]:
  assumes P: "\<And>sk'. data_step (sk_state sk) (sk_state sk') \<Longrightarrow> P sk'"
  shows "yields (DoRetransmit now sk) P"
  by (auto simp: DoRetransmit_def Let_def split_beta intro!: wp P)

lemma state_partial_ack [wp]:
  assumes P: "\<And>sk'. data_step (sk_state sk) (sk_state sk') \<Longrightarrow> P sk'"
  shows "yields (partial_ack env now a d n b sk) P"
  by (auto simp: partial_ack_def Let_def intro!: wp P)

lemma state_full_ack_state [wp]:
  assumes P: "\<And>b n sk'. sk_state sk' = sk_state sk \<Longrightarrow> P (b, n, sk')"
  shows "yields (full_ack_state env now a h d n m sk) P"
  by (cases "m_congState (sk_tcb sk)") (auto simp: full_ack_state_def Let_def intro!: wp P)

lemma state_full_ack [wp]:
  assumes P: "\<And>sk'. sk_state sk' = sk_state sk \<Longrightarrow> P sk'"
  shows "yields (full_ack env now a h d n m sk) P"
  by (auto simp: full_ack_def Let_def intro!: wp P)

lemma state_new_data_ack [wp]:
  assumes P: "\<And>sk'. data_step (sk_state sk) (sk_state sk') \<Longrightarrow> P sk'"
  shows "yields (new_data_ack env now a h d n m sk) P"
  by (cases "count_segments (m_segmentSize (sk_tcb sk)) (sk_bytesAckedNotProcessed sk) m")
    (auto simp: new_data_ack_def Let_def intro!: wp P)

lemma state_ProcessAck [wp]:
  assumes P: "\<And>sk'. data_step (sk_state sk) (sk_state sk') \<Longrightarrow> P sk'"
  shows "yields (ProcessAck env now a u d h r sk) P"
  by (auto simp: ProcessAck_def Let_def intro!: wp P dest: data_step_trans)

lemma state_ReadOptions [wp]:
  assumes P: "\<And>n sk'. sk_state sk' = sk_state sk \<Longrightarrow> P (n, sk')"
  shows "yields (ReadOptions now h sk) P"
  by (auto simp: ReadOptions_def split_beta split: option.split intro!: wp P)

lemma state_discard_acked [wp]:
  assumes P: "\<And>sk'. sk_state sk' = sk_state sk \<Longrightarrow> P sk'"
  shows "yields (discard_acked now a sk) P"
  by (auto simp: discard_acked_def intro!: wp P)

lemma state_note_retransmitted [wp]:
  assumes P: "\<And>sk'. sk_state sk' = sk_state sk \<Longrightarrow> P sk'"
  shows "yields (note_retransmitted a h sk) P"
  by (auto simp: note_retransmitted_def Let_def intro!: wp P)

lemma state_leave_cwr [wp]:
  assumes P: "\<And>sk'. sk_state sk' = sk_state sk \<Longrightarrow> P sk'"
  shows "yields (leave_cwr env now a sk) P"
  by (auto simp: leave_cwr_def Let_def intro!: wp P)

lemma state_ecn_echo [wp]:
  assumes P: "\<And>sk'. sk_state sk' = sk_state sk \<Longrightarrow> P sk'"
  shows "yields (ecn_echo env h a d sk) P"
  by (auto simp: ecn_echo_def Let_def intro!: wp P)

lemma state_DoClose [wp]:
  assumes P: "\<And>sk'. sk_state sk' = (case sk_state sk of SYN_RCVD \<Rightarrow> FIN_WAIT_1 | ESTABLISHED \<Rightarrow> FIN_WAIT_1 | CLOSE_WAIT \<Rightarrow> LAST_ACK
    | SYN_SENT \<Rightarrow> CLOSED | CLOSING \<Rightarrow> CLOSED | LISTEN \<Rightarrow> CLOSED | s \<Rightarrow> s) \<Longrightarrow> P sk'"
  shows "yields (DoClose now sk) P"
  by (cases "sk_state sk") (auto simp: DoClose_def intro!: wp P)

lemma state_Close [wp]:
  assumes P: "\<And>sk'. sk_state sk' = sk_state sk \<or> sk_state sk' = (case sk_state sk of SYN_RCVD \<Rightarrow> FIN_WAIT_1 | ESTABLISHED \<Rightarrow> FIN_WAIT_1
    | CLOSE_WAIT \<Rightarrow> LAST_ACK | SYN_SENT \<Rightarrow> CLOSED | CLOSING \<Rightarrow> CLOSED | LISTEN \<Rightarrow> CLOSED | s \<Rightarrow> s) \<Longrightarrow> P sk'"
  shows "yields (Close now sk) P"
  by (auto simp: Close_def intro!: wp P)

lemma state_DoPeerClose [wp]:
  assumes P: "\<And>sk'. peer_step (sk_state sk) (sk_state sk') \<Longrightarrow> P sk'"
  shows "yields (DoPeerClose now sk) P"
  by (auto simp: DoPeerClose_def Let_def peer_step.simps intro!: wp P)

lemma state_ReceivedData [wp]:
  assumes P: "\<And>sk'. peer_step (sk_state sk) (sk_state sk') \<Longrightarrow> P sk'"
  shows "yields (ReceivedData env now h sk) P"
  by (auto simp: ReceivedData_def Let_def intro!: wp P)

lemma state_PeerClose [wp]:
  assumes P: "\<And>sk'. peer_step (sk_state sk) (sk_state sk') \<or> sk_state sk = FIN_WAIT_1 \<and> sk_state sk' = CLOSING \<Longrightarrow> P sk'"
  shows "yields (PeerClose env now h sk) P"
  by (auto simp: PeerClose_def Let_def intro!: wp P) (auto simp: peer_step.simps)

lemma state_received_ack_state [wp]:
  assumes P: "\<And>sk'. data_step (sk_state sk) (sk_state sk') \<Longrightarrow> P sk'"
  shows "yields (received_ack_state env now h b q d sk) P"
  by (auto simp: received_ack_state_def Let_def intro!: wp P dest!: peer_data_step) (blast intro: data_step_trans)+

lemma state_ReceivedAck [wp]:
  assumes P: "\<And>sk'. data_step (sk_state sk) (sk_state sk') \<Longrightarrow> P sk'"
  shows "run_yields (ReceivedAck env now h sk) P"
  by (auto simp: ReceivedAck_def Let_def intro!: wp P dest!: peer_data_step) (blast intro: data_step_trans)+

section \<open>The states\<close>

lemma state_simps2 [simp]:
  "sk_state (UpdateWindowSize h sk) = sk_state sk" "sk_state (ProcessOptionTimestamp ts s sk) = sk_state sk"
  "sk_state (ProcessOptionWScale w sk) = sk_state sk"
  by (simp_all add: UpdateWindowSize_def ProcessOptionTimestamp_def ProcessOptionWScale_def Let_def)

lemma state_EstimateRtt [wp]:
  assumes P: "\<And>sk'. sk_state sk' = sk_state sk \<Longrightarrow> P sk'"
  shows "yields (EstimateRtt now h sk) P"
  by (auto simp: EstimateRtt_def Let_def split_beta split: list.split intro!: wp P)

lemma state_enter_established [wp]:
  assumes P: "\<And>sk'. sk_state sk' = ESTABLISHED \<Longrightarrow> P sk'"
  shows "yields (enter_established env now sk) P"
  by (auto simp: enter_established_def intro!: wp P)

lemma state_consume_syn [wp]:
  assumes P: "\<And>sk'. sk_state sk' = sk_state sk \<Longrightarrow> P sk'"
  shows "yields (consume_syn sk) P"
  by (auto simp: consume_syn_def Let_def intro!: wp P)

lemma state_answer_syn [wp]:
  assumes P: "\<And>sk'. sk_state sk' = sk_state sk \<or> sk_state sk' = CLOSED \<Longrightarrow> P sk'"
  shows "yields (answer_syn now h sk) P"
  by (auto simp: answer_syn_def Let_def intro!: wp P)

lemma state_check_finished [wp]:
  assumes P: "\<And>sk'. sk_state sk' = sk_state sk \<or> sk_state sk = FIN_WAIT_1 \<and> sk_state sk' \<in> {CLOSING, TIME_WAIT} \<or>
    sk_state sk = FIN_WAIT_2 \<and> sk_state sk' = TIME_WAIT \<Longrightarrow> P sk'"
  shows "yields (check_finished now h sk) P"
  by (auto simp: check_finished_def Let_def intro!: wp P)

lemma state_read_syn [wp]:
  assumes P: "\<And>sk'. sk_state sk' = sk_state sk \<Longrightarrow> P sk'"
  shows "yields (read_syn now h sk) P"
  by (auto simp: read_syn_def Let_def split: option.split intro!: wp P)

lemma state_read_ack [wp]:
  assumes P: "\<And>sk'. (\<And>k. sk' = Some k \<Longrightarrow> sk_state k = sk_state sk) \<Longrightarrow> P sk'"
  shows "yields (read_ack now h sk) P"
  by (auto simp: read_ack_def Let_def intro!: wp P)

text \<open>What a segment may do to the state.\<close>

fun segment_states :: "tcp_state \<Rightarrow> tcp_state set" where
  "segment_states CLOSED = {CLOSED}"
| "segment_states LISTEN = {LISTEN}"
| "segment_states SYN_SENT = {SYN_SENT, SYN_RCVD, ESTABLISHED, FIN_WAIT_1, CLOSE_WAIT, LAST_ACK, CLOSED}"
| "segment_states SYN_RCVD = {SYN_RCVD, ESTABLISHED, FIN_WAIT_1, CLOSE_WAIT, LAST_ACK, CLOSED}"
| "segment_states ESTABLISHED = {ESTABLISHED, FIN_WAIT_1, CLOSE_WAIT, LAST_ACK, CLOSED}"
| "segment_states CLOSE_WAIT = {CLOSE_WAIT, LAST_ACK, CLOSED}"
| "segment_states LAST_ACK = {LAST_ACK, CLOSED}"
| "segment_states FIN_WAIT_1 = {FIN_WAIT_1, FIN_WAIT_2, CLOSING, TIME_WAIT, CLOSE_WAIT, LAST_ACK, CLOSED}"
| "segment_states FIN_WAIT_2 = {FIN_WAIT_2, TIME_WAIT, CLOSE_WAIT, LAST_ACK, CLOSED}"
| "segment_states CLOSING = {CLOSING, TIME_WAIT, CLOSED}"
| "segment_states TIME_WAIT = {TIME_WAIT}"

lemma data_step_from:
  "data_step CLOSED s \<longleftrightarrow> s = CLOSED" "data_step LISTEN s \<longleftrightarrow> s = LISTEN" "data_step SYN_SENT s \<longleftrightarrow> s = SYN_SENT"
  "data_step TIME_WAIT s \<longleftrightarrow> s = TIME_WAIT" "data_step CLOSING s \<longleftrightarrow> s = CLOSING" "data_step LAST_ACK s \<longleftrightarrow> s = LAST_ACK"
  "data_step CLOSE_WAIT s \<longleftrightarrow> s \<in> {CLOSE_WAIT, LAST_ACK}" "data_step FIN_WAIT_2 s \<longleftrightarrow> s \<in> {FIN_WAIT_2, CLOSE_WAIT, LAST_ACK}"
  "data_step FIN_WAIT_1 s \<longleftrightarrow> s \<in> {FIN_WAIT_1, CLOSE_WAIT, LAST_ACK}"
  "data_step ESTABLISHED s \<longleftrightarrow> s \<in> {ESTABLISHED, FIN_WAIT_1, CLOSE_WAIT, LAST_ACK}"
  "data_step SYN_RCVD s \<longleftrightarrow> s \<in> {SYN_RCVD, CLOSE_WAIT, LAST_ACK}"
  by (auto simp: data_step.simps)

lemma segment_states_data_step: "s' \<in> segment_states s \<Longrightarrow> data_step s' s'' \<Longrightarrow> s'' \<in> segment_states s"
  by (cases s; auto simp: data_step_from)

lemma data_step_segment: "data_step s s' \<Longrightarrow> s' \<in> segment_states s"
  by (rule segment_states_data_step [of s]) (cases s; simp)+

lemma state_ProcessEstablished [wp]:
  assumes P: "\<And>sk'. sk_state sk' \<in> segment_states ESTABLISHED \<Longrightarrow> P sk'" and "sk_state sk = ESTABLISHED"
  shows "run_yields (ProcessEstablished env now h sk) P"
  using assms(2)
  by (auto simp: ProcessEstablished_def Let_def data_step_from peer_step.simps intro!: wp P)

lemma state_ProcessSynSent [wp]:
  assumes P: "\<And>sk'. sk_state sk' \<in> segment_states SYN_SENT \<Longrightarrow> P sk'" and "sk_state sk = SYN_SENT"
  shows "run_yields (ProcessSynSent env now h sk) P"
  using assms(2)
  by (auto simp: ProcessSynSent_def Let_def data_step_from peer_step.simps intro!: wp P)

lemma state_ProcessSynRcvd [wp]:
  assumes P: "\<And>sk'. sk_state sk' \<in> segment_states SYN_RCVD \<Longrightarrow> P sk'" and "sk_state sk = SYN_RCVD"
  shows "run_yields (ProcessSynRcvd env now h sk) P"
  using assms(2)
  by (auto simp: ProcessSynRcvd_def Let_def data_step_from peer_step.simps intro!: wp P)

lemma state_ProcessWait [wp]:
  assumes P: "\<And>sk'. sk_state sk' \<in> segment_states (sk_state sk) \<Longrightarrow> P sk'" and "sk_state sk \<in> {FIN_WAIT_1, FIN_WAIT_2, CLOSE_WAIT}"
  shows "run_yields (ProcessWait env now h sk) P"
  using assms(2)
  by (auto simp: ProcessWait_def Let_def data_step_from peer_step.simps intro!: wp P)

lemma state_ProcessClosing [wp]:
  assumes P: "\<And>sk'. sk_state sk' \<in> segment_states CLOSING \<Longrightarrow> P sk'" and "sk_state sk = CLOSING"
  shows "yields (ProcessClosing now h sk) P"
  using assms(2)
  by (auto simp: ProcessClosing_def Let_def intro!: wp P)

lemma state_ProcessLastAck [wp]:
  assumes P: "\<And>sk'. sk_state sk' \<in> segment_states LAST_ACK \<Longrightarrow> P sk'" and "sk_state sk = LAST_ACK"
  shows "yields (ProcessLastAck env now h sk) P"
  using assms(2)
  by (auto simp: ProcessLastAck_def Let_def peer_step.simps intro!: wp P)

lemma state_reset_closed [wp]:
  assumes P: "\<And>sk'. sk_state sk' = sk_state sk \<Longrightarrow> P sk'"
  shows "yields (reset_closed now h sk) P"
  by (auto simp: reset_closed_def intro!: wp P)

lemma state_dispatch [wp]:
  assumes P: "\<And>sk' f. sk_state sk' \<in> segment_states (sk_state sk) \<Longrightarrow> P (sk', f)"
  shows "run_yields (dispatch env now h sk) P"
  by (cases "sk_state sk") (simp_all add: dispatch_def, (rule wp P | simp)+)

lemma segment_states_refl [simp]: "s \<in> segment_states s"
  by (cases s) simp_all

lemma state_DoForwardUp [wp]:
  assumes P: "\<And>sk' f. sk_state sk' \<in> segment_states (sk_state sk) \<Longrightarrow> P (sk', f)"
  shows "run_yields (DoForwardUp env now h sk) P"
proof -
  have tail: "run_yields (bind_run (dispatch env now h k) (\<lambda>(sk, f).
      if sk_rWnd sk \<noteq> 0 \<and> sk_persistEvent sk \<noteq> None
      then if \<not> sk_connected sk then Some (Inl Assert_Failed)
           else bind_run (SendPendingData env now (sk_connected sk) (sk\<lparr>sk_persistEvent := None\<rparr>)) (\<lambda>(n, sk). Some (Inr (sk, f)))
      else Some (Inr (sk, f)))) P" if "sk_state k = sk_state sk" for k
    unfolding run_yields_bind
    by (rule wp) (auto simp: that intro!: wp P; erule (1) segment_states_data_step)
  have head: "run_yields (Some (if has_flag flag_SYN (sg_flags h) then bind_res (read_syn now h k) (\<lambda>sk. Inr (Some sk))
      else if has_flag flag_ACK (sg_flags h) then read_ack now h k else Inr (Some k))) (\<lambda>a. \<forall>k. a = Some k \<longrightarrow> sk_state k = sk_state sk)"
    if "sk_state k = sk_state sk" for k
    using that by (simp add: state_read_syn state_read_ack)
  show ?thesis
    unfolding DoForwardUp_def Let_def
  proof (subst run_yields_bind, rule run_yields_mono [where Q = "\<lambda>a. \<forall>k. a = Some k \<longrightarrow> sk_state k = sk_state sk"], goal_cases)
    case 1
    show ?case by (rule head) simp
  next
    case (2 accepted)
    show ?case
    proof (cases accepted)
      case None
      then show ?thesis by (simp add: P)
    next
      case (Some k)
      with 2 have "sk_state k = sk_state sk" by simp
      with Some show ?thesis by (simp only: option.case) (rule tail, simp)
    qed
  qed
qed

lemma state_IsValid [wp]:
  assumes P: "\<And>ok sk'. sk_state sk' = sk_state sk \<Longrightarrow> P (ok, sk')"
  shows "yields (IsValidTcpSegment now s a b sk) P"
  by (auto simp: IsValidTcpSegment_def intro!: wp P)

lemma state_ForwardUp [wp]:
  assumes P: "\<And>sk' f. sk_state sk' \<in> segment_states (sk_state sk) \<Longrightarrow> P (sk', f)"
  shows "run_yields (ForwardUp env now n ip tag h sk) P"
  by (auto simp: ForwardUp_def intro!: wp P)

section \<open>Timers and the application\<close>

lemma state_timeout_loss [wp]:
  assumes P: "\<And>sk'. sk_state sk' = sk_state sk \<Longrightarrow> P sk'"
  shows "yields (timeout_loss env now sk) P"
  by (auto simp: timeout_loss_def Let_def intro!: wp P)

lemma state_ReTxTimeout [wp]:
  assumes P: "\<And>sk'. data_step (sk_state sk) (sk_state sk') \<or> sk_state sk = SYN_SENT \<and> sk_state sk' = CLOSED \<Longrightarrow> P sk'"
  shows "run_yields (ReTxTimeout env now sk) P"
  by (auto simp: ReTxTimeout_def Let_def intro!: wp P)

lemma state_DelAckTimeout [wp]:
  assumes P: "\<And>sk'. sk_state sk' = sk_state sk \<Longrightarrow> P sk'"
  shows "yields (DelAckTimeout env now sk) P"
  by (auto simp: DelAckTimeout_def intro!: wp P)

lemma state_LastAckTimeout [wp]:
  assumes P: "\<And>sk'. sk_state sk' = sk_state sk \<Longrightarrow> P sk'"
  shows "yields (LastAckTimeout now sk) P"
  by (auto simp: LastAckTimeout_def Let_def intro!: wp P)

lemma state_PersistTimeout [wp]:
  assumes P: "\<And>sk'. sk_state sk' = sk_state sk \<Longrightarrow> P sk'"
  shows "yields (PersistTimeout now sk) P"
  by (auto simp: PersistTimeout_def Let_def intro!: wp P)

lemma state_ConnectionSucceeded [wp]:
  assumes P: "\<And>sk'. sk_state sk' = sk_state sk \<Longrightarrow> P sk'"
  shows "yields (ConnectionSucceeded env now sk) P"
  by (auto simp: ConnectionSucceeded_def Let_def intro!: wp P)

lemma state_ShutdownSend [wp]:
  assumes P: "\<And>sk'. data_step (sk_state sk) (sk_state sk') \<Longrightarrow> P sk'"
  shows "yields (ShutdownSend now sk) P"
  by (auto simp: ShutdownSend_def Let_def data_step_from intro!: wp P)

lemma state_Recv [wp]:
  assumes P: "\<And>x sk'. sk_state sk' = sk_state sk \<Longrightarrow> P (x, sk')"
  shows "yields (sk_Recv n sk) P"
proof -
  have "yields (rx_Extract seq32_ops n b) Q" if "\<And>x. Q x" for b Q
    using that by (rule yields_any)
  then show ?thesis
    by (simp add: sk_Recv_def P split_beta)
qed

text \<open>
  The events of a socket after \<^verbatim>\<open>Connect\<close>, \<^verbatim>\<open>Listen\<close> or the fork: a segment arrives, a timer expires, the application calls.
\<close>

inductive socket_event :: "'c env \<Rightarrow> 'c sock \<Rightarrow> 'c sock \<Rightarrow> bool" for env where
  segment: "ForwardUp env now n ip tag h sk = Some (Inr (sk', f)) \<Longrightarrow> socket_event env sk sk'"
| retx: "sk_retxEvent sk = Some (now, Call_ReTxTimeout) \<Longrightarrow> ReTxTimeout env now (sk\<lparr>sk_retxEvent := None\<rparr>) = Some (Inr sk') \<Longrightarrow>
    socket_event env sk sk'"
| retx_empty: "sk_retxEvent sk = Some (now, Call_SendEmptyPacket flags) \<Longrightarrow>
    SendEmptyPacket now flags (sk\<lparr>sk_retxEvent := None\<rparr>) = Inr sk' \<Longrightarrow> socket_event env sk sk'"
| delayed_ack: "sk_delAckEvent sk = Some now \<Longrightarrow> DelAckTimeout env now (sk\<lparr>sk_delAckEvent := None\<rparr>) = Inr sk' \<Longrightarrow> socket_event env sk sk'"
| last_ack: "sk_lastAckEvent sk = Some now \<Longrightarrow> LastAckTimeout now (sk\<lparr>sk_lastAckEvent := None\<rparr>) = Inr sk' \<Longrightarrow> socket_event env sk sk'"
| persist: "sk_persistEvent sk = Some now \<Longrightarrow> PersistTimeout now (sk\<lparr>sk_persistEvent := None\<rparr>) = Inr sk' \<Longrightarrow> socket_event env sk sk'"
| time_wait: "sk_timewaitEvent sk = Some now \<Longrightarrow> socket_event env sk (CloseAndNotify (sk\<lparr>sk_timewaitEvent := None\<rparr>))"
| pending: "sk_sendPendingDataEvent sk = Some now \<Longrightarrow>
    SendPendingData env now (sk_connected sk) (sk\<lparr>sk_sendPendingDataEvent := None\<rparr>) = Some (Inr (n, sk')) \<Longrightarrow> socket_event env sk sk'"
| connected: "sk_connSucceededEvent sk = Some now \<Longrightarrow> ConnectionSucceeded env now (sk\<lparr>sk_connSucceededEvent := None\<rparr>) = Inr sk' \<Longrightarrow>
    socket_event env sk sk'"
| send: "sk_Send now p sk = Inr (ok, sk') \<Longrightarrow> socket_event env sk sk'"
| recv: "sk_Recv n sk = Inr (x, sk') \<Longrightarrow> socket_event env sk sk'"
| close: "Close now sk = Inr sk' \<Longrightarrow> socket_event env sk sk'"
| shutdown_send: "ShutdownSend now sk = Inr sk' \<Longrightarrow> socket_event env sk sk'"
| shutdown_recv: "socket_event env sk (ShutdownRecv sk)"

inductive socket_run :: "'c env \<Rightarrow> 'c sock \<Rightarrow> 'c sock \<Rightarrow> bool" for env where
  start: "socket_run env sk sk"
| event: "socket_run env sk sk' \<Longrightarrow> socket_event env sk' sk'' \<Longrightarrow> socket_run env sk sk''"

text \<open>How far a connection has come.\<close>

fun stage :: "tcp_state \<Rightarrow> nat" where
  "stage LISTEN = 0"
| "stage SYN_SENT = 1"
| "stage SYN_RCVD = 2"
| "stage ESTABLISHED = 3"
| "stage FIN_WAIT_1 = 4"
| "stage FIN_WAIT_2 = 5"
| "stage CLOSE_WAIT = 6"
| "stage LAST_ACK = 7"
| "stage CLOSING = 8"
| "stage TIME_WAIT = 9"
| "stage CLOSED = 10"

definition forward :: "tcp_state \<Rightarrow> tcp_state \<Rightarrow> bool" where
  "forward s s' \<longleftrightarrow> s' = s \<or> stage s < stage s'"

lemma forward_refl [simp, intro]: "forward s s"
  by (simp add: forward_def)

lemma forward_trans: "forward s s' \<Longrightarrow> forward s' s'' \<Longrightarrow> forward s s''"
  by (auto simp: forward_def)

lemma segment_forward: "s' \<in> segment_states s \<Longrightarrow> forward s s'"
  by (cases s) (auto simp: forward_def)

lemma forward_CLOSED [simp]: "forward s CLOSED"
  by (cases s) (simp_all add: forward_def)

lemma data_forward: "data_step s s' \<Longrightarrow> forward s s'"
  by (blast intro: segment_forward data_step_segment)

lemma yieldsD: "m = Inr x \<Longrightarrow> yields m P \<Longrightarrow> P x"
  by (simp add: yields_def)

lemma run_yieldsD: "m = Some (Inr x) \<Longrightarrow> run_yields m P \<Longrightarrow> P x"
  by (simp add: run_yields_def)

lemma yields_forward:
  "m = Inr k \<Longrightarrow> yields m (\<lambda>sk'. forward s (sk_state sk')) \<Longrightarrow> forward s (sk_state k)"
  "n = Inr (x, k) \<Longrightarrow> yields n (\<lambda>(x, sk'). forward s (sk_state sk')) \<Longrightarrow> forward s (sk_state k)"
  by (auto dest: yieldsD)

lemma close_forward: "yields (Close now sk) (\<lambda>sk'. forward (sk_state sk) (sk_state sk'))"
  by (rule wp, cases "sk_state sk") (auto simp: forward_def)

lemma event_forward: "socket_event env sk sk' \<Longrightarrow> forward (sk_state sk) (sk_state sk')"
proof (induction rule: socket_event.induct)
  case (segment now n ip tag h sk sk' f)
  have "run_yields (ForwardUp env now n ip tag h sk) (\<lambda>(sk', f). forward (sk_state sk) (sk_state sk'))"
    by (auto intro!: wp segment_forward)
  with segment show ?case by (auto dest: run_yieldsD)
next
  case (close now sk sk')
  then show ?case by (rule yieldsD [OF _ close_forward])
next
  case (retx sk now sk')
  have "run_yields (ReTxTimeout env now (sk\<lparr>sk_retxEvent := None\<rparr>)) (\<lambda>sk'. forward (sk_state sk) (sk_state sk'))"
    by (auto intro!: wp intro: data_forward)
  with retx show ?case by (auto dest: run_yieldsD)
next
  case (pending sk now n sk')
  have "run_yields (SendPendingData env now (sk_connected sk) (sk\<lparr>sk_sendPendingDataEvent := None\<rparr>)) (\<lambda>(n, sk'). forward (sk_state sk) (sk_state sk'))"
    by (auto intro!: wp data_forward)
  with pending show ?case by (auto dest: run_yieldsD)
next
  case (shutdown_send now sk sk')
  have "yields (ShutdownSend now sk) (\<lambda>sk'. forward (sk_state sk) (sk_state sk'))"
    by (auto intro!: wp data_forward)
  with shutdown_send show ?case by (auto dest: yieldsD)
qed (auto simp: ShutdownRecv_def intro!: wp elim!: yields_forward)

end
