(* ===== verification/Tcp_Connection.thy ===== *)
theory Tcp_Connection
  imports Tcp_Machine
begin

text \<open>
  A socket as \<^verbatim>\<open>TcpL4Protocol::CreateSocket\<close> makes it, with the default values of the attributes of \<^verbatim>\<open>TcpSocket\<close>
  (\<^verbatim>\<open>src/src/internet/model/tcp-socket.cc\<close>) and \<^verbatim>\<open>TcpSocketBase\<close>, the attributes that do more than store a value, and runs of two
  such sockets: the handshake, and two runs that end where they should not.
\<close>

section \<open>A new socket\<close>

definition SetInitialSSThresh :: "u32 \<Rightarrow> 'c sock \<Rightarrow> 'c sock res" where
  "SetInitialSSThresh threshold sk =
     (if sk_state sk = CLOSED \<or> threshold = sk_initialSsThresh sk then Inr (sk\<lparr>sk_initialSsThresh := threshold\<rparr>) else Inl Assert_Failed)"

definition SetInitialCwnd :: "u32 \<Rightarrow> 'c sock \<Rightarrow> 'c sock res" where
  "SetInitialCwnd cwnd sk =
     (if sk_state sk = CLOSED \<or> cwnd = sk_initialCWnd sk then Inr (sk\<lparr>sk_initialCWnd := cwnd\<rparr>) else Inl Assert_Failed)"

definition SetSegSize :: "u32 \<Rightarrow> 'c sock \<Rightarrow> 'c sock res" where
  "SetSegSize n sk =
     (let sk = upd_tcb (\<lambda>t. t\<lparr>m_segmentSize := n\<rparr>) sk; sk = sk\<lparr>sk_txBuffer := tx_SetSegmentSize n (sk_txBuffer sk)\<rparr>
      in if sk_state sk \<noteq> CLOSED then Inl Assert_Failed else Inr sk)"

definition SetRetxThresh :: "u32 \<Rightarrow> 'c sock \<Rightarrow> 'c sock" where
  "SetRetxThresh n sk = sk\<lparr>sk_retxThresh := n, sk_txBuffer := tx_SetDupAckThresh n (sk_txBuffer sk)\<rparr>"

definition SetRcvBufSize :: "int \<Rightarrow> u32 \<Rightarrow> 'c sock \<Rightarrow> 'c sock res" where
  "SetRcvBufSize now n sk =
     (let oldSize = rx_maxBuffer (sk_rxBuffer sk); sk = sk\<lparr>sk_rxBuffer := SetMaxBufferSize n (sk_rxBuffer sk)\<rparr>
      in if oldSize < n \<and> sk_connected sk then send_ack_ecn now sk else Inr sk)"

definition TcpSocketState :: tcb where
  "TcpSocketState = \<lparr>m_cWnd = 0, m_cWndInfl = 0, m_ssThresh = 0, m_segmentSize = 0, m_lastAckedSeq = 0, m_congState = CA_OPEN,
     m_ecnState = ECN_DISABLED, m_highTxMark = 0, m_nextTxSequence = 0, m_bytesInFlight = 0, m_isCwndLimited = False, m_srtt = 0,
     m_lastRtt = 0, m_minRtt = time_max, m_maxDelay = 0, m_target_delay = 0, m_hops = 0, m_isRetransDataAcked = False,
     m_lastAckedSackedBytes = 0, m_rcvTimestampValue = 0, m_rcvTimestampEchoReply = 0, m_useEcn = Ecn_Off\<rparr>"

text \<open>The members as the class initialises them, the attributes of the two classes, and \<^verbatim>\<open>CreateSocket\<close>, which also sets the algorithms.\<close>

definition TcpSocketBase :: "'c \<Rightarrow> 'c sock" where
  "TcpSocketBase c = \<lparr>sk_state = CLOSED, sk_tcb = TcpSocketState, sk_txBuffer = TcpTxBuffer 0, sk_rxBuffer = TcpRxBuffer 0, sk_cong = c,
     sk_recovery = Classic, sk_rateOps = TcpRateLinux, sk_rtt = RttMeanDeviation, sk_endPoint = False, sk_retxEvent = None,
     sk_lastAckEvent = None, sk_delAckEvent = None, sk_persistEvent = None, sk_timewaitEvent = None, sk_sendPendingDataEvent = None,
     sk_connSucceededEvent = None, sk_dupAckCount = 0, sk_delAckCount = 0, sk_delAckMaxCount = 0, sk_noDelay = False, sk_synCount = 0,
     sk_synRetries = 0, sk_dataRetrCount = 0, sk_dataRetries = 0, sk_rto = 0, sk_minRto = time_max, sk_clockGranularity = 1000000,
     sk_delAckTimeout = 0, sk_persistTimeout = 0, sk_cnTimeout = 0, sk_history = [], sk_closeNotified = False, sk_closeOnEmpty = False,
     sk_shutdownSend = False, sk_shutdownRecv = False, sk_connected = False, sk_twoMsl = 0, sk_maxWinSize = 0,
     sk_bytesAckedNotProcessed = 0, sk_highTxAck = 0, sk_rWnd = 0, sk_advWnd = 0, sk_highRxMark = 0, sk_highRxAckMark = 0,
     sk_sackEnabled = True, sk_winScalingEnabled = True, sk_rcvWindShift = 0, sk_sndWindShift = 0, sk_timestampEnabled = True,
     sk_timestampToEcho = 0, sk_recover = 0, sk_recoverActive = False, sk_retxThresh = 3, sk_limitedTx = True,
     sk_isFirstPartialAck = True, sk_initialCWnd = 0, sk_initialSsThresh = 0, sk_ecnEchoSeq = 0, sk_ecnCESeq = 0,
     sk_ecnCWRSeq = 0, sk_out = [], sk_notified = []\<rparr>"

definition TcpSocketBase_attributes :: "'c sock \<Rightarrow> 'c sock" where
  "TcpSocketBase_attributes sk = upd_tcb (\<lambda>t. t\<lparr>m_useEcn := Ecn_Off\<rparr>) (SetRetxThresh 3 (sk\<lparr>sk_twoMsl := 240000000000, sk_maxWinSize := 65535,
     sk_winScalingEnabled := True, sk_sackEnabled := True, sk_timestampEnabled := True, sk_minRto := 1000000000,
     sk_clockGranularity := 1000000, sk_limitedTx := True\<rparr>))"

definition TcpSocket_attributes :: "'c sock \<Rightarrow> 'c sock" where
  "TcpSocket_attributes sk = sk\<lparr>sk_txBuffer := tx_SetSegmentSize 536 (tx_SetMaxBufferSize 131072 (sk_txBuffer sk)),
     sk_rxBuffer := SetMaxBufferSize 131072 (sk_rxBuffer sk), sk_tcb := (sk_tcb sk)\<lparr>m_segmentSize := 536\<rparr>,
     sk_initialSsThresh := 0xffffffff, sk_initialCWnd := 10, sk_cnTimeout := 3000000000, sk_synRetries := 6, sk_dataRetries := 6,
     sk_delAckTimeout := 200000000, sk_delAckMaxCount := 2, sk_noDelay := True, sk_persistTimeout := 6000000000\<rparr>"

definition CreateSocket :: "'c env \<Rightarrow> int \<Rightarrow> rtt_estimator \<Rightarrow> 'c \<Rightarrow> recovery \<Rightarrow> 'c sock" where
  "CreateSocket env now rtt algo recovery =
     (let socket = TcpSocketBase_attributes (TcpSocket_attributes (TcpSocketBase algo)); socket = socket\<lparr>sk_rtt := rtt\<rparr>
      in case co_Init (env_cong env) now (algo, sk_tcb socket) of (c, tcb) \<Rightarrow>
           socket\<lparr>sk_cong := c, sk_tcb := tcb, sk_recovery := recovery\<rparr>)"

text \<open>A client and a server of NewReno whose applications send nothing on their own.\<close>

definition quiet_env :: "unit env" where
  "quiet_env = \<lparr>env_cong = reno_ops, env_app = (\<lambda>sk. []), env_accept = True\<rparr>"

definition bound_socket :: "unit sock" where
  "bound_socket = (CreateSocket quiet_env 0 RttMeanDeviation () TcpPrrRecovery)\<lparr>sk_endPoint := True\<rparr>"

definition listener :: "unit sock" where
  "listener = snd (Listen bound_socket)"

lemma wscale_default: "wscale_loop 131072 65535 0 = 2"
  by (simp add: wscale_loop.simps)

definition syn_segment :: "int \<Rightarrow> tcp_segment" where
  "syn_segment t = \<lparr>sg_flags = flag_SYN, sg_seq = 0, sg_ack = 0, sg_window = 65535, sg_ts = Some (NowToTsValue t, 0), sg_sack = None,
     sg_wscale = Some 2, sg_sackPermitted = True, sg_payload = []\<rparr>"

definition client_syn_sent :: "int \<Rightarrow> unit sock" where
  "client_syn_sent t = bound_socket\<lparr>sk_state := SYN_SENT, sk_synCount := 5, sk_dataRetrCount := 6, sk_rto := 3000000000, sk_rcvWindShift := 2,
     sk_advWnd := 131072, sk_retxEvent := Some (t + 3000000000, Call_SendEmptyPacket flag_SYN),
     sk_history := [\<lparr>rh_seq = 0, rh_count = 0, rh_time = t, rh_retx = False\<rparr>], sk_out := [syn_segment t]\<rparr>"

lemma seq_diff_evals:
  "seq_diff 131072 0 = Inr 131072" "seq_diff 131073 1 = Inr 131072" "seq_diff s s = Inr 0"
  by (simp_all add: seq_diff_def seq_halfMaxValue_def seq_maxValue_def neg_int32_def)

lemma seq_le_refl: "seq_le s s"
  by (simp add: seq_le_def)

lemma to_int32_1: "to_int32 1 = 1"
  by (simp add: to_int32_def)

lemmas socket_defs = Let_def SendEmptyPacket_def has_flag_def set_flag_def clear_flags_def rto_from_rtt_def rto_estimate_def time_mul_def time_add_def
  AdvertisedWindowSize_def send_syn_def CalculateWScale_def RttMeanDeviation_def rtt_Reset_def int64_range_def SetMaxBufferSize_def
  TcpRxBuffer_def SendPacket_def AddOptions_def sk_NextRxSequence_def UpdateRttHistory_def upd_tcb_def seq32_ops_def MaxRxSequence_def
  wscale_default seq_diff_evals seq_le_refl to_int32_1

text \<open>Run the first part of a sequence before the rest is looked at.\<close>

lemma bind_weak_cong: "m = m' \<Longrightarrow> bind_res m f = bind_res m' f" "n = n' \<Longrightarrow> bind_run n g = bind_run n' g"
  by simp_all

lemmas run_cong = bind_weak_cong let_weak_cong option.case_cong_weak prod.case_cong_weak

lemma bound_socket_fields: "bound_socket = \<lparr>sk_state = CLOSED, sk_tcb = TcpSocketState\<lparr>m_segmentSize := 536\<rparr>,
     sk_txBuffer = tx_SetDupAckThresh 3 (tx_SetSegmentSize 536 (tx_SetMaxBufferSize 131072 (TcpTxBuffer 0))),
     sk_rxBuffer = SetMaxBufferSize 131072 (TcpRxBuffer 0), sk_cong = (), sk_recovery = TcpPrrRecovery, sk_rateOps = TcpRateLinux,
     sk_rtt = RttMeanDeviation, sk_endPoint = True, sk_retxEvent = None, sk_lastAckEvent = None, sk_delAckEvent = None,
     sk_persistEvent = None, sk_timewaitEvent = None, sk_sendPendingDataEvent = None, sk_connSucceededEvent = None, sk_dupAckCount = 0,
     sk_delAckCount = 0, sk_delAckMaxCount = 2, sk_noDelay = True, sk_synCount = 0, sk_synRetries = 6, sk_dataRetrCount = 0,
     sk_dataRetries = 6, sk_rto = 0, sk_minRto = 1000000000, sk_clockGranularity = 1000000, sk_delAckTimeout = 200000000,
     sk_persistTimeout = 6000000000, sk_cnTimeout = 3000000000, sk_history = [], sk_closeNotified = False, sk_closeOnEmpty = False,
     sk_shutdownSend = False, sk_shutdownRecv = False, sk_connected = False, sk_twoMsl = 240000000000, sk_maxWinSize = 65535,
     sk_bytesAckedNotProcessed = 0, sk_highTxAck = 0, sk_rWnd = 0, sk_advWnd = 0, sk_highRxMark = 0, sk_highRxAckMark = 0,
     sk_sackEnabled = True, sk_winScalingEnabled = True, sk_rcvWindShift = 0, sk_sndWindShift = 0, sk_timestampEnabled = True,
     sk_timestampToEcho = 0, sk_recover = 0, sk_recoverActive = False, sk_retxThresh = 3, sk_limitedTx = True,
     sk_isFirstPartialAck = True, sk_initialCWnd = 10, sk_initialSsThresh = 0xffffffff, sk_ecnEchoSeq = 0, sk_ecnCESeq = 0,
     sk_ecnCWRSeq = 0, sk_out = [], sk_notified = []\<rparr>"
  by (simp add: bound_socket_def CreateSocket_def TcpSocketBase_def TcpSocketBase_attributes_def TcpSocket_attributes_def SetRetxThresh_def Let_def
    quiet_env_def reno_ops_def upd_tcb_def TcpSocketState_def)

lemmas start_defs = bound_socket_fields quiet_env_def reno_ops_def TcpSocketState_def

lemma Connect_bound: "Connect t bound_socket = Inr (client_syn_sent t)"
  unfolding Connect_def DoConnect_def client_syn_sent_def start_defs
  by (simp add: syn_flags_def syn_segment_def socket_defs cong: run_cong)

definition rcv_syn :: "int \<Rightarrow> 'c sock \<Rightarrow> 'c sock" where
  "rcv_syn t sk = sk\<lparr>sk_rWnd := 65535, sk_sndWindShift := 2, sk_timestampToEcho := NowToTsValue t,
     sk_tcb := (sk_tcb sk)\<lparr>m_cWnd := 5360, m_cWndInfl := 5360, m_ssThresh := 0xffffffff, m_rcvTimestampValue := NowToTsValue t,
       m_rcvTimestampEchoReply := 0\<rparr>\<rparr>"

definition forked :: "int \<Rightarrow> unit sock" where
  "forked t = (rcv_syn t listener)\<lparr>sk_tcb := (sk_tcb (rcv_syn t listener))\<lparr>m_cWndInfl := 0\<rparr>, sk_endPoint := False\<rparr>"

lemma read_syn_listener: "read_syn t1 (syn_segment t0) listener = Inr (rcv_syn t0 listener)"
  unfolding read_syn_def listener_def Listen_def rcv_syn_def start_defs syn_segment_def
  by (simp add: socket_defs ProcessOptionWScale_def ProcessOptionTimestamp_def cong: run_cong)

lemma listener_state: "sk_state listener = LISTEN" "sk_state (rcv_syn t listener) = LISTEN" "sk_rWnd (rcv_syn t listener) = 65535"
  "sk_persistEvent (rcv_syn t listener) = None"
  by (simp_all add: listener_def Listen_def rcv_syn_def start_defs)

lemma listener_syn: "DoForwardUp quiet_env t1 (syn_segment t0) listener = Some (Inr (rcv_syn t0 listener, Some (forked t0)))"
proof -
  have flags: "sg_flags (syn_segment t0) = flag_SYN"
    by (simp add: syn_segment_def)
  have "Fork quiet_env t1 (rcv_syn t0 listener) = forked t0"
    by (simp add: Fork_def forked_def rcv_syn_def listener_def Listen_def start_defs Let_def)
  then have "ProcessListen quiet_env t1 (syn_segment t0) (rcv_syn t0 listener) = Some (forked t0)"
    by (simp add: ProcessListen_def flags socket_defs quiet_env_def)
  then show ?thesis
    by (simp add: DoForwardUp_def Let_def flags listener_state read_syn_listener dispatch_def has_flag_def)
qed

definition synack_segment :: "int \<Rightarrow> int \<Rightarrow> tcp_segment" where
  "synack_segment t0 t1 = \<lparr>sg_flags = 18, sg_seq = 0, sg_ack = 1, sg_window = 65535, sg_ts = Some (NowToTsValue t1, NowToTsValue t0), sg_sack = None,
     sg_wscale = Some 2, sg_sackPermitted = True, sg_payload = []\<rparr>"

definition server_syn_rcvd :: "int \<Rightarrow> int \<Rightarrow> unit sock" where
  "server_syn_rcvd t0 t1 = (forked t0)\<lparr>sk_endPoint := True, sk_state := SYN_RCVD, sk_synCount := 5, sk_dataRetrCount := 6,
     sk_rxBuffer := SetNextRxSequence 1 (sk_rxBuffer (forked t0)), sk_rto := 3000000000, sk_rcvWindShift := 2, sk_advWnd := 131072,
     sk_history := [\<lparr>rh_seq = 0, rh_count = 0, rh_time = t1, rh_retx = False\<rparr>], sk_highTxAck := 1,
     sk_retxEvent := Some (t1 + 3000000000, Call_SendEmptyPacket 18), sk_out := [synack_segment t0 t1]\<rparr>"

lemma fork_completes: "CompleteFork t1 (syn_segment t0) (forked t0) = Inr (server_syn_rcvd t0 t1)"
  unfolding CompleteFork_def forked_def rcv_syn_def listener_def Listen_def server_syn_rcvd_def start_defs
  by (simp add: syn_segment_def synack_segment_def is_ecn_syn_def socket_defs SetNextRxSequence_def seq_compare_defs seq_gt_def seq_halfMaxValue_def cong: run_cong)

text \<open>The round-trip time that the time stamps of the handshake give.\<close>

definition stamp_rtt :: "int \<Rightarrow> int \<Rightarrow> int" where
  "stamp_rtt t0 t2 = (let d = ElapsedTimeFromTsValue t2 (NowToTsValue t0) in if d = 0 then 1000 else d)"

lemma stamp_rtt_bounds: "0 < stamp_rtt t0 t2" "stamp_rtt t0 t2 < 5 * 10 ^ 15"
  using uint_u32_less [of "NowToTsValue t2 - NowToTsValue t0"] uint_ge_0 [of "NowToTsValue t2 - NowToTsValue t0"]
  by (auto simp: stamp_rtt_def ElapsedTimeFromTsValue_def Let_def less_le)

definition first_rto :: "int \<Rightarrow> int" where
  "first_rto r = max (r + max 1000000 (4 * (r div 2))) 1000000000"

definition measured :: "int \<Rightarrow> 'c sock \<Rightarrow> 'c sock" where
  "measured r sk = sk\<lparr>sk_history := [], sk_rtt := RttMeanDeviation\<lparr>re_estimatedRtt := r, re_estimatedVariation := r div 2, re_nSamples := 1\<rparr>,
     sk_rto := first_rto r, sk_tcb := (sk_tcb sk)\<lparr>m_lastRtt := r, m_srtt := r, m_minRtt := r\<rparr>\<rparr>"

lemma first_rto_range:
  fixes r :: int
  assumes "0 < r" "r < 5 * 10 ^ 15"
  shows "int64_range (4 * (r div 2)) \<and> int64_range (r + max 1000000 (4 * (r div 2)))"
proof -
  have "4 * (r div 2) \<le> 2 * r" "0 \<le> 4 * (r div 2)" using assms by simp_all
  moreover obtain v where "v = 4 * (r div 2)" by blast
  ultimately show ?thesis using assms by (auto simp: int64_range_def max_def)
qed

lemma EstimateRtt_first:
  assumes "sk_history sk = [\<lparr>rh_seq = 0, rh_count = 0, rh_time = t0, rh_retx = False\<rparr>]" "sk_timestampEnabled sk" "sg_ack h = 1"
    "sg_ts h = Some (v, NowToTsValue t0)" "sk_rtt sk = RttMeanDeviation" "m_minRtt (sk_tcb sk) = time_max" "sk_clockGranularity sk = 1000000"
    "sk_minRto sk = 1000000000"
  shows "EstimateRtt now h sk = Inr (measured (stamp_rtt t0 now) sk)"
proof -
  have sample: "CalculateRttSample now h e k = stamp_rtt t0 now" if "rh_seq e = 0" "rh_count e = 0" "sk_timestampEnabled k" for e k
    using that assms(3,4) by (simp add: CalculateRttSample_def stamp_rtt_def seq_compare_defs seq_gt_def seq_halfMaxValue_def)
  let ?r = "stamp_rtt t0 now"
  have drop: "\<not> seq_gt 0 1"
    by (simp add: seq_gt_def seq_halfMaxValue_def)
  have min: "min ?r time_max = ?r"
    using stamp_rtt_bounds [of t0 now] by (simp add: time_max_def)
  have m: "Measurement ?r RttMeanDeviation = Inr (RttMeanDeviation\<lparr>re_estimatedRtt := ?r, re_estimatedVariation := ?r div 2, re_nSamples := 1\<rparr>)"
    using stamp_rtt_bounds [of t0 now] by (simp add: Measurement_def RttMeanDeviation_def)
  have ranges: "int64_range (4 * (?r div 2))" "int64_range (?r + max 1000000 (4 * (?r div 2)))"
    using first_rto_range [OF stamp_rtt_bounds] by simp_all
  have rto: "rto_from_rtt k = Inr (first_rto ?r)"
    if "re_estimatedRtt (sk_rtt k) = ?r" "re_estimatedVariation (sk_rtt k) = ?r div 2" "sk_clockGranularity k = 1000000" "sk_minRto k = 1000000000" for k :: "'a sock"
    using that ranges by (simp add: rto_from_rtt_def rto_estimate_def time_mul_def time_add_def first_rto_def)
  show ?thesis
    unfolding EstimateRtt_def assms(1) list.case Let_def
    using assms(2-8) stamp_rtt_bounds [of t0 now]
    by (simp add: sample drop m rto min upd_tcb_def measured_def)
qed

definition client_synack :: "int \<Rightarrow> int \<Rightarrow> int \<Rightarrow> unit sock" where
  "client_synack t0 t1 t2 = (let sk = client_syn_sent t0 in measured (stamp_rtt t0 t2)
     (sk\<lparr>sk_rWnd := 65535, sk_sndWindShift := 2, sk_timestampToEcho := NowToTsValue t1,
       sk_tcb := (sk_tcb sk)\<lparr>m_cWnd := 5360, m_cWndInfl := 5360, m_ssThresh := 0xffffffff, m_rcvTimestampValue := NowToTsValue t1,
         m_rcvTimestampEchoReply := NowToTsValue t0\<rparr>\<rparr>)\<lparr>sk_highRxAckMark := 1\<rparr>)"

lemma read_syn_client: "read_syn t2 (synack_segment t0 t1) (client_syn_sent t0) = Inr (client_synack t0 t1 t2)"
proof -
  let ?sk = "client_syn_sent t0"
  let ?m = "?sk\<lparr>sk_rWnd := 65535, sk_sndWindShift := 2, sk_timestampToEcho := NowToTsValue t1,
       sk_tcb := (sk_tcb ?sk)\<lparr>m_cWnd := 5360, m_cWndInfl := 5360, m_ssThresh := 0xffffffff, m_rcvTimestampValue := NowToTsValue t1,
         m_rcvTimestampEchoReply := NowToTsValue t0\<rparr>\<rparr>"
  have "EstimateRtt t2 (synack_segment t0 t1) ?m = Inr (measured (stamp_rtt t0 t2) ?m)"
    by (rule EstimateRtt_first) (simp_all add: client_syn_sent_def synack_segment_def start_defs time_max_def)
  moreover have "read_syn t2 (synack_segment t0 t1) ?sk =
      bind_res (EstimateRtt t2 (synack_segment t0 t1) ?m) (\<lambda>sk. Inr (sk\<lparr>sk_highRxAckMark := sg_ack (synack_segment t0 t1)\<rparr>))"
    unfolding read_syn_def
    by (simp add: client_syn_sent_def synack_segment_def start_defs socket_defs ProcessOptionWScale_def ProcessOptionTimestamp_def cong: run_cong)
  ultimately show ?thesis
    by (simp add: client_synack_def measured_def synack_segment_def Let_def)
qed

definition ack_segment :: "int \<Rightarrow> int \<Rightarrow> tcp_segment" where
  "ack_segment t1 t2 = \<lparr>sg_flags = flag_ACK, sg_seq = 1, sg_ack = 1, sg_window = 32768, sg_ts = Some (NowToTsValue t2, NowToTsValue t1),
     sg_sack = None, sg_wscale = None, sg_sackPermitted = False, sg_payload = []\<rparr>"

definition client_established :: "int \<Rightarrow> int \<Rightarrow> int \<Rightarrow> unit sock" where
  "client_established t0 t1 t2 = (let sk = client_synack t0 t1 t2 in
     sk\<lparr>sk_state := ESTABLISHED, sk_connected := True, sk_retxEvent := None, sk_rxBuffer := SetNextRxSequence 1 (sk_rxBuffer sk),
       sk_txBuffer := (sk_txBuffer sk)\<lparr>tx_firstByteSeq := 1\<rparr>, sk_highTxAck := 1, sk_delAckCount := 2, sk_connSucceededEvent := Some t2,
       sk_tcb := (sk_tcb sk)\<lparr>m_nextTxSequence := 1, m_highTxMark := 1\<rparr>, sk_out := [syn_segment t0, ack_segment t1 t2]\<rparr>)"

lemma SendPendingData_empty: "tx_size (sk_txBuffer sk) = 0 \<Longrightarrow> SendPendingData env now a sk = Some (Inr (0, sk))"
  by (simp add: SendPendingData_def)

lemma client_ack:
  "SendEmptyPacket t2 flag_ACK ((client_synack t0 t1 t2)\<lparr>sk_state := ESTABLISHED, sk_connected := True, sk_retxEvent := None,
       sk_rxBuffer := SetNextRxSequence 1 (sk_rxBuffer (client_synack t0 t1 t2)), sk_txBuffer := (sk_txBuffer (client_synack t0 t1 t2))\<lparr>tx_firstByteSeq := 1\<rparr>,
       sk_tcb := (sk_tcb (client_synack t0 t1 t2))\<lparr>m_nextTxSequence := 1, m_highTxMark := 1\<rparr>\<rparr>) =
   Inr ((client_established t0 t1 t2)\<lparr>sk_connSucceededEvent := None, sk_delAckCount := 0\<rparr>)"
proof -
  have r: "int64_range (4 * (stamp_rtt t0 t2 div 2))" "int64_range (stamp_rtt t0 t2 + max 1000000 (4 * (stamp_rtt t0 t2 div 2)))"
    using first_rto_range [OF stamp_rtt_bounds] by simp_all
  show ?thesis
    using r unfolding client_established_def client_synack_def measured_def client_syn_sent_def start_defs int64_range_def
    by (simp add: socket_defs ack_segment_def SetNextRxSequence_def seq_compare_defs seq_gt_def seq_halfMaxValue_def first_rto_def cong: run_cong)
qed

lemma client_synack_fields:
  "sk_state (client_synack t0 t1 t2) = SYN_SENT" "m_nextTxSequence (sk_tcb (client_synack t0 t1 t2)) = 0"
  "sk_rWnd (client_synack t0 t1 t2) = 65535" "sk_persistEvent (client_synack t0 t1 t2) = None" "sk_out (client_synack t0 t1 t2) = [syn_segment t0]"
  by (simp_all add: client_synack_def measured_def client_syn_sent_def start_defs Let_def)

lemma client_process: "ProcessSynSent quiet_env t2 (synack_segment t0 t1) (client_synack t0 t1 t2) = Some (Inr (client_established t0 t1 t2))"
proof -
  let ?k = "client_synack t0 t1 t2"
  let ?e = "?k\<lparr>sk_state := ESTABLISHED, sk_connected := True, sk_retxEvent := None\<rparr>"
  have enter: "enter_established quiet_env t2 ?k = Inr ?e"
    by (simp add: enter_established_def with_cong_def set_cong_state_def client_synack_def measured_def client_syn_sent_def start_defs Let_def upd_tcb_def)
  have consume: "consume_syn (?e\<lparr>sk_rxBuffer := SetNextRxSequence 1 (sk_rxBuffer ?k)\<rparr>) =
    Inr (?e\<lparr>sk_rxBuffer := SetNextRxSequence 1 (sk_rxBuffer ?k), sk_txBuffer := (sk_txBuffer ?k)\<lparr>tx_firstByteSeq := 1\<rparr>,
       sk_tcb := (sk_tcb ?k)\<lparr>m_nextTxSequence := 1, m_highTxMark := 1\<rparr>\<rparr>)"
    by (simp add: consume_syn_def SetHeadSequence_def client_synack_def measured_def client_syn_sent_def start_defs Let_def upd_tcb_def
      tx_SetDupAckThresh_def tx_SetSegmentSize_def tx_SetMaxBufferSize_def TcpTxBuffer_def)
  have ecn: "upd_tcb (\<lambda>t. t\<lparr>m_ecnState := ECN_DISABLED\<rparr>) ((client_established t0 t1 t2)\<lparr>sk_connSucceededEvent := None, sk_delAckCount := 0\<rparr>) =
      (client_established t0 t1 t2)\<lparr>sk_connSucceededEvent := None, sk_delAckCount := 0\<rparr>"
    "m_useEcn (sk_tcb (client_established t0 t1 t2)) = Ecn_Off"
    by (simp_all add: client_established_def client_synack_def measured_def client_syn_sent_def start_defs Let_def upd_tcb_def)
  have rest: "tx_size (sk_txBuffer (client_established t0 t1 t2)) = 0"
    "(client_established t0 t1 t2)\<lparr>sk_connSucceededEvent := Some t2, sk_delAckCount := sk_delAckMaxCount (client_established t0 t1 t2)\<rparr> = client_established t0 t1 t2"
    by (simp_all add: client_established_def client_synack_def measured_def client_syn_sent_def start_defs Let_def
      tx_SetDupAckThresh_def tx_SetSegmentSize_def tx_SetMaxBufferSize_def TcpTxBuffer_def)
  show ?thesis
    unfolding ProcessSynSent_def Let_def
    using client_ack [of t2 t0 t1]
    by (simp add: synack_segment_def clear_flags_def set_flag_def has_flag_def client_synack_fields enter consume ecn rest SendPendingData_empty)
qed

lemma client_forward: "DoForwardUp quiet_env t2 (synack_segment t0 t1) (client_syn_sent t0) = Some (Inr (client_established t0 t1 t2, None))"
proof -
  have flags: "sg_flags (synack_segment t0 t1) = 18"
    by (simp add: synack_segment_def)
  have "sk_persistEvent (client_established t0 t1 t2) = None" "sk_state (client_syn_sent t0) = SYN_SENT"
    by (simp_all add: client_established_def client_synack_fields client_syn_sent_def start_defs Let_def)
  then show ?thesis
    by (simp add: DoForwardUp_def Let_def flags client_synack_fields read_syn_client client_process dispatch_def has_flag_def)
qed

text \<open>An acknowledgement that acknowledges nothing new, while nothing is buffered.\<close>

definition acked_nothing :: "seq \<Rightarrow> 'c sock \<Rightarrow> 'c sock" where
  "acked_nothing a = upd_tcb (\<lambda>t. t\<lparr>m_lastAckedSackedBytes := 0, m_bytesInFlight := 0, m_lastAckedSeq := a, m_isRetransDataAcked := False\<rparr>)"

lemma ReceivedAck_nothing:
  assumes h: "sg_flags h = flag_ACK" "sg_sack h = None" "sg_payload h = []" "sg_ack h = sk_HeadSequence sk" "sg_ack h = m_highTxMark (sk_tcb sk)"
    and tx: "tx_size (sk_txBuffer sk) = 0" "tx_sentSize (sk_txBuffer sk) = 0" "tx_sackedOut (sk_txBuffer sk) = 0" "tx_lostOut (sk_txBuffer sk) = 0"
      "tx_retrans (sk_txBuffer sk) = 0"
    and sk: "sk_sackEnabled sk" "m_segmentSize (sk_tcb sk) > 0" "m_congState (sk_tcb sk) = CA_OPEN" "m_ecnState (sk_tcb sk) = ECN_DISABLED"
  shows "ReceivedAck env now h sk = Some (Inr (acked_nothing (sg_ack h) sk))"
proof -
  let ?a = "sg_ack h"
  have read: "ReadOptions now h sk = Inr (0, sk)"
    by (simp add: ReadOptions_def h)
  have "discard_acked now ?a sk = Inr sk"
    by (simp add: discard_acked_def DiscardUpTo_def seq_compare_defs h(4) sk_HeadSequence_def)
  moreover have flight: "sk_BytesInFlight k = Inr (0, upd_tcb (\<lambda>t. t\<lparr>m_bytesInFlight := 0\<rparr>) k)" if "sk_txBuffer k = sk_txBuffer sk" for k :: "'a sock"
    by (simp add: sk_BytesInFlight_def BytesInFlight_def that tx)
  ultimately have state: "received_ack_state env now h 0 (sk_HeadSequence sk) (rc_delivered (ro_rate (sk_rateOps sk))) sk = Inr (acked_nothing ?a sk)"
    using h sk
    by (simp add: received_ack_state_def note_retransmitted_def leave_cwr_def ecn_echo_def ProcessAck_def Let_def upd_tcb_def acked_nothing_def
      sk_HeadSequence_def)
  have "tx_size (sk_txBuffer (acked_nothing ?a sk)) = 0"
    by (simp add: acked_nothing_def upd_tcb_def tx)
  then show ?thesis
    using h(4) by (simp add: ReceivedAck_def h(1,3) sk Let_def read state SendPendingData_empty has_flag_def seq_compare_defs)
qed

definition server_acked :: "int \<Rightarrow> int \<Rightarrow> int \<Rightarrow> int \<Rightarrow> unit sock" where
  "server_acked t0 t1 t2 t3 = UpdateWindowSize (ack_segment t1 t2)
     (measured (stamp_rtt t1 t3) (ProcessOptionTimestamp (NowToTsValue t2, NowToTsValue t1) 1 (server_syn_rcvd t0 t1)))"

lemma stamp_fields:
  "sk_history (ProcessOptionTimestamp ts s sk) = sk_history sk" "sk_timestampEnabled (ProcessOptionTimestamp ts s sk) = sk_timestampEnabled sk"
  "sk_rtt (ProcessOptionTimestamp ts s sk) = sk_rtt sk" "m_minRtt (sk_tcb (ProcessOptionTimestamp ts s sk)) = m_minRtt (sk_tcb sk)"
  "sk_clockGranularity (ProcessOptionTimestamp ts s sk) = sk_clockGranularity sk" "sk_minRto (ProcessOptionTimestamp ts s sk) = sk_minRto sk"
  "sk_sndWindShift (ProcessOptionTimestamp ts s sk) = sk_sndWindShift sk"
  "sk_persistEvent (ProcessOptionTimestamp ts s sk) = sk_persistEvent sk" "sk_txBuffer (ProcessOptionTimestamp ts s sk) = sk_txBuffer sk"
  "sk_rxBuffer (ProcessOptionTimestamp ts s sk) = sk_rxBuffer sk" "sk_cong (ProcessOptionTimestamp ts s sk) = sk_cong sk"
  "sk_sackEnabled (ProcessOptionTimestamp ts s sk) = sk_sackEnabled sk"
  "m_nextTxSequence (sk_tcb (ProcessOptionTimestamp ts s sk)) = m_nextTxSequence (sk_tcb sk)"
  "m_segmentSize (sk_tcb (ProcessOptionTimestamp ts s sk)) = m_segmentSize (sk_tcb sk)"
  "m_cWnd (sk_tcb (ProcessOptionTimestamp ts s sk)) = m_cWnd (sk_tcb sk)"
  "m_ecnState (sk_tcb (ProcessOptionTimestamp ts s sk)) = m_ecnState (sk_tcb sk)"
  by (simp_all add: ProcessOptionTimestamp_def Let_def upd_tcb_def)

lemmas server_defs = server_syn_rcvd_def forked_def rcv_syn_def listener_def Listen_def start_defs tx_SetDupAckThresh_def tx_SetSegmentSize_def
  tx_SetMaxBufferSize_def TcpTxBuffer_def SetNextRxSequence_def SetMaxBufferSize_def TcpRxBuffer_def

lemma server_fields:
  "sk_history (server_syn_rcvd t0 t1) = [\<lparr>rh_seq = 0, rh_count = 0, rh_time = t1, rh_retx = False\<rparr>]"
  "sk_timestampEnabled (server_syn_rcvd t0 t1)" "sk_rtt (server_syn_rcvd t0 t1) = RttMeanDeviation"
  "m_minRtt (sk_tcb (server_syn_rcvd t0 t1)) = time_max" "sk_clockGranularity (server_syn_rcvd t0 t1) = 1000000"
  "sk_minRto (server_syn_rcvd t0 t1) = 1000000000" "sk_state (server_syn_rcvd t0 t1) = SYN_RCVD" "sk_sndWindShift (server_syn_rcvd t0 t1) = 2"
  "sk_persistEvent (server_syn_rcvd t0 t1) = None" "tx_size (sk_txBuffer (server_syn_rcvd t0 t1)) = 0"
  "tx_sentSize (sk_txBuffer (server_syn_rcvd t0 t1)) = 0" "tx_sackedOut (sk_txBuffer (server_syn_rcvd t0 t1)) = 0"
  "tx_lostOut (sk_txBuffer (server_syn_rcvd t0 t1)) = 0" "tx_retrans (sk_txBuffer (server_syn_rcvd t0 t1)) = 0"
  "tx_sentList (sk_txBuffer (server_syn_rcvd t0 t1)) = []" "rx_nextRxSeq (sk_rxBuffer (server_syn_rcvd t0 t1)) = 1"
  "sk_sackEnabled (server_syn_rcvd t0 t1)" "m_nextTxSequence (sk_tcb (server_syn_rcvd t0 t1)) = 0"
  "m_segmentSize (sk_tcb (server_syn_rcvd t0 t1)) = 536" "m_cWnd (sk_tcb (server_syn_rcvd t0 t1)) = 5360"
  "m_ecnState (sk_tcb (server_syn_rcvd t0 t1)) = ECN_DISABLED" "sk_highRxMark (server_syn_rcvd t0 t1) = 0"
  "sk_persistTimeout (server_syn_rcvd t0 t1) = 6000000000"
  by (simp_all add: server_defs)

lemma read_ack_server: "read_ack t3 (ack_segment t1 t2) (server_syn_rcvd t0 t1) = Inr (Some (server_acked t0 t1 t2 t3))"
proof -
  have "EstimateRtt t3 (ack_segment t1 t2) (ProcessOptionTimestamp (NowToTsValue t2, NowToTsValue t1) 1 (server_syn_rcvd t0 t1)) =
      Inr (measured (stamp_rtt t1 t3) (ProcessOptionTimestamp (NowToTsValue t2, NowToTsValue t1) 1 (server_syn_rcvd t0 t1)))"
    by (rule EstimateRtt_first) (simp_all add: stamp_fields server_fields ack_segment_def)
  then show ?thesis
    by (simp add: read_ack_def server_fields ack_segment_def server_acked_def Let_def)
qed

lemma acked_fields:
  "sk_state (server_acked t0 t1 t2 t3) = SYN_RCVD" "sk_rWnd (server_acked t0 t1 t2 t3) = 131072" "sk_persistEvent (server_acked t0 t1 t2 t3) = None"
  "sk_txBuffer (server_acked t0 t1 t2 t3) = sk_txBuffer (server_syn_rcvd t0 t1)"
  "sk_rxBuffer (server_acked t0 t1 t2 t3) = sk_rxBuffer (server_syn_rcvd t0 t1)" "sk_sackEnabled (server_acked t0 t1 t2 t3)"
  "m_nextTxSequence (sk_tcb (server_acked t0 t1 t2 t3)) = 0" "m_segmentSize (sk_tcb (server_acked t0 t1 t2 t3)) = 536"
  "m_cWnd (sk_tcb (server_acked t0 t1 t2 t3)) = 5360" "m_ecnState (sk_tcb (server_acked t0 t1 t2 t3)) = ECN_DISABLED"
  "m_srtt (sk_tcb (server_acked t0 t1 t2 t3)) = stamp_rtt t1 t3" "sk_history (server_acked t0 t1 t2 t3) = []"
  "sk_highRxMark (server_acked t0 t1 t2 t3) = 0" "sk_persistTimeout (server_acked t0 t1 t2 t3) = 6000000000"
  by (simp_all add: server_acked_def UpdateWindowSize_def Let_def measured_def ProcessOptionTimestamp_def upd_tcb_def server_fields ack_segment_def
    less_tcp_state_def)

definition server_consumed :: "int \<Rightarrow> int \<Rightarrow> int \<Rightarrow> int \<Rightarrow> unit sock" where
  "server_consumed t0 t1 t2 t3 = (let k = server_acked t0 t1 t2 t3
     in k\<lparr>sk_state := ESTABLISHED, sk_connected := True, sk_retxEvent := None, sk_txBuffer := (sk_txBuffer k)\<lparr>tx_firstByteSeq := 1, tx_sackSeen := False,
            tx_highestSack := (None, 0)\<rparr>, sk_tcb := (sk_tcb k)\<lparr>m_congState := CA_OPEN, m_nextTxSequence := 1, m_highTxMark := 1\<rparr>\<rparr>)"

definition server_established :: "int \<Rightarrow> int \<Rightarrow> int \<Rightarrow> int \<Rightarrow> unit sock" where
  "server_established t0 t1 t2 t3 = acked_nothing 1 (notify New_Connection ((server_consumed t0 t1 t2 t3)
     \<lparr>sk_delAckCount := sk_delAckMaxCount (server_consumed t0 t1 t2 t3)\<rparr>))"

lemma established_fields:
  "sk_state (server_established t0 t1 t2 t3) = ESTABLISHED" "sk_connected (server_established t0 t1 t2 t3)"
  "sk_persistEvent (server_established t0 t1 t2 t3) = None" "sk_rxBuffer (server_established t0 t1 t2 t3) = sk_rxBuffer (server_syn_rcvd t0 t1)"
  "m_nextTxSequence (sk_tcb (server_established t0 t1 t2 t3)) = 1" "m_cWnd (sk_tcb (server_established t0 t1 t2 t3)) = 5360"
  "m_srtt (sk_tcb (server_established t0 t1 t2 t3)) = stamp_rtt t1 t3" "sk_retxEvent (server_established t0 t1 t2 t3) = None"
  "sk_rWnd (server_established t0 t1 t2 t3) = 131072"
  by (simp_all add: server_established_def server_consumed_def acked_nothing_def notify_def upd_tcb_def Let_def acked_fields)

lemma server_process: "ProcessSynRcvd quiet_env t3 (ack_segment t1 t2) (server_acked t0 t1 t2 t3) = Some (Inr (server_established t0 t1 t2 t3))"
proof -
  let ?k = "server_acked t0 t1 t2 t3"
  let ?s = "notify New_Connection ((server_consumed t0 t1 t2 t3)\<lparr>sk_delAckCount := sk_delAckMaxCount (server_consumed t0 t1 t2 t3)\<rparr>)"
  have cong: "with_cong (co_CongestionStateSet (env_cong quiet_env) t cs) k = Inr k" for t cs and k :: "unit sock"
    by (simp add: with_cong_def quiet_env_def reno_ops_def)
  have enter: "bind_res (enter_established quiet_env t3 ?k) consume_syn = Inr (server_consumed t0 t1 t2 t3)"
    by (simp add: enter_established_def cong consume_syn_def SetHeadSequence_def set_cong_state_def upd_tcb_def acked_fields server_fields
      server_consumed_def Let_def)
  have "ReceivedAck quiet_env t3 (ack_segment t1 t2) ?s = Some (Inr (acked_nothing (sg_ack (ack_segment t1 t2)) ?s))"
    by (rule ReceivedAck_nothing) (simp_all add: ack_segment_def sk_HeadSequence_def server_consumed_def notify_def Let_def acked_fields server_fields)
  then have ack: "ReceivedAck quiet_env t3 (ack_segment t1 t2) ?s = Some (Inr (server_established t0 t1 t2 t3))"
    by (simp add: server_established_def ack_segment_def)
  have "NotifySend quiet_env t3 sk = Inr sk" for sk
    by (simp add: NotifySend_def quiet_env_def)
  then show ?thesis
    by (simp add: ProcessSynRcvd_def Let_def ack_segment_def [of t1 t2] clear_flags_def set_flag_def acked_fields enter ack [unfolded ack_segment_def])
qed

lemma server_forward: "DoForwardUp quiet_env t3 (ack_segment t1 t2) (server_syn_rcvd t0 t1) = Some (Inr (server_established t0 t1 t2 t3, None))"
proof -
  have flags: "sg_flags (ack_segment t1 t2) = flag_ACK"
    by (simp add: ack_segment_def)
  show ?thesis
    by (simp add: DoForwardUp_def Let_def flags acked_fields server_fields read_ack_server server_process dispatch_def has_flag_def established_fields)
qed

lemma client_fields:
  "sk_state (client_established t0 t1 t2) = ESTABLISHED" "sk_connected (client_established t0 t1 t2)"
  "m_nextTxSequence (sk_tcb (client_established t0 t1 t2)) = 1" "m_cWnd (sk_tcb (client_established t0 t1 t2)) = 5360"
  "m_srtt (sk_tcb (client_established t0 t1 t2)) = stamp_rtt t0 t2" "sk_out (client_established t0 t1 t2) = [syn_segment t0, ack_segment t1 t2]"
  "rx_nextRxSeq (sk_rxBuffer (client_established t0 t1 t2)) = 1" "sk_retxEvent (client_established t0 t1 t2) = None"
  by (simp_all add: client_established_def client_synack_def measured_def SetNextRxSequence_def Let_def)

text \<open>
  C6: the handshake of two sockets with the default attributes and NewReno, over a network that delays the three segments by any times. No
  step fails; the client ends in \<^verbatim>\<open>ESTABLISHED\<close> at the second segment and the copy of the listening socket at the third, the listening
  socket keeps listening, each side expects the number that the other sends next, no timer for a retransmission is pending, both windows are
  ten segments, and each side's first round-trip time is the one that the time stamps show.
\<close>

theorem handshake_completes:
  "\<exists>c syn l f s synack c' ack s'.
     Connect t0 bound_socket = Inr c \<and> sk_state c = SYN_SENT \<and> sk_out c = [syn] \<and>
     DoForwardUp quiet_env t1 syn listener = Some (Inr (l, Some f)) \<and> sk_state l = LISTEN \<and>
     CompleteFork t1 syn f = Inr s \<and> sk_state s = SYN_RCVD \<and> sk_out s = [synack] \<and>
     DoForwardUp quiet_env t2 synack c = Some (Inr (c', None)) \<and> sk_out c' = [syn, ack] \<and>
     DoForwardUp quiet_env t3 ack s = Some (Inr (s', None)) \<and>
     sk_state c' = ESTABLISHED \<and> sk_state s' = ESTABLISHED \<and> sk_connected c' \<and> sk_connected s' \<and>
     m_nextTxSequence (sk_tcb c') = sk_NextRxSequence s' \<and> m_nextTxSequence (sk_tcb s') = sk_NextRxSequence c' \<and>
     sk_retxEvent c' = None \<and> sk_retxEvent s' = None \<and>
     m_cWnd (sk_tcb c') = 10 * 536 \<and> m_cWnd (sk_tcb s') = 10 * 536 \<and>
     m_srtt (sk_tcb c') = stamp_rtt t0 t2 \<and> m_srtt (sk_tcb s') = stamp_rtt t1 t3"
proof -
  have "sk_state (client_syn_sent t0) = SYN_SENT" "sk_out (client_syn_sent t0) = [syn_segment t0]" "sk_out (server_syn_rcvd t0 t1) = [synack_segment t0 t1]"
    by (simp_all add: client_syn_sent_def server_syn_rcvd_def)
  then show ?thesis
    by - (rule exI [of _ "client_syn_sent t0"], rule exI [of _ "syn_segment t0"], rule exI [of _ "rcv_syn t0 listener"], rule exI [of _ "forked t0"],
        rule exI [of _ "server_syn_rcvd t0 t1"], rule exI [of _ "synack_segment t0 t1"], rule exI [of _ "client_established t0 t1 t2"],
        rule exI [of _ "ack_segment t1 t2"], rule exI [of _ "server_established t0 t1 t2 t3"],
        simp add: Connect_bound listener_syn listener_state fork_completes server_fields client_forward server_forward client_fields
          established_fields sk_NextRxSequence_def)
qed

section \<open>Closed windows\<close>

lemma window_zero: "(ucast (w :: u16) :: u32) = 0 \<longleftrightarrow> w = 0"
  using uint_bounded [of w] by (simp add: word_uint_eq_iff unsigned_ucast_eq take_bit_eq_mod mod_pos_pos_trivial)

lemma option_fields:
  "sk_connected (ProcessOptionTimestamp ts s sk) = sk_connected sk" "sk_rWnd (ProcessOptionTimestamp ts s sk) = sk_rWnd sk"
  "sk_connected (ProcessOptionWScale w sk) = sk_connected sk" "sk_rWnd (ProcessOptionWScale w sk) = sk_rWnd sk"
  "sk_persistEvent (ProcessOptionWScale w sk) = sk_persistEvent sk"
  "sk_connected (if b then x else y) = (if b then sk_connected x else sk_connected y)"
  "sk_rWnd (if b then x else y) = (if b then sk_rWnd x else sk_rWnd y)"
  "sk_persistEvent (if b then x else y) = (if b then sk_persistEvent x else sk_persistEvent y)"
  by (simp_all add: ProcessOptionTimestamp_def ProcessOptionWScale_def Let_def upd_tcb_def)

lemma read_syn_plain:
  assumes "\<not> has_flag flag_ACK (sg_flags h)"
  shows "\<exists>k. read_syn now h sk = Inr k \<and> sk_state k = sk_state sk \<and> sk_connected k = sk_connected sk \<and> sk_persistEvent k = sk_persistEvent sk \<and>
    sk_rWnd k = ucast (sg_window h)"
  unfolding read_syn_def Let_def
  by (cases "sg_wscale h"; cases "sg_ts h"; simp only: assms if_False not_False_eq_True option.case sum.inject ex_simps simp_thms)
    (simp_all add: option_fields stamp_fields upd_tcb_def)

text \<open>
  C11: a listening socket that gets a \<^verbatim>\<open>SYN\<close> with window zero, from whatever peer, arms its own persist timer, and the next
  \<^verbatim>\<open>SYN\<close> with a window that is not zero, from whatever peer, fails the assertion that the socket is connected.
\<close>

theorem listener_zero_window_syn:
  assumes "sk_state l = LISTEN" "\<not> sk_connected l" "sk_persistEvent l = None"
    and "has_flag flag_SYN (sg_flags h1)" "\<not> has_flag flag_ACK (sg_flags h1)" "sg_window h1 = 0"
    and "has_flag flag_SYN (sg_flags h2)" "\<not> has_flag flag_ACK (sg_flags h2)" "sg_window h2 \<noteq> 0"
  shows "\<exists>l' f. DoForwardUp env t1 h1 l = Some (Inr (l', f)) \<and> sk_state l' = LISTEN \<and> sk_persistEvent l' = Some (t1 + sk_persistTimeout l') \<and>
    DoForwardUp env t2 h2 l' = Some (Inl Assert_Failed)"
proof -
  obtain k where k: "read_syn t1 h1 l = Inr k" "sk_state k = LISTEN" "\<not> sk_connected k" "sk_persistEvent k = None" "sk_rWnd k = 0"
    using read_syn_plain [OF assms(5), of t1 l] assms by auto
  let ?l' = "k\<lparr>sk_retxEvent := None, sk_persistEvent := Some (t1 + sk_persistTimeout k)\<rparr>"
  have 1: "DoForwardUp env t1 h1 l = Some (Inr (?l', ProcessListen env t1 h1 ?l'))"
    using assms k by (simp add: DoForwardUp_def dispatch_def Let_def)
  obtain m where m: "read_syn t2 h2 ?l' = Inr m" "sk_state m = LISTEN" "\<not> sk_connected m" "sk_persistEvent m = Some (t1 + sk_persistTimeout k)"
      "sk_rWnd m = ucast (sg_window h2)"
    using read_syn_plain [OF assms(8), of t2 ?l'] k by auto
  have "sk_rWnd m \<noteq> 0"
    using assms(9) m(5) by (simp add: window_zero)
  then have "DoForwardUp env t2 h2 ?l' = Some (Inl Assert_Failed)"
    using assms k m by (simp add: DoForwardUp_def dispatch_def Let_def)
  with 1 k show ?thesis by auto
qed

text \<open>A persist timer that expires when there is nothing left to send.\<close>

lemma PersistTimeout_nothing:
  assumes "SizeFromSequence (m_nextTxSequence (sk_tcb sk)) (sk_txBuffer sk) = Inr 0"
    "\<not> seq_gt (tx_firstByteSeq (sk_txBuffer sk)) (m_nextTxSequence (sk_tcb sk))" "int64_range (2 * sk_persistTimeout sk)"
  shows "PersistTimeout now sk = Inl Undefined_Behaviour"
  using assms by (simp add: PersistTimeout_def time_mul_def Let_def CopyFromSequence.simps)

text \<open>A socket that has sent all it had and whose data is all acknowledged.\<close>

definition idle :: "'c sock \<Rightarrow> bool" where
  "idle sk \<longleftrightarrow> sk_state sk = ESTABLISHED \<and> sk_connected sk \<and> sk_sackEnabled sk \<and> m_segmentSize (sk_tcb sk) > 0 \<and> m_congState (sk_tcb sk) = CA_OPEN \<and>
     m_ecnState (sk_tcb sk) = ECN_DISABLED \<and> tx_size (sk_txBuffer sk) = 0 \<and> tx_sentSize (sk_txBuffer sk) = 0 \<and> tx_sackedOut (sk_txBuffer sk) = 0 \<and>
     tx_lostOut (sk_txBuffer sk) = 0 \<and> tx_retrans (sk_txBuffer sk) = 0 \<and> sk_history sk = [] \<and> m_highTxMark (sk_tcb sk) = sk_HeadSequence sk \<and>
     m_nextTxSequence (sk_tcb sk) = sk_HeadSequence sk"

definition closes_window :: "tcp_segment \<Rightarrow> 'c sock \<Rightarrow> bool" where
  "closes_window h sk \<longleftrightarrow> sg_flags h = flag_ACK \<and> sg_sack h = None \<and> sg_payload h = [] \<and> sg_ack h = sk_HeadSequence sk \<and> sg_window h = 0 \<and>
     seq_gt (sg_seq h) (sk_highRxMark sk) \<and> sg_ts h \<noteq> None"

lemma UpdateWindowSize_fields:
  "sk_tcb (UpdateWindowSize h sk) = sk_tcb sk" "sk_txBuffer (UpdateWindowSize h sk) = sk_txBuffer sk"
  "sk_sackEnabled (UpdateWindowSize h sk) = sk_sackEnabled sk" "sk_persistEvent (UpdateWindowSize h sk) = sk_persistEvent sk"
  "sk_persistTimeout (UpdateWindowSize h sk) = sk_persistTimeout sk" "sk_connected (UpdateWindowSize h sk) = sk_connected sk"
  "sk_history (UpdateWindowSize h sk) = sk_history sk"
  by (simp_all add: UpdateWindowSize_def Let_def)

lemma idle_UpdateWindowSize: "idle (UpdateWindowSize h sk) = idle sk"
  by (simp add: idle_def UpdateWindowSize_fields sk_HeadSequence_def)

lemma idle_stamp: "idle (if b then ProcessOptionTimestamp ts s sk else sk) = idle sk"
  by (simp add: idle_def sk_HeadSequence_def stamp_fields option_fields) (simp add: ProcessOptionTimestamp_def Let_def upd_tcb_def)

lemma UpdateWindowSize_closes:
  "sk_state sk = ESTABLISHED \<Longrightarrow> seq_gt (sg_seq h) (sk_highRxMark sk) \<Longrightarrow> sg_window h = 0 \<Longrightarrow> sk_rWnd (UpdateWindowSize h sk) = 0"
  by (simp add: UpdateWindowSize_def Let_def)

lemma read_ack_closes:
  assumes "idle sk" "closes_window h sk"
  shows "\<exists>k. read_ack now h sk = Inr (Some k) \<and> idle k \<and> sk_HeadSequence k = sk_HeadSequence sk \<and>
    sk_persistEvent k = sk_persistEvent sk \<and> sk_persistTimeout k = sk_persistTimeout sk \<and> sk_rWnd k = 0"
proof -
  obtain ts where ts: "sg_ts h = Some ts" using assms(2) by (auto simp: closes_window_def)
  let ?p = "if sk_timestampEnabled sk then ProcessOptionTimestamp ts (sg_seq h) sk else sk"
  have p: "sk_state ?p = ESTABLISHED" "sk_history ?p = []" "sk_highRxMark ?p = sk_highRxMark sk" "sk_persistEvent ?p = sk_persistEvent sk"
      "sk_persistTimeout ?p = sk_persistTimeout sk" "sk_txBuffer ?p = sk_txBuffer sk"
    using assms(1) by (simp_all add: idle_def ProcessOptionTimestamp_def Let_def upd_tcb_def)
  have est: "EstimateRtt now h ?p = Inr ?p"
    using p(2) by (simp add: EstimateRtt_def)
  have "read_ack now h sk = Inr (Some (UpdateWindowSize h ?p))"
    using est by (simp add: read_ack_def ts Let_def split: if_splits)
  moreover have "sk_rWnd (UpdateWindowSize h ?p) = 0"
    by (rule UpdateWindowSize_closes) (use assms(2) p(1,3) in \<open>simp_all add: closes_window_def\<close>)
  moreover have "idle (UpdateWindowSize h ?p)"
    using assms(1) by (simp only: idle_UpdateWindowSize idle_stamp)
  ultimately show ?thesis
    using p by (auto simp: UpdateWindowSize_fields sk_HeadSequence_def)
qed

text \<open>
  C10: when an idle socket, with nothing to send and nothing unacknowledged, is told that the peer's window is closed, it arms the
  persist timer although it has no byte to probe with, and the expiry dereferences the null item that the send buffer returns.
\<close>

theorem zero_window_probe_fails:
  assumes "idle sk" "closes_window h sk" "sk_persistEvent sk = None" "int64_range (2 * sk_persistTimeout sk)"
  shows "\<exists>sk'. DoForwardUp env now h sk = Some (Inr (sk', None)) \<and> sk_persistEvent sk' = Some (now + sk_persistTimeout sk) \<and>
    PersistTimeout t (sk'\<lparr>sk_persistEvent := None\<rparr>) = Inl Undefined_Behaviour"
proof -
  obtain k where k: "read_ack now h sk = Inr (Some k)" "idle k" "sk_HeadSequence k = sk_HeadSequence sk" "sk_persistEvent k = None"
      "sk_persistTimeout k = sk_persistTimeout sk" "sk_rWnd k = 0"
    using read_ack_closes [OF assms(1,2), of now] assms(3) by auto
  let ?m = "k\<lparr>sk_retxEvent := None, sk_persistEvent := Some (now + sk_persistTimeout sk)\<rparr>"
  have h: "sg_flags h = flag_ACK" "sg_sack h = None" "sg_payload h = []" "sg_ack h = sk_HeadSequence sk"
    using assms(2) by (simp_all add: closes_window_def)
  have m: "idle ?m" "sk_HeadSequence ?m = sg_ack h" "sk_rWnd ?m = 0"
    using k h by (simp_all add: idle_def sk_HeadSequence_def)
  have ack: "ReceivedAck env now h ?m = Some (Inr (acked_nothing (sg_ack h) ?m))"
    by (rule ReceivedAck_nothing) (use h m k(2) in \<open>simp_all add: idle_def sk_HeadSequence_def\<close>)
  have "ProcessEstablished env now h ?m = Some (Inr (acked_nothing (sg_ack h) ?m))"
    using m ack by (simp add: ProcessEstablished_def h(1) clear_flags_def set_flag_def Let_def seq_compare_defs idle_def sk_HeadSequence_def)
  then have fwd: "DoForwardUp env now h sk = Some (Inr (acked_nothing (sg_ack h) ?m, None))"
    using k m assms(1) by (simp add: DoForwardUp_def h(1) has_flag_def Let_def dispatch_def idle_def acked_nothing_def upd_tcb_def)
  have size: "SizeFromSequence (tx_firstByteSeq b) b = Inr 0" if "tx_size b = 0" for b
    using that by (simp add: SizeFromSequence_def TailSequence_def seq_ge_def seq_diff_eq)
  have "PersistTimeout t ((acked_nothing (sg_ack h) ?m)\<lparr>sk_persistEvent := None\<rparr>) = Inl Undefined_Behaviour"
    by (rule PersistTimeout_nothing) (use k(2,5) assms(4) in \<open>simp_all add: acked_nothing_def upd_tcb_def idle_def size sk_HeadSequence_def\<close>)
  with fwd show ?thesis by (simp add: acked_nothing_def upd_tcb_def)
qed

text \<open>The server of the handshake, when the client then closes its window.\<close>

lemma zero_window_probe_fails_witness:
  "\<exists>sk'. DoForwardUp quiet_env 40000000 ((ack_segment 10000000 20000000)\<lparr>sg_window := 0\<rparr>) (server_established 0 10000000 20000000 30000000) = Some (Inr (sk', None)) \<and>
    sk_persistEvent sk' = Some (40000000 + sk_persistTimeout (server_established 0 10000000 20000000 30000000)) \<and>
    PersistTimeout 6040000000 (sk'\<lparr>sk_persistEvent := None\<rparr>) = Inl Undefined_Behaviour"
proof (rule zero_window_probe_fails)
  let ?s = "server_established 0 10000000 20000000 30000000"
  show "idle ?s"
    by (simp add: idle_def server_established_def server_consumed_def acked_nothing_def notify_def upd_tcb_def Let_def acked_fields server_fields
      sk_HeadSequence_def)
  show "closes_window ((ack_segment 10000000 20000000)\<lparr>sg_window := 0\<rparr>) ?s"
    by (simp add: closes_window_def ack_segment_def server_established_def server_consumed_def acked_nothing_def notify_def upd_tcb_def Let_def
      acked_fields sk_HeadSequence_def seq_gt_def seq_halfMaxValue_def)
  show "sk_persistEvent ?s = None" by (rule established_fields)
  show "int64_range (2 * sk_persistTimeout ?s)"
    by (simp add: int64_range_def server_established_def server_consumed_def acked_nothing_def notify_def upd_tcb_def Let_def acked_fields)
qed

text \<open>Two \<^verbatim>\<open>SYN\<close> segments for a listening socket with the default attributes.\<close>

lemma listener_zero_window_syn_witness:
  "\<exists>l' f. DoForwardUp quiet_env 10000000 ((syn_segment 0)\<lparr>sg_window := 0\<rparr>) listener = Some (Inr (l', f)) \<and> sk_state l' = LISTEN \<and>
    sk_persistEvent l' = Some (10000000 + sk_persistTimeout l') \<and> DoForwardUp quiet_env 20000000 (syn_segment 0) l' = Some (Inl Assert_Failed)"
  by (rule listener_zero_window_syn) (simp_all add: listener_def Listen_def start_defs syn_segment_def has_flag_def)

section \<open>Closing out of order\<close>

lemma SendEmptyPacket_ACK:
  assumes "rto_from_rtt sk = Inr r" "rx_gotFin (sk_rxBuffer sk)"
  shows "\<exists>sk'. SendEmptyPacket now flag_ACK sk = Inr sk' \<and> sk_state sk' = sk_state sk"
proof -
  have "sk_rxBuffer (sk\<lparr>sk_rto := r\<rparr>) = sk_rxBuffer sk" by simp
  then have "\<exists>w k. AdvertisedWindowSize True (sk\<lparr>sk_rto := r\<rparr>) = Inr (w, k) \<and> sk_state k = sk_state sk"
    using assms(2) by (simp add: AdvertisedWindowSize_def Let_def)
  then obtain w k where "AdvertisedWindowSize True (sk\<lparr>sk_rto := r\<rparr>) = Inr (w, k)" "sk_state k = sk_state sk" by blast
  then show ?thesis
    using assms(1) by (simp add: SendEmptyPacket_def Let_def has_flag_def)
qed

lemma has_ACK_wait: "has_flag flag_ACK (clear_flags (set_flag flag_PSH (set_flag flag_URG (set_flag flag_CWR flag_ECE))) f) = has_flag flag_ACK f"
proof -
  let ?c = "set_flag flag_PSH (set_flag flag_URG (set_flag flag_CWR flag_ECE))"
  have "and (not ?c) flag_ACK = flag_ACK" by (simp add: set_flag_def)
  then have "and (and f (not ?c)) flag_ACK = and f flag_ACK" by (simp only: and.assoc)
  then show ?thesis by (simp only: has_flag_def clear_flags_def)
qed

text \<open>
  C12: data that completes the stream of a socket which has closed its side takes it back to
  \<^verbatim>\<open>CLOSE_WAIT\<close>. The socket is in \<^verbatim>\<open>FIN_WAIT_1\<close> or \<^verbatim>\<open>FIN_WAIT_2\<close> by a call of \<^verbatim>\<open>Close\<close>, so that
  \<^verbatim>\<open>m_shutdownSend\<close> is not set (after \<^verbatim>\<open>ShutdownSend\<close> the result does not apply); the segment does not
  carry the \<^verbatim>\<open>FIN\<close> itself; its payload is accepted by the receive buffer, moves the next expected
  byte forward and reaches the \<^verbatim>\<open>FIN\<close> known from before; and the retransmission timeout computed
  from the round-trip estimate is in range. Then \<^verbatim>\<open>ReceivedData\<close> succeeds and leaves the socket in
  \<^verbatim>\<open>CLOSE_WAIT\<close>. For a segment with payload and without the \<^verbatim>\<open>ACK\<close> flag this is all that the
  handler \<^verbatim>\<open>ProcessWait\<close> of the two states does.
\<close>

theorem late_data_reopens:
  assumes "sk_state sk \<in> {FIN_WAIT_1, FIN_WAIT_2}" "rx_Add seq32_ops (sg_payload h) (sg_seq h) (sk_rxBuffer sk) = Inr (True, rx)"
    and "seq_lt (sk_NextRxSequence sk) (rx_nextRxSeq rx)" "Finished seq32_ops rx" "\<not> has_flag flag_FIN (sg_flags h)"
    and "\<not> sk_shutdownSend sk" "rto_from_rtt sk = Inr r"
  shows "\<exists>sk'. ReceivedData env now h sk = Inr sk' \<and> sk_state sk' = CLOSE_WAIT \<and>
    (sg_payload h \<noteq> [] \<and> \<not> has_flag flag_ACK (sg_flags h) \<longrightarrow> ProcessWait env now h sk = Some (Inr sk'))"
proof -
  let ?k = "if \<not> sk_shutdownRecv sk then notify Data_Received (sk\<lparr>sk_rxBuffer := rx\<rparr>) else sk\<lparr>sk_rxBuffer := rx\<rparr>"
  have k: "sk_state ?k = sk_state sk" "\<not> sk_shutdownSend ?k" "sk_rxBuffer ?k = rx"
    using assms(6) by (simp_all add: notify_def)
  have data: "ReceivedData env now h sk = DoPeerClose now ?k"
    using assms(2-5) by (simp add: ReceivedData_def Let_def sk_NextRxSequence_def)
  let ?c = "?k\<lparr>sk_state := CLOSE_WAIT\<rparr>"
  let ?n = "if \<not> sk_closeNotified ?c then (notify Normal_Close ?c)\<lparr>sk_closeNotified := True\<rparr> else ?c"
  have "rto_from_rtt ?n = Inr r"
    using assms(7) by (simp add: rto_from_rtt_def rto_estimate_def notify_def)
  moreover have "rx_gotFin (sk_rxBuffer ?n)"
    using assms(4) by (simp add: notify_def Finished_def)
  ultimately obtain sk' where "SendEmptyPacket now flag_ACK ?n = Inr sk'" "sk_state sk' = CLOSE_WAIT"
    using SendEmptyPacket_ACK [of ?n r now] by auto
  moreover have "\<not> sk_shutdownSend ?n" "sk_state ?n = CLOSE_WAIT" using k by (simp_all add: notify_def)
  ultimately have "DoPeerClose now ?k = Inr sk'"
    unfolding DoPeerClose_def Let_def using assms(1) k by auto
  with data \<open>sk_state sk' = CLOSE_WAIT\<close> show ?thesis
    by (simp add: ProcessWait_def Let_def has_ACK_wait check_finished_def)
qed

text \<open>The client of the handshake in \<^verbatim>\<open>FIN_WAIT_2\<close>, a \<^verbatim>\<open>FIN\<close> after two missing bytes, then the bytes.\<close>

lemma late_data_reopens_witness:
  "\<exists>sk'. ReceivedData quiet_env 50000000 ((ack_segment 10000000 20000000)\<lparr>sg_payload := [7, 8]\<rparr>)
      ((client_established 0 10000000 20000000)\<lparr>sk_state := FIN_WAIT_2,
        sk_rxBuffer := SetFinSequence seq32_ops 3 (sk_rxBuffer (client_established 0 10000000 20000000))\<rparr>) = Inr sk' \<and> sk_state sk' = CLOSE_WAIT"
  (is "\<exists>sk'. ReceivedData ?env _ ?h ?sk = _ \<and> _")
proof -
  have b: "sk_rxBuffer (client_established 0 10000000 20000000) = SetNextRxSequence 1 (SetMaxBufferSize 131072 (TcpRxBuffer 0))"
    by (simp add: client_established_def client_synack_def measured_def client_syn_sent_def start_defs Let_def)
  have "case rx_Add seq32_ops [7, 8] 1 (SetFinSequence seq32_ops 3 (SetNextRxSequence 1 (SetMaxBufferSize 131072 (TcpRxBuffer 0)))) of
      Inr (True, rx) \<Rightarrow>
        seq_lt (rx_nextRxSeq (SetFinSequence seq32_ops 3 (SetNextRxSequence 1 (SetMaxBufferSize 131072 (TcpRxBuffer 0))))) (rx_nextRxSeq rx) \<and> Finished seq32_ops rx | _ \<Rightarrow> False"
    by code_simp
  then obtain rx where rx: "rx_Add seq32_ops [7, 8] 1 (SetFinSequence seq32_ops 3 (SetNextRxSequence 1 (SetMaxBufferSize 131072 (TcpRxBuffer 0)))) = Inr (True, rx)"
      "seq_lt (rx_nextRxSeq (SetFinSequence seq32_ops 3 (SetNextRxSequence 1 (SetMaxBufferSize 131072 (TcpRxBuffer 0))))) (rx_nextRxSeq rx)"
      "Finished seq32_ops rx"
    by (auto split: sum.splits prod.splits bool.splits)
  have r: "int64_range (4 * (stamp_rtt 0 20000000 div 2))" "int64_range (stamp_rtt 0 20000000 + max 1000000 (4 * (stamp_rtt 0 20000000 div 2)))"
    using first_rto_range [OF stamp_rtt_bounds] by simp_all
  have "\<exists>sk'. ReceivedData ?env 50000000 ?h ?sk = Inr sk' \<and> sk_state sk' = CLOSE_WAIT \<and>
      (sg_payload ?h \<noteq> [] \<and> \<not> has_flag flag_ACK (sg_flags ?h) \<longrightarrow> ProcessWait ?env 50000000 ?h ?sk = Some (Inr sk'))"
    by (rule late_data_reopens [where rx = rx and r = "first_rto (stamp_rtt 0 20000000)"])
      (use rx r in \<open>simp_all add: b ack_segment_def sk_NextRxSequence_def client_fields has_flag_def client_established_def client_synack_def measured_def
        client_syn_sent_def start_defs Let_def rto_from_rtt_def rto_estimate_def time_mul_def time_add_def first_rto_def RttMeanDeviation_def\<close>)
  then show ?thesis by blast
qed

section \<open>The states of a connection\<close>

text \<open>
  C8: whatever segment arrives, whatever it carries and however often, the state of the connection moves only along the given table, in which
  a listening, a closed and a waiting socket stay as they are.
\<close>

theorem segment_transitions:
  "ForwardUp env now n ip tag h sk = Some (Inr (sk', f)) \<Longrightarrow> sk_state sk' \<in> segment_states (sk_state sk)"
  using state_ForwardUp [of sk "\<lambda>(sk', f). sk_state sk' \<in> segment_states (sk_state sk)" env now n ip tag h] by (auto dest: run_yieldsD)

lemma client_segment:
  "ForwardUp quiet_env t2 32 Ipv4Header None (synack_segment t0 t1) (client_syn_sent t0) = Some (Inr (client_established t0 t1 t2, None))"
proof -
  have "IsValidTcpSegment t2 (sg_seq (synack_segment t0 t1)) 32 (of_nat (length (sg_payload (synack_segment t0 t1)))) (client_syn_sent t0) =
      Inr (True, client_syn_sent t0)"
    by (simp add: IsValidTcpSegment_def synack_segment_def)
  moreover have "GetEcn Ipv4Header = ECN_NotECT"
    by (simp add: GetEcn_def Ipv4Header_def)
  moreover have "upd_tcb (forward_up_tag None) sk = sk" for sk :: "unit sock"
    by (simp add: upd_tcb_def forward_up_tag_def)
  ultimately show ?thesis
    by (simp add: ForwardUp_def client_forward)
qed

lemma segment_transitions_witness: "sk_state (client_established 0 10000000 20000000) \<in> segment_states (sk_state (client_syn_sent 0))"
  by (rule segment_transitions [OF client_segment])

text \<open>
  C9: once a connection is under way, no sequence of segments, expiries of its timers and calls of the application other than
  \<^verbatim>\<open>Connect\<close> and \<^verbatim>\<open>Listen\<close> takes it back: its state is the same or a later one.
\<close>

theorem connection_moves_forward:
  "socket_run env sk sk' \<Longrightarrow> sk_state sk' = sk_state sk \<or> stage (sk_state sk) < stage (sk_state sk')"
proof (induction rule: socket_run.induct)
  case (event sk sk' sk'')
  then show ?case using event_forward [OF event.hyps(2)] by (auto simp: forward_def)
qed simp

lemma connection_moves_forward_witness:
  "sk_state (client_established 0 10000000 20000000) = sk_state (client_syn_sent 0) \<or>
   stage (sk_state (client_syn_sent 0)) < stage (sk_state (client_established 0 10000000 20000000))"
  by (rule connection_moves_forward [where env = quiet_env])
    (rule socket_run.event [OF socket_run.start socket_event.segment [OF client_segment]])

end
