(* ===== verification/Tcp_Sending.thy ===== *)
theory Tcp_Sending
  imports Tcp_Connection
begin

text \<open>
  What \<^verbatim>\<open>SendPendingData\<close> (\<^verbatim>\<open>src/src/internet/model/tcp-socket-base.cc\<close>) sends while nothing is marked lost: new data of the stream, in
  order, within the window, in finitely many rounds.
\<close>

section \<open>Results that are returned\<close>

definition gives :: "'a res \<Rightarrow> ('a \<Rightarrow> bool) \<Rightarrow> bool" where
  "gives m P \<longleftrightarrow> (\<exists>x. m = Inr x \<and> P x)"

named_theorems gv "what an operation returns"

lemma gives_simps [simp]:
  "\<not> gives (Inl e) P" "gives (Inr x) P \<longleftrightarrow> P x"
  "gives (if b then m else m') P \<longleftrightarrow> (if b then gives m P else gives m' P)"
  by (auto simp: gives_def)

lemma gives_bind [simp]: "gives (bind_res m f) P \<longleftrightarrow> gives m (\<lambda>x. gives (f x) P)"
  by (cases m) (auto simp: gives_def)

lemma givesI: "m = Inr x \<Longrightarrow> P x \<Longrightarrow> gives m P"
  by (simp add: gives_def)

lemma gives_mono: "gives m Q \<Longrightarrow> (\<And>x. Q x \<Longrightarrow> P x) \<Longrightarrow> gives m P"
  by (auto simp: gives_def)

section \<open>A sender with nothing lost\<close>

abbreviation sent_bytes :: "'c sock \<Rightarrow> nat" where
  "sent_bytes sk \<equiv> tbytes (tx_sentList (sk_txBuffer sk))"

abbreviation stream :: "'c sock \<Rightarrow> bytes" where
  "stream sk \<equiv> tx_content (sk_txBuffer sk)"

text \<open>The bytes in flight, as a number.\<close>

definition flight :: "tx_buffer \<Rightarrow> nat" where
  "flight b = tbytes (tx_sentList b) + flagged ti_retrans (tx_sentList b) - (flagged ti_sacked (tx_sentList b) + flagged ti_lost (tx_sentList b))"

definition window_open :: "seq rx_buffer \<Rightarrow> bool" where
  "window_open rx \<longleftrightarrow> rx_gotFin rx \<or> (\<exists>d\<ge>0. seq_diff (MaxRxSequence seq32_ops rx) (rx_nextRxSeq rx) = Inr d)"

definition tx_ready :: "u32 \<Rightarrow> tx_buffer \<Rightarrow> bool" where
  "tx_ready seg b \<longleftrightarrow> tx_inv b \<and> (\<forall>t\<in>set (tx_sentList b). \<not> ti_lost t) \<and> tx_segmentSize b = seg"

definition ready :: "'c sock \<Rightarrow> bool" where
  "ready sk \<longleftrightarrow> tx_ready (m_segmentSize (sk_tcb sk)) (sk_txBuffer sk) \<and> m_segmentSize (sk_tcb sk) > 0 \<and> m_congState (sk_tcb sk) \<noteq> CA_RECOVERY \<and>
     m_highTxMark (sk_tcb sk) = sk_HeadSequence sk + of_nat (sent_bytes sk) \<and>
     seq_off (sk_HeadSequence sk) (m_nextTxSequence (sk_tcb sk)) < 2 ^ 31 \<and> sk_highRxAckMark sk = sk_HeadSequence sk \<and>
     unat (sk_rWnd sk) < 2 ^ 31 \<and> window_open (sk_rxBuffer sk)"

text \<open>What the sending of data leaves as it is.\<close>

definition control :: "'c sock \<Rightarrow> u32 \<times> seq \<times> seq rx_buffer \<times> bool \<times> bool \<times> bool \<times> u32 \<times> u32 \<times> cong_state \<times> bool" where
  "control sk = (sk_rWnd sk, sk_highRxAckMark sk, sk_rxBuffer sk, sk_sackEnabled sk, sk_limitedTx sk, sk_noDelay sk,
     m_cWnd (sk_tcb sk), m_segmentSize (sk_tcb sk), m_congState (sk_tcb sk), sk_endPoint sk)"

lemma no_lost: "(\<forall>t\<in>set l. \<not> ti_lost t) \<Longrightarrow> flagged ti_lost l = 0"
  by (induction l) auto

lemma next_scan_no_loss: "(\<forall>t\<in>set l. \<not> ti_lost t) \<Longrightarrow> next_scan b False cur r False l = Inr None"
  by (induction l arbitrary: cur) auto

lemma tx_ready_core: "tx_ready seg b \<Longrightarrow> tx_core b"
  by (simp add: tx_ready_def tx_inv_def)

lemma sent_le: "tx_core b \<Longrightarrow> tbytes (tx_sentList b) \<le> length (tx_content b)"
  by simp

lemma BytesInFlight_flight: "tx_core b \<Longrightarrow> \<exists>n. BytesInFlight b = Inr n \<and> unat n = flight b"
  using in_flight [of b] by (auto simp: flight_def)

lemma NextSeg_new:
  assumes "tx_ready seg b"
  shows "NextSeg rWnd False b = Inr (if tbytes (tx_sentList b) < length (tx_content b) \<and> tbytes (tx_sentList b) < unat rWnd
    then Some (tx_firstByteSeq b + of_nat (tbytes (tx_sentList b)),
      tx_firstByteSeq b + of_nat (tbytes (tx_sentList b)) + min seg (rWnd - of_nat (tbytes (tx_sentList b)))) else None)"
proof -
  let ?p = "tbytes (tx_sentList b)"
  have core: "tx_core b" using assms by (rule tx_ready_core)
  have p: "tx_sentSize b = of_nat ?p" "unat (tx_sentSize b) = ?p"
    using core sizes_exact(2) [OF core] by (simp_all add: tx_core_def)
  have scan: "next_scan b False (tx_firstByteSeq b) 0 False (tx_sentList b) = Inr None"
    using assms by (intro next_scan_no_loss) (simp add: tx_ready_def)
  have size: "SizeFromSequence (tx_firstByteSeq b + of_nat ?p) b = Inr (of_nat (length (tx_content b) - ?p))"
    by (rule size_from [OF core sent_le [OF core]])
  have "length (tx_content b) - ?p < 2 ^ 31" using flagged_bound(1) [OF core] by simp
  then have "(of_nat (length (tx_content b) - ?p) :: u32) > 0 \<longleftrightarrow> ?p < length (tx_content b)"
    using small_unat [of "length (tx_content b) - ?p"] by (simp add: word_less_nat_alt)
  moreover have "tx_sentSize b < rWnd \<longleftrightarrow> ?p < unat rWnd" using p(2) by (simp add: word_less_nat_alt)
  ultimately show ?thesis
    using assms by (simp add: NextSeg_def scan p(1) size Let_def tx_ready_def)
qed

section \<open>One segment of new data\<close>

lemma same_rate:
  assumes "\<not> ti_sacked t"
  shows "same_items (pre @ t # post) r n (pre @ t\<lparr>ti_rate := ri\<rparr> # post) r n"
  using assms by (auto simp: same_items_def hd_append)

lemma take_min_length: "take (min n (length xs)) xs = take n xs"
  by (simp add: min_def)

text \<open>What \<^verbatim>\<open>SkbSent\<close> does to the buffer after a copy of new data.\<close>

lemma copy_new_ready:
  assumes ready: "tx_ready seg b" and p: "tbytes (tx_sentList b) < length (tx_content b)" and n: "n > 0"
  shows "\<exists>t b'. CopyFromSequence now n (tx_firstByteSeq b + of_nat (tbytes (tx_sentList b))) b = Inr (Some t, b') \<and> \<not> ti_retrans t \<and>
    length (ti_packet t) = min (unat n) (length (tx_content b) - tbytes (tx_sentList b)) \<and>
    ti_packet t = take (unat n) (drop (tbytes (tx_sentList b)) (tx_content b)) \<and>
    (\<forall>ri. let b'' = b'\<lparr>tx_sentList := replace_item (t\<lparr>ti_rate := ri\<rparr>) (tx_sentList b')\<rparr>
      in tx_ready seg b'' \<and> tx_content b'' = tx_content b \<and> tx_firstByteSeq b'' = tx_firstByteSeq b \<and> tx_maxBuffer b'' = tx_maxBuffer b \<and>
         tbytes (tx_sentList b'') = tbytes (tx_sentList b) + length (ti_packet t) \<and> flight b'' = flight b + length (ti_packet t))"
proof -
  let ?p = "tbytes (tx_sentList b)"
  let ?m = "min (unat n) (length (tx_content b) - ?p)"
  have inv: "tx_inv b" using ready by (simp add: tx_ready_def)
  have core: "tx_core b" using inv by (simp add: tx_inv_def)
  have "0 < unat n" using n by (simp add: word_less_nat_alt)
  then have pos: "0 < ?m" using p by linarith
  have app: "tbytes (tx_appList b) = length (tx_content b) - ?p" by simp
  have "copied ?p ?m b (CopyFromSequence now n (tx_firstByteSeq b + of_nat ?p) b)"
    by (rule copy_new [OF inv pos]) (simp only: app)
  then obtain t b' where c: "CopyFromSequence now n (tx_firstByteSeq b + of_nat ?p) b = Inr (Some t, b')" "tx_inv b'" "tx_content b' = tx_content b"
      "tx_firstByteSeq b' = tx_firstByteSeq b" "ti_packet t = take (length (ti_packet t)) (drop ?p (tx_content b))"
      "length (ti_packet t) = ?m" "tx_sentList b' = tx_sentList b @ [t]" "same_frame b b'" "clean t"
    unfolding copied_def by (auto simp del: length_append)
  have packet: "ti_packet t = take (unat n) (drop ?p (tx_content b))"
  proof -
    have "take ?m (drop ?p (tx_content b)) = take (unat n) (drop ?p (tx_content b))"
      using take_min_length [of "unat n" "drop ?p (tx_content b)"] by (simp only: length_drop)
    then show ?thesis using c(5) unfolding c(6) by (rule trans [rotated])
  qed
  have "let b'' = b'\<lparr>tx_sentList := replace_item (t\<lparr>ti_rate := ri\<rparr>) (tx_sentList b')\<rparr>
      in tx_ready seg b'' \<and> tx_content b'' = tx_content b \<and> tx_firstByteSeq b'' = tx_firstByteSeq b \<and> tx_maxBuffer b'' = tx_maxBuffer b \<and>
         tbytes (tx_sentList b'') = ?p + length (ti_packet t) \<and> flight b'' = flight b + length (ti_packet t)" for ri
  proof -
    let ?t = "t\<lparr>ti_rate := ri\<rparr>"
    have core': "tx_core b'" using c(2) by (simp add: tx_inv_def)
    have rep: "replace_item ?t (tx_sentList b') = tx_sentList b @ [?t]"
      using replace_item_at [of "tx_nextId b'" "tx_sentList b" t "[]" ?t] core_ids [OF core'] by (simp add: c(7))
    have "tx_inv (b'\<lparr>tx_sentList := tx_sentList b @ [?t], tx_retrans := tx_retrans b', tx_nextId := tx_nextId b'\<rparr>)"
      by (rule inv_sent [OF c(2)], unfold c(7), rule same_rate) (use c(9) in \<open>simp add: clean_def\<close>)
    then have "tx_inv (b'\<lparr>tx_sentList := tx_sentList b @ [?t]\<rparr>)" by simp
    moreover have "\<forall>x\<in>set (tx_sentList b @ [?t]). \<not> ti_lost x" using ready c(9) by (auto simp: tx_ready_def clean_def)
    moreover have "tx_content (b'\<lparr>tx_sentList := tx_sentList b @ [?t]\<rparr>) = tx_content b" using c(3) by (simp add: c(7))
    moreover have "flight (b'\<lparr>tx_sentList := tx_sentList b @ [?t]\<rparr>) = flight b + length (ti_packet t)"
      using c(9) flags_fit [OF core] by (simp add: flight_def clean_def)
    ultimately show ?thesis
      using ready c(4,8) unfolding rep by (simp add: Let_def tx_ready_def same_frame_def)
  qed
  then show ?thesis using c(1,6,9) packet by (auto simp: clean_def)
qed

lemma control_simps [simp]:
  "control (sk\<lparr>sk_txBuffer := tx\<rparr>) = control sk" "control (sk\<lparr>sk_rateOps := ro\<rparr>) = control sk" "control (sk\<lparr>sk_advWnd := w\<rparr>) = control sk"
  "control (sk\<lparr>sk_retxEvent := re\<rparr>) = control sk" "control (sk\<lparr>sk_history := hi\<rparr>) = control sk" "control (sk\<lparr>sk_recovery := rv\<rparr>) = control sk"
  "control (sk\<lparr>sk_delAckEvent := da, sk_delAckCount := dc\<rparr>) = control sk" "control (SendPacket h sk) = control sk"
  "control (sk\<lparr>sk_state := st\<rparr>) = control sk" "control (sk\<lparr>sk_ecnCWRSeq := q\<rparr>) = control sk" "control (sk\<lparr>sk_cong := c\<rparr>) = control sk"
  "control (sk\<lparr>sk_sendPendingDataEvent := pe\<rparr>) = control sk"
  "control (upd_tcb (m_ecnState_update fe) sk) = control sk" "control (upd_tcb (m_bytesInFlight_update fb) sk) = control sk"
  "control (upd_tcb (m_nextTxSequence_update fn) sk) = control sk" "control (upd_tcb (m_highTxMark_update fm) sk) = control sk"
  "control (upd_tcb (\<lambda>t. t\<lparr>m_isCwndLimited := g t\<rparr>) sk) = control sk" "control (upd_tcb (\<lambda>t. t\<lparr>m_highTxMark := u t\<rparr>) sk) = control sk"
  "control (upd_tcb (\<lambda>t. t\<lparr>m_nextTxSequence := u t\<rparr>) sk) = control sk"
  "control (if b then sk else sk') = (if b then control sk else control sk')"
  by (simp_all add: control_def upd_tcb_def SendPacket_def)

lemma control_data_flags [simp]: "control (snd (data_flags s a r n sk)) = control sk"
  by (simp add: data_flags_def Let_def)

lemma upd_tcb_fields [simp]:
  "sk_tcb (upd_tcb f sk) = f (sk_tcb sk)" "sk_txBuffer (upd_tcb f sk) = sk_txBuffer sk" "sk_out (upd_tcb f sk) = sk_out sk"
  "sk_tcb (SendPacket h sk) = sk_tcb sk" "sk_txBuffer (SendPacket h sk) = sk_txBuffer sk" "sk_out (SendPacket h sk) = sk_out sk @ [h]"
  by (simp_all add: upd_tcb_def SendPacket_def)

lemma data_flags_fields [simp]:
  "sk_txBuffer (snd (data_flags s a r n sk)) = sk_txBuffer sk" "sk_out (snd (data_flags s a r n sk)) = sk_out sk"
  "m_nextTxSequence (sk_tcb (snd (data_flags s a r n sk))) = m_nextTxSequence (sk_tcb sk)"
  "m_highTxMark (sk_tcb (snd (data_flags s a r n sk))) = m_highTxMark (sk_tcb sk)"
  by (simp_all add: data_flags_def Let_def)

lemma gives_BytesInFlight [gv]:
  assumes "tx_core (sk_txBuffer sk)" and P: "\<And>n. unat n = flight (sk_txBuffer sk) \<Longrightarrow> P (n, upd_tcb (\<lambda>t. t\<lparr>m_bytesInFlight := n\<rparr>) sk)"
  shows "gives (sk_BytesInFlight sk) P"
  using BytesInFlight_flight [OF assms(1)] P by (auto simp: sk_BytesInFlight_def)

lemma gives_AdvertisedWindowSize [gv]:
  assumes "window_open (sk_rxBuffer sk)" and P: "\<And>w v. P (w, sk\<lparr>sk_advWnd := v\<rparr>)"
  shows "gives (AdvertisedWindowSize True sk) P"
  using assms by (auto simp: AdvertisedWindowSize_def window_open_def sk_NextRxSequence_def Let_def)

lemma control_rx: "control sk' = control sk \<Longrightarrow> sk_rxBuffer sk' = sk_rxBuffer sk \<and> sk_rWnd sk' = sk_rWnd sk \<and> sk_highRxAckMark sk' = sk_highRxAckMark sk \<and> sk_endPoint sk' = sk_endPoint sk"
  by (simp add: control_def)

text \<open>The segment goes out once; the buffer, the stream and the marks are as the copy leaves them.\<close>

lemma SendDataPacket_new:
  fixes sk :: "'c sock"
  defines "b \<equiv> sk_txBuffer sk"
  defines "p \<equiv> tbytes (tx_sentList b)"
  assumes ready: "tx_ready seg b" and rx: "window_open (sk_rxBuffer sk)" and mark: "sk_highRxAckMark sk = tx_firstByteSeq b"
    and high: "m_highTxMark (sk_tcb sk) = tx_firstByteSeq b + of_nat p"
    and p: "p < length (tx_content b)" and n: "n > 0" "p + unat n \<le> unat (sk_rWnd sk)" "unat (sk_rWnd sk) < 2 ^ 31"
    and ep: "sk_endPoint sk"
  shows "gives (SendDataPacket now (tx_firstByteSeq b + of_nat p) n withAck sk) (\<lambda>(sz, sk').
    let k = min (unat n) (length (tx_content b) - p)
    in sz = of_nat k \<and> control sk' = control sk \<and> tx_ready seg (sk_txBuffer sk') \<and> tx_content (sk_txBuffer sk') = tx_content b \<and>
       tx_firstByteSeq (sk_txBuffer sk') = tx_firstByteSeq b \<and> tx_maxBuffer (sk_txBuffer sk') = tx_maxBuffer b \<and>
       tbytes (tx_sentList (sk_txBuffer sk')) = p + k \<and> flight (sk_txBuffer sk') = flight b + k \<and>
       m_highTxMark (sk_tcb sk') = tx_firstByteSeq b + of_nat (p + k) \<and> m_nextTxSequence (sk_tcb sk') = m_nextTxSequence (sk_tcb sk) \<and>
       (\<exists>h. sk_out sk' = sk_out sk @ [h] \<and> sg_seq h = tx_firstByteSeq b + of_nat p \<and> sg_payload h = take k (drop p (tx_content b))))"
proof -
  let ?k = "min (unat n) (length (tx_content b) - p)"
  let ?s = "tx_firstByteSeq b + of_nat p"
  obtain t b' where c: "CopyFromSequence now n ?s b = Inr (Some t, b')" "\<not> ti_retrans t" "length (ti_packet t) = ?k"
      "ti_packet t = take (unat n) (drop p (tx_content b))"
    and c': "\<And>ri. let b'' = b'\<lparr>tx_sentList := replace_item (t\<lparr>ti_rate := ri\<rparr>) (tx_sentList b')\<rparr>
      in tx_ready seg b'' \<and> tx_content b'' = tx_content b \<and> tx_firstByteSeq b'' = tx_firstByteSeq b \<and> tx_maxBuffer b'' = tx_maxBuffer b \<and>
         tbytes (tx_sentList b'') = p + length (ti_packet t) \<and> flight b'' = flight b + length (ti_packet t)"
    using copy_new_ready [OF ready _ n(1), of now] p unfolding p_def by blast
  have core: "tx_core b" using ready by (rule tx_ready_core)
  have tb: "sk_txBuffer sk = b" by (simp add: b_def)
  obtain f0 where f0: "sk_BytesInFlight sk = Inr (f0, upd_tcb (\<lambda>t. t\<lparr>m_bytesInFlight := f0\<rparr>) sk)"
    using BytesInFlight_flight [OF core] by (auto simp: sk_BytesInFlight_def tb)
  let ?sk1 = "upd_tcb (\<lambda>t. t\<lparr>m_bytesInFlight := f0\<rparr>) sk"
  obtain ri ro where ri: "SkbSent now t (f0 = 0) (sk_rateOps ?sk1) = (t\<lparr>ti_rate := ri\<rparr>, ro)"
    by (auto simp: SkbSent_def Let_def)
  define b2 where "b2 = b'\<lparr>tx_sentList := replace_item (t\<lparr>ti_rate := ri\<rparr>) (tx_sentList b')\<rparr>"
  have b2: "tx_ready seg b2" "tx_content b2 = tx_content b" "tx_firstByteSeq b2 = tx_firstByteSeq b" "tx_maxBuffer b2 = tx_maxBuffer b"
      "tbytes (tx_sentList b2) = p + ?k" "flight b2 = flight b + ?k"
    using c' [of ri] unfolding b2_def [symmetric] Let_def c(3) by blast+
  define sk2 where "sk2 = ?sk1\<lparr>sk_txBuffer := b2, sk_rateOps := ro\<rparr>"
  have skb: "skb_sent now t (f0 = 0) (?sk1\<lparr>sk_txBuffer := b'\<rparr>) = sk2"
    using ri by (simp add: skb_sent_def sk2_def b2_def)
  have sk2: "control sk2 = control sk" "sk_txBuffer sk2 = b2" "sk_out sk2 = sk_out sk" "m_highTxMark (sk_tcb sk2) = ?s"
      "m_nextTxSequence (sk_tcb sk2) = m_nextTxSequence (sk_tcb sk)"
    by (simp_all add: sk2_def high)
  have mark2: "sk_highRxAckMark sk2 = tx_firstByteSeq b" "sk_rWnd sk2 = sk_rWnd sk"
    using control_rx [OF sk2(1)] mark by simp_all
  have size: "\<exists>m. SizeFromSequence (?s + item_size t) b2 = Inr m"
  proof -
    have "p + ?k \<le> length (tx_content b2)" using p unfolding b2(2) by linarith
    from size_from [OF tx_ready_core [OF b2(1)] this] show ?thesis unfolding b2(3) c(3) of_nat_add add.assoc by blast
  qed
  then obtain remaining where size: "SizeFromSequence (?s + item_size t) b2 = Inr remaining" by blast
  have "p + unat n < 2 ^ 31" using n(2,3) by linarith
  then have guard: "seq_ge (sk_highRxAckMark sk2 + sk_rWnd sk2) (?s + n)"
    using pos_cmp(4) [of "unat (sk_rWnd sk)" "p + unat n" "tx_firstByteSeq b"] n(2,3) by (simp add: mark2 add.assoc)
  define sk3 where "sk3 = (if withAck then sk2\<lparr>sk_delAckEvent := None, sk_delAckCount := 0\<rparr> else sk2)"
  have sk3: "control sk3 = control sk" "sk_txBuffer sk3 = b2" "sk_out sk3 = sk_out sk" "m_highTxMark (sk_tcb sk3) = ?s"
      "m_nextTxSequence (sk_tcb sk3) = m_nextTxSequence (sk_tcb sk)"
    using sk2 by (simp_all add: sk3_def)
  obtain flags sk4 where df: "data_flags ?s withAck False remaining sk3 = (flags, sk4)" by fastforce
  have sk4: "control sk4 = control sk" "sk_txBuffer sk4 = b2" "sk_out sk4 = sk_out sk" "m_highTxMark (sk_tcb sk4) = ?s"
      "m_nextTxSequence (sk_tcb sk4) = m_nextTxSequence (sk_tcb sk)"
    using sk3 control_data_flags [of ?s withAck False remaining sk3] data_flags_fields [where s = ?s and a = withAck and r = False and n = remaining and sk = sk3]
    by (simp_all add: df)
  have "window_open (sk_rxBuffer sk4)" using control_rx [OF sk4(1)] rx by simp
  have ep4: "sk_endPoint sk4" using control_rx [OF sk4(1)] ep by simp
  from \<open>window_open (sk_rxBuffer sk4)\<close> have "gives (AdvertisedWindowSize True sk4) (\<lambda>x. \<exists>w v. x = (w, sk4\<lparr>sk_advWnd := v\<rparr>))"
    by (rule gives_AdvertisedWindowSize) blast
  then obtain w v where adv: "AdvertisedWindowSize True sk4 = Inr (w, sk4\<lparr>sk_advWnd := v\<rparr>)"
    unfolding gives_def by blast
  define h where "h = AddOptions now (sk4\<lparr>sk_advWnd := v\<rparr>) \<lparr>sg_flags = flags, sg_seq = ?s, sg_ack = sk_NextRxSequence (sk4\<lparr>sk_advWnd := v\<rparr>), sg_window = w,
      sg_ts = None, sg_sack = None, sg_wscale = None, sg_sackPermitted = False, sg_payload = ti_packet t\<rparr>"
  have h: "sg_seq h = ?s" "sg_payload h = ti_packet t" by (simp_all add: h_def AddOptions_def)
  define sk5 where "sk5 = SendPacket h (let sk = sk4\<lparr>sk_advWnd := v\<rparr> in
      if sk_retxEvent sk = None then sk\<lparr>sk_retxEvent := Some (now + sk_rto sk, Call_ReTxTimeout)\<rparr> else sk)"
  have sk5: "control sk5 = control sk" "sk_txBuffer sk5 = b2" "sk_out sk5 = sk_out sk @ [h]" "m_highTxMark (sk_tcb sk5) = ?s"
      "m_nextTxSequence (sk_tcb sk5) = m_nextTxSequence (sk_tcb sk)"
    using sk4 by (simp_all add: sk5_def Let_def)
  obtain f1 where f1: "sk_BytesInFlight sk5 = Inr (f1, upd_tcb (\<lambda>t. t\<lparr>m_bytesInFlight := f1\<rparr>) sk5)"
    using BytesInFlight_flight [OF tx_ready_core [OF b2(1)]] by (auto simp: sk_BytesInFlight_def sk5)
  have "p + ?k < 2 ^ 31" "p < 2 ^ 31" using \<open>p + unat n < 2 ^ 31\<close> by (auto simp: min_def)
  then have lt: "\<not> seq_lt (?s + item_size t) ?s"
    using pos_cmp(1) [of "p + ?k" p "tx_firstByteSeq b"] c(3) by (simp add: add.assoc)
  define fin where "fin = (let sk = upd_tcb (\<lambda>t. t\<lparr>m_bytesInFlight := f1\<rparr>) sk5; sk = upd_tcb (\<lambda>t. t\<lparr>m_isCwndLimited := (m_cWnd t < f1 + m_segmentSize t)\<rparr>) sk;
      sk = sk\<lparr>sk_history := UpdateRttHistory now ?s (item_size t) False (sk_history sk)\<rparr>;
      sk = (if m_congState (sk_tcb sk) = CA_RECOVERY \<or> m_congState (sk_tcb sk) = CA_CWR
            then sk\<lparr>sk_recovery := rec_UpdateBytesSent (item_size t) (sk_recovery sk)\<rparr> else sk)
    in upd_tcb (\<lambda>x. x\<lparr>m_highTxMark := (if seq_lt (?s + item_size t) (m_highTxMark x) then m_highTxMark x else ?s + item_size t)\<rparr>) sk)"
  have fin: "control fin = control sk" "sk_txBuffer fin = b2" "sk_out fin = sk_out sk @ [h]" "m_highTxMark (sk_tcb fin) = ?s + item_size t"
      "m_nextTxSequence (sk_tcb fin) = m_nextTxSequence (sk_tcb sk)"
    using sk5 lt by (simp_all add: fin_def Let_def)
  have sk3: "(if withAck then (skb_sent now t (f0 = 0) (?sk1\<lparr>sk_txBuffer := b'\<rparr>))\<lparr>sk_delAckEvent := None, sk_delAckCount := 0\<rparr>
      else skb_sent now t (f0 = 0) (?sk1\<lparr>sk_txBuffer := b'\<rparr>)) = sk3"
    by (simp only: skb sk3_def)
  have sk5_eq: "SendPacket h (if sk_retxEvent sk4 = None then (sk4\<lparr>sk_advWnd := v\<rparr>)\<lparr>sk_retxEvent := Some (now + sk_rto (sk4\<lparr>sk_advWnd := v\<rparr>), Call_ReTxTimeout)\<rparr>
      else sk4\<lparr>sk_advWnd := v\<rparr>) = sk5"
    by (simp add: sk5_def Let_def)
  have send: "SendDataPacket now ?s n withAck sk = Inr (item_size t, fin)"
    unfolding SendDataPacket_def
    using f0 c(1,2) skb size guard df adv f1 ep4
    by (simp add: tb sk2(2) Let_def fin_def sk3 h_def [symmetric] sk5_eq split del: if_split)
  have pay: "sg_payload h = take ?k (drop p (tx_content b))"
    using take_min_length [of "unat n" "drop p (tx_content b)"] c(4) by (simp only: h length_drop)
  show ?thesis
    by (rule givesI [OF send], simp only: prod.case Let_def fin b2 c(3) of_nat_add add.assoc, intro conjI exI [of _ h])
      (simp_all only: b2(1) h(1) pay)
qed

section \<open>What the application adds\<close>

text \<open>The state after the application has been told of free space: data may have been appended, nothing else that matters has changed.\<close>

definition queued :: "'c sock \<Rightarrow> 'c sock \<Rightarrow> bool" where
  "queued sk sk' \<longleftrightarrow> control sk' = control sk \<and> tx_sentList (sk_txBuffer sk') = tx_sentList (sk_txBuffer sk) \<and>
     tx_firstByteSeq (sk_txBuffer sk') = tx_firstByteSeq (sk_txBuffer sk) \<and> tx_maxBuffer (sk_txBuffer sk') = tx_maxBuffer (sk_txBuffer sk) \<and>
     (\<forall>seg. tx_ready seg (sk_txBuffer sk) \<longrightarrow> tx_ready seg (sk_txBuffer sk')) \<and> sk_out sk' = sk_out sk \<and>
     m_nextTxSequence (sk_tcb sk') = m_nextTxSequence (sk_tcb sk) \<and> m_highTxMark (sk_tcb sk') = m_highTxMark (sk_tcb sk) \<and>
     (\<exists>extra. stream sk' = stream sk @ extra)"

lemma queued_refl [simp]: "queued sk sk"
  by (simp add: queued_def)

lemma queued_trans: "queued sk sk' \<Longrightarrow> queued sk' sk'' \<Longrightarrow> queued sk sk''"
  unfolding queued_def by (metis append.assoc)

lemma queued_same:
  "control sk' = control sk \<Longrightarrow> sk_txBuffer sk' = sk_txBuffer sk \<Longrightarrow> sk_out sk' = sk_out sk \<Longrightarrow>
   m_nextTxSequence (sk_tcb sk') = m_nextTxSequence (sk_tcb sk) \<Longrightarrow> m_highTxMark (sk_tcb sk') = m_highTxMark (sk_tcb sk) \<Longrightarrow> queued sk sk'"
  by (simp add: queued_def)

lemma tx_Add_ready:
  assumes "tx_inv b" "length p < 2 ^ 32"
  shows "tx_ready seg b \<Longrightarrow> tx_ready seg (snd (tx_Add p b))" "tx_sentList (snd (tx_Add p b)) = tx_sentList b"
    "tx_maxBuffer (snd (tx_Add p b)) = tx_maxBuffer b"
  using Add_inv(2) [OF assms] by (auto simp: tx_ready_def tx_Add_def)

lemma tail_next:
  assumes "tx_core b" "seq_off (tx_firstByteSeq b) q < 2 ^ 31"
  shows "\<exists>d. seq_diff (TailSequence b) q = Inr d"
proof -
  have len: "length (tx_content b) < 2 ^ 31" using flagged_bound(1) [OF assms(1)] .
  have "TailSequence b = tx_firstByteSeq b + of_nat (length (tx_content b))" using assms(1) by (simp only: TailSequence_def tx_core_def)
  then have "seq_off (tx_firstByteSeq b) (TailSequence b) = length (tx_content b)" using small_unat [OF len] by (simp add: seq_off_def)
  then show ?thesis using seq_diff_off [of "tx_firstByteSeq b" "TailSequence b" q] assms(2) len by auto
qed

lemma gives_Send:
  assumes inv: "tx_inv (sk_txBuffer sk)" and p: "length p < 2 ^ 32" and nxt: "seq_off (sk_HeadSequence sk) (m_nextTxSequence (sk_tcb sk)) < 2 ^ 31"
  shows "gives (sk_Send now p sk) (\<lambda>(ok, sk'). queued sk sk' \<and> tx_inv (sk_txBuffer sk'))"
proof (cases "sk_state sk = ESTABLISHED \<or> sk_state sk = SYN_SENT \<or> sk_state sk = CLOSE_WAIT")
  case True
  obtain added tx where tx: "tx_Add p (sk_txBuffer sk) = (added, tx)" by fastforce
  note a = Add_inv [OF inv p] tx_Add_ready [OF inv p]
  let ?sk = "sk\<lparr>sk_txBuffer := tx\<rparr>"
  have invtx: "tx_inv tx" using a(2) by (simp add: tx)
  have q: "queued sk ?sk" using a(3-7) by (simp add: queued_def tx)
  have q': "queued sk k" if "control k = control sk" "sk_txBuffer k = tx" "sk_out k = sk_out sk" "m_nextTxSequence (sk_tcb k) = m_nextTxSequence (sk_tcb sk)"
      "m_highTxMark (sk_tcb k) = m_highTxMark (sk_tcb sk)" for k
    by (rule queued_trans [OF q]) (use that in \<open>simp add: queued_same\<close>)
  have core: "tx_core tx" using invtx by (simp add: tx_inv_def)
  have "tx_firstByteSeq tx = sk_HeadSequence sk" using a(4) by (simp add: tx sk_HeadSequence_def)
  then obtain d where d: "seq_diff (TailSequence tx) (m_nextTxSequence (sk_tcb sk)) = Inr d"
    using tail_next [OF core] nxt by metis
  then obtain ro where ro: "CalculateAppLimited (m_cWnd (sk_tcb sk)) (m_bytesInFlight (sk_tcb sk)) (m_segmentSize (sk_tcb sk)) (TailSequence tx)
      (m_nextTxSequence (sk_tcb sk)) (tx_lostOut tx) (tx_retrans tx) (sk_rateOps ?sk) = Inr ro"
    by (auto simp: CalculateAppLimited_def)
  obtain f where f: "sk_BytesInFlight (?sk\<lparr>sk_rateOps := ro\<rparr>) = Inr (f, upd_tcb (\<lambda>t. t\<lparr>m_bytesInFlight := f\<rparr>) (?sk\<lparr>sk_rateOps := ro\<rparr>))"
    using BytesInFlight_flight [OF core] by (auto simp: sk_BytesInFlight_def)
  show ?thesis
    using True ro f q invtx inv
    by (auto simp: sk_Send_def tx Let_def AvailableWindow_def intro!: q')
qed (simp add: sk_Send_def inv)

definition app_ok :: "'c env \<Rightarrow> bool" where
  "app_ok env \<longleftrightarrow> (\<forall>sk. \<forall>p\<in>set (env_app env sk). length p < 2 ^ 32)"

lemma gives_send_all:
  assumes "tx_inv (sk_txBuffer sk)" "\<forall>p\<in>set ps. length p < 2 ^ 32" "seq_off (sk_HeadSequence sk) (m_nextTxSequence (sk_tcb sk)) < 2 ^ 31"
  shows "gives (send_all now ps sk) (\<lambda>sk'. queued sk sk' \<and> tx_inv (sk_txBuffer sk'))"
  using assms
proof (induction ps arbitrary: sk)
  case (Cons p ps)
  have "gives (sk_Send now p sk) (\<lambda>(ok, sk'). queued sk sk' \<and> tx_inv (sk_txBuffer sk'))"
    using Cons.prems by (intro gives_Send) simp_all
  then obtain ok sk' where s: "sk_Send now p sk = Inr (ok, sk')" "queued sk sk'" "tx_inv (sk_txBuffer sk')"
    by (auto simp: gives_def)
  have "gives (send_all now ps sk') (\<lambda>sk''. queued sk' sk'' \<and> tx_inv (sk_txBuffer sk''))"
    using Cons.IH [OF s(3)] Cons.prems s(2) by (simp add: queued_def sk_HeadSequence_def)
  then show ?case
    using s queued_trans [OF s(2)] by (auto simp: gives_def)
qed simp

lemma gives_NotifySend:
  assumes "app_ok env" "tx_inv (sk_txBuffer sk)" "seq_off (sk_HeadSequence sk) (m_nextTxSequence (sk_tcb sk)) < 2 ^ 31"
  shows "gives (NotifySend env now sk) (queued sk)"
  unfolding NotifySend_def
  by (rule gives_mono [OF gives_send_all]) (use assms in \<open>auto simp: app_ok_def\<close>)

lemma tx_ready_inv: "tx_ready seg b \<Longrightarrow> tx_inv b"
  by (simp add: tx_ready_def)

lemma queued_ready: "queued sk sk' \<Longrightarrow> ready sk \<Longrightarrow> ready sk'"
  unfolding queued_def ready_def control_def sk_HeadSequence_def by auto

section \<open>How much is sent\<close>

text \<open>The segments carry the bytes in order from a sequence number on, none empty and none longer than a segment.\<close>

fun carries :: "nat \<Rightarrow> seq \<Rightarrow> bytes \<Rightarrow> tcp_segment list \<Rightarrow> bool" where
  "carries seg q bs [] \<longleftrightarrow> bs = []"
| "carries seg q bs (h # hs) \<longleftrightarrow> sg_seq h = q \<and> sg_payload h \<noteq> [] \<and> length (sg_payload h) \<le> seg \<and>
     take (length (sg_payload h)) bs = sg_payload h \<and> carries seg (q + of_nat (length (sg_payload h))) (drop (length (sg_payload h)) bs) hs"

lemma carries_append:
  "carries seg q bs hs \<Longrightarrow> carries seg (q + of_nat (length bs)) bs' hs' \<Longrightarrow> carries seg q (bs @ bs') (hs @ hs')"
proof (induction seg q bs hs rule: carries.induct)
  case (2 seg q bs h hs)
  let ?n = "length (sg_payload h)"
  have le: "?n \<le> length bs" using 2(2) by (metis carries.simps(2) length_take min.absorb_iff1 min.commute)
  then have "q + of_nat ?n + of_nat (length (drop ?n bs)) = q + (of_nat (length bs) :: u32)"
    by (simp add: of_nat_diff)
  then show ?case using 2 le by simp
qed simp

definition sends :: "'c sock \<Rightarrow> 'c sock \<Rightarrow> bool" where
  "sends sk sk' \<longleftrightarrow> control sk' = control sk \<and> sk_HeadSequence sk' = sk_HeadSequence sk \<and>
     tx_maxBuffer (sk_txBuffer sk') = tx_maxBuffer (sk_txBuffer sk) \<and> (\<exists>extra. stream sk' = stream sk @ extra) \<and> sent_bytes sk \<le> sent_bytes sk' \<and>
     flight (sk_txBuffer sk') = flight (sk_txBuffer sk) + (sent_bytes sk' - sent_bytes sk) \<and>
     (\<exists>segs. sk_out sk' = sk_out sk @ segs \<and> carries (unat (m_segmentSize (sk_tcb sk))) (sk_HeadSequence sk + of_nat (sent_bytes sk))
       (take (sent_bytes sk' - sent_bytes sk) (drop (sent_bytes sk) (stream sk'))) segs)"

lemma queued_sends: "queued sk sk' \<Longrightarrow> sends sk sk'"
  by (auto simp: queued_def sends_def sk_HeadSequence_def flight_def)

lemma take_drop_split:
  assumes "a \<le> b" "b \<le> c" "b \<le> length xs"
  shows "take (c - a) (drop a (xs @ ys)) = take (b - a) (drop a xs) @ take (c - b) (drop b (xs @ ys))"
proof -
  have "take (c - a) (drop a (xs @ ys)) = take ((b - a) + (c - b)) (drop a (xs @ ys))" using assms by simp
  also have "\<dots> = take (b - a) (drop a (xs @ ys)) @ take (c - b) (drop (b - a) (drop a (xs @ ys)))" by (rule take_add)
  finally show ?thesis using assms by simp
qed

lemma sends_trans:
  assumes "sends sk sk'" "sends sk' sk''"
  shows "sends sk sk''"
proof -
  obtain extra segs where 1: "stream sk' = stream sk @ extra" "sk_out sk' = sk_out sk @ segs"
      "carries (unat (m_segmentSize (sk_tcb sk))) (sk_HeadSequence sk + of_nat (sent_bytes sk))
         (take (sent_bytes sk' - sent_bytes sk) (drop (sent_bytes sk) (stream sk'))) segs"
    using assms(1) unfolding sends_def by blast
  obtain extra' segs' where 2: "stream sk'' = stream sk' @ extra'" "sk_out sk'' = sk_out sk' @ segs'"
      "carries (unat (m_segmentSize (sk_tcb sk'))) (sk_HeadSequence sk' + of_nat (sent_bytes sk'))
         (take (sent_bytes sk'' - sent_bytes sk') (drop (sent_bytes sk') (stream sk''))) segs'"
    using assms(2) unfolding sends_def by blast
  have le: "sent_bytes sk \<le> sent_bytes sk'" "sent_bytes sk' \<le> sent_bytes sk''" "sent_bytes sk' \<le> length (stream sk')"
    using assms by (simp_all add: sends_def)
  have same: "m_segmentSize (sk_tcb sk') = m_segmentSize (sk_tcb sk)" "sk_HeadSequence sk' = sk_HeadSequence sk"
    using assms(1) by (simp_all add: sends_def control_def)
  have len: "length (take (sent_bytes sk' - sent_bytes sk) (drop (sent_bytes sk) (stream sk'))) = sent_bytes sk' - sent_bytes sk"
    using le(1,3) by (simp only: length_take length_drop)
  have pos: "sk_HeadSequence sk + of_nat (sent_bytes sk) + of_nat (sent_bytes sk' - sent_bytes sk) = sk_HeadSequence sk + (of_nat (sent_bytes sk') :: u32)"
    using le(1) by (simp add: of_nat_diff)
  have "carries (unat (m_segmentSize (sk_tcb sk))) (sk_HeadSequence sk + of_nat (sent_bytes sk))
      (take (sent_bytes sk'' - sent_bytes sk) (drop (sent_bytes sk) (stream sk''))) (segs @ segs')"
    unfolding 2(1) take_drop_split [OF le]
    by (rule carries_append [OF 1(3)]) (use 2(3) in \<open>simp only: len pos same 2(1)\<close>)
  moreover have "stream sk'' = stream sk @ (extra @ extra')" using 1(1) 2(1) by (simp only: append_assoc)
  moreover have "sk_out sk'' = sk_out sk @ (segs @ segs')" using 1(2) 2(2) by simp
  moreover have "control sk'' = control sk" "sk_HeadSequence sk'' = sk_HeadSequence sk"
      "tx_maxBuffer (sk_txBuffer sk'') = tx_maxBuffer (sk_txBuffer sk)"
    using assms by (simp_all add: sends_def)
  moreover have "flight (sk_txBuffer sk') = flight (sk_txBuffer sk) + (sent_bytes sk' - sent_bytes sk)"
      "flight (sk_txBuffer sk'') = flight (sk_txBuffer sk') + (sent_bytes sk'' - sent_bytes sk')"
    using assms unfolding sends_def by blast+
  then have "flight (sk_txBuffer sk'') = flight (sk_txBuffer sk) + (sent_bytes sk'' - sent_bytes sk)" using le by linarith
  moreover have "sent_bytes sk \<le> sent_bytes sk''" using le by linarith
  ultimately show ?thesis unfolding sends_def by blast
qed

section \<open>One round\<close>

text \<open>What is left of the window, and how much one round sends.\<close>

definition left :: "'c sock \<Rightarrow> nat" where
  "left sk = unat (Window sk) - flight (sk_txBuffer sk)"

lemma gives_AvailableWindow:
  assumes "tx_core (sk_txBuffer sk)"
  shows "gives (AvailableWindow sk) (\<lambda>(w, sk'). unat w = left sk \<and> (\<exists>n. sk' = upd_tcb (\<lambda>t. t\<lparr>m_bytesInFlight := n\<rparr>) sk))"
proof -
  obtain n where "BytesInFlight (sk_txBuffer sk) = Inr n" "unat n = flight (sk_txBuffer sk)" using BytesInFlight_flight [OF assms] by blast
  then show ?thesis
    by (auto simp: AvailableWindow_def Let_def sk_BytesInFlight_def left_def word_less_nat_alt unat_sub word_le_nat_alt not_less intro!: exI [of _ n])
qed

lemma left_same: "control sk' = control sk \<Longrightarrow> flight (sk_txBuffer sk') = flight (sk_txBuffer sk) \<Longrightarrow> left sk' = left sk"
  by (simp add: left_def Window_def control_def)

lemma unat_min: "unat (min a b :: u32) = min (unat a) (unat b)"
  by (simp add: min_def word_le_nat_alt)

lemma gives_pending_amount:
  fixes sk :: "'c sock"
  defines "p \<equiv> sent_bytes sk"
  assumes r: "ready sk" and w: "w > 0" and p: "p < unat (sk_rWnd sk)"
  shows "gives (pending_amount w (sk_HeadSequence sk + of_nat p) (sk_HeadSequence sk + of_nat p + min (m_segmentSize (sk_tcb sk)) (sk_rWnd sk - of_nat p)) avail sk)
    (\<lambda>x. case x of None \<Rightarrow> w < m_segmentSize (sk_tcb sk) \<or> \<not> sk_noDelay sk
      | Some n \<Rightarrow> n > 0 \<and> n \<le> w \<and> n \<le> m_segmentSize (sk_tcb sk) \<and> p + unat n \<le> unat (sk_rWnd sk))"
proof -
  let ?seg = "m_segmentSize (sk_tcb sk)" and ?f = "sk_HeadSequence sk"
  let ?lim = "min ?seg (sk_rWnd sk - of_nat p)"
  have rw: "unat (sk_rWnd sk) < 2 ^ 31" "?seg > 0" using r by (simp_all add: ready_def)
  have "unat (of_nat p :: u32) = p" by (rule small_unat) (use p rw in linarith)
  then have sub: "unat (sk_rWnd sk - of_nat p) = unat (sk_rWnd sk) - p" using p by (simp add: unat_sub word_le_nat_alt)
  have lim: "0 < unat ?lim" "p + unat ?lim \<le> unat (sk_rWnd sk)"
    using sub p rw(2) by (auto simp: unat_min word_less_nat_alt)
  have small: "p + unat ?lim < 2 ^ 31" "p < 2 ^ 31" using lim rw(1) by linarith+
  have "?f + of_nat p + ?lim = ?f + of_nat (p + unat ?lim)" by (simp add: add.assoc)
  then have diff: "seq_diff (?f + of_nat p + ?lim) (?f + of_nat p) = Inr (int (unat ?lim))"
    using pos_cmp(6) [OF small, of ?f] by (simp add: add.assoc)
  have "m_highTxMark (sk_tcb sk) = ?f + of_nat p" using r by (simp add: ready_def p_def)
  then have nagle: "UnAckDataCount sk = Inr (word_of_int (int p))"
    using pos_cmp(6) [OF small(2), of 0 ?f] by (simp add: UnAckDataCount_def)
  have "word_of_int (int (unat ?lim)) = ?lim" by simp
  then show ?thesis
    using lim w rw(2) unfolding pending_amount_def Let_def
    by (auto simp: diff nagle min.commute min_less_iff_conj unat_min word_less_nat_alt word_le_nat_alt simp del: of_nat_add)
qed

text \<open>Neither the segment nor the application touches the congestion control.\<close>

lemma cong_data_flags [simp]: "sk_cong (snd (data_flags s a r n sk)) = sk_cong sk"
  by (simp add: data_flags_def Let_def upd_tcb_def)

lemma cong_upd [simp]: "sk_cong (upd_tcb f sk) = sk_cong sk" "sk_cong (SendPacket h sk) = sk_cong sk" "sk_cong (skb_sent now t st sk) = sk_cong sk"
  by (simp_all add: upd_tcb_def SendPacket_def skb_sent_def split: prod.split)

lemma cong_BytesInFlight: "(\<And>n sk'. sk_cong sk' = sk_cong sk \<Longrightarrow> P (n, sk')) \<Longrightarrow> yields (sk_BytesInFlight sk) P"
  by (simp add: sk_BytesInFlight_def yields_any)

lemma cong_AdvertisedWindowSize: "(\<And>n sk'. sk_cong sk' = sk_cong sk \<Longrightarrow> P (n, sk')) \<Longrightarrow> yields (AdvertisedWindowSize b sk) P"
  by (auto simp: AdvertisedWindowSize_def Let_def intro!: yields_any)

lemmas any_copy = yields_any [where m = "CopyFromSequence a b c d" for a b c d]

lemmas any_size = yields_any [where m = "SizeFromSequence a b" for a b]

lemmas any_app = yields_any [where m = "CalculateAppLimited a b c d e f g h" for a b c d e f g h]

lemma cong_SendDataPacket: "yields (SendDataPacket now s n withAck sk) (\<lambda>x. sk_cong (snd x) = sk_cong sk)"
proof -
  have flags: "sk_cong k' = sk_cong k" if "data_flags s a r n k = (fl, k')" for s a r n fl and k k' :: "'a sock"
    using cong_data_flags [of s a r n k] that by simp
  show ?thesis
    unfolding SendDataPacket_def
    by (auto simp: Let_def split_beta intro!: cong_BytesInFlight cong_AdvertisedWindowSize any_copy any_size dest: flags)
qed

lemma cong_AvailableWindow: "(\<And>n sk'. sk_cong sk' = sk_cong sk \<Longrightarrow> P (n, sk')) \<Longrightarrow> yields (AvailableWindow sk) P"
  by (auto simp: AvailableWindow_def Let_def intro!: cong_BytesInFlight)

lemma cong_Send: "yields (sk_Send now p sk) (\<lambda>x. sk_cong (snd x) = sk_cong sk)"
  by (auto simp: sk_Send_def Let_def split_beta intro!: cong_AvailableWindow any_app)

lemma cong_NotifySend: "yields (NotifySend env now sk) (\<lambda>sk'. sk_cong sk' = sk_cong sk)"
proof -
  have "yields (send_all now ps sk) (\<lambda>sk'. sk_cong sk' = sk_cong sk)" for ps
  proof (induction ps arbitrary: sk)
    case (Cons p ps)
    have "yields (send_all now ps k) (\<lambda>sk'. sk_cong sk' = sk_cong sk)" if "sk_cong k = sk_cong sk" for k
      using Cons.IH [of k] by (simp add: that)
    then show ?case by (auto simp: split_beta intro!: yields_mono [OF cong_Send])
  qed simp
  then show ?thesis by (simp add: NotifySend_def)
qed

lemma gives_and: "gives m P \<Longrightarrow> yields m Q \<Longrightarrow> gives m (\<lambda>x. P x \<and> Q x)"
  by (auto simp: gives_def yields_def)

definition sent_one :: "'c sock \<Rightarrow> 'c sock \<Rightarrow> u32 \<Rightarrow> u32 \<Rightarrow> bool" where
  "sent_one sk sk' n w \<longleftrightarrow> ready sk' \<and> sk_cong sk' = sk_cong sk \<and> sends sk sk' \<and> sent_bytes sk < sent_bytes sk' \<and> unat w = left sk' \<and>
     flight (sk_txBuffer sk') \<le> flight (sk_txBuffer sk) + unat n \<and> length (sk_out sk') = Suc (length (sk_out sk))"

lemma gives_send_one:
  fixes sk :: "'c sock"
  defines "p \<equiv> sent_bytes sk"
  assumes r: "ready sk" and nxt: "m_nextTxSequence (sk_tcb sk) = sk_HeadSequence sk + of_nat p"
    and p: "p < length (stream sk)" and n: "n > 0" "p + unat n \<le> unat (sk_rWnd sk)" "n \<le> m_segmentSize (sk_tcb sk)"
    and ep: "sk_endPoint sk"
  shows "gives (bind_res (SendDataPacket now (m_nextTxSequence (sk_tcb sk)) n withAck sk) (\<lambda>(sz, sk).
      let sk = upd_tcb (\<lambda>t. t\<lparr>m_nextTxSequence := m_nextTxSequence t + sz\<rparr>) sk in bind_res (AvailableWindow sk) (\<lambda>(win, sk). Inr (True, N + 1, win, sk))))
    (\<lambda>(c, N', w', sk'). c \<and> N' = N + 1 \<and> sent_one sk sk' n w')"
proof -
  let ?b = "sk_txBuffer sk"
  let ?k = "min (unat n) (length (stream sk) - p)"
  have rd: "tx_ready (m_segmentSize (sk_tcb sk)) ?b" "window_open (sk_rxBuffer sk)" "sk_highRxAckMark sk = tx_firstByteSeq ?b"
      "m_highTxMark (sk_tcb sk) = tx_firstByteSeq ?b + of_nat p" "unat (sk_rWnd sk) < 2 ^ 31" "0 < m_segmentSize (sk_tcb sk)"
    using r by (simp_all add: ready_def sk_HeadSequence_def p_def)
  have "gives (SendDataPacket now (tx_firstByteSeq ?b + of_nat p) n withAck sk) (\<lambda>x. (case x of (sz, sk') \<Rightarrow>
      let k = ?k in sz = of_nat k \<and> control sk' = control sk \<and> tx_ready (m_segmentSize (sk_tcb sk)) (sk_txBuffer sk') \<and> tx_content (sk_txBuffer sk') = tx_content ?b \<and>
       tx_firstByteSeq (sk_txBuffer sk') = tx_firstByteSeq ?b \<and> tx_maxBuffer (sk_txBuffer sk') = tx_maxBuffer ?b \<and>
       tbytes (tx_sentList (sk_txBuffer sk')) = p + k \<and> flight (sk_txBuffer sk') = flight ?b + k \<and>
       m_highTxMark (sk_tcb sk') = tx_firstByteSeq ?b + of_nat (p + k) \<and> m_nextTxSequence (sk_tcb sk') = m_nextTxSequence (sk_tcb sk) \<and>
       (\<exists>h. sk_out sk' = sk_out sk @ [h] \<and> sg_seq h = tx_firstByteSeq ?b + of_nat p \<and> sg_payload h = take k (drop p (tx_content ?b)))) \<and> sk_cong (snd x) = sk_cong sk)"
    unfolding p_def
    by (rule gives_and [OF SendDataPacket_new cong_SendDataPacket]) (use rd p n ep in \<open>simp_all only: p_def\<close>)
  then obtain s1 h where s: "SendDataPacket now (tx_firstByteSeq ?b + of_nat p) n withAck sk = Inr (of_nat ?k, s1)" "control s1 = control sk"
      "tx_ready (m_segmentSize (sk_tcb sk)) (sk_txBuffer s1)" "stream s1 = stream sk" "tx_firstByteSeq (sk_txBuffer s1) = tx_firstByteSeq ?b"
      "tx_maxBuffer (sk_txBuffer s1) = tx_maxBuffer ?b" "sent_bytes s1 = p + ?k" "flight (sk_txBuffer s1) = flight ?b + ?k"
      "m_highTxMark (sk_tcb s1) = tx_firstByteSeq ?b + of_nat (p + ?k)" "m_nextTxSequence (sk_tcb s1) = m_nextTxSequence (sk_tcb sk)"
      "sk_cong s1 = sk_cong sk" "sk_out s1 = sk_out sk @ [h]" "sg_seq h = tx_firstByteSeq ?b + of_nat p" "sg_payload h = take ?k (drop p (stream sk))"
    unfolding gives_def Let_def by force
  have k: "0 < ?k" "?k \<le> unat n" "p + ?k \<le> length (stream sk)" using n(1) p by (auto simp: word_less_nat_alt)
  have small: "p + ?k < 2 ^ 31" using k(2) n(2) rd(5) by linarith
  define s2 where "s2 = upd_tcb (\<lambda>t. t\<lparr>m_nextTxSequence := m_nextTxSequence t + of_nat ?k\<rparr>) s1"
  have tb: "sk_txBuffer s2 = sk_txBuffer s1" "sk_out s2 = sk_out s1" "sk_cong s2 = sk_cong s1" "control s2 = control s1"
    by (simp_all add: s2_def)
  have core: "tx_core (sk_txBuffer s2)" unfolding tb by (rule tx_ready_core [OF s(3)])
  obtain w m where w: "AvailableWindow s2 = Inr (w, upd_tcb (\<lambda>t. t\<lparr>m_bytesInFlight := m\<rparr>) s2)" "unat w = left s2"
    using gives_AvailableWindow [OF core] unfolding gives_def by blast
  define s3 where "s3 = upd_tcb (\<lambda>t. t\<lparr>m_bytesInFlight := m\<rparr>) s2"
  have tb3: "sk_txBuffer s3 = sk_txBuffer s1" "sk_out s3 = sk_out s1" "sk_cong s3 = sk_cong s1" "control s3 = control sk"
      "m_highTxMark (sk_tcb s3) = tx_firstByteSeq ?b + of_nat (p + ?k)" "m_nextTxSequence (sk_tcb s3) = tx_firstByteSeq ?b + of_nat (p + ?k)"
    using s(2,9,10) nxt by (simp_all add: s3_def s2_def sk_HeadSequence_def add.assoc)
  have "left s3 = left s2" by (rule left_same) (simp_all add: s3_def)
  moreover have "seq_off (tx_firstByteSeq ?b) (tx_firstByteSeq ?b + of_nat (p + ?k)) < 2 ^ 31"
    using small small_unat [OF small] by (simp add: seq_off_def del: of_nat_add)
  then have "ready s3"
    using r s(3,5,7) tb3 unfolding ready_def control_def sk_HeadSequence_def by (simp del: of_nat_add)
  moreover have "sends sk s3"
  proof -
    have pay: "take (sent_bytes s3 - p) (drop p (stream s3)) = sg_payload h" using s(4,7,14) tb3(1) by simp
    have len: "length (sg_payload h) = ?k" using k(3) s(14) by (simp only: length_take length_drop)
    have "carries (unat (m_segmentSize (sk_tcb sk))) (sk_HeadSequence sk + of_nat p) (sg_payload h) [h]"
      using s(13) len k(1,2) n(3) by (auto simp: sk_HeadSequence_def word_le_nat_alt simp del: min_less_iff_conj)
    then have "\<exists>segs. sk_out s3 = sk_out sk @ segs \<and> carries (unat (m_segmentSize (sk_tcb sk))) (sk_HeadSequence sk + of_nat p)
        (take (sent_bytes s3 - p) (drop p (stream s3))) segs"
      unfolding pay using s(12) tb3(2) by auto
    moreover have "\<exists>extra. stream s3 = stream sk @ extra" by (rule exI [of _ "[]"]) (simp only: tb3(1) s(4) append_Nil2)
    moreover have "p \<le> sent_bytes s3" "flight (sk_txBuffer s3) = flight ?b + (sent_bytes s3 - p)"
      unfolding tb3(1) s(7,8) by linarith+
    ultimately show ?thesis
      unfolding sends_def p_def [symmetric] sk_HeadSequence_def using tb3(4) by (intro conjI) (assumption | simp only: tb3(1) s(5,6))+
  qed
  ultimately have "sent_one sk s3 n w"
    using s(7,8,11,12) tb3(1-3) k(1,2) w(2) unfolding sent_one_def p_def [symmetric] by (intro conjI) (simp_all only: length_append, simp_all)
  then show ?thesis
    unfolding nxt sk_HeadSequence_def s(1) bind_res_simps prod.case Let_def s2_def [symmetric] w(1) s3_def [symmetric] by simp
qed

section \<open>The congestion control at the start of a transmission\<close>

text \<open>What the socket needs of the congestion control when it starts to send after a silence: the call returns and leaves the window alone.\<close>

locale start_quietly =
  fixes ops :: "'c cong_ops" and ok :: "int \<Rightarrow> 'c \<Rightarrow> bool"
  assumes start: "ok now c \<Longrightarrow> \<exists>c'. co_CwndEvent ops now CA_EVENT_TX_START (c, t) = Inr (c', t) \<and> ok now c'"
begin

lemma gives_start:
  assumes "ok now (sk_cong sk)" "env_cong env = ops"
  shows "gives (if b then with_cong (co_CwndEvent (env_cong env) now CA_EVENT_TX_START) sk else Inr sk)
    (\<lambda>sk'. \<exists>c. sk' = sk\<lparr>sk_cong := c\<rparr> \<and> ok now c)"
proof -
  obtain c where c: "co_CwndEvent ops now CA_EVENT_TX_START (sk_cong sk, sk_tcb sk) = Inr (c, sk_tcb sk)" "ok now c"
    using start [OF assms(1)] by blast
  have "\<exists>c. sk = sk\<lparr>sk_cong := c\<rparr> \<and> ok now c" by (rule exI [of _ "sk_cong sk"]) (simp add: assms(1))
  moreover have "sk\<lparr>sk_cong := c, sk_tcb := sk_tcb sk\<rparr> = sk\<lparr>sk_cong := c\<rparr>" by simp
  ultimately show ?thesis
    using c by (auto simp: with_cong_def assms(2))
qed

end

interpretation reno_start: start_quietly reno_ops "\<lambda>now c. True"
  by unfold_locales (simp add: reno_ops_def)


section \<open>One round of the loop\<close>

text \<open>Why the loop stops.\<close>

definition stopped :: "'c sock \<Rightarrow> bool" where
  "stopped sk \<longleftrightarrow> left sk < unat (m_segmentSize (sk_tcb sk)) \<or> sent_bytes sk = length (stream sk) \<or> unat (sk_rWnd sk) \<le> sent_bytes sk \<or>
     \<not> sk_noDelay sk \<or> (m_congState (sk_tcb sk) = CA_OPEN \<and> sk_state sk = FIN_WAIT_1)"

definition pending_round :: "'c sock \<Rightarrow> bool \<Rightarrow> u32 \<Rightarrow> u32 \<Rightarrow> 'c sock \<Rightarrow> bool" where
  "pending_round sk c k w sk' \<longleftrightarrow> ready sk' \<and> sends sk sk' \<and> flight (sk_txBuffer sk') \<le> unat (Window sk) \<and>
     (if c then sent_bytes sk < sent_bytes sk' \<and> unat w = left sk' \<and> k = 1 \<and> length (sk_out sk') = Suc (length (sk_out sk))
      else k = 0 \<and> sk_out sk' = sk_out sk \<and> stopped sk')"

lemma ready_upd:
  "ready (sk\<lparr>sk_cong := c\<rparr>) = ready sk" "sent_bytes (sk\<lparr>sk_cong := c\<rparr>) = sent_bytes sk" "left (sk\<lparr>sk_cong := c\<rparr>) = left sk"
  by (simp_all add: ready_def sk_HeadSequence_def left_def Window_def)

lemma ready_next: "ready sk \<Longrightarrow> seq_off (sk_HeadSequence sk) q < 2 ^ 31 \<Longrightarrow> ready (upd_tcb (\<lambda>t. t\<lparr>m_nextTxSequence := q\<rparr>) sk)"
  by (simp add: ready_def sk_HeadSequence_def upd_tcb_def)

lemma sends_same: "control sk' = control sk \<Longrightarrow> sk_txBuffer sk' = sk_txBuffer sk \<Longrightarrow> sk_out sk' = sk_out sk \<Longrightarrow> sends sk sk'"
  by (auto simp: sends_def sk_HeadSequence_def)

lemma room: "(w :: u32) > 0 \<Longrightarrow> unat w = left sk \<Longrightarrow> flight (sk_txBuffer sk) + unat w = unat (Window sk)"
  by (auto simp: left_def word_less_nat_alt)

lemma round_stops: "ready sk \<Longrightarrow> queued sk sk' \<Longrightarrow> (w :: u32) > 0 \<Longrightarrow> unat w = left sk \<Longrightarrow> stopped sk' \<Longrightarrow> pending_round sk False 0 w' sk'"
  using room [of w sk] queued_ready [of sk sk'] queued_sends [of sk sk'] by (simp add: pending_round_def) (simp add: queued_def flight_def)

lemma gives_told:
  assumes "ready sk" "app_ok env"
  shows "gives (if b then NotifySend env now sk else Inr sk) (\<lambda>sk'. queued sk sk' \<and> sk_cong sk' = sk_cong sk)"
proof -
  have "gives (NotifySend env now sk) (\<lambda>sk'. queued sk sk' \<and> sk_cong sk' = sk_cong sk)"
    by (rule gives_and [OF gives_NotifySend cong_NotifySend]) (use assms in \<open>auto simp: ready_def tx_ready_def\<close>)
  then show ?thesis by simp
qed

lemma queued_fields:
  assumes "queued sk sk'"
  shows "sent_bytes sk' = sent_bytes sk" "sk_HeadSequence sk' = sk_HeadSequence sk" "m_segmentSize (sk_tcb sk') = m_segmentSize (sk_tcb sk)"
    "sk_rWnd sk' = sk_rWnd sk" "sk_noDelay sk' = sk_noDelay sk" "left sk' = left sk" "length (stream sk) \<le> length (stream sk')"
    "flight (sk_txBuffer sk') = flight (sk_txBuffer sk)" "Window sk' = Window sk" "sk_out sk' = sk_out sk"
proof -
  obtain extra where e: "stream sk' = stream sk @ extra" using assms unfolding queued_def by blast
  have "length (stream sk') = length (stream sk) + length extra" unfolding e by (rule length_append)
  then show "length (stream sk) \<le> length (stream sk')" by linarith
qed (use assms in \<open>simp_all add: queued_def control_def sk_HeadSequence_def left_def Window_def flight_def\<close>)

context start_quietly
begin

lemma gives_round:
  fixes sk :: "'c sock"
  assumes r: "ready sk" and ok: "ok now (sk_cong sk)" and app: "app_ok env" and ops: "env_cong env = ops" and w: "w > 0" "unat w = left sk"
    and ep: "sk_endPoint sk"
  shows "gives (pending_step env now withAck N w sk) (\<lambda>(c, N', w', sk'). \<exists>k. N' = N + k \<and> pending_round sk c k w' sk' \<and> ok now (sk_cong sk'))"
proof -
  let ?b = "sk_txBuffer sk" and ?p = "sent_bytes sk"
  let ?nxt = "tx_firstByteSeq ?b + of_nat ?p" and ?high = "tx_firstByteSeq ?b + of_nat ?p + min (m_segmentSize (sk_tcb sk)) (sk_rWnd sk - of_nat ?p)"
  have rd: "tx_ready (m_segmentSize (sk_tcb sk)) ?b" "m_congState (sk_tcb sk) \<noteq> CA_RECOVERY" "unat (sk_rWnd sk) < 2 ^ 31"
    using r by (simp_all add: ready_def)
  have core: "tx_core ?b" using rd(1) by (rule tx_ready_core)
  note seg = NextSeg_new [OF rd(1), of "sk_rWnd sk"]
  have stop: "\<exists>k. N = N + k \<and> pending_round sk False k w' sk' \<and> ok now (sk_cong sk')" if "queued sk sk'" "stopped sk'" "sk_cong sk' = sk_cong sk" for sk' w'
    using round_stops [OF r that(1) w that(2)] ok that(3) by (intro exI [of _ 0]) simp
  show ?thesis
  proof (cases "(m_congState (sk_tcb sk) = CA_OPEN \<and> sk_state sk = FIN_WAIT_1) \<or> \<not> (?p < length (stream sk) \<and> ?p < unat (sk_rWnd sk))")
    case True
    have "stopped sk" using True sent_le [OF core] unfolding stopped_def by linarith
    then show ?thesis
      using stop [of sk] True seg rd(2) by (auto simp: pending_step_def simp del: length_append split del: if_split split: if_splits)
  next
    case False
    then have p: "?p < length (stream sk)" "?p < unat (sk_rWnd sk)" and go: "\<not> (m_congState (sk_tcb sk) = CA_OPEN \<and> sk_state sk = FIN_WAIT_1)"
      by blast+
    have seg: "NextSeg (sk_rWnd sk) False ?b = Inr (Some (?nxt, ?high))" using seg p by simp
    obtain avail where avail: "SizeFromSequence ?nxt ?b = Inr avail" using size_from [OF core sent_le [OF core]] by blast
    obtain s1 where s1: "(if avail < w then NotifySend env now sk else Inr sk) = Inr s1" "queued sk s1" "sk_cong s1 = sk_cong sk"
      using gives_told [OF r app, of "avail < w" now] unfolding gives_def by blast
    note q = queued_fields [OF s1(2)]
    have r1: "ready s1" using queued_ready [OF s1(2) r] .
    obtain amount where amount: "pending_amount w ?nxt ?high avail s1 = Inr amount" and
        am: "case amount of None \<Rightarrow> w < m_segmentSize (sk_tcb s1) \<or> \<not> sk_noDelay s1
          | Some n \<Rightarrow> n > 0 \<and> n \<le> w \<and> n \<le> m_segmentSize (sk_tcb s1) \<and> sent_bytes s1 + unat n \<le> unat (sk_rWnd s1)"
      using gives_pending_amount [OF r1 w(1), of avail] p(2) q(1-4) unfolding gives_def sk_HeadSequence_def by auto
    have step: "pending_step env now withAck N w sk = (case amount of None \<Rightarrow> Inr (False, N, w, s1)
      | Some n \<Rightarrow> bind_res (if m_bytesInFlight (sk_tcb (upd_tcb (\<lambda>t. t\<lparr>m_nextTxSequence := ?nxt\<rparr>) s1)) = 0
           then with_cong (co_CwndEvent (env_cong env) now CA_EVENT_TX_START) (upd_tcb (\<lambda>t. t\<lparr>m_nextTxSequence := ?nxt\<rparr>) s1)
           else Inr (upd_tcb (\<lambda>t. t\<lparr>m_nextTxSequence := ?nxt\<rparr>) s1)) (\<lambda>sk.
             bind_res (SendDataPacket now (m_nextTxSequence (sk_tcb sk)) n withAck sk) (\<lambda>(sz, sk).
             let sk = upd_tcb (\<lambda>t. t\<lparr>m_nextTxSequence := m_nextTxSequence t + sz\<rparr>) sk in bind_res (AvailableWindow sk) (\<lambda>(win, sk). Inr (True, N + 1, win, sk)))))"
      unfolding pending_step_def if_not_P [OF go] using rd(2) seg avail s1(1) amount by (simp add: Let_def split: option.split split del: if_split)
    show ?thesis
    proof (cases amount)
      case None
      have "stopped s1" using am w(2) q(3,5,6) unfolding None stopped_def by (auto simp: word_less_nat_alt)
      then show ?thesis using stop [OF s1(2) _ s1(3)] unfolding step None by simp
    next
      case (Some n)
      have n: "n > 0" "n \<le> w" "n \<le> m_segmentSize (sk_tcb s1)" "sent_bytes s1 + unat n \<le> unat (sk_rWnd s1)" using am by (simp_all add: Some)
      define s2 where "s2 = upd_tcb (\<lambda>t. t\<lparr>m_nextTxSequence := ?nxt\<rparr>) s1"
      have "?p < 2 ^ 31" using p(2) rd(3) by linarith
      then have "seq_off (sk_HeadSequence s1) ?nxt < 2 ^ 31" using small_unat [of ?p] q(2) by (simp add: seq_off_def sk_HeadSequence_def)
      then have r2: "ready s2" unfolding s2_def by (rule ready_next [OF r1])
      have "ok now (sk_cong s2)" using ok s1(3) by (simp add: s2_def)
      then obtain c where c: "(if m_bytesInFlight (sk_tcb s2) = 0 then with_cong (co_CwndEvent (env_cong env) now CA_EVENT_TX_START) s2 else Inr s2) =
          Inr (s2\<lparr>sk_cong := c\<rparr>)" "ok now c"
        using gives_start [of now s2 env "m_bytesInFlight (sk_tcb s2) = 0"] ops unfolding gives_def by blast
      define s3 where "s3 = s2\<lparr>sk_cong := c\<rparr>"
      have r3: "ready s3" using r2 by (simp add: s3_def ready_upd)
      have tb: "sk_txBuffer s3 = sk_txBuffer s1" "sk_out s3 = sk_out s1" "control s3 = control s1" "sk_cong s3 = c"
          "m_nextTxSequence (sk_tcb s3) = ?nxt" by (simp_all add: s3_def s2_def)
      have same: "sk_rWnd s3 = sk_rWnd s1" "m_segmentSize (sk_tcb s3) = m_segmentSize (sk_tcb s1)" using tb(3) by (simp_all add: control_def)
      have sent: "gives (bind_res (SendDataPacket now (m_nextTxSequence (sk_tcb s3)) n withAck s3) (\<lambda>(sz, sk).
          let sk = upd_tcb (\<lambda>t. t\<lparr>m_nextTxSequence := m_nextTxSequence t + sz\<rparr>) sk in bind_res (AvailableWindow sk) (\<lambda>(win, sk). Inr (True, N + 1, win, sk))))
        (\<lambda>(c, N', w', sk'). c \<and> N' = N + 1 \<and> sent_one s3 sk' n w')"
      proof (rule gives_send_one [OF r3])
        show "m_nextTxSequence (sk_tcb s3) = sk_HeadSequence s3 + of_nat (sent_bytes s3)" using q(1,2) by (simp add: tb sk_HeadSequence_def)
        show "sent_bytes s3 < length (stream s3)" unfolding tb(1) q(1) using p(1) q(7) by linarith
        show "sent_bytes s3 + unat n \<le> unat (sk_rWnd s3)" unfolding tb(1) same using n(4) .
        show "n \<le> m_segmentSize (sk_tcb s3)" "n > 0" using n same by simp_all
        show "sk_endPoint s3" using control_rx [OF tb(3)] control_rx [of s1 sk] s1(2) ep by (simp add: queued_def)
      qed
      have one: "\<exists>k. N + 1 = N + k \<and> pending_round sk True k w' sk' \<and> ok now (sk_cong sk')" if "sent_one s3 sk' n w'" for sk' w'
      proof (intro exI [of _ 1] conjI)
        have "sends sk s3" using sends_trans [OF queued_sends [OF s1(2)] sends_same [OF tb(3,1,2)]] .
        moreover have "sends s3 sk'" using that by (simp add: sent_one_def)
        ultimately have s: "sends sk sk'" by (rule sends_trans)
        have "unat n \<le> unat w" using n(2) by (simp add: word_le_nat_alt)
        then have f: "flight (sk_txBuffer sk') \<le> unat (Window sk)"
          using that room [OF w] q(8) unfolding sent_one_def tb(1) by linarith
        show "pending_round sk True 1 w' sk'"
          using that s f unfolding sent_one_def pending_round_def tb(1,2) q(1,10) by simp
        show "ok now (sk_cong sk')" using that c(2) by (simp add: sent_one_def tb)
      qed simp
      show ?thesis
        unfolding step Some option.case s2_def [symmetric] c(1) bind_res_simps s3_def [symmetric]
        by (rule gives_mono [OF sent]) (auto dest: one)
    qed
  qed
qed

section \<open>The loop\<close>

lemma gives_loop:
  fixes sk :: "'c sock"
  assumes "ready sk" "ok now (sk_cong sk)" "app_ok env" "env_cong env = ops" "unat w = left sk" "sk_endPoint sk"
  shows "\<exists>k sk'. pending_loop env now withAck N w sk = Some (Inr (N + of_nat k, sk')) \<and> ready sk' \<and> sends sk sk' \<and>
    flight (sk_txBuffer sk') \<le> max (flight (sk_txBuffer sk)) (unat (Window sk)) \<and> stopped sk' \<and> length (sk_out sk') = length (sk_out sk) + k"
  using assms
proof (induction "2 ^ 31 - sent_bytes sk" arbitrary: sk N w rule: less_induct)
  case less
  note prems = less.prems
  show ?case
  proof (cases "w = 0")
    case True
    have "stopped sk" using prems(1,5) True by (simp add: stopped_def ready_def word_less_nat_alt)
    then show ?thesis
      using prems(1) sends_same [of sk sk] True by (intro exI [of _ 0] exI [of _ sk]) (simp add: pending_loop.simps)
  next
    case False
    then have w: "w > 0" by (simp add: word_greater_zero_iff)
    obtain c k w' sk' where step: "pending_step env now withAck N w sk = Inr (c, N + k, w', sk')" "pending_round sk c k w' sk'" "ok now (sk_cong sk')"
      using gives_round [OF prems(1-4) w prems(5,6), of withAck N] unfolding gives_def by auto
    have r: "ready sk'" "sends sk sk'" "flight (sk_txBuffer sk') \<le> unat (Window sk)" using step(2) by (simp_all add: pending_round_def)
    have loop: "pending_loop env now withAck N w sk = (if c then pending_loop env now withAck (N + k) w' sk' else Some (Inr (N + k, sk')))"
      using False step(1) by (subst pending_loop.simps) simp
    show ?thesis
    proof (cases c)
      case True
      have c: "sent_bytes sk < sent_bytes sk'" "unat w' = left sk'" "k = 1" "length (sk_out sk') = Suc (length (sk_out sk))"
        using step(2) True by (simp_all add: pending_round_def)
      have core: "tx_core (sk_txBuffer sk')" using r(1) tx_ready_core by (auto simp: ready_def)
      have "sent_bytes sk' < 2 ^ 31" using sent_le [OF core] flagged_bound(1) [OF core] by linarith
      then have "2 ^ 31 - sent_bytes sk' < 2 ^ 31 - sent_bytes sk" using c(1) by linarith
      have "sk_endPoint sk'" using r(2) prems(6) control_rx [of sk' sk] by (simp add: sends_def)
      with \<open>2 ^ 31 - sent_bytes sk' < 2 ^ 31 - sent_bytes sk\<close> c(2) less.hyps [OF _ r(1) step(3) prems(3,4), of w' "N + k"] obtain j s2 where
        j: "pending_loop env now withAck (N + k) w' sk' = Some (Inr (N + k + of_nat j, s2))" "ready s2" "sends sk' s2"
          "flight (sk_txBuffer s2) \<le> max (flight (sk_txBuffer sk')) (unat (Window sk'))" "stopped s2" "length (sk_out s2) = length (sk_out sk') + j"
        by blast
      have win: "Window sk' = Window sk" using r(2) by (simp add: sends_def control_def Window_def)
      show ?thesis
        using j loop True c(3,4) sends_trans [OF r(2) j(3)] r(3) unfolding win
        by (intro exI [of _ "Suc j"] exI [of _ s2]) (auto simp: add.assoc)
    next
      case False
      then show ?thesis
        using loop r step(2) by (intro exI [of _ 0] exI [of _ sk']) (auto simp: pending_round_def)
    qed
  qed
qed

text \<open>The whole call.\<close>

lemma gives_pending:
  fixes sk :: "'c sock"
  assumes r: "ready sk" and "ok now (sk_cong sk)" "app_ok env" "env_cong env = ops"
    and limited: "sk_sackEnabled sk \<or> sk_limitedTx sk \<or> m_congState (sk_tcb sk) \<noteq> CA_DISORDER"
  shows "\<exists>n sk'. SendPendingData env now withAck sk = Some (Inr (of_nat n, sk')) \<and> ready sk' \<and> sends sk sk' \<and>
    flight (sk_txBuffer sk') \<le> max (flight (sk_txBuffer sk)) (unat (Window sk)) \<and> (sk_endPoint sk \<longrightarrow> stopped sk') \<and> length (sk_out sk') = length (sk_out sk) + n"
proof (cases "tx_size (sk_txBuffer sk) = 0 \<or> \<not> sk_endPoint sk")
  case True
  have core: "tx_core (sk_txBuffer sk)" using r tx_ready_core by (auto simp: ready_def)
  have "sent_bytes sk = length (stream sk)" if "tx_size (sk_txBuffer sk) = 0"
    using that sizes_exact [OF core] sent_le [OF core] by (simp del: length_append)
  then have "sk_endPoint sk \<longrightarrow> stopped sk" using True unfolding stopped_def by blast
  then show ?thesis
    using True r sends_same [of sk sk] by (intro exI [of _ 0] exI [of _ sk]) (simp add: SendPendingData_def)
next
  case False
  have core: "tx_core (sk_txBuffer sk)" using r tx_ready_core by (auto simp: ready_def)
  obtain w m where w: "AvailableWindow sk = Inr (w, upd_tcb (\<lambda>t. t\<lparr>m_bytesInFlight := m\<rparr>) sk)" "unat w = left sk"
    using gives_AvailableWindow [OF core] unfolding gives_def by blast
  define s where "s = upd_tcb (\<lambda>t. t\<lparr>m_bytesInFlight := m\<rparr>) sk"
  have ep: "sk_endPoint s" using False by (simp add: s_def upd_tcb_def)
  have s: "ready s" "left s = left sk" "sk_cong s = sk_cong sk" "sk_txBuffer s = sk_txBuffer sk" "sk_out s = sk_out sk" "Window s = Window sk"
    using r by (simp_all add: s_def ready_def sk_HeadSequence_def left_def Window_def upd_tcb_def)
  have control: "control s = control sk" by (simp add: s_def)
  obtain k s2 where k: "pending_loop env now withAck 0 w s = Some (Inr (0 + of_nat k, s2))" "ready s2" "sends s s2"
      "flight (sk_txBuffer s2) \<le> max (flight (sk_txBuffer s)) (unat (Window s))" "stopped s2" "length (sk_out s2) = length (sk_out s) + k"
    using gives_loop [of s now env w withAck 0] s assms(2-4) w(2) ep by auto
  have "control s2 = control sk" using k(3) control by (simp add: sends_def)
  then have "\<not> (\<not> sk_sackEnabled s2 \<and> \<not> sk_limitedTx s2 \<and> m_congState (sk_tcb s2) = CA_DISORDER)" using limited by (auto simp: control_def)
  then have "SendPendingData env now withAck sk = Some (Inr (of_nat k, s2))"
    using False w(1) k(1) by (simp add: SendPendingData_def s_def [symmetric])
  moreover have "sends sk s2" by (rule sends_trans [OF sends_same [OF control s(4,5)] k(3)])
  ultimately show ?thesis using k(2,4-6) unfolding s(4-6) by blast
qed

end

section \<open>What the connection sends\<close>








end
