(* ===== verification/Spec2Isabelle.thy ===== *)
theory Spec2Isabelle
  imports Default_Simulator Delay_Tag Sequence_Number Tcp_Swift Point_To_Point Ipv4_Header Tcp_Rx_Receive Tcp_Tx_Send Calendar_Contract Tcp_Sending
begin

text \<open>
  A verification development for the ns-3 network simulator as this repository extends it with the
  Swift congestion control (\<^verbatim>\<open>tcp-swift.cc\<close>) and a per-hop delay tag (\<^verbatim>\<open>my-delay-tag.h\<close>).

  \<^bold>\<open>The program.\<close> A simulation is a set of objects driven by events. \<^verbatim>\<open>DefaultSimulatorImpl\<close> keeps the clock and takes
  events from a \<^verbatim>\<open>Scheduler\<close> in the order of time and identifier. Nodes exchange packets over point-to-point
  links; a device queues packets, transmits them one at a time and schedules their reception at the peer. The IPv4
  layer of every node on the way updates a delay tag on each packet; the receiving TCP socket takes the largest delay
  and the hop count from the tag, and Swift sets its window from the measured delay, the target delay computed from
  the hop count and the window, and the losses it sees.

  \<^bold>\<open>The theories,\<close> in the order of their dependence, with the sources under \<^verbatim>\<open>src/src\<close> they model:

  \<^item> \<open>Prelude\<close>: outcomes (\<open>ns_error\<close>, \<open>bind_res\<close>), word types, generic lemmas. A failed \<^verbatim>\<open>NS_ASSERT\<close>, a fatal error and
    undefined behaviour of C++ are values, so that a normal return is always something to prove.
  \<^item> \<open>Events\<close>, \<open>Scheduler\<close>, \<open>List_Scheduler\<close>, \<open>Map_Scheduler\<close>, \<open>Heap_Scheduler\<close>, \<open>Calendar_Scheduler\<close>, \<open>Calendar_Contract\<close> (\<^verbatim>\<open>core/model/scheduler.h\<close>,
    \<^verbatim>\<open>list-scheduler.cc\<close>, \<^verbatim>\<open>map-scheduler.cc\<close>, \<^verbatim>\<open>heap-scheduler.cc\<close>, \<^verbatim>\<open>calendar-scheduler.cc\<close>): the virtual interface is a record of operations and its contract
    a locale, interpreted for every scheduler. Shown: repeated removal delivers every event once and in order; the map
    and calendar schedulers simulate the list scheduler; \<^verbatim>\<open>HeapScheduler::Remove\<close> keeps the order only under a condition, and
    loses it whenever the event moved is below its new parent.
  \<^item> \<open>Nstime\<close>, \<open>Simulator_Impl\<close>, \<open>Default_Simulator\<close> (\<^verbatim>\<open>core/model/default-simulator-impl.cc\<close>): the simulator over any scheduler that
    meets the contract, with event code as a parameter. Shown: order of execution, termination when nothing is
    rescheduled, the life of event handles, undoing a schedule, changing the scheduler.
  \<^item> \<open>Ieee_Double\<close>, \<open>Fixed_Point\<close>, \<open>Data_Rate\<close> (\<^verbatim>\<open>core/model/int64x64-128.cc\<close>, \<^verbatim>\<open>nstime.h\<close>, \<^verbatim>\<open>network/utils/data-rate.cc\<close>): exact IEEE
    double arithmetic as rationals with rounding, 64.64 fixed point, transmission times. Shown: exact products,
    exact unit conversion, monotone seconds, transmission times to the nanosecond.
  \<^item> \<open>Sequence_Number\<close>, \<open>Tag_Buffer\<close>, \<open>Delay_Tag\<close> (\<^verbatim>\<open>network/utils/sequence-number.h\<close>, \<^verbatim>\<open>network/model/tag-buffer.cc\<close>,
    \<^verbatim>\<open>scratch/Swift/my-delay-tag.h\<close> and the tag block of \<^verbatim>\<open>Ipv4L3Protocol::Receive\<close>): serial-number arithmetic, the tag and
    what it measures along a path.
  \<^item> \<open>Packet_Queue\<close>, \<open>Buffer_Iterator\<close>, \<open>Packet_Header\<close>, \<open>Ipv4_Header\<close>, \<open>Point_To_Point\<close> (\<^verbatim>\<open>network/utils/queue.h\<close>,
    \<^verbatim>\<open>network/model/buffer.cc\<close>, \<^verbatim>\<open>internet/model/ipv4-header.cc\<close>, \<^verbatim>\<open>point-to-point/model\<close>): the tail-drop queue as a bounded
    first-in first-out list, reading and writing of headers, the IPv4 header and its checksum, and the link, which
    delivers what it accepts, in order and exactly once, over any queue that meets \<open>packet_fifo\<close>.
  \<^item> \<open>Tcp_Rx_Buffer\<close>, \<open>Tcp_Rx_Stream\<close>, \<open>Tcp_Rx_Window\<close>, \<open>Tcp_Rx_Receive\<close> (\<^verbatim>\<open>internet/model/tcp-rx-buffer.cc\<close>): the receive buffer over
    the operators of sequence numbers. Shown on unbounded positions, carried over to 32-bit numbers by the interpretation of
    \<open>seq_window\<close>: the bytes read are the stream in order, no assertion fails, progress, truthful selective acknowledgements.
  \<^item> \<open>Tcp_Tx_Buffer\<close>, \<open>Tcp_Tx_Items\<close>, \<open>Tcp_Tx_Inv\<close>, \<open>Tcp_Tx_Scoreboard\<close>, \<open>Tcp_Tx_Discard\<close>, \<open>Tcp_Tx_Send\<close>
    (\<^verbatim>\<open>internet/model/tcp-tx-buffer.cc\<close>): the send buffer and its scoreboard, with every split and merge of items and the counters of bytes
    lost, retransmitted and selectively acknowledged. Shown for every buffer that operations under their conditions lead to (\<open>tx_reach\<close>,
    \<open>tx_allowed\<close>; the socket does not test all of them, see \<open>Tcp_Tx_Send\<close>): exact counters, no failed assertion, segments that hold the bytes of the stream at their sequence number,
    acknowledgements that remove exactly what they acknowledge; and that the partial copy fails at the wrap-around. The fuel of
    \<open>GetPacketFromList\<close> is the length of the list plus two, one call per merge or split; that of \<open>discard_loop\<close> is the bytes to remove.
  \<^item> \<open>Tcp_Rate\<close>, \<open>Rtt_Estimator\<close>, \<open>Tcp_Recovery\<close> (\<^verbatim>\<open>internet/model/tcp-rate-ops.cc\<close>, \<^verbatim>\<open>rtt-estimator.cc\<close>,
    \<^verbatim>\<open>tcp-recovery-ops.cc\<close>, \<^verbatim>\<open>tcp-prr-recovery.cc\<close>): delivery rates, round-trip times, and the window during recovery. Shown: the
    estimate stays within the samples, and over a whole recovery the window of proportional rate reduction lets out the exact share, rounded up.
  \<^item> \<open>Tcp_Socket\<close>, \<open>Tcp_Output\<close>, \<open>Tcp_Input\<close>, \<open>Tcp_States\<close>, \<open>Tcp_Process\<close> (\<^verbatim>\<open>internet/model/tcp-socket-base.cc\<close>): the
    socket over the buffers, the estimators and a congestion control given as the record of its virtual functions. Each function of the class is
    a definition of the same name; the loop of \<^verbatim>\<open>SendPendingData\<close> is a partial function.
  \<^item> \<open>Tcp_Machine\<close>, \<open>Tcp_Connection\<close>: the socket as a state machine. A small calculus of what an operation yields when it
    returns (\<open>yields\<close>, the rules \<open>wp\<close>) follows the state through every operation of the socket, up to a relation of events; then
    sockets with the default attributes (\<^verbatim>\<open>internet/model/tcp-socket.cc\<close>, \<^verbatim>\<open>tcp-l4-protocol.cc\<close>), the handshake at any
    times, and three behaviours that fail: the probe of a closed window without data, a listener that is offered closed windows, and
    data that comes after the \<^verbatim>\<open>FIN\<close>.
  \<^item> \<open>Tcp_Sending\<close>: the loop of \<^verbatim>\<open>SendPendingData\<close> while nothing is marked lost. The congestion control enters through
    the locale \<open>start_quietly\<close> (what it does when a transmission starts), interpreted for NewReno and TcpSwift. Shown for any socket that
    is \<open>ready\<close>: the call returns, the segments carry the next bytes of the stream in order, the bytes in flight stay within the window, and
    the loop does not stop while a whole segment could still go out.
  \<^item> \<open>Tcp_Socket_State\<close>, \<open>Tcp_Congestion\<close>, \<open>Tcp_Swift\<close> (\<^verbatim>\<open>internet/model/tcp-socket-state.h\<close>, \<^verbatim>\<open>tcp-congestion-ops.cc\<close>,
    \<^verbatim>\<open>tcp-swift.cc\<close>): the control block, NewReno, and every operation of Swift in double arithmetic. Shown: bounds of the
    target delay, of a decrease and of a timeout, the exact NewReno window; and two defects, that the additive increase is lost to truncation
    and that the target falls below its base for every window of more than 32 segments.

  \<^bold>\<open>Bounds and fuel.\<close> \<open>cal_scan\<close> has as many rounds as there are buckets, after which the
  loop of the code is back at its start or never comes back. \<open>udiv_loop\<close> has 130 rounds, which \<open>Udiv_returns\<close> shows to be enough for 64 digits.
  \<open>sim_Run_loop\<close>, \<open>sim_Destroy\<close> and \<open>dt_Flush\<close> take their rounds as an argument and answer \<open>None\<close> when they run out; the
  results state how many are enough, or hold of every run that ends. \<open>world_run\<close> is a number of event steps, and the
  delivery theorem states the number. Times are integers of nanoseconds; where the code stores them in 64 bits
  the theories say so. Offsets into a packet are naturals, as packets are far below \<^verbatim>\<open>2^32\<close> bytes.

  \<^bold>\<open>Choices where the model is wider or narrower than the code.\<close> The simulator adds times with the 64-bit check (\<open>time_add\<close>); the
  completion and arrival times of the link (\<open>device_TransmitStart\<close>, \<open>channel_TransmitStart\<close>) and the expiries of the timers of the
  socket (\<open>SendEmptyPacket\<close>, \<open>SendDataPacket\<close> and the timers they set) are plain sums of unbounded integers, which is the code as long
  as the clock stays below 292 years. \<open>hp_GetInt\<close> does not treat the negation of the smallest 64-bit integer. The constructor of
  \<^verbatim>\<open>TcpSocketState\<close> leaves \<^verbatim>\<open>m_maxDelay\<close>, \<^verbatim>\<open>m_target_delay\<close> and \<^verbatim>\<open>m_hops\<close> without a first
  content; the model starts them at 0, and no result depends on it. The application is called back for free space only, with what it then writes;
  other callbacks are recorded (\<open>notify\<close>) and do not call back into the socket.

  \<^bold>\<open>Not modelled.\<close> Logging, trace sources, attributes, reference counts and the object system; printing;
  wireless, LTE and other link layers and routing protocols, which the experiment does not use; the script that
  sets up the experiment.
\<close>

end
